(* ===== verification/Prelude.thy ===== *)
theory Prelude
  imports Main "HOL-Library.Word"
begin

unbundle bit_operations_syntax

section \<open>Prelude: machine types, faults and sequencing shared by every component\<close>

text \<open>
  The server is C++ code, so an operation may leave the defined part of the language: it may
  index an array out of bounds, dereference a null pointer, fail an \<open>assert\<close>, let the
  exception of \<open>LOG_FATAL\<close> escape, or not return. Every operation that can do so returns a
  value of type \<open>'a res\<close>, where \<open>Inl f\<close> names what went wrong and \<open>Inr x\<close> is
  the ordinary result. Ordinary error returns of the code (\<open>false\<close>, \<open>nullptr\<close>,
  \<open>kInvalidHandle\<close>) are values inside \<open>Inr\<close>.

  This theory holds the type synonyms, the sequencing operator \<open>andThen\<close> and the two
  judgements \<open>returns\<close> (total correctness: no fault, and the result satisfies a
  predicate) and \<open>ensures\<close> (partial correctness) with the rules the component theories use.
\<close>

type_synonym u8 = "8 word"
type_synonym u16 = "16 word"
type_synonym u32 = "32 word"
type_synonym u64 = "64 word"

datatype fault =
    OutOfBounds    \<comment> \<open>an access outside an array or a memory block\<close>
  | NullPointer    \<comment> \<open>a member access through a null pointer\<close>
  | RawMemory      \<comment> \<open>a use of storage in which no object lives\<close>
  | AssertFailed   \<comment> \<open>\<open>assert\<close> of the code failed\<close>
  | FatalLog       \<comment> \<open>\<open>LOG_FATAL\<close> threw \<open>std::runtime_error\<close>\<close>
  | NoReturn       \<comment> \<open>a loop of the code does not end\<close>

type_synonym 'a res = "fault + 'a"

named_theorems res_intros \<open>introduction rules for returns and ensures\<close>

subsection \<open>Sequencing\<close>

definition andThen :: "'a res \<Rightarrow> ('a \<Rightarrow> 'b res) \<Rightarrow> 'b res" where
  "andThen m f = (case m of Inl e \<Rightarrow> Inl e | Inr x \<Rightarrow> f x)"

lemma andThen_simps [simp]:
  "andThen (Inl e) f = Inl e"
  "andThen (Inr x) f = f x"
  by (simp_all add: andThen_def)

lemma andThen_eq_Inr_iff:
  "andThen m f = Inr y \<longleftrightarrow> (\<exists>x. m = Inr x \<and> f x = Inr y)"
  by (cases m) auto

lemma andThen_eq_Inl_iff:
  "andThen m f = Inl e \<longleftrightarrow> m = Inl e \<or> (\<exists>x. m = Inr x \<and> f x = Inl e)"
  by (cases m) auto

lemma andThen_assoc:
  "andThen (andThen m f) g = andThen m (\<lambda>x. andThen (f x) g)"
  by (cases m) auto

lemma andThen_Inr [simp]: "andThen m Inr = m"
  by (cases m) auto

lemma andThen_cong [fundef_cong]:
  assumes "m = m'" and "\<And>x. m' = Inr x \<Longrightarrow> f x = g x"
  shows "andThen m f = andThen m' g"
  using assms by (cases m') auto

lemma andThen_split:
  "P (andThen m f) \<longleftrightarrow> (\<forall>e. m = Inl e \<longrightarrow> P (Inl e)) \<and> (\<forall>x. m = Inr x \<longrightarrow> P (f x))"
  by (cases m) auto

lemma andThen_if:
  "andThen (if b then m else m') f = (if b then andThen m f else andThen m' f)"
  by simp

text \<open>\<open>require b e\<close> continues when \<open>b\<close> holds and faults with \<open>e\<close> otherwise.\<close>

definition require :: "bool \<Rightarrow> fault \<Rightarrow> unit res" where
  "require b e = (if b then Inr () else Inl e)"

lemma require_simps [simp]:
  "require True e = Inr ()"
  "require False e = Inl e"
  by (simp_all add: require_def)

lemma require_eq_Inr_iff [simp]: "require b e = Inr u \<longleftrightarrow> b"
  by (simp add: require_def)

subsection \<open>Judgements\<close>

definition returns :: "'a res \<Rightarrow> ('a \<Rightarrow> bool) \<Rightarrow> bool" where
  "returns m P \<longleftrightarrow> (\<exists>x. m = Inr x \<and> P x)"

definition ensures :: "'a res \<Rightarrow> ('a \<Rightarrow> bool) \<Rightarrow> bool" where
  "ensures m P \<longleftrightarrow> (\<forall>x. m = Inr x \<longrightarrow> P x)"

lemma returns_simps [simp]:
  "returns (Inr x) P \<longleftrightarrow> P x"
  "returns (Inl e) P \<longleftrightarrow> False"
  by (auto simp: returns_def)

lemma ensures_simps [simp]:
  "ensures (Inr x) P \<longleftrightarrow> P x"
  "ensures (Inl e) P \<longleftrightarrow> True"
  by (auto simp: ensures_def)

lemma returns_andThen:
  assumes "returns m Q" and "\<And>x. m = Inr x \<Longrightarrow> Q x \<Longrightarrow> returns (f x) P"
  shows "returns (andThen m f) P"
  using assms by (auto simp: returns_def)

lemma ensures_andThen:
  assumes "ensures m Q" and "\<And>x. m = Inr x \<Longrightarrow> Q x \<Longrightarrow> ensures (f x) P"
  shows "ensures (andThen m f) P"
  using assms by (cases m) (auto simp: ensures_def)

lemma returns_mono: "returns m P \<Longrightarrow> (\<And>x. P x \<Longrightarrow> Q x) \<Longrightarrow> returns m Q"
  by (auto simp: returns_def)

lemma ensures_mono: "ensures m P \<Longrightarrow> (\<And>x. P x \<Longrightarrow> Q x) \<Longrightarrow> ensures m Q"
  by (auto simp: ensures_def)

lemma returns_ensures: "returns m P \<Longrightarrow> ensures m P"
  by (auto simp: returns_def ensures_def)

lemma ensuresD: "ensures m P \<Longrightarrow> m = Inr x \<Longrightarrow> P x"
  by (simp add: ensures_def)

lemma returnsE:
  assumes "returns m P"
  obtains x where "m = Inr x" and "P x"
  using assms by (auto simp: returns_def)

subsection \<open>Unsigned arithmetic on naturals\<close>

text \<open>
  \<open>size_t\<close> and \<open>uint32_t\<close> quantities that index arrays are kept as naturals below the
  modulus; subtraction and truncation write the wrap-around out.
\<close>

definition trunc32 :: "nat \<Rightarrow> nat" where
  "trunc32 x = x mod 2 ^ 32"

definition sub32 :: "nat \<Rightarrow> nat \<Rightarrow> nat" where
  "sub32 a b = (a + 2 ^ 32 - b mod 2 ^ 32) mod 2 ^ 32"

definition trunc64 :: "nat \<Rightarrow> nat" where
  "trunc64 x = x mod 2 ^ 64"

definition sub64 :: "nat \<Rightarrow> nat \<Rightarrow> nat" where
  "sub64 a b = (a + 2 ^ 64 - b mod 2 ^ 64) mod 2 ^ 64"

lemma trunc32_id [simp]: "x < 2 ^ 32 \<Longrightarrow> trunc32 x = x"
  by (simp add: trunc32_def)

lemma trunc64_id [simp]: "x < 2 ^ 64 \<Longrightarrow> trunc64 x = x"
  by (simp add: trunc64_def)

lemma sub_mod_id:
  fixes a b m :: nat
  assumes "b \<le> a" "a < m"
  shows "(a + m - b mod m) mod m = a - b"
proof -
  have "b mod m = b" using assms by simp
  then have "a + m - b mod m = (a - b) + m" using assms by simp
  moreover have "((a - b) + m) mod m = a - b" using assms by (simp only: mod_add_self2) simp
  ultimately show ?thesis by simp
qed

lemma sub32_id: "b \<le> a \<Longrightarrow> a < 2 ^ 32 \<Longrightarrow> sub32 a b = a - b"
  unfolding sub32_def by (rule sub_mod_id)

lemma sub64_id: "b \<le> a \<Longrightarrow> a < 2 ^ 64 \<Longrightarrow> sub64 a b = a - b"
  unfolding sub64_def by (rule sub_mod_id)

lemma sub64_wraps: "0 < b \<Longrightarrow> b \<le> 2 ^ 64 \<Longrightarrow> sub64 0 b = 2 ^ 64 - b"
  by (cases "b = 2 ^ 64") (simp_all add: sub64_def)

subsection \<open>Arrays as functions with a bound\<close>

text \<open>
  A \<open>std::array\<close> of length \<open>n\<close> is a function on indices with its length beside it;
  \<open>swap_at\<close> is \<open>std::swap\<close> of two elements.
\<close>

definition swap_at :: "(nat \<Rightarrow> 'a) \<Rightarrow> nat \<Rightarrow> nat \<Rightarrow> nat \<Rightarrow> 'a" where
  "swap_at a i j = a(i := a j, j := a i)"

lemma swap_at_apply:
  "swap_at a i j x = (if x = j then a i else if x = i then a j else a x)"
  by (simp add: swap_at_def)

lemma swap_at_same [simp]: "swap_at a i i = a"
  by (simp add: swap_at_def)

text \<open>\<open>memcpy\<close> of \<open>n\<close> elements between two array functions.\<close>

definition copy_block :: "(nat \<Rightarrow> 'a) \<Rightarrow> nat \<Rightarrow> (nat \<Rightarrow> 'a) \<Rightarrow> nat \<Rightarrow> nat \<Rightarrow> (nat \<Rightarrow> 'a)" where
  "copy_block dst d src s n = (\<lambda>x. if d \<le> x \<and> x < d + n then src (s + (x - d)) else dst x)"

definition slice_fun :: "(nat \<Rightarrow> 'a) \<Rightarrow> nat \<Rightarrow> nat \<Rightarrow> 'a list" where
  "slice_fun f a n = map f [a ..< a + n]"

lemma length_slice_fun [simp]: "length (slice_fun f a n) = n"
  by (simp add: slice_fun_def)

lemma slice_fun_nth [simp]: "i < n \<Longrightarrow> slice_fun f a n ! i = f (a + i)"
  by (simp add: slice_fun_def)

lemma slice_fun_0 [simp]: "slice_fun f a 0 = []"
  by (simp add: slice_fun_def)

lemma slice_fun_add: "slice_fun f a (n + m) = slice_fun f a n @ slice_fun f (a + n) m"
  unfolding slice_fun_def by (simp only: add.assoc [symmetric] upt_add_eq_append [of a "a + n" m] map_append)

lemma slice_fun_cong:
  "(\<And>x. a \<le> x \<Longrightarrow> x < a + n \<Longrightarrow> f x = g x) \<Longrightarrow> slice_fun f a n = slice_fun g a n"
  by (simp add: slice_fun_def)

lemma slice_fun_shift:
  assumes "\<And>x. x < n \<Longrightarrow> f (a + x) = g (b + x)"
  shows "slice_fun f a n = slice_fun g b n"
  by (rule nth_equalityI) (simp_all add: assms)

lemma take_slice_fun: "k \<le> n \<Longrightarrow> take k (slice_fun f a n) = slice_fun f a k"
  by (simp add: slice_fun_def take_map)

lemma drop_slice_fun: "k \<le> n \<Longrightarrow> drop k (slice_fun f a n) = slice_fun f (a + k) (n - k)"
  by (simp add: slice_fun_def drop_map)

end
