(* ===== verification/SparseSet.thy ===== *)
theory SparseSet
  imports Prelude
begin

section \<open>Common/Pool/SparseSet.hpp: the state-partitioned sparse set\<close>

text \<open>
  \<open>SparseSet<N, stateCount>\<close> hands out handles of the elements \<open>0 .. N-1\<close> and keeps,
  for each element, one of \<open>stateCount\<close> states. \<open>dense_\<close> lists all elements grouped by
  state, \<open>cursor_[s]\<close> is where the group of state \<open>s\<close> starts, and
  \<open>sparse_[who].where_\<close> is the position of \<open>who\<close> in \<open>dense_\<close>. A handle is the pair
  of a 32 bit generation (upper half) and the element (lower half); \<open>Push\<close> bumps the
  generation, so a handle given out before is no longer valid.

  The two template parameters are fields of the record. Arrays are functions with their
  length beside them; every subscript is guarded and faults with \<open>OutOfBounds\<close>.
  \<open>where_\<close>, \<open>dense_\<close> and \<open>cursor_\<close> are \<open>uint32_t\<close> in the code: they are naturals
  here, and every store or subtraction writes the wrap-around at \<open>2 ^ 32\<close> out. The
  \<open>LOG_ERROR\<close> and \<open>LOG_WARN\<close> lines have no effect on the set and are left out.
\<close>

subsection \<open>Data\<close>

record sset_slot =
  sl_where :: nat
  sl_generation :: u32
  sl_state :: nat

record sparse_set =
  ss_N :: nat
  ss_K :: nat
  ss_sparse :: "nat \<Rightarrow> sset_slot"
  ss_dense :: "nat \<Rightarrow> nat"
  ss_cursor :: "nat \<Rightarrow> nat"

definition kInvalidHandle :: u64 where
  "kInvalidHandle = - 1"

definition kIndexShift :: nat where
  "kIndexShift = 32"

text \<open>\<open>static_cast<uint32_t>(handle)\<close> and \<open>static_cast<uint32_t>(handle >> 32)\<close>.\<close>

definition who_of :: "u64 \<Rightarrow> nat" where
  "who_of h = unat (ucast h :: u32)"

definition gen_of :: "u64 \<Rightarrow> u32" where
  "gen_of h = ucast (drop_bit kIndexShift h)"

definition mk_handle :: "u32 \<Rightarrow> nat \<Rightarrow> u64" where
  "mk_handle g who = push_bit kIndexShift (ucast g) OR of_nat who"

definition SparseSet_init :: "nat \<Rightarrow> nat \<Rightarrow> sparse_set" where
  "SparseSet_init n k =
     \<lparr> ss_N = n, ss_K = k,
       ss_sparse = (\<lambda>i. \<lparr> sl_where = (if i < n then trunc32 i else 0), sl_generation = 0, sl_state = 0 \<rparr>),
       ss_dense = (\<lambda>i. trunc32 i),
       ss_cursor = (\<lambda>s. trunc32 n)(0 := 0) \<rparr>"

subsection \<open>Operations\<close>

definition SparseSet_IsValid :: "sparse_set \<Rightarrow> u64 \<Rightarrow> bool" where
  "SparseSet_IsValid ss h \<longleftrightarrow>
     who_of h < ss_N ss \<and> sl_generation (ss_sparse ss (who_of h)) = gen_of h"

definition SparseSet_GetHandle :: "sparse_set \<Rightarrow> nat \<Rightarrow> u64 res" where
  "SparseSet_GetHandle ss who =
     andThen (require (who < ss_N ss) OutOfBounds) (\<lambda>_.
     Inr (mk_handle (sl_generation (ss_sparse ss who)) who))"

definition SparseSet_GetState :: "sparse_set \<Rightarrow> u64 \<Rightarrow> nat res" where
  "SparseSet_GetState ss h =
     andThen (require (who_of h < ss_N ss) OutOfBounds) (\<lambda>_.
     Inr (sl_state (ss_sparse ss (who_of h))))"

text \<open>
  The swap that both single steps share: \<open>std::swap(dense_[where], dense_[swapWith])\<close>
  and the two updates of \<open>where_\<close>, in the order of the code.
\<close>

definition swap_positions :: "sparse_set \<Rightarrow> nat \<Rightarrow> nat \<Rightarrow> sparse_set res" where
  "swap_positions ss wh sw =
     andThen (require (wh < ss_N ss \<and> sw < ss_N ss) OutOfBounds) (\<lambda>_.
     let dn = swap_at (ss_dense ss) wh sw in
     andThen (require (dn wh < ss_N ss \<and> dn sw < ss_N ss) OutOfBounds) (\<lambda>_.
     let sp1 = (ss_sparse ss)(dn wh := (ss_sparse ss (dn wh))\<lparr> sl_where := trunc32 wh \<rparr>);
         sp2 = sp1(dn sw := (sp1 (dn sw))\<lparr> sl_where := trunc32 sw \<rparr>)
     in Inr (ss\<lparr> ss_dense := dn, ss_sparse := sp2 \<rparr>)))"

definition SparseSet_IncrementState :: "sparse_set \<Rightarrow> u64 \<Rightarrow> sparse_set res" where
  "SparseSet_IncrementState ss h =
     (let who = who_of h in
      andThen (require (who < ss_N ss) OutOfBounds) (\<lambda>_.
      let currentState = sl_state (ss_sparse ss who) in
      if currentState \<ge> ss_K ss - 1 then Inr ss
      else
        let nextState = currentState + 1;
            wh = sl_where (ss_sparse ss who);
            swapWith = sub32 (ss_cursor ss nextState) 1 in
        andThen (swap_positions ss wh swapWith) (\<lambda>ss1.
        Inr (ss1\<lparr> ss_cursor := (ss_cursor ss1)(nextState := sub32 (ss_cursor ss1 nextState) 1),
                  ss_sparse := (ss_sparse ss1)(who := (ss_sparse ss1 who)\<lparr> sl_state := nextState \<rparr>) \<rparr>))))"

definition SparseSet_DecrementState :: "sparse_set \<Rightarrow> u64 \<Rightarrow> sparse_set res" where
  "SparseSet_DecrementState ss h =
     (let who = who_of h in
      andThen (require (who < ss_N ss) OutOfBounds) (\<lambda>_.
      let currentState = sl_state (ss_sparse ss who) in
      if currentState = 0 then Inr ss
      else
        let prevState = currentState - 1;
            wh = sl_where (ss_sparse ss who) in
        andThen (require (currentState \<le> ss_K ss) OutOfBounds) (\<lambda>_.
        let swapWith = ss_cursor ss currentState in
        andThen (swap_positions ss wh swapWith) (\<lambda>ss1.
        Inr (ss1\<lparr> ss_cursor := (ss_cursor ss1)(currentState := trunc32 (ss_cursor ss1 currentState + 1)),
                  ss_sparse := (ss_sparse ss1)(who := (ss_sparse ss1 who)\<lparr> sl_state := prevState \<rparr>) \<rparr>)))))"

text \<open>
  The two loops of \<open>MoveToState\<close>. \<open>None\<close> would be a loop that does not end.
\<close>

partial_function (option) move_up :: "sparse_set \<Rightarrow> u64 \<Rightarrow> nat \<Rightarrow> sparse_set res option" where
  "move_up ss h newState =
     (if who_of h < ss_N ss then
        if sl_state (ss_sparse ss (who_of h)) < newState then
          case SparseSet_IncrementState ss h of
            Inl e \<Rightarrow> Some (Inl e)
          | Inr ss' \<Rightarrow> move_up ss' h newState
        else Some (Inr ss)
      else Some (Inl OutOfBounds))"

partial_function (option) move_down :: "sparse_set \<Rightarrow> u64 \<Rightarrow> nat \<Rightarrow> sparse_set res option" where
  "move_down ss h newState =
     (if who_of h < ss_N ss then
        if sl_state (ss_sparse ss (who_of h)) > newState then
          case SparseSet_DecrementState ss h of
            Inl e \<Rightarrow> Some (Inl e)
          | Inr ss' \<Rightarrow> move_down ss' h newState
        else Some (Inr ss)
      else Some (Inl OutOfBounds))"

definition loop_result :: "'a res option \<Rightarrow> 'a res" where
  "loop_result r = (case r of None \<Rightarrow> Inl NoReturn | Some x \<Rightarrow> x)"

definition SparseSet_MoveToState :: "sparse_set \<Rightarrow> u64 \<Rightarrow> nat \<Rightarrow> sparse_set res" where
  "SparseSet_MoveToState ss h newState =
     (if newState \<ge> ss_K ss then Inr ss
      else
        andThen (loop_result (move_up ss h newState)) (\<lambda>ss1.
        loop_result (move_down ss1 h newState)))"

definition SparseSet_Pop :: "sparse_set \<Rightarrow> nat \<Rightarrow> (sparse_set \<times> u64) res" where
  "SparseSet_Pop ss st =
     (if st \<ge> ss_K ss then Inr (ss, kInvalidHandle)
      else if ss_cursor ss 0 = ss_cursor ss 1 then Inr (ss, kInvalidHandle)
      else
        andThen (require (ss_cursor ss 0 < ss_N ss) OutOfBounds) (\<lambda>_.
        andThen (SparseSet_GetHandle ss (ss_dense ss (ss_cursor ss 0))) (\<lambda>h.
        andThen (SparseSet_MoveToState ss h st) (\<lambda>ss1.
        Inr (ss1, h)))))"

definition SparseSet_Push :: "sparse_set \<Rightarrow> u64 \<Rightarrow> sparse_set res" where
  "SparseSet_Push ss h =
     (let who = who_of h in
      andThen (SparseSet_MoveToState ss h 0) (\<lambda>ss1.
      andThen (require (who < ss_N ss1) OutOfBounds) (\<lambda>_.
      Inr (ss1\<lparr> ss_sparse := (ss_sparse ss1)(who :=
                   (ss_sparse ss1 who)\<lparr> sl_generation := sl_generation (ss_sparse ss1 who) + 1 \<rparr>) \<rparr>))))"

fun collect_handles :: "sparse_set \<Rightarrow> nat list \<Rightarrow> u64 list res" where
  "collect_handles ss [] = Inr []"
| "collect_handles ss (i # is) =
     andThen (require (i < ss_N ss) OutOfBounds) (\<lambda>_.
     andThen (SparseSet_GetHandle ss (ss_dense ss i)) (\<lambda>h.
     andThen (collect_handles ss is) (\<lambda>hs.
     Inr (h # hs))))"

definition SparseSet_GetIndicesInState :: "sparse_set \<Rightarrow> nat \<Rightarrow> u64 list res" where
  "SparseSet_GetIndicesInState ss st =
     (if st \<ge> ss_K ss then Inr []
      else collect_handles ss [ss_cursor ss st ..< ss_cursor ss (st + 1)])"


subsection \<open>Handles\<close>

lemma who_of_mk_handle [simp]:
  assumes "who < 2 ^ 32"
  shows "who_of (mk_handle g who) = who"
proof -
  have "ucast (mk_handle g who) = (of_nat who :: u32)"
    unfolding mk_handle_def kIndexShift_def
    by (rule bit_word_eqI) (auto simp: bit_simps)
  then show ?thesis
    using assms by (simp add: who_of_def unat_of_nat)
qed

lemma gen_of_mk_handle [simp]:
  assumes "who < 2 ^ 32"
  shows "gen_of (mk_handle g who) = g"
proof (rule bit_word_eqI)
  fix n assume "n < LENGTH(32)"
  moreover have "\<not> bit (of_nat who :: u64) (32 + n)"
  proof -
    have "\<not> bit who (32 + n)"
      using assms by (metis bit_take_bit_iff le_add1 not_less take_bit_nat_eq_self_iff)
    then show ?thesis by (simp add: bit_simps)
  qed
  ultimately show "bit (gen_of (mk_handle g who)) n = bit g n"
    unfolding gen_of_def mk_handle_def kIndexShift_def
    by (auto simp: bit_simps)
qed

lemma mk_handle_of [simp]: "mk_handle (gen_of h) (who_of h) = h"
proof (rule bit_word_eqI)
  fix n assume n: "n < LENGTH(64)"
  have "bit (of_nat (who_of h) :: u64) n = (n < 32 \<and> bit h n)"
    using n unfolding who_of_def by (simp add: bit_simps)
  then show "bit (mk_handle (gen_of h) (who_of h)) n = bit h n"
    using n unfolding mk_handle_def gen_of_def kIndexShift_def
    by (auto simp: bit_simps)
qed

lemma who_of_bound: "who_of h < 2 ^ 32"
  unfolding who_of_def using unsigned_less [of "ucast h :: u32"] by simp

lemma who_of_kInvalidHandle: "who_of kInvalidHandle = 2 ^ 32 - 1"
proof -
  have "ucast (- 1 :: u64) = (- 1 :: u32)"
    by (rule bit_word_eqI) (simp add: bit_simps)
  then show ?thesis by (simp add: who_of_def kInvalidHandle_def unsigned_minus_1_eq_mask mask_eq_exp_minus_1)
qed

lemma handle_eq_iff: "h = h' \<longleftrightarrow> gen_of h = gen_of h' \<and> who_of h = who_of h'"
  by (metis mk_handle_of)


subsection \<open>The invariant\<close>

text \<open>
  \<open>dense_\<close> and \<open>where_\<close> are inverse to each other, the cursors are an increasing
  partition of \<open>0 .. N\<close>, and each element sits in the group of its state.
\<close>

definition sset_inv :: "sparse_set \<Rightarrow> bool" where
  "sset_inv ss \<longleftrightarrow>
     0 < ss_K ss \<and> ss_N ss < 2 ^ 32 \<and>
     ss_cursor ss 0 = 0 \<and> ss_cursor ss (ss_K ss) = ss_N ss \<and>
     (\<forall>s < ss_K ss. ss_cursor ss s \<le> ss_cursor ss (Suc s)) \<and>
     (\<forall>i < ss_N ss. ss_dense ss i < ss_N ss \<and> sl_where (ss_sparse ss (ss_dense ss i)) = i) \<and>
     (\<forall>w < ss_N ss. sl_where (ss_sparse ss w) < ss_N ss \<and>
        ss_dense ss (sl_where (ss_sparse ss w)) = w) \<and>
     (\<forall>w < ss_N ss. sl_state (ss_sparse ss w) < ss_K ss \<and>
        ss_cursor ss (sl_state (ss_sparse ss w)) \<le> sl_where (ss_sparse ss w) \<and>
        sl_where (ss_sparse ss w) < ss_cursor ss (Suc (sl_state (ss_sparse ss w))))"

lemma sset_invD:
  assumes "sset_inv ss"
  shows "0 < ss_K ss" and "ss_N ss < 2 ^ 32"
    and "ss_cursor ss 0 = 0" and "ss_cursor ss (ss_K ss) = ss_N ss"
    and "\<And>s. s < ss_K ss \<Longrightarrow> ss_cursor ss s \<le> ss_cursor ss (Suc s)"
    and "\<And>i. i < ss_N ss \<Longrightarrow> ss_dense ss i < ss_N ss"
    and "\<And>i. i < ss_N ss \<Longrightarrow> sl_where (ss_sparse ss (ss_dense ss i)) = i"
    and "\<And>w. w < ss_N ss \<Longrightarrow> sl_where (ss_sparse ss w) < ss_N ss"
    and "\<And>w. w < ss_N ss \<Longrightarrow> ss_dense ss (sl_where (ss_sparse ss w)) = w"
    and "\<And>w. w < ss_N ss \<Longrightarrow> sl_state (ss_sparse ss w) < ss_K ss"
    and "\<And>w. w < ss_N ss \<Longrightarrow> ss_cursor ss (sl_state (ss_sparse ss w)) \<le> sl_where (ss_sparse ss w)"
    and "\<And>w. w < ss_N ss \<Longrightarrow> sl_where (ss_sparse ss w) < ss_cursor ss (Suc (sl_state (ss_sparse ss w)))"
  using assms unfolding sset_inv_def by auto

lemma sset_inv_init:
  assumes "0 < k" and "n < 2 ^ 32"
  shows "sset_inv (SparseSet_init n k)"
  using assms unfolding sset_inv_def SparseSet_init_def by auto

lemma cursor_mono:
  assumes "sset_inv ss" and "s \<le> t" and "t \<le> ss_K ss"
  shows "ss_cursor ss s \<le> ss_cursor ss t"
  using assms(2,3)
proof (induction t)
  case 0
  then show ?case by simp
next
  case (Suc t)
  then show ?case
    using sset_invD(5) [OF assms(1), of t] by (cases "s = Suc t") auto
qed

lemma cursor_le_N: "sset_inv ss \<Longrightarrow> s \<le> ss_K ss \<Longrightarrow> ss_cursor ss s \<le> ss_N ss"
  using cursor_mono [of ss s "ss_K ss"] sset_invD(4) [of ss] by simp

text \<open>The element at a position of group \<open>s\<close> has state \<open>s\<close>.\<close>

lemma state_at_position:
  assumes inv: "sset_inv ss" and s: "s < ss_K ss"
    and i: "ss_cursor ss s \<le> i" "i < ss_cursor ss (Suc s)"
  shows "sl_state (ss_sparse ss (ss_dense ss i)) = s"
proof -
  let ?w = "ss_dense ss i"
  let ?t = "sl_state (ss_sparse ss ?w)"
  have "i < ss_N ss" using i(2) cursor_le_N [OF inv, of "Suc s"] s by simp
  then have w: "?w < ss_N ss" and wh: "sl_where (ss_sparse ss ?w) = i"
    using sset_invD(6,7) [OF inv] by auto
  have t: "?t < ss_K ss" "ss_cursor ss ?t \<le> i" "i < ss_cursor ss (Suc ?t)"
    using sset_invD(10-12) [OF inv w] wh by auto
  show ?thesis
  proof (rule linorder_cases [of ?t s])
    assume "?t < s"
    then have "ss_cursor ss (Suc ?t) \<le> ss_cursor ss s"
      using cursor_mono [OF inv, of "Suc ?t" s] s by simp
    with t i show ?thesis by simp
  next
    assume "s < ?t"
    then have "ss_cursor ss (Suc s) \<le> ss_cursor ss ?t"
      using cursor_mono [OF inv, of "Suc s" ?t] t by simp
    with t i show ?thesis by simp
  qed
qed

text \<open>The number of elements in a state is the width of its group.\<close>

definition in_state :: "sparse_set \<Rightarrow> nat \<Rightarrow> nat set" where
  "in_state ss s = {w. w < ss_N ss \<and> sl_state (ss_sparse ss w) = s}"

lemma in_state_group:
  assumes inv: "sset_inv ss" and s: "s < ss_K ss"
  shows "in_state ss s = ss_dense ss ` {ss_cursor ss s ..< ss_cursor ss (Suc s)}"
proof
  show "in_state ss s \<subseteq> ss_dense ss ` {ss_cursor ss s ..< ss_cursor ss (Suc s)}"
  proof
    fix w assume "w \<in> in_state ss s"
    then have w: "w < ss_N ss" "sl_state (ss_sparse ss w) = s" by (auto simp: in_state_def)
    then have "ss_dense ss (sl_where (ss_sparse ss w)) = w"
      and "sl_where (ss_sparse ss w) \<in> {ss_cursor ss s ..< ss_cursor ss (Suc s)}"
      using sset_invD(9,11,12) [OF inv w(1)] by auto
    then show "w \<in> ss_dense ss ` {ss_cursor ss s ..< ss_cursor ss (Suc s)}"
      by (metis imageI)
  qed
next
  have N: "i < ss_N ss" if "i < ss_cursor ss (Suc s)" for i
    using that cursor_le_N [OF inv, of "Suc s"] s by simp
  then show "ss_dense ss ` {ss_cursor ss s ..< ss_cursor ss (Suc s)} \<subseteq> in_state ss s"
    using state_at_position [OF inv s] sset_invD(6) [OF inv] by (auto simp: in_state_def)
qed

lemma dense_inj: "sset_inv ss \<Longrightarrow> inj_on (ss_dense ss) {i. i < ss_N ss}"
  by (rule inj_on_inverseI [where g = "\<lambda>w. sl_where (ss_sparse ss w)"])
     (simp add: sset_invD(7))

lemma card_in_state:
  assumes inv: "sset_inv ss" and s: "s < ss_K ss"
  shows "card (in_state ss s) = ss_cursor ss (Suc s) - ss_cursor ss s"
proof -
  have "{ss_cursor ss s ..< ss_cursor ss (Suc s)} \<subseteq> {i. i < ss_N ss}"
    using cursor_le_N [OF inv, of "Suc s"] s by auto
  then have "inj_on (ss_dense ss) {ss_cursor ss s ..< ss_cursor ss (Suc s)}"
    using dense_inj [OF inv] inj_on_subset by blast
  then show ?thesis
    by (simp add: in_state_group [OF inv s] card_image)
qed


subsection \<open>One step\<close>

text \<open>
  \<open>moved_to ss ss' w s\<close>: the abstract effect of an operation, namely that \<open>ss'\<close> satisfies
  the invariant and is \<open>ss\<close> with element \<open>w\<close> in state \<open>s\<close>; generations and the states of
  all other elements are those of \<open>ss\<close>.
\<close>

definition moved_to :: "sparse_set \<Rightarrow> sparse_set \<Rightarrow> nat \<Rightarrow> nat \<Rightarrow> bool" where
  "moved_to ss ss' w s \<longleftrightarrow>
     sset_inv ss' \<and> ss_N ss' = ss_N ss \<and> ss_K ss' = ss_K ss \<and>
     (\<forall>v. sl_generation (ss_sparse ss' v) = sl_generation (ss_sparse ss v)) \<and>
     (\<forall>v. sl_state (ss_sparse ss' v) = (if v = w then s else sl_state (ss_sparse ss v)))"

lemma moved_toD:
  assumes "moved_to ss ss' w s"
  shows "sset_inv ss'" and "ss_N ss' = ss_N ss" and "ss_K ss' = ss_K ss"
    and "sl_generation (ss_sparse ss' v) = sl_generation (ss_sparse ss v)"
    and "sl_state (ss_sparse ss' v) = (if v = w then s else sl_state (ss_sparse ss v))"
  using assms unfolding moved_to_def by auto

lemma moved_to_trans:
  "moved_to ss ss1 w s \<Longrightarrow> moved_to ss1 ss2 w t \<Longrightarrow> moved_to ss ss2 w t"
  unfolding moved_to_def by auto

lemma moved_to_refl:
  "sset_inv ss \<Longrightarrow> sl_state (ss_sparse ss w) = s \<Longrightarrow> moved_to ss ss w s"
  unfolding moved_to_def by auto

lemma swap_positions_eq:
  assumes inv: "sset_inv ss" and wh: "wh < ss_N ss" and sw: "sw < ss_N ss"
  shows "\<exists>sp. swap_positions ss wh sw =
           Inr (ss\<lparr> ss_dense := swap_at (ss_dense ss) wh sw, ss_sparse := sp \<rparr>) \<and>
         (\<forall>v. sl_generation (sp v) = sl_generation (ss_sparse ss v)) \<and>
         (\<forall>v. sl_state (sp v) = sl_state (ss_sparse ss v)) \<and>
         (\<forall>v. sl_where (sp v) =
            (if v = ss_dense ss wh then sw else if v = ss_dense ss sw then wh
             else sl_where (ss_sparse ss v)))"
proof -
  have "wh < 2 ^ 32" "sw < 2 ^ 32" using wh sw sset_invD(2) [OF inv] by linarith+
  then have t: "trunc32 wh = wh" "trunc32 sw = sw" by simp_all
  have d: "ss_dense ss wh < ss_N ss" "ss_dense ss sw < ss_N ss"
    using sset_invD(6) [OF inv] wh sw by auto
  have "ss_dense ss wh = ss_dense ss sw \<Longrightarrow> wh = sw"
    using sset_invD(7) [OF inv] wh sw by metis
  then show ?thesis
    using wh sw d t unfolding swap_positions_def
    by (auto simp: swap_at_apply Let_def)
qed

text \<open>
  Moving \<open>w\<close> to position \<open>q\<close>, the border between two groups, and then shifting that
  border by one keeps the invariant. Both single steps are instances: \<open>j\<close> is the cursor
  that moves, \<open>c\<close> its new value and \<open>s'\<close> the new state of \<open>w\<close>.
\<close>

lemma border_move_inv:
  assumes inv: "sset_inv ss" and w: "w < ss_N ss"
    and p: "p = sl_where (ss_sparse ss w)" and q: "q < ss_N ss"
    and sq: "sl_state (ss_sparse ss (ss_dense ss q)) = sl_state (ss_sparse ss w)"
    and wh': "\<And>v. sl_where (sp v) =
            (if v = ss_dense ss p then q else if v = ss_dense ss q then p
             else sl_where (ss_sparse ss v))"
    and st': "\<And>v. sl_state (sp v) = (if v = w then s' else sl_state (ss_sparse ss v))"
    and s': "s' < ss_K ss" and j: "0 < j" "j < ss_K ss"
    and cuts: "s' = j \<and> sl_state (ss_sparse ss w) = j - 1 \<and> c = q \<and> Suc q = ss_cursor ss j \<or>
               s' = j - 1 \<and> sl_state (ss_sparse ss w) = j \<and> c = Suc q \<and> q = ss_cursor ss j"
  shows "sset_inv (ss\<lparr> ss_dense := swap_at (ss_dense ss) p q, ss_cursor := (ss_cursor ss)(j := c),
                       ss_sparse := sp \<rparr>)"
proof -
  let ?d = "ss_dense ss" and ?sp = "ss_sparse ss" and ?c = "ss_cursor ss"
  note D = sset_invD [OF inv]
  have pN: "p < ss_N ss" and dp: "?d p = w" using D(8,9) [OF w] p by auto
  have dq: "?d q < ss_N ss" "sl_where (?sp (?d q)) = q" using D(6,7) [OF q] by auto
  have inj: "?d a = ?d b \<longleftrightarrow> a = b" if "a < ss_N ss" "b < ss_N ss" for a b
    using that D(7) by metis
  have cj: "?c (j - 1) \<le> ?c j" "?c j \<le> ?c (Suc j)"
    using D(5) [of "j - 1"] D(5) [of j] j by auto
  have pq: "sl_state (?sp w) = j - 1 \<Longrightarrow> ?c (j - 1) \<le> q \<and> ?c (j - 1) \<le> p \<and> p < ?c j \<and> q < ?c j"
    using D(11,12) [OF w] D(11,12) [OF dq(1)] dq(2) sq p j by auto
  have pq': "sl_state (?sp w) = j \<Longrightarrow> ?c j \<le> q \<and> ?c j \<le> p \<and> p < ?c (Suc j) \<and> q < ?c (Suc j)"
    using D(11,12) [OF w] D(11,12) [OF dq(1)] dq(2) sq p by auto
  have mono: "\<forall>s < ss_K ss. (?c(j := c)) s \<le> (?c(j := c)) (Suc s)"
  proof (intro allI impI)
    fix s assume "s < ss_K ss"
    then show "(?c(j := c)) s \<le> (?c(j := c)) (Suc s)"
      using D(5) [of s] cj cuts pq pq' j by (cases "s = j"; cases "Suc s = j") auto
  qed
  have perm: "swap_at ?d p q i < ss_N ss \<and> sl_where (sp (swap_at ?d p q i)) = i"
    if "i < ss_N ss" for i
    using that pN q D(6,7) [OF that] dq(1) D(6) [OF pN]
    by (simp add: swap_at_apply wh' inj)
  have perm': "sl_where (sp v) < ss_N ss \<and> swap_at ?d p q (sl_where (sp v)) = v"
    if "v < ss_N ss" for v
  proof -
    have "sl_where (?sp v) = q \<Longrightarrow> v = ?d q" "sl_where (?sp v) = p \<Longrightarrow> v = ?d p"
      using D(9) [OF that] by auto
    then show ?thesis
      using D(8,9) [OF that] pN q by (auto simp: swap_at_apply wh')
  qed
  have grp: "sl_state (sp v) < ss_K ss \<and> (?c(j := c)) (sl_state (sp v)) \<le> sl_where (sp v) \<and>
             sl_where (sp v) < (?c(j := c)) (Suc (sl_state (sp v)))" if v: "v < ss_N ss" for v
  proof (cases "v = w")
    case True
    then show ?thesis using cuts cj s' pq pq' j dp by (auto simp: wh' st')
  next
    case vw: False
    then have st: "sl_state (sp v) = sl_state (?sp v)" by (simp add: st')
    have b: "sl_state (?sp v) < ss_K ss" "?c (sl_state (?sp v)) \<le> sl_where (?sp v)"
      "sl_where (?sp v) < ?c (Suc (sl_state (?sp v)))" using D(10-12) [OF v] by auto
    have wq: "sl_where (?sp v) = q \<Longrightarrow> v = ?d q" using D(9) [OF v] by auto
    show ?thesis
    proof (cases "v = ?d q")
      case True
      then have "p \<noteq> q" using vw dp by auto
      with True show ?thesis using vw st b cuts cj pq pq' dp sq j by (auto simp: wh')
    next
      case False
      with wq have "sl_where (?sp v) \<noteq> q" by auto
      with False show ?thesis using vw st b cuts cj dp j by (auto simp: wh')
    qed
  qed
  have k: "0 \<noteq> j" "ss_K ss \<noteq> j" using j by auto
  show ?thesis
    unfolding sset_inv_def using D(1-4) k mono perm perm' grp by simp
qed

lemma IncrementState_moves:
  assumes inv: "sset_inv ss" and w: "who_of h < ss_N ss"
    and s: "Suc (sl_state (ss_sparse ss (who_of h))) < ss_K ss"
  shows "returns (SparseSet_IncrementState ss h)
           (\<lambda>ss'. moved_to ss ss' (who_of h) (Suc (sl_state (ss_sparse ss (who_of h)))))"
proof -
  let ?w = "who_of h"
  let ?s = "sl_state (ss_sparse ss ?w)" and ?p = "sl_where (ss_sparse ss ?w)"
  let ?q = "ss_cursor ss (Suc ?s) - 1"
  note D = sset_invD [OF inv]
  have b: "?p < ss_N ss" "ss_cursor ss ?s \<le> ?p" "?p < ss_cursor ss (Suc ?s)"
    using D(8,11,12) [OF w] by auto
  have cN: "ss_cursor ss (Suc ?s) \<le> ss_N ss" using cursor_le_N [OF inv] s by simp
  then have q: "?q < ss_N ss" and sq: "Suc ?q = ss_cursor ss (Suc ?s)" using b by auto
  have sub: "sub32 (ss_cursor ss (Suc ?s)) 1 = ?q"
    using b cN D(2) by (intro sub32_id) auto
  have "sl_state (ss_sparse ss (ss_dense ss ?q)) = ?s"
    using state_at_position [OF inv, of ?s ?q] s b by auto
  obtain sp where sp: "swap_positions ss ?p ?q =
           Inr (ss\<lparr> ss_dense := swap_at (ss_dense ss) ?p ?q, ss_sparse := sp \<rparr>)"
    and g: "\<forall>v. sl_generation (sp v) = sl_generation (ss_sparse ss v)"
    and st: "\<forall>v. sl_state (sp v) = sl_state (ss_sparse ss v)"
    and wh: "\<forall>v. sl_where (sp v) = (if v = ss_dense ss ?p then ?q
              else if v = ss_dense ss ?q then ?p else sl_where (ss_sparse ss v))"
    using swap_positions_eq [OF inv b(1) q] by blast
  let ?sp' = "sp(?w := (sp ?w)\<lparr> sl_state := Suc ?s \<rparr>)"
  let ?ss' = "ss\<lparr> ss_dense := swap_at (ss_dense ss) ?p ?q,
                  ss_cursor := (ss_cursor ss)(Suc ?s := ?q), ss_sparse := ?sp' \<rparr>"
  have "sset_inv ?ss'"
    by (rule border_move_inv [OF inv w, where s' = "Suc ?s"])
       (use q s st wh sq \<open>sl_state (ss_sparse ss (ss_dense ss ?q)) = ?s\<close> in auto)
  moreover have "SparseSet_IncrementState ss h = Inr ?ss'"
    using w s sp sub unfolding SparseSet_IncrementState_def by (simp add: Let_def)
  ultimately show ?thesis
    using g st by (simp add: moved_to_def)
qed

lemma DecrementState_moves:
  assumes inv: "sset_inv ss" and w: "who_of h < ss_N ss"
    and s: "0 < sl_state (ss_sparse ss (who_of h))"
  shows "returns (SparseSet_DecrementState ss h)
           (\<lambda>ss'. moved_to ss ss' (who_of h) (sl_state (ss_sparse ss (who_of h)) - 1))"
proof -
  let ?w = "who_of h"
  let ?s = "sl_state (ss_sparse ss ?w)" and ?p = "sl_where (ss_sparse ss ?w)"
  let ?q = "ss_cursor ss ?s"
  note D = sset_invD [OF inv]
  have b: "?p < ss_N ss" "?s < ss_K ss" "?q \<le> ?p" "?p < ss_cursor ss (Suc ?s)"
    using D(8,10,11,12) [OF w] by auto
  then have q: "?q < ss_N ss" by simp
  have sub: "trunc32 (?q + 1) = Suc ?q"
    using q D(2) by (simp add: trunc32_def)
  have "sl_state (ss_sparse ss (ss_dense ss ?q)) = ?s"
    using state_at_position [OF inv, of ?s ?q] b by auto
  obtain sp where sp: "swap_positions ss ?p ?q =
           Inr (ss\<lparr> ss_dense := swap_at (ss_dense ss) ?p ?q, ss_sparse := sp \<rparr>)"
    and g: "\<forall>v. sl_generation (sp v) = sl_generation (ss_sparse ss v)"
    and st: "\<forall>v. sl_state (sp v) = sl_state (ss_sparse ss v)"
    and wh: "\<forall>v. sl_where (sp v) = (if v = ss_dense ss ?p then ?q
              else if v = ss_dense ss ?q then ?p else sl_where (ss_sparse ss v))"
    using swap_positions_eq [OF inv b(1) q] by blast
  let ?sp' = "sp(?w := (sp ?w)\<lparr> sl_state := ?s - 1 \<rparr>)"
  let ?ss' = "ss\<lparr> ss_dense := swap_at (ss_dense ss) ?p ?q,
                  ss_cursor := (ss_cursor ss)(?s := Suc ?q), ss_sparse := ?sp' \<rparr>"
  have "sset_inv ?ss'"
    by (rule border_move_inv [OF inv w, where s' = "?s - 1"])
       (use q s b st wh \<open>sl_state (ss_sparse ss (ss_dense ss ?q)) = ?s\<close> in auto)
  moreover have "SparseSet_DecrementState ss h = Inr ?ss'"
    using w s b sp sub unfolding SparseSet_DecrementState_def by (simp add: Let_def)
  ultimately show ?thesis
    using g st by (simp add: moved_to_def)
qed


subsection \<open>The loops of MoveToState\<close>

lemma move_up_stop:
  "who_of h < ss_N ss \<Longrightarrow> newState \<le> sl_state (ss_sparse ss (who_of h)) \<Longrightarrow>
   move_up ss h newState = Some (Inr ss)"
  by (subst move_up.simps) simp

lemma move_down_stop:
  "who_of h < ss_N ss \<Longrightarrow> sl_state (ss_sparse ss (who_of h)) \<le> newState \<Longrightarrow>
   move_down ss h newState = Some (Inr ss)"
  by (subst move_down.simps) simp

lemma move_up_moves:
  assumes "sset_inv ss" and "who_of h < ss_N ss" and "newState < ss_K ss"
    and "sl_state (ss_sparse ss (who_of h)) \<le> newState"
  shows "\<exists>ss'. move_up ss h newState = Some (Inr ss') \<and> moved_to ss ss' (who_of h) newState"
  using assms
proof (induction "newState - sl_state (ss_sparse ss (who_of h))" arbitrary: ss)
  case 0
  then show ?case using move_up_stop [of h ss newState] moved_to_refl [of ss "who_of h"] by auto
next
  case (Suc n)
  let ?s = "sl_state (ss_sparse ss (who_of h))"
  have lt: "?s < newState" and "Suc ?s < ss_K ss" using Suc.hyps(2) Suc.prems by linarith+
  have n: "n = newState - Suc ?s" using Suc.hyps(2) by linarith
  obtain ss1 where i: "SparseSet_IncrementState ss h = Inr ss1"
    and m: "moved_to ss ss1 (who_of h) (Suc ?s)"
    using IncrementState_moves [OF Suc.prems(1,2) \<open>Suc ?s < ss_K ss\<close>] by (blast elim: returnsE)
  obtain ss' where "move_up ss1 h newState = Some (Inr ss')" "moved_to ss1 ss' (who_of h) newState"
    using Suc.hyps(1) [of ss1] n moved_toD [OF m] Suc.prems lt by auto
  then show ?case
    using i lt m Suc.prems by (subst move_up.simps) (auto intro: moved_to_trans)
qed

lemma move_down_moves:
  assumes "sset_inv ss" and "who_of h < ss_N ss"
    and "newState \<le> sl_state (ss_sparse ss (who_of h))"
  shows "\<exists>ss'. move_down ss h newState = Some (Inr ss') \<and> moved_to ss ss' (who_of h) newState"
  using assms
proof (induction "sl_state (ss_sparse ss (who_of h)) - newState" arbitrary: ss)
  case 0
  then show ?case using move_down_stop [of h ss newState] moved_to_refl [of ss "who_of h"] by auto
next
  case (Suc n)
  let ?s = "sl_state (ss_sparse ss (who_of h))"
  have lt: "newState < ?s" using Suc.hyps(2) by linarith
  have n: "n = ?s - 1 - newState" "newState \<le> ?s - 1" using Suc.hyps(2) by linarith+
  obtain ss1 where i: "SparseSet_DecrementState ss h = Inr ss1"
    and m: "moved_to ss ss1 (who_of h) (?s - 1)"
    using DecrementState_moves [OF Suc.prems(1,2)] lt by (auto elim: returnsE)
  obtain ss' where "move_down ss1 h newState = Some (Inr ss')" "moved_to ss1 ss' (who_of h) newState"
    using Suc.hyps(1) [of ss1] n moved_toD [OF m] Suc.prems lt by auto
  then show ?case
    using i lt m Suc.prems by (subst move_down.simps) (auto intro: moved_to_trans)
qed

lemma MoveToState_moves:
  assumes inv: "sset_inv ss" and w: "who_of h < ss_N ss" and n: "newState < ss_K ss"
  shows "returns (SparseSet_MoveToState ss h newState)
           (\<lambda>ss'. moved_to ss ss' (who_of h) newState)"
proof (cases "sl_state (ss_sparse ss (who_of h)) \<le> newState")
  case True
  then obtain ss1 where u: "move_up ss h newState = Some (Inr ss1)"
    and m: "moved_to ss ss1 (who_of h) newState"
    using move_up_moves [OF inv w n] by blast
  then have "move_down ss1 h newState = Some (Inr ss1)"
    using moved_toD [OF m] w by (intro move_down_stop) auto
  then show ?thesis
    using n u m by (simp add: SparseSet_MoveToState_def loop_result_def)
next
  case False
  then have "move_up ss h newState = Some (Inr ss)"
    using w by (intro move_up_stop) auto
  moreover obtain ss1 where "move_down ss h newState = Some (Inr ss1)"
    and "moved_to ss ss1 (who_of h) newState"
    using move_down_moves [OF inv w, of newState] False by (auto simp: not_le)
  ultimately show ?thesis
    using n by (simp add: SparseSet_MoveToState_def loop_result_def)
qed

lemma MoveToState_invalid: "ss_K ss \<le> newState \<Longrightarrow> SparseSet_MoveToState ss h newState = Inr ss"
  by (simp add: SparseSet_MoveToState_def)

subsection \<open>Pop, Push and listing\<close>

definition cur_handle :: "sparse_set \<Rightarrow> nat \<Rightarrow> u64" where
  "cur_handle ss w = mk_handle (sl_generation (ss_sparse ss w)) w"

lemma who_of_cur_handle [simp]: "w < 2 ^ 32 \<Longrightarrow> who_of (cur_handle ss w) = w"
  by (simp add: cur_handle_def)

lemma gen_of_cur_handle [simp]:
  "w < 2 ^ 32 \<Longrightarrow> gen_of (cur_handle ss w) = sl_generation (ss_sparse ss w)"
  by (simp add: cur_handle_def)

lemma IsValid_iff_cur_handle:
  "SparseSet_IsValid ss h \<longleftrightarrow> who_of h < ss_N ss \<and> h = cur_handle ss (who_of h)"
  unfolding SparseSet_IsValid_def
  by (metis cur_handle_def gen_of_mk_handle mk_handle_of who_of_bound)

lemma GetHandle_cur: "w < ss_N ss \<Longrightarrow> SparseSet_GetHandle ss w = Inr (cur_handle ss w)"
  by (simp add: SparseSet_GetHandle_def cur_handle_def)

lemma GetState_eq: "who_of h < ss_N ss \<Longrightarrow>
    SparseSet_GetState ss h = Inr (sl_state (ss_sparse ss (who_of h)))"
  by (simp add: SparseSet_GetState_def)

lemma kInvalidHandle_not_valid: "ss_N ss < 2 ^ 32 \<Longrightarrow> \<not> SparseSet_IsValid ss kInvalidHandle"
  by (simp add: SparseSet_IsValid_def who_of_kInvalidHandle)

lemma collect_handles_eq:
  "\<forall>i \<in> set is. i < ss_N ss \<and> ss_dense ss i < ss_N ss \<Longrightarrow>
   collect_handles ss is = Inr (map (\<lambda>i. cur_handle ss (ss_dense ss i)) is)"
  by (induction "is") (auto simp: GetHandle_cur)

lemma GetIndicesInState_eq:
  assumes inv: "sset_inv ss" and s: "s < ss_K ss"
  shows "SparseSet_GetIndicesInState ss s =
    Inr (map (\<lambda>i. cur_handle ss (ss_dense ss i)) [ss_cursor ss s ..< ss_cursor ss (Suc s)])"
proof -
  have "\<forall>i \<in> set [ss_cursor ss s ..< ss_cursor ss (Suc s)]. i < ss_N ss \<and> ss_dense ss i < ss_N ss"
    using cursor_le_N [OF inv, of "Suc s"] s sset_invD(6) [OF inv] by auto
  from collect_handles_eq [OF this] show ?thesis
    using s by (simp add: SparseSet_GetIndicesInState_def)
qed

lemma cur_handle_inj: "sset_inv ss \<Longrightarrow> inj_on (cur_handle ss) {w. w < ss_N ss}"
  by (rule inj_on_inverseI [where g = who_of])
     (metis (mono_tags, lifting) mem_Collect_eq order_less_trans sset_invD(2) who_of_cur_handle)

lemma GetIndicesInState_set:
  assumes inv: "sset_inv ss" and s: "s < ss_K ss"
  shows "returns (SparseSet_GetIndicesInState ss s)
    (\<lambda>hs. distinct hs \<and> set hs = cur_handle ss ` in_state ss s \<and> length hs = card (in_state ss s))"
proof -
  let ?I = "[ss_cursor ss s ..< ss_cursor ss (Suc s)]"
  have sub: "set ?I \<subseteq> {i. i < ss_N ss}"
    using cursor_le_N [OF inv, of "Suc s"] s by auto
  have "inj_on (ss_dense ss) (set ?I)"
    using dense_inj [OF inv] sub inj_on_subset by blast
  moreover have "inj_on (cur_handle ss) (ss_dense ss ` set ?I)"
    using cur_handle_inj [OF inv] sset_invD(6) [OF inv] sub by (elim inj_on_subset) auto
  ultimately have "inj_on (cur_handle ss \<circ> ss_dense ss) (set ?I)"
    by (rule comp_inj_on)
  then have "distinct (map (\<lambda>i. cur_handle ss (ss_dense ss i)) ?I)"
    by (simp add: distinct_map comp_def)
  then show ?thesis
    using GetIndicesInState_eq [OF inv s] in_state_group [OF inv s] card_in_state [OF inv s]
    by (simp add: image_image)
qed

lemma no_idle_iff: "sset_inv ss \<Longrightarrow> ss_cursor ss 0 = ss_cursor ss 1 \<longleftrightarrow> in_state ss 0 = {}"
  using in_state_group [of ss 0] sset_invD(1,5) [of ss] by fastforce

lemma Pop_idle:
  assumes inv: "sset_inv ss" and st: "st < ss_K ss" and ne: "in_state ss 0 \<noteq> {}"
  shows "returns (SparseSet_Pop ss st)
    (\<lambda>(ss', h). \<exists>w \<in> in_state ss 0. h = cur_handle ss w \<and> moved_to ss ss' w st)"
proof -
  let ?w = "ss_dense ss 0"
  note D = sset_invD [OF inv]
  have c1: "ss_cursor ss 0 \<noteq> ss_cursor ss 1" using ne no_idle_iff [OF inv] by simp
  then have lt: "0 < ss_cursor ss (Suc 0)" using D(3) by simp
  have N: "0 < ss_N ss" using cursor_le_N [OF inv, of 1] D(1) lt by simp
  have w: "?w < ss_N ss" "?w < 2 ^ 32" using D(6) [OF N] D(2) by auto
  have "?w \<in> in_state ss 0"
    using state_at_position [OF inv, of 0 0] D(1,3) lt w by (simp add: in_state_def)
  moreover obtain ss' where "SparseSet_MoveToState ss (cur_handle ss ?w) st = Inr ss'"
    and "moved_to ss ss' ?w st"
    using MoveToState_moves [OF inv, of "cur_handle ss ?w" st] w st by (auto elim: returnsE)
  ultimately show ?thesis
    using c1 st N w D(3) by (auto simp: SparseSet_Pop_def GetHandle_cur)
qed

lemma Pop_none:
  "sset_inv ss \<Longrightarrow> st \<ge> ss_K ss \<or> in_state ss 0 = {} \<Longrightarrow>
   SparseSet_Pop ss st = Inr (ss, kInvalidHandle)"
  using no_idle_iff [of ss] by (auto simp: SparseSet_Pop_def)

text \<open>The abstract effect of \<open>Push\<close>.\<close>

definition pushed :: "sparse_set \<Rightarrow> sparse_set \<Rightarrow> nat \<Rightarrow> bool" where
  "pushed ss ss' w \<longleftrightarrow>
     sset_inv ss' \<and> ss_N ss' = ss_N ss \<and> ss_K ss' = ss_K ss \<and>
     (\<forall>v. sl_generation (ss_sparse ss' v) =
        (if v = w then sl_generation (ss_sparse ss v) + 1 else sl_generation (ss_sparse ss v))) \<and>
     (\<forall>v. sl_state (ss_sparse ss' v) = (if v = w then 0 else sl_state (ss_sparse ss v)))"

lemma pushedD:
  assumes "pushed ss ss' w"
  shows "sset_inv ss'" and "ss_N ss' = ss_N ss" and "ss_K ss' = ss_K ss"
    and "sl_generation (ss_sparse ss' v) =
        (if v = w then sl_generation (ss_sparse ss v) + 1 else sl_generation (ss_sparse ss v))"
    and "sl_state (ss_sparse ss' v) = (if v = w then 0 else sl_state (ss_sparse ss v))"
  using assms unfolding pushed_def by auto

lemma sset_inv_generation:
  assumes "sset_inv ss"
  shows "sset_inv (ss\<lparr> ss_sparse := (ss_sparse ss)(w := (ss_sparse ss w)\<lparr> sl_generation := g \<rparr>) \<rparr>)"
  using assms unfolding sset_inv_def by auto

lemma Push_pushes:
  assumes inv: "sset_inv ss" and w: "who_of h < ss_N ss"
  shows "returns (SparseSet_Push ss h) (\<lambda>ss'. pushed ss ss' (who_of h))"
proof -
  obtain ss1 where m: "SparseSet_MoveToState ss h 0 = Inr ss1" "moved_to ss ss1 (who_of h) 0"
    using MoveToState_moves [OF inv w] sset_invD(1) [OF inv] by (blast elim: returnsE)
  then show ?thesis
    using w moved_toD [OF m(2)] sset_inv_generation
    by (auto simp: SparseSet_Push_def pushed_def Let_def)
qed

end
