(* ===== verification/SparseSet_Props.thy ===== *)
theory SparseSet_Props
  imports SparseSet
begin

section \<open>What SparseSet promises\<close>

text \<open>
  The contract of a handle allocator as a locale (\<open>handle_allocator\<close>), its interpretation
  on the operations of \<open>SparseSet\<close>, and the properties of the set: exact effect of each
  operation, listing of a state, invalidation of handles and reuse of generations.
\<close>

subsection \<open>The contract of a handle allocator\<close>

text \<open>
  \<open>pop\<close> hands out a handle that nobody holds, or \<open>bad\<close> when none is free; \<open>push\<close> takes a
  held handle back. A client that only returns handles it holds never holds one twice.
\<close>

datatype 'h alloc_op = APop | APush 'h

text \<open>
  One step of a client of an allocator: the list holds the handles the client has. A push of
  a handle the client does not hold is skipped, a pop that returns \<open>bad\<close> gives it nothing.
\<close>

definition client_step :: "('s \<Rightarrow> ('s \<times> 'h) res) \<Rightarrow> ('s \<Rightarrow> 'h \<Rightarrow> 's res) \<Rightarrow> 'h \<Rightarrow>
    's \<times> 'h list \<Rightarrow> 'h alloc_op \<Rightarrow> ('s \<times> 'h list) res" where
  "client_step pop push bad c a = (case a of
     APop \<Rightarrow> andThen (pop (fst c)) (\<lambda>(s, h).
               Inr (s, if h = bad then snd c else h # snd c))
   | APush h \<Rightarrow> if h \<in> set (snd c)
               then andThen (push (fst c) h) (\<lambda>s. Inr (s, remove1 h (snd c)))
               else Inr c)"

fun client_run :: "('s \<Rightarrow> ('s \<times> 'h) res) \<Rightarrow> ('s \<Rightarrow> 'h \<Rightarrow> 's res) \<Rightarrow> 'h \<Rightarrow>
    's \<times> 'h list \<Rightarrow> 'h alloc_op list \<Rightarrow> ('s \<times> 'h list) res" where
  "client_run pop push bad c [] = Inr c"
| "client_run pop push bad c (a # as) =
     andThen (client_step pop push bad c a) (\<lambda>c'. client_run pop push bad c' as)"

locale handle_allocator =
  fixes inv :: "'s \<Rightarrow> bool"
    and held :: "'s \<Rightarrow> 'h set"
    and free_slots :: "'s \<Rightarrow> nat"
    and pop :: "'s \<Rightarrow> ('s \<times> 'h) res"
    and push :: "'s \<Rightarrow> 'h \<Rightarrow> 's res"
    and bad :: 'h
  assumes bad_not_held: "inv s \<Longrightarrow> bad \<notin> held s"
    and pop_some: "inv s \<Longrightarrow> 0 < free_slots s \<Longrightarrow>
          returns (pop s) (\<lambda>(s', h). inv s' \<and> h \<notin> held s \<and> held s' = insert h (held s) \<and>
                                     free_slots s' = free_slots s - 1)"
    and pop_bad: "inv s \<Longrightarrow> free_slots s = 0 \<Longrightarrow> pop s = Inr (s, bad)"
    and push_held: "inv s \<Longrightarrow> h \<in> held s \<Longrightarrow>
          returns (push s h) (\<lambda>s'. inv s' \<and> held s' = held s - {h} \<and>
                                   free_slots s' = Suc (free_slots s))"
begin

definition consistent :: "'s \<times> 'h list \<Rightarrow> bool" where
  "consistent c \<longleftrightarrow> inv (fst c) \<and> distinct (snd c) \<and> set (snd c) = held (fst c)"

lemma client_step_consistent:
  assumes c: "consistent c"
  shows "returns (client_step pop push bad c a)
    (\<lambda>c'. consistent c' \<and> length (snd c') + free_slots (fst c') = length (snd c) + free_slots (fst c))"
proof (cases a)
  case APop
  have i: "inv (fst c)" using c by (simp add: consistent_def)
  show ?thesis
  proof (cases "free_slots (fst c) = 0")
    case True
    then show ?thesis using APop c pop_bad [OF i] by (simp add: client_step_def)
  next
    case False
    then obtain s h where "pop (fst c) = Inr (s, h)" and "inv s" and "h \<notin> held (fst c)"
      and "held s = insert h (held (fst c))" and "free_slots s = free_slots (fst c) - 1"
      using pop_some [OF i] by (auto elim: returnsE)
    moreover from this have "h \<noteq> bad" using bad_not_held [of s] by auto
    ultimately show ?thesis using APop c False by (auto simp: client_step_def consistent_def)
  qed
next
  case (APush h)
  show ?thesis
  proof (cases "h \<in> set (snd c)")
    case True
    then have hh: "h \<in> held (fst c)" and i: "inv (fst c)" using c by (auto simp: consistent_def)
    obtain s where "push (fst c) h = Inr s" and "inv s" and "held s = held (fst c) - {h}"
      and "free_slots s = Suc (free_slots (fst c))"
      using push_held [OF i hh] by (auto elim: returnsE)
    moreover have "0 < length (snd c)" using True by (cases "snd c") auto
    ultimately show ?thesis using APush c True
      by (auto simp: client_step_def consistent_def length_remove1)
  next
    case False
    then show ?thesis using APush c by (simp add: client_step_def)
  qed
qed

lemma client_run_consistent:
  assumes "consistent c"
  shows "returns (client_run pop push bad c as)
    (\<lambda>c'. consistent c' \<and> length (snd c') + free_slots (fst c') = length (snd c) + free_slots (fst c))"
  using assms
proof (induction as arbitrary: c)
  case Nil
  then show ?case by simp
next
  case (Cons a as)
  show ?case
    unfolding client_run.simps
    by (rule returns_andThen [OF client_step_consistent [OF Cons.prems, of a]])
       (use Cons.IH in \<open>fastforce elim: returns_mono\<close>)
qed

end

subsection \<open>SparseSet is a handle allocator\<close>

definition held_handles :: "sparse_set \<Rightarrow> u64 set" where
  "held_handles ss = cur_handle ss ` {w. w < ss_N ss \<and> sl_state (ss_sparse ss w) \<noteq> 0}"

lemma held_handles_iff:
  assumes "sset_inv ss"
  shows "h \<in> held_handles ss \<longleftrightarrow>
    SparseSet_IsValid ss h \<and> sl_state (ss_sparse ss (who_of h)) \<noteq> 0"
proof
  assume "h \<in> held_handles ss"
  then obtain w where "w < ss_N ss" "sl_state (ss_sparse ss w) \<noteq> 0" "h = cur_handle ss w"
    by (auto simp: held_handles_def)
  moreover from this have "w < 2 ^ 32" using sset_invD(2) [OF assms] by simp
  ultimately show "SparseSet_IsValid ss h \<and> sl_state (ss_sparse ss (who_of h)) \<noteq> 0"
    by (simp add: IsValid_iff_cur_handle)
next
  assume "SparseSet_IsValid ss h \<and> sl_state (ss_sparse ss (who_of h)) \<noteq> 0"
  then show "h \<in> held_handles ss"
    unfolding held_handles_def by (metis (mono_tags, lifting) IsValid_iff_cur_handle imageI mem_Collect_eq)
qed

lemma held_moved_from_idle:
  assumes inv: "sset_inv ss" and w: "w \<in> in_state ss 0" and m: "moved_to ss ss' w s" and s: "s \<noteq> 0"
  shows "held_handles ss' = insert (cur_handle ss w) (held_handles ss)"
    and "cur_handle ss w \<notin> held_handles ss"
    and "in_state ss' 0 = in_state ss 0 - {w}"
proof -
  have wN: "w < ss_N ss" "sl_state (ss_sparse ss w) = 0" using w by (auto simp: in_state_def)
  have w32: "w < 2 ^ 32" using wN sset_invD(2) [OF inv] by simp
  have cur: "cur_handle ss' = cur_handle ss"
    using moved_toD(4) [OF m] by (auto simp: cur_handle_def fun_eq_iff)
  have "{v. v < ss_N ss' \<and> sl_state (ss_sparse ss' v) \<noteq> 0} =
        insert w {v. v < ss_N ss \<and> sl_state (ss_sparse ss v) \<noteq> 0}"
    using moved_toD(2,5) [OF m] wN s by auto
  then show "held_handles ss' = insert (cur_handle ss w) (held_handles ss)"
    by (simp add: held_handles_def cur)
  show "cur_handle ss w \<notin> held_handles ss"
    using wN w32 by (simp add: held_handles_iff [OF inv])
  show "in_state ss' 0 = in_state ss 0 - {w}"
    using moved_toD(2,5) [OF m] s by (auto simp: in_state_def)
qed

lemma held_pushed:
  assumes inv: "sset_inv ss" and h: "h \<in> held_handles ss" and p: "pushed ss ss' (who_of h)"
  shows "held_handles ss' = held_handles ss - {h}"
    and "in_state ss' 0 = insert (who_of h) (in_state ss 0)"
proof -
  have h': "who_of h < ss_N ss" "h = cur_handle ss (who_of h)"
    using h by (auto simp: held_handles_iff [OF inv] IsValid_iff_cur_handle)
  have cur: "cur_handle ss' v = cur_handle ss v" if "v \<noteq> who_of h" for v
    using that pushedD(4) [OF p] by (simp add: cur_handle_def)
  have eq: "{v. v < ss_N ss' \<and> sl_state (ss_sparse ss' v) \<noteq> 0} =
        {v. v < ss_N ss \<and> sl_state (ss_sparse ss v) \<noteq> 0} - {who_of h}"
    using pushedD(2,5) [OF p] by auto
  show "held_handles ss' = held_handles ss - {h}"
  proof (intro set_eqI iffI)
    fix x assume "x \<in> held_handles ss'"
    then obtain v where v: "v < ss_N ss" "sl_state (ss_sparse ss v) \<noteq> 0" "v \<noteq> who_of h"
      "x = cur_handle ss v" unfolding held_handles_def eq using cur by auto
    moreover have "v < 2 ^ 32" using v sset_invD(2) [OF inv] by simp
    ultimately show "x \<in> held_handles ss - {h}"
      by (auto simp: held_handles_def)
  next
    fix x assume "x \<in> held_handles ss - {h}"
    then obtain v where "v < ss_N ss" "sl_state (ss_sparse ss v) \<noteq> 0" "x = cur_handle ss v" "x \<noteq> h"
      by (auto simp: held_handles_def)
    moreover from this have "v \<noteq> who_of h" using h'(2) by metis
    ultimately show "x \<in> held_handles ss'"
      unfolding held_handles_def eq using cur by auto
  qed
  show "in_state ss' 0 = insert (who_of h) (in_state ss 0)"
    using pushedD(2,5) [OF p] h'(1) by (auto simp: in_state_def)
qed

lemma finite_in_state: "finite (in_state ss s)"
  by (rule finite_subset [of _ "{..< ss_N ss}"]) (auto simp: in_state_def)

lemma SparseSet_pop_some:
  assumes inv: "sset_inv ss" and k: "1 < ss_K ss" and f: "0 < card (in_state ss 0)"
  shows "returns (SparseSet_Pop ss 1) (\<lambda>(ss', h). (sset_inv ss' \<and> 1 < ss_K ss') \<and>
           h \<notin> held_handles ss \<and> held_handles ss' = insert h (held_handles ss) \<and>
           card (in_state ss' 0) = card (in_state ss 0) - 1)"
proof -
  have "in_state ss 0 \<noteq> {}" using f by auto
  from Pop_idle [OF inv k this] show ?thesis
    by (rule returns_mono)
       (use held_moved_from_idle [OF inv] moved_toD(1,3) k finite_in_state in
         \<open>auto simp: card_Diff_singleton\<close>)
qed

lemma SparseSet_push_held:
  assumes inv: "sset_inv ss" and h: "h \<in> held_handles ss"
  shows "returns (SparseSet_Push ss h) (\<lambda>ss'. (sset_inv ss' \<and> ss_K ss' = ss_K ss) \<and>
           held_handles ss' = held_handles ss - {h} \<and>
           card (in_state ss' 0) = Suc (card (in_state ss 0)))"
proof -
  have w: "who_of h < ss_N ss" "who_of h \<notin> in_state ss 0"
    using h by (auto simp: held_handles_iff [OF inv] SparseSet_IsValid_def in_state_def)
  show ?thesis
    by (rule returns_mono [OF Push_pushes [OF inv w(1)]])
       (use held_pushed [OF inv h] pushedD(1,3) w(2) finite_in_state in auto)
qed

interpretation sset_alloc: handle_allocator
  "\<lambda>ss. sset_inv ss \<and> 1 < ss_K ss" held_handles "\<lambda>ss. card (in_state ss 0)"
  "\<lambda>ss. SparseSet_Pop ss 1" SparseSet_Push kInvalidHandle
proof unfold_locales
  fix ss assume i: "sset_inv ss \<and> 1 < ss_K ss"
  show "kInvalidHandle \<notin> held_handles ss"
    using i kInvalidHandle_not_valid [of ss] sset_invD(2) [of ss] by (simp add: held_handles_iff)
  show "returns (SparseSet_Pop ss 1) (\<lambda>(s', h). (sset_inv s' \<and> 1 < ss_K s') \<and> h \<notin> held_handles ss \<and>
      held_handles s' = insert h (held_handles ss) \<and>
      card (in_state s' 0) = card (in_state ss 0) - 1)" if "0 < card (in_state ss 0)"
    using SparseSet_pop_some that i by blast
  show "SparseSet_Pop ss 1 = Inr (ss, kInvalidHandle)" if "card (in_state ss 0) = 0"
    using Pop_none [of ss 1] that i finite_in_state by simp
  show "returns (SparseSet_Push ss h) (\<lambda>s'. (sset_inv s' \<and> 1 < ss_K s') \<and>
      held_handles s' = held_handles ss - {h} \<and>
      card (in_state s' 0) = Suc (card (in_state ss 0)))" if "h \<in> held_handles ss" for h
    using SparseSet_push_held [OF _ that] i by (auto elim: returns_mono)
qed


subsection \<open>Properties\<close>

text \<open>C14: \<open>MoveToState\<close> returns on every element and every state below \<open>stateCount\<close>; its
  two loops end, no subscript leaves the arrays, the invariant holds afterwards, the element
  is in the new state, and no other element changes its state or its generation.\<close>

theorem SparseSet_MoveToState_correct:
  assumes "sset_inv ss" and "who_of h < ss_N ss" and "s < ss_K ss"
  shows "\<exists>ss'. SparseSet_MoveToState ss h s = Inr ss' \<and> sset_inv ss' \<and>
           ss_N ss' = ss_N ss \<and> ss_K ss' = ss_K ss \<and>
           (\<forall>v. sl_state (ss_sparse ss' v) =
              (if v = who_of h then s else sl_state (ss_sparse ss v))) \<and>
           (\<forall>v. sl_generation (ss_sparse ss' v) = sl_generation (ss_sparse ss v))"
  using MoveToState_moves [OF assms] moved_toD by (fastforce elim: returnsE)

theorem SparseSet_MoveToState_correct_witness:
  "\<exists>ss'. SparseSet_MoveToState (SparseSet_init 4 3) 2 2 = Inr ss' \<and> sset_inv ss' \<and>
     sl_state (ss_sparse ss' 2) = 2 \<and> sl_state (ss_sparse ss' 1) = 0"
proof -
  have h: "sset_inv (SparseSet_init 4 3)" "who_of 2 < ss_N (SparseSet_init 4 3)"
    "2 < ss_K (SparseSet_init 4 3)"
    using sset_inv_init [of 3 4] by (simp_all add: SparseSet_init_def who_of_def)
  show ?thesis
    using SparseSet_MoveToState_correct [OF h]
    by (auto simp: SparseSet_init_def who_of_def)
qed

text \<open>C15: \<open>GetIndicesInState\<close> lists exactly the current handles of the elements in the
  given state, each once.\<close>

theorem SparseSet_GetIndicesInState_exact:
  assumes "sset_inv ss" and "s < ss_K ss"
  shows "\<exists>hs. SparseSet_GetIndicesInState ss s = Inr hs \<and> distinct hs \<and>
           (\<forall>h. h \<in> set hs \<longleftrightarrow> SparseSet_IsValid ss h \<and> SparseSet_GetState ss h = Inr s)"
proof -
  have "h \<in> cur_handle ss ` in_state ss s \<longleftrightarrow>
        SparseSet_IsValid ss h \<and> SparseSet_GetState ss h = Inr s" for h
  proof
    assume "h \<in> cur_handle ss ` in_state ss s"
    then obtain w where w: "w < ss_N ss" "sl_state (ss_sparse ss w) = s" "h = cur_handle ss w"
      by (auto simp: in_state_def)
    then have "w < 2 ^ 32" using sset_invD(2) [OF assms(1)] by simp
    with w show "SparseSet_IsValid ss h \<and> SparseSet_GetState ss h = Inr s"
      by (simp add: IsValid_iff_cur_handle GetState_eq)
  next
    assume a: "SparseSet_IsValid ss h \<and> SparseSet_GetState ss h = Inr s"
    then have "who_of h \<in> in_state ss s" "h = cur_handle ss (who_of h)"
      by (auto simp: IsValid_iff_cur_handle GetState_eq in_state_def)
    then show "h \<in> cur_handle ss ` in_state ss s" by (metis imageI)
  qed
  then show ?thesis
    using GetIndicesInState_set [OF assms] by (auto elim!: returnsE)
qed

theorem SparseSet_GetIndicesInState_exact_witness:
  "\<exists>hs. SparseSet_GetIndicesInState (SparseSet_init 4 3) 0 = Inr hs \<and> distinct hs \<and>
     (\<forall>h. h \<in> set hs \<longleftrightarrow> SparseSet_IsValid (SparseSet_init 4 3) h \<and>
        SparseSet_GetState (SparseSet_init 4 3) h = Inr 0)"
proof -
  have h: "sset_inv (SparseSet_init 4 3)" "0 < ss_K (SparseSet_init 4 3)"
    using sset_inv_init [of 3 4] by (simp_all add: SparseSet_init_def)
  show ?thesis using SparseSet_GetIndicesInState_exact [OF h] .
qed



text \<open>\<open>Push\<close> returns the element to state 0 and makes exactly the handles of that element
  with the old generation invalid; every other handle keeps its validity.\<close>

lemma SparseSet_Push_invalidates:
  assumes inv: "sset_inv ss" and v: "SparseSet_IsValid ss h"
  shows "\<exists>ss'. SparseSet_Push ss h = Inr ss' \<and> sset_inv ss' \<and> \<not> SparseSet_IsValid ss' h \<and>
           sl_state (ss_sparse ss' (who_of h)) = 0 \<and>
           (\<forall>h'. who_of h' \<noteq> who_of h \<longrightarrow>
              SparseSet_IsValid ss' h' = SparseSet_IsValid ss h' \<and>
              sl_state (ss_sparse ss' (who_of h')) = sl_state (ss_sparse ss (who_of h')))"
proof -
  have "who_of h < ss_N ss" using v by (simp add: SparseSet_IsValid_def)
  then obtain ss' where "SparseSet_Push ss h = Inr ss'" and p: "pushed ss ss' (who_of h)"
    using Push_pushes [OF inv] by (blast elim: returnsE)
  with v show ?thesis
    using pushedD [OF p] by (auto simp: SparseSet_IsValid_def)
qed

lemma SparseSet_Push_example:
  "SparseSet_IsValid (SparseSet_init 4 3) 2 \<and>
   (\<exists>ss'. SparseSet_Push (SparseSet_init 4 3) 2 = Inr ss' \<and> \<not> SparseSet_IsValid ss' 2)"
proof -
  have h: "sset_inv (SparseSet_init 4 3)" "SparseSet_IsValid (SparseSet_init 4 3) 2"
    using sset_inv_init [of 3 4]
    by (simp_all add: SparseSet_IsValid_def SparseSet_init_def who_of_def gen_of_def kIndexShift_def)
  show ?thesis using SparseSet_Push_invalidates [OF h] h(2) by auto
qed

text \<open>Returning the same element \<open>n\<close> times.\<close>

fun push_times :: "nat \<Rightarrow> sparse_set \<Rightarrow> u64 \<Rightarrow> sparse_set res" where
  "push_times 0 ss h = Inr ss"
| "push_times (Suc n) ss h = andThen (SparseSet_Push ss h) (\<lambda>ss'. push_times n ss' h)"

lemma push_times_generation:
  assumes "sset_inv ss" and "who_of h < ss_N ss"
  shows "returns (push_times n ss h) (\<lambda>ss'. sset_inv ss' \<and> ss_N ss' = ss_N ss \<and>
     sl_generation (ss_sparse ss' (who_of h)) = sl_generation (ss_sparse ss (who_of h)) + of_nat n)"
  using assms
proof (induction n arbitrary: ss)
  case 0
  then show ?case by simp
next
  case (Suc n)
  obtain ss1 where "SparseSet_Push ss h = Inr ss1" and p: "pushed ss ss1 (who_of h)"
    using Push_pushes [OF Suc.prems] by (blast elim: returnsE)
  then show ?case
    using Suc.IH [of ss1] pushedD [OF p] Suc.prems by (auto elim: returns_mono simp: add_ac)
qed

text \<open>C17: the limit of the generation check: after an element has been returned \<open>n\<close> times, a
  handle that was valid before is valid again exactly when \<open>n\<close> is a multiple of \<open>2 ^ 32\<close>.\<close>

theorem SparseSet_stale_handle_valid_iff:
  assumes inv: "sset_inv ss" and v: "SparseSet_IsValid ss h"
  shows "\<exists>ss'. push_times n ss h = Inr ss' \<and>
           (SparseSet_IsValid ss' h \<longleftrightarrow> 2 ^ 32 dvd n)"
proof -
  have w: "who_of h < ss_N ss" using v by (simp add: SparseSet_IsValid_def)
  have "of_nat n = (0 :: u32) \<longleftrightarrow> 2 ^ 32 dvd n"
    using word_of_nat_eq_0_iff [where 'a = 32, of n] by simp
  with v show ?thesis
    using push_times_generation [OF inv w, of n]
    by (auto elim!: returnsE simp: SparseSet_IsValid_def)
qed

theorem SparseSet_stale_handle_valid_iff_witness:
  "\<exists>ss'. push_times 3 (SparseSet_init 4 3) 2 = Inr ss' \<and> \<not> SparseSet_IsValid ss' 2"
proof -
  have h: "sset_inv (SparseSet_init 4 3)" "SparseSet_IsValid (SparseSet_init 4 3) 2"
    using sset_inv_init [of 3 4]
    by (simp_all add: SparseSet_IsValid_def SparseSet_init_def who_of_def gen_of_def kIndexShift_def)
  have "\<not> (2 ^ 32 :: nat) dvd 3" by (rule nat_dvd_not_less) simp_all
  then show ?thesis using SparseSet_stale_handle_valid_iff [OF h, of 3] by blast
qed

text \<open>C12: from the constructed set on, whatever sequence of \<open>Pop(1)\<close> and \<open>Push\<close> calls a client
  makes with handles it holds, no call faults, the handles it holds are pairwise different and
  valid, and the held and the idle elements together are always \<open>N\<close>.\<close>

theorem SparseSet_handles_unique:
  assumes "1 < k" and "n < 2 ^ 32"
  shows "\<exists>ss hs. client_run (\<lambda>ss. SparseSet_Pop ss 1) SparseSet_Push kInvalidHandle
                   (SparseSet_init n k, []) ops = Inr (ss, hs) \<and>
           distinct hs \<and> (\<forall>h \<in> set hs. SparseSet_IsValid ss h) \<and>
           length hs + card (in_state ss 0) = n"
proof -
  let ?s = "SparseSet_init n k"
  have inv: "sset_inv ?s" using assms sset_inv_init by simp
  have 1: "held_handles ?s = {}" by (auto simp: held_handles_def SparseSet_init_def)
  have "in_state ?s 0 = {..< n}" by (auto simp: in_state_def SparseSet_init_def)
  then have 2: "card (in_state ?s 0) = n" by simp
  have "sset_alloc.consistent (?s, [])"
    unfolding sset_alloc.consistent_def using inv assms 1 by (simp add: SparseSet_init_def)
  from sset_alloc.client_run_consistent [OF this, of ops] obtain c
    where "client_run (\<lambda>ss. SparseSet_Pop ss 1) SparseSet_Push kInvalidHandle (?s, []) ops = Inr c"
      and "sset_alloc.consistent c" and "length (snd c) + card (in_state (fst c) 0) = n"
    using 2 by (auto elim!: returnsE)
  then show ?thesis
    unfolding sset_alloc.consistent_def by (cases c) (auto simp: held_handles_iff)
qed

theorem SparseSet_handles_unique_witness:
  "\<exists>ss hs. client_run (\<lambda>ss. SparseSet_Pop ss 1) SparseSet_Push kInvalidHandle
       (SparseSet_init 4 3, []) [APop, APop, APush 0, APop] = Inr (ss, hs) \<and> distinct hs"
  using SparseSet_handles_unique [of 3 4 "[APop, APop, APush 0, APop]"] by auto

end
