(* ===== verification/Logger.thy ===== *)
theory Logger
  imports Prelude
begin

section \<open>Common/Logger.hpp: levels, filtering and the fatal exception\<close>

text \<open>
  \<open>Log\<close> writes one record to standard output or, from \<open>kError\<close> on, to standard error;
  \<open>kFatal\<close> then throws \<open>std::runtime_error\<close>, which is the fault \<open>FatalLog\<close>. A record
  keeps the level string and the message; the time stamp, the thread id and the source
  location of the format string are not modelled. The macros compare the level with
  \<open>kLogLevel\<close>, which the build sets to \<open>kError\<close> under \<open>NDEBUG\<close> and to \<open>kDebug\<close>
  otherwise.
\<close>

datatype log_level = LOG_kDebug | LOG_kInfo | LOG_kWarn | LOG_kError | LOG_kFatal

fun level_code :: "log_level \<Rightarrow> nat" where
  "level_code LOG_kDebug = 0"
| "level_code LOG_kInfo = 1"
| "level_code LOG_kWarn = 2"
| "level_code LOG_kError = 3"
| "level_code LOG_kFatal = 4"

instantiation log_level :: linorder
begin

definition less_eq_log_level :: "log_level \<Rightarrow> log_level \<Rightarrow> bool" where
  "less_eq_log_level a b \<longleftrightarrow> level_code a \<le> level_code b"

definition less_log_level :: "log_level \<Rightarrow> log_level \<Rightarrow> bool" where
  "less_log_level a b \<longleftrightarrow> level_code a < level_code b"

instance
proof
  fix x y z :: log_level
  show "x < y \<longleftrightarrow> x \<le> y \<and> \<not> y \<le> x"
    by (auto simp: less_eq_log_level_def less_log_level_def)
  show "x \<le> x" by (simp add: less_eq_log_level_def)
  show "x \<le> z" if "x \<le> y" "y \<le> z" using that by (simp add: less_eq_log_level_def)
  show "x = y" if "x \<le> y" "y \<le> x"
    using that by (cases x; cases y) (simp_all add: less_eq_log_level_def)
  show "x \<le> y \<or> y \<le> x" by (auto simp: less_eq_log_level_def)
qed

end

definition kLogLevel :: "bool \<Rightarrow> log_level" where
  "kLogLevel ndebug = (if ndebug then LOG_kError else LOG_kDebug)"

definition kLevelStrings :: "string list" where
  "kLevelStrings = [''DEBUG'', ''INFO '', ''WARN '', ''ERROR'', ''FATAL'']"

definition GetLevelStr :: "log_level \<Rightarrow> string" where
  "GetLevelStr level = kLevelStrings ! level_code level"

datatype log_stream = Cout | Cerr

type_synonym console = "(log_stream \<times> string \<times> string) list"

definition Log :: "log_level \<Rightarrow> string \<Rightarrow> console \<Rightarrow> console \<times> unit res" where
  "Log level msg out =
     (let stream = (if level \<ge> LOG_kError then Cerr else Cout);
          out' = out @ [(stream, GetLevelStr level, msg)]
      in (out', if level = LOG_kFatal then Inl FatalLog else Inr ()))"

text \<open>The macros \<open>LOG_DEBUG\<close> to \<open>LOG_FATAL\<close>.\<close>

definition LOG_macro :: "bool \<Rightarrow> log_level \<Rightarrow> string \<Rightarrow> console \<Rightarrow> console \<times> unit res" where
  "LOG_macro ndebug level msg out =
     (if level \<ge> kLogLevel ndebug then Log level msg out else (out, Inr ()))"

lemma kLevelStrings_total: "level_code level < length kLevelStrings"
  by (cases level) (simp_all add: kLevelStrings_def)

text \<open>In both builds \<open>LOG_FATAL\<close> writes its message to standard error and throws, no
  other level throws, and a release build drops exactly the levels below \<open>kError\<close>.\<close>

lemma LOG_macro_effect:
  "snd (LOG_macro ndebug level msg out) = (if level = LOG_kFatal then Inl FatalLog else Inr ()) \<and>
   (fst (LOG_macro ndebug level msg out) = out \<longleftrightarrow> ndebug \<and> level < LOG_kError) \<and>
   (level \<ge> LOG_kError \<longleftrightarrow>
      fst (LOG_macro ndebug level msg out) = out @ [(Cerr, GetLevelStr level, msg)])"
  by (cases level; cases ndebug)
     (simp_all add: LOG_macro_def Log_def kLogLevel_def less_eq_log_level_def less_log_level_def)

end
