(* ===== verification/ObjectPool.thy ===== *)
theory ObjectPool
  imports Prelude
begin

section \<open>Common/Pool/ObjectPool.hpp: storage for N objects\<close>

text \<open>
  \<open>ObjectPool<T, N, isLazy>\<close> is raw storage for \<open>N\<close> objects. A cell is \<open>None\<close> while no
  object lives in it. The eager pool (\<open>isLazy = false\<close>) constructs all objects at once and
  keeps them until its destructor; \<open>Acquire\<close> only calls \<open>Init\<close> where the type has one, and
  \<open>Release\<close> only \<open>Reset\<close>. The lazy pool constructs in \<open>Acquire\<close> and destroys in
  \<open>Release\<close>. A deleter, when given, replaces what \<open>Release\<close> does. \<open>hasInit\<close> and
  \<open>hasReset\<close> of \<open>PoolConcepts.hpp\<close> are the two optional functions of the type.
\<close>

record 'a object_type =
  ot_make :: 'a
  ot_Init :: "('a \<Rightarrow> 'a) option"
  ot_Reset :: "('a \<Rightarrow> 'a) option"

record 'a object_pool =
  op_N :: nat
  op_lazy :: bool
  op_mem :: "nat \<Rightarrow> 'a option"

definition ObjectPool_new :: "'a object_type \<Rightarrow> nat \<Rightarrow> bool \<Rightarrow> 'a object_pool" where
  "ObjectPool_new T n isLazy =
     \<lparr> op_N = n, op_lazy = isLazy,
       op_mem = (\<lambda>i. if \<not> isLazy \<and> i < n then Some (ot_make T) else None) \<rparr>"

text \<open>The address of cell \<open>idx\<close> read as an object.\<close>

definition ObjectPool_Get :: "'a object_pool \<Rightarrow> nat \<Rightarrow> 'a res" where
  "ObjectPool_Get p idx =
     andThen (require (idx < op_N p) OutOfBounds) (\<lambda>_.
     case op_mem p idx of None \<Rightarrow> Inl RawMemory | Some x \<Rightarrow> Inr x)"

definition op_store :: "'a object_pool \<Rightarrow> nat \<Rightarrow> 'a option \<Rightarrow> 'a object_pool" where
  "op_store p idx x = p\<lparr> op_mem := (op_mem p)(idx := x) \<rparr>"

text \<open>The destructor loop of the eager pool; the lazy pool destroys nothing.\<close>

fun destroy_all :: "'a object_pool \<Rightarrow> nat list \<Rightarrow> 'a object_pool res" where
  "destroy_all p [] = Inr p"
| "destroy_all p (i # is) =
     andThen (ObjectPool_Get p i) (\<lambda>_. destroy_all (op_store p i None) is)"

definition ObjectPool_delete :: "'a object_pool \<Rightarrow> 'a object_pool res" where
  "ObjectPool_delete p = (if \<not> op_lazy p then destroy_all p [0 ..< op_N p] else Inr p)"

definition ObjectPool_Acquire :: "'a object_type \<Rightarrow> 'a object_pool \<Rightarrow> nat \<Rightarrow> 'a object_pool res" where
  "ObjectPool_Acquire T p idx =
     (if op_lazy p then
        andThen (require (idx < op_N p) OutOfBounds) (\<lambda>_. Inr (op_store p idx (Some (ot_make T))))
      else
        (case ot_Init T of
           Some init \<Rightarrow> andThen (ObjectPool_Get p idx) (\<lambda>x. Inr (op_store p idx (Some (init x))))
         | None \<Rightarrow> Inr p))"

definition ObjectPool_Release ::
    "'a object_type \<Rightarrow> ('a \<Rightarrow> 'a) option \<Rightarrow> 'a object_pool \<Rightarrow> nat \<Rightarrow> 'a object_pool res" where
  "ObjectPool_Release T deleter p idx =
     (case deleter of
        Some del \<Rightarrow> andThen (ObjectPool_Get p idx) (\<lambda>x. Inr (op_store p idx (Some (del x))))
      | None \<Rightarrow>
          if op_lazy p then andThen (ObjectPool_Get p idx) (\<lambda>_. Inr (op_store p idx None))
          else
            (case ot_Reset T of
               Some reset \<Rightarrow> andThen (ObjectPool_Get p idx) (\<lambda>x. Inr (op_store p idx (Some (reset x))))
             | None \<Rightarrow> Inr p))"

text \<open>
  \<open>op_live p\<close>: the indices in which an object lives. The eager pool keeps all of them live.
\<close>

definition op_live :: "'a object_pool \<Rightarrow> nat set" where
  "op_live p = {i. i < op_N p \<and> op_mem p i \<noteq> None}"

definition eager_full :: "'a object_pool \<Rightarrow> bool" where
  "eager_full p \<longleftrightarrow> \<not> op_lazy p \<and> (\<forall>i < op_N p. op_mem p i \<noteq> None)"

lemma Get_full: "eager_full p \<Longrightarrow> i < op_N p \<Longrightarrow> ObjectPool_Get p i = Inr (the (op_mem p i))"
  by (auto simp: eager_full_def ObjectPool_Get_def)

lemma op_store_simps [simp]:
  "op_N (op_store p i x) = op_N p" "op_lazy (op_store p i x) = op_lazy p"
  "op_mem (op_store p i x) = (op_mem p)(i := x)"
  by (simp_all add: op_store_def)

lemma eager_full_store: "eager_full p \<Longrightarrow> eager_full (op_store p i (Some x))"
  by (auto simp: eager_full_def)

lemma destroy_all_live:
  "distinct is \<Longrightarrow> (\<forall>i \<in> set is. i < op_N p \<and> op_mem p i \<noteq> None) \<Longrightarrow>
   returns (destroy_all p is) (\<lambda>p'. op_live p' = op_live p - set is)"
proof (induction "is" arbitrary: p)
  case Nil
  then show ?case by simp
next
  case (Cons i "is")
  then have "ObjectPool_Get p i = Inr (the (op_mem p i))" by (auto simp: ObjectPool_Get_def)
  moreover have "returns (destroy_all (op_store p i None) is)
      (\<lambda>p'. op_live p' = op_live (op_store p i None) - set is)"
    by (rule Cons.IH) (use Cons.prems in auto)
  moreover have "op_live (op_store p i None) - set is = op_live p - set (i # is)"
    by (auto simp: op_live_def)
  ultimately show ?case by simp
qed

text \<open>C20: an eager pool never loses an object: it constructs all \<open>N\<close>, \<open>Acquire\<close> and
  \<open>Release\<close> of any index below \<open>N\<close> return and keep all of them alive, and the destructor
  destroys each of them.\<close>

theorem ObjectPool_eager_lifetime:
  assumes "eager_full p" and "idx < op_N p"
  shows "returns (ObjectPool_Acquire T p idx) (\<lambda>q. eager_full q \<and> op_N q = op_N p) \<and>
         returns (ObjectPool_Release T d p idx) (\<lambda>q. eager_full q \<and> op_N q = op_N p) \<and>
         returns (ObjectPool_delete p) (\<lambda>q. op_live q = {}) \<and>
         eager_full (ObjectPool_new T n False)"
proof -
  have "returns (ObjectPool_delete p) (\<lambda>q. op_live q = {})"
    unfolding ObjectPool_delete_def
    using destroy_all_live [of "[0 ..< op_N p]" p] assms(1)
    by (auto simp: eager_full_def op_live_def elim!: returns_mono)
  then show ?thesis
    using assms
    by (auto simp: ObjectPool_Acquire_def ObjectPool_Release_def Get_full eager_full_store
        eager_full_def ObjectPool_new_def split: option.splits)
qed

theorem ObjectPool_eager_lifetime_witness:
  "returns (ObjectPool_delete (ObjectPool_new \<lparr> ot_make = 7 :: nat, ot_Init = None, ot_Reset = None \<rparr> 3 False))
     (\<lambda>q. op_live q = {})"
proof -
  let ?T = "\<lparr> ot_make = 7 :: nat, ot_Init = None, ot_Reset = None \<rparr>"
  have h: "eager_full (ObjectPool_new ?T 3 False)" "0 < op_N (ObjectPool_new ?T 3 False)"
    by (auto simp: eager_full_def ObjectPool_new_def)
  show ?thesis using ObjectPool_eager_lifetime [OF h, of ?T None] by simp
qed

text \<open>C21: in a lazy pool without a deleter an index alternates between acquired and released:
  a released index is raw storage, a use of it through \<open>Release\<close> or \<open>Get\<close> is a use of
  storage without an object, and an acquired index holds a freshly constructed object.\<close>

theorem ObjectPool_lazy_lifetime:
  assumes "op_lazy p" and "idx < op_N p"
  shows "\<exists>q. ObjectPool_Acquire T p idx = Inr q \<and> ObjectPool_Get q idx = Inr (ot_make T) \<and>
           (\<exists>r. ObjectPool_Release T None q idx = Inr r \<and>
                op_live r = op_live p - {idx} \<and>
                ObjectPool_Get r idx = Inl RawMemory \<and>
                ObjectPool_Release T None r idx = Inl RawMemory)"
  using assms
  by (auto simp: ObjectPool_Acquire_def ObjectPool_Release_def ObjectPool_Get_def op_live_def)

theorem ObjectPool_lazy_lifetime_witness:
  "\<exists>q. ObjectPool_Acquire \<lparr> ot_make = 7 :: nat, ot_Init = None, ot_Reset = None \<rparr>
         (ObjectPool_new \<lparr> ot_make = 7, ot_Init = None, ot_Reset = None \<rparr> 3 True) 1 = Inr q \<and>
       ObjectPool_Get q 1 = Inr 7"
proof -
  let ?T = "\<lparr> ot_make = 7 :: nat, ot_Init = None, ot_Reset = None \<rparr>"
  have h: "op_lazy (ObjectPool_new ?T 3 True)" "1 < op_N (ObjectPool_new ?T 3 True)"
    by (auto simp: ObjectPool_new_def)
  show ?thesis using ObjectPool_lazy_lifetime [OF h, of ?T] by auto
qed

end
