(* ===== verification/SparsePool.thy ===== *)
theory SparsePool
  imports SparseSet ObjectPool
begin

section \<open>Common/Pool: SparsePool, its slots, and SharedPoolPtr\<close>

text \<open>
  \<open>SparsePool<T, N, StateCount>\<close> combines a \<open>SparseSet\<close>, which allocates indices, with an
  eager \<open>ObjectPool\<close> of slots. A slot holds the object, its handle and a reference count. A
  \<open>SharedPoolPtr\<close> is a pool pointer and a handle; it counts as one reference. When the last
  reference goes, the slot is released, its index is pushed back and \<open>postReleaseFunc_\<close> is
  called.

  Three calls leave the pool: \<open>T::Init\<close> on the object of a slot that is being acquired, the
  user's deleter, and \<open>postReleaseFunc_\<close>. In the server all of them can reach state outside
  the pool (the object's own smart pointers, the listener). The pool operations are therefore
  written over a host state \<open>'w\<close> that contains the pool: a record of type \<open>pool_host\<close> says
  how to read and replace the pool inside the host, and what the three calls do to the host.
  The mutex \<open>cs_\<close> makes each of its critical sections one step; it is not part of the state.
\<close>

subsection \<open>Data\<close>

record 'a pslot =
  ps_obj :: 'a
  ps_handle :: u64
  ps_refCount :: nat

record 'a sparse_pool =
  sp_set :: sparse_set
  sp_pool :: "'a pslot object_pool"

text \<open>\<open>sptr_pool\<close> is whether \<open>pool_\<close> is non-null; all pointers of one type share one pool.\<close>

record shared_ptr =
  sptr_pool :: bool
  sptr_handle :: u64

record ('w, 'a) pool_host =
  ph_get :: "'w \<Rightarrow> 'a sparse_pool"
  ph_put :: "'a sparse_pool \<Rightarrow> 'w \<Rightarrow> 'w"
  ph_init :: "'w \<Rightarrow> nat \<Rightarrow> 'w res"
  ph_deleter :: "'w \<Rightarrow> nat \<Rightarrow> 'w res"
  ph_post :: "'w \<Rightarrow> 'w res"

definition Slot_new :: "'a \<Rightarrow> 'a pslot" where
  "Slot_new x = \<lparr> ps_obj = x, ps_handle = kInvalidHandle, ps_refCount = 0 \<rparr>"

definition SparsePool_new :: "'a \<Rightarrow> nat \<Rightarrow> nat \<Rightarrow> 'a sparse_pool" where
  "SparsePool_new x n k =
     \<lparr> sp_set = SparseSet_init n k,
       sp_pool = ObjectPool_new \<lparr> ot_make = Slot_new x, ot_Init = None, ot_Reset = None \<rparr> n False \<rparr>"

definition nullSharedPtr :: shared_ptr where
  "nullSharedPtr = \<lparr> sptr_pool = False, sptr_handle = kInvalidHandle \<rparr>"

lemma nullSharedPtr_fields [simp]:
  "\<not> sptr_pool nullSharedPtr" "sptr_handle nullSharedPtr = kInvalidHandle"
  by (simp_all add: nullSharedPtr_def)

subsection \<open>The pool inside its host\<close>

definition slot_at :: "('w, 'a) pool_host \<Rightarrow> 'w \<Rightarrow> nat \<Rightarrow> 'a pslot res" where
  "slot_at H w idx = ObjectPool_Get (sp_pool (ph_get H w)) idx"

definition slot_upd :: "('w, 'a) pool_host \<Rightarrow> 'w \<Rightarrow> nat \<Rightarrow> ('a pslot \<Rightarrow> 'a pslot) \<Rightarrow> 'w res" where
  "slot_upd H w idx f =
     andThen (slot_at H w idx) (\<lambda>s.
     let p = ph_get H w in
     Inr (ph_put H (p\<lparr> sp_pool := op_store (sp_pool p) idx (Some (f s)) \<rparr>) w))"

text \<open>\<open>Slot::Init\<close>: the object's own \<open>Init\<close> where it has one, then handle and count.\<close>

definition Slot_Init :: "('w, 'a) pool_host \<Rightarrow> 'w \<Rightarrow> nat \<Rightarrow> 'w res" where
  "Slot_Init H w idx =
     andThen (ph_init H w idx) (\<lambda>w1.
     slot_upd H w1 idx (\<lambda>s. s\<lparr> ps_handle := kInvalidHandle, ps_refCount := 0 \<rparr>))"

definition SparsePool_IsValid :: "('w, 'a) pool_host \<Rightarrow> 'w \<Rightarrow> u64 \<Rightarrow> bool" where
  "SparsePool_IsValid H w h = SparseSet_IsValid (sp_set (ph_get H w)) h"

definition SparsePool_GetObj :: "('w, 'a) pool_host \<Rightarrow> 'w \<Rightarrow> u64 \<Rightarrow> 'a res" where
  "SparsePool_GetObj H w h = andThen (slot_at H w (who_of h)) (\<lambda>s. Inr (ps_obj s))"

definition SparsePool_MoveToState :: "('w, 'a) pool_host \<Rightarrow> 'w \<Rightarrow> u64 \<Rightarrow> nat \<Rightarrow> 'w res" where
  "SparsePool_MoveToState H w h newState =
     (let p = ph_get H w in
      andThen (SparseSet_MoveToState (sp_set p) h newState) (\<lambda>ss.
      Inr (ph_put H (p\<lparr> sp_set := ss \<rparr>) w)))"

text \<open>\<open>fetch_add\<close> and \<open>fetch_sub\<close> on the count; a count is a \<open>size_t\<close>.\<close>

definition SparsePool_AddRef :: "('w, 'a) pool_host \<Rightarrow> 'w \<Rightarrow> u64 \<Rightarrow> 'w res" where
  "SparsePool_AddRef H w h =
     slot_upd H w (who_of h) (\<lambda>s. s\<lparr> ps_refCount := trunc64 (ps_refCount s + 1) \<rparr>)"

definition SparsePool_ReleaseRef :: "('w, 'a) pool_host \<Rightarrow> 'w \<Rightarrow> u64 \<Rightarrow> 'w res" where
  "SparsePool_ReleaseRef H w h =
     (let idx = who_of h in
      andThen (slot_at H w idx) (\<lambda>s.
      andThen (slot_upd H w idx (\<lambda>s. s\<lparr> ps_refCount := sub64 (ps_refCount s) 1 \<rparr>)) (\<lambda>w1.
      if ps_refCount s = 1 then
        andThen (ph_deleter H w1 idx) (\<lambda>w2.
        let p = ph_get H w2 in
        andThen (SparseSet_Push (sp_set p) h) (\<lambda>ss.
        ph_post H (ph_put H (p\<lparr> sp_set := ss \<rparr>) w2)))
      else Inr w1)))"

subsection \<open>SharedPoolPtr\<close>

definition SharedPoolPtr_make :: "('w, 'a) pool_host \<Rightarrow> 'w \<Rightarrow> u64 \<Rightarrow> ('w \<times> shared_ptr) res" where
  "SharedPoolPtr_make H w h =
     andThen (SparsePool_AddRef H w h) (\<lambda>w1.
     Inr (w1, \<lparr> sptr_pool = True, sptr_handle = h \<rparr>))"

definition SharedPoolPtr_copy :: "('w, 'a) pool_host \<Rightarrow> 'w \<Rightarrow> shared_ptr \<Rightarrow> ('w \<times> shared_ptr) res" where
  "SharedPoolPtr_copy H w other =
     (if sptr_pool other
      then andThen (SparsePool_AddRef H w (sptr_handle other)) (\<lambda>w1. Inr (w1, other))
      else Inr (w, other))"

text \<open>The destructor.\<close>

definition SharedPoolPtr_delete :: "('w, 'a) pool_host \<Rightarrow> 'w \<Rightarrow> shared_ptr \<Rightarrow> 'w res" where
  "SharedPoolPtr_delete H w p =
     (if sptr_pool p then SparsePool_ReleaseRef H w (sptr_handle p) else Inr w)"

text \<open>
  Copy assignment of another object: the new reference is taken before the old one is given
  back. \<open>same\<close> is the test \<open>this == &other\<close>.
\<close>

definition SharedPoolPtr_assign ::
    "('w, 'a) pool_host \<Rightarrow> 'w \<Rightarrow> bool \<Rightarrow> shared_ptr \<Rightarrow> shared_ptr \<Rightarrow> ('w \<times> shared_ptr) res" where
  "SharedPoolPtr_assign H w same this other =
     (if same then Inr (w, this)
      else
        andThen (if sptr_pool other then SparsePool_AddRef H w (sptr_handle other) else Inr w) (\<lambda>w1.
        andThen (if sptr_pool this then SparsePool_ReleaseRef H w1 (sptr_handle this) else Inr w1) (\<lambda>w2.
        Inr (w2, other))))"

text \<open>Move construction: the new pointer and what is left in the source.\<close>

definition SharedPoolPtr_move :: "shared_ptr \<Rightarrow> shared_ptr \<times> shared_ptr" where
  "SharedPoolPtr_move other = (other, nullSharedPtr)"

text \<open>
  Move assignment: the old reference is given back first. The result is the new value of the
  target and of the source.
\<close>

definition SharedPoolPtr_move_assign ::
    "('w, 'a) pool_host \<Rightarrow> 'w \<Rightarrow> bool \<Rightarrow> shared_ptr \<Rightarrow> shared_ptr \<Rightarrow> ('w \<times> shared_ptr \<times> shared_ptr) res" where
  "SharedPoolPtr_move_assign H w same this other =
     (if same then Inr (w, this, other)
      else
        andThen (if sptr_pool this then SparsePool_ReleaseRef H w (sptr_handle this) else Inr w) (\<lambda>w1.
        Inr (w1, other, nullSharedPtr)))"

definition SharedPoolPtr_IsValid :: "('w, 'a) pool_host \<Rightarrow> 'w \<Rightarrow> shared_ptr \<Rightarrow> bool" where
  "SharedPoolPtr_IsValid H w p \<longleftrightarrow> sptr_pool p \<and> SparsePool_IsValid H w (sptr_handle p)"

text \<open>\<open>operator->\<close>, \<open>operator*\<close> and \<open>Get\<close>: a call through a null \<open>pool_\<close>.\<close>

definition SharedPoolPtr_Get :: "('w, 'a) pool_host \<Rightarrow> 'w \<Rightarrow> shared_ptr \<Rightarrow> 'a res" where
  "SharedPoolPtr_Get H w p =
     andThen (require (sptr_pool p) NullPointer) (\<lambda>_. SparsePool_GetObj H w (sptr_handle p))"

definition SharedPoolPtr_Reset :: "('w, 'a) pool_host \<Rightarrow> 'w \<Rightarrow> shared_ptr \<Rightarrow> ('w \<times> shared_ptr) res" where
  "SharedPoolPtr_Reset H w p =
     andThen (if sptr_pool p then SparsePool_ReleaseRef H w (sptr_handle p) else Inr w) (\<lambda>w1.
     Inr (w1, nullSharedPtr))"

subsection \<open>SparsePool::Acquire\<close>

definition SparsePool_Acquire :: "('w, 'a) pool_host \<Rightarrow> 'w \<Rightarrow> nat \<Rightarrow> ('w \<times> shared_ptr) res" where
  "SparsePool_Acquire H w st =
     (let p = ph_get H w in
      andThen (SparseSet_Pop (sp_set p) st) (\<lambda>(ss, h).
      let w1 = ph_put H (p\<lparr> sp_set := ss \<rparr>) w in
      if \<not> SparsePool_IsValid H w1 h then Inr (w1, nullSharedPtr)
      else
        let idx = who_of h in
        andThen (Slot_Init H w1 idx) (\<lambda>w2.
        andThen (slot_upd H w2 idx (\<lambda>s. s\<lparr> ps_handle := h \<rparr>)) (\<lambda>w3.
        SharedPoolPtr_make H w3 h))))"


subsection \<open>The state of a pool, abstractly\<close>

definition slot_of :: "'a sparse_pool \<Rightarrow> nat \<Rightarrow> 'a pslot" where
  "slot_of p i = the (op_mem (sp_pool p) i)"

definition upd_slot :: "'a sparse_pool \<Rightarrow> nat \<Rightarrow> ('a pslot \<Rightarrow> 'a pslot) \<Rightarrow> 'a sparse_pool" where
  "upd_slot p i f = p\<lparr> sp_pool := op_store (sp_pool p) i (Some (f (slot_of p i))) \<rparr>"

abbreviation pool_N :: "'a sparse_pool \<Rightarrow> nat" where
  "pool_N p \<equiv> ss_N (sp_set p)"

abbreviation pool_state :: "'a sparse_pool \<Rightarrow> nat \<Rightarrow> nat" where
  "pool_state p i \<equiv> sl_state (ss_sparse (sp_set p) i)"

abbreviation pool_handle :: "'a sparse_pool \<Rightarrow> nat \<Rightarrow> u64" where
  "pool_handle p i \<equiv> cur_handle (sp_set p) i"

definition pool_wf :: "'a sparse_pool \<Rightarrow> bool" where
  "pool_wf p \<longleftrightarrow> sset_inv (sp_set p) \<and> 1 < ss_K (sp_set p) \<and> eager_full (sp_pool p) \<and>
     op_N (sp_pool p) = pool_N p"

text \<open>
  \<open>pool_ok p c\<close>: the pool is well formed, \<open>c i\<close> references to slot \<open>i\<close> exist and the slot
  counts them, and the idle slots are those without a reference.
\<close>

definition pool_ok :: "'a sparse_pool \<Rightarrow> (nat \<Rightarrow> nat) \<Rightarrow> bool" where
  "pool_ok p c \<longleftrightarrow> pool_wf p \<and>
     (\<forall>i < pool_N p. ps_refCount (slot_of p i) = c i \<and> (c i = 0 \<longleftrightarrow> pool_state p i = 0))"

lemma pool_wfD:
  assumes "pool_wf p"
  shows "sset_inv (sp_set p)" and "1 < ss_K (sp_set p)" and "eager_full (sp_pool p)"
    and "op_N (sp_pool p) = pool_N p" and "pool_N p < 2 ^ 32"
  using assms sset_invD(2) [of "sp_set p"] by (auto simp: pool_wf_def)

lemma pool_okD:
  assumes "pool_ok p c"
  shows "pool_wf p"
    and "\<And>i. i < pool_N p \<Longrightarrow> ps_refCount (slot_of p i) = c i"
    and "\<And>i. i < pool_N p \<Longrightarrow> c i = 0 \<longleftrightarrow> pool_state p i = 0"
  using assms by (auto simp: pool_ok_def)

lemma pool_ok_cong:
  "pool_ok p c \<Longrightarrow> (\<And>i. i < pool_N p \<Longrightarrow> c i = c' i) \<Longrightarrow> pool_ok p c'"
  by (auto simp: pool_ok_def)

lemma upd_slot_simps [simp]:
  "sp_set (upd_slot p i f) = sp_set p"
  "op_N (sp_pool (upd_slot p i f)) = op_N (sp_pool p)"
  "slot_of (upd_slot p i f) j = (if j = i then f (slot_of p i) else slot_of p j)"
  by (simp_all add: upd_slot_def slot_of_def)

lemma slot_of_set_update [simp]: "slot_of (p\<lparr> sp_set := ss \<rparr>) i = slot_of p i"
  by (simp add: slot_of_def)

lemma pool_wf_upd_slot [simp]: "pool_wf p \<Longrightarrow> pool_wf (upd_slot p i f)"
  by (auto simp: pool_wf_def upd_slot_def eager_full_store)

lemma pool_wf_set:
  "pool_wf p \<Longrightarrow> sset_inv ss \<Longrightarrow> ss_N ss = pool_N p \<Longrightarrow> ss_K ss = ss_K (sp_set p) \<Longrightarrow>
   pool_wf (p\<lparr> sp_set := ss \<rparr>)"
  by (simp add: pool_wf_def)

lemma upd_slot_id: "pool_wf p \<Longrightarrow> i < pool_N p \<Longrightarrow> upd_slot p i (\<lambda>s. s) = p"
  by (auto simp: pool_wf_def eager_full_def upd_slot_def op_store_def slot_of_def fun_upd_idem_iff)

lemma slot_of_new [simp]: "i < n \<Longrightarrow> slot_of (SparsePool_new x n k) i = Slot_new x"
  by (simp add: SparsePool_new_def slot_of_def ObjectPool_new_def)

lemma pool_ok_new:
  assumes "1 < k" and "n < 2 ^ 32"
  shows "pool_ok (SparsePool_new x n k) (\<lambda>_. 0)"
proof -
  have "pool_wf (SparsePool_new x n k)"
    using assms sset_inv_init [of k n]
    by (simp add: pool_wf_def SparsePool_new_def ObjectPool_new_def eager_full_def SparseSet_init_def)
  moreover have "pool_N (SparsePool_new x n k) = n" and "\<And>i. pool_state (SparsePool_new x n k) i = 0"
    by (simp_all add: SparsePool_new_def SparseSet_init_def)
  ultimately show ?thesis
    by (simp add: pool_ok_def Slot_new_def)
qed

text \<open>References gained and lost, on the pool alone.\<close>

lemma pool_ok_gain:
  assumes ok: "pool_ok p c" and i: "i < pool_N p" "0 < c i" "c i + 1 < 2 ^ 64"
  shows "pool_ok (upd_slot p i (\<lambda>s. s\<lparr> ps_refCount := trunc64 (ps_refCount s + 1) \<rparr>))
           (c(i := c i + 1))"
  using ok i by (auto simp: pool_ok_def)

lemma pool_ok_lose:
  assumes ok: "pool_ok p c" and i: "i < pool_N p" "1 < c i" "c i < 2 ^ 64"
  shows "pool_ok (upd_slot p i (\<lambda>s. s\<lparr> ps_refCount := sub64 (ps_refCount s) 1 \<rparr>))
           (c(i := c i - 1))"
  using ok i by (auto simp: pool_ok_def sub64_id)

lemma pool_ok_free:
  assumes ok: "pool_ok p c" and i: "i < pool_N p" "c i = 1" and pu: "pushed (sp_set p) ss i"
  shows "pool_ok ((upd_slot p i (\<lambda>s. s\<lparr> ps_refCount := sub64 (ps_refCount s) 1 \<rparr>))\<lparr> sp_set := ss \<rparr>)
           (c(i := 0))"
proof -
  have "pool_wf ((upd_slot p i (\<lambda>s. s\<lparr> ps_refCount := sub64 (ps_refCount s) 1 \<rparr>))\<lparr> sp_set := ss \<rparr>)"
    using pool_okD(1) [OF ok] pushedD(1-3) [OF pu] by (intro pool_wf_set) auto
  then show ?thesis
    using ok i pushedD(2,5) [OF pu] by (auto simp: pool_ok_def sub64_id)
qed

subsection \<open>Lemmas over a lawful host\<close>

text \<open>The contract of a host: \<open>ph_get\<close> and \<open>ph_put\<close> access one component of the host.\<close>

locale pool_host_laws =
  fixes H :: "('w, 'a) pool_host"
  assumes get_put [simp]: "ph_get H (ph_put H p w) = p"
    and put_put [simp]: "ph_put H p (ph_put H q w) = ph_put H p w"
    and put_get [simp]: "ph_put H (ph_get H w) w = w"
begin

lemma slot_at_eq:
  "pool_wf (ph_get H w) \<Longrightarrow> i < pool_N (ph_get H w) \<Longrightarrow>
   slot_at H w i = Inr (slot_of (ph_get H w) i)"
  by (simp add: slot_at_def slot_of_def Get_full pool_wf_def)

lemma slot_upd_eq:
  "pool_wf (ph_get H w) \<Longrightarrow> i < pool_N (ph_get H w) \<Longrightarrow>
   slot_upd H w i f = Inr (ph_put H (upd_slot (ph_get H w) i f) w)"
  by (simp add: slot_upd_def slot_at_eq upd_slot_def Let_def)

lemma slot_upd_bad: "op_N (sp_pool (ph_get H w)) \<le> i \<Longrightarrow> slot_upd H w i f = Inl OutOfBounds"
  by (simp add: slot_upd_def slot_at_def ObjectPool_Get_def)

lemma AddRef_eq:
  "pool_wf (ph_get H w) \<Longrightarrow> who_of h < pool_N (ph_get H w) \<Longrightarrow>
   SparsePool_AddRef H w h = Inr (ph_put H (upd_slot (ph_get H w) (who_of h)
      (\<lambda>s. s\<lparr> ps_refCount := trunc64 (ps_refCount s + 1) \<rparr>)) w)"
  by (simp add: SparsePool_AddRef_def slot_upd_eq)

lemma ReleaseRef_keep:
  "pool_wf (ph_get H w) \<Longrightarrow> who_of h < pool_N (ph_get H w) \<Longrightarrow>
   ps_refCount (slot_of (ph_get H w) (who_of h)) \<noteq> 1 \<Longrightarrow>
   SparsePool_ReleaseRef H w h = Inr (ph_put H (upd_slot (ph_get H w) (who_of h)
      (\<lambda>s. s\<lparr> ps_refCount := sub64 (ps_refCount s) 1 \<rparr>)) w)"
  by (simp add: SparsePool_ReleaseRef_def slot_at_eq slot_upd_eq Let_def)

lemma ReleaseRef_last:
  assumes wf: "pool_wf (ph_get H w)" and i: "who_of h < pool_N (ph_get H w)"
    and c: "ps_refCount (slot_of (ph_get H w) (who_of h)) = 1"
    and del: "\<And>w i. ph_deleter H w i = Inr w"
  shows "\<exists>ss. pushed (sp_set (ph_get H w)) ss (who_of h) \<and>
     SparsePool_ReleaseRef H w h = ph_post H (ph_put H ((upd_slot (ph_get H w) (who_of h)
        (\<lambda>s. s\<lparr> ps_refCount := sub64 (ps_refCount s) 1 \<rparr>))\<lparr> sp_set := ss \<rparr>) w)"
proof -
  obtain ss where "SparseSet_Push (sp_set (ph_get H w)) h = Inr ss"
    and "pushed (sp_set (ph_get H w)) ss (who_of h)"
    using Push_pushes [OF pool_wfD(1) [OF wf] i] by (blast elim: returnsE)
  then show ?thesis
    using wf i c by (auto simp: SparsePool_ReleaseRef_def slot_at_eq slot_upd_eq Let_def del)
qed

lemma MoveToState_eq:
  assumes wf: "pool_wf (ph_get H w)" and i: "who_of h < pool_N (ph_get H w)"
    and s: "s < ss_K (sp_set (ph_get H w))"
  shows "\<exists>ss. moved_to (sp_set (ph_get H w)) ss (who_of h) s \<and>
     SparsePool_MoveToState H w h s = Inr (ph_put H ((ph_get H w)\<lparr> sp_set := ss \<rparr>) w)"
  using MoveToState_moves [OF pool_wfD(1) [OF wf] i s]
  by (auto elim!: returnsE simp: SparsePool_MoveToState_def Let_def)

lemma Acquire_none:
  assumes wf: "pool_wf (ph_get H w)"
    and e: "st \<ge> ss_K (sp_set (ph_get H w)) \<or> in_state (sp_set (ph_get H w)) 0 = {}"
  shows "SparsePool_Acquire H w st = Inr (w, nullSharedPtr)"
  using Pop_none [OF pool_wfD(1) [OF wf] e] kInvalidHandle_not_valid [OF pool_wfD(5) [OF wf]]
  by (simp add: SparsePool_Acquire_def SparsePool_IsValid_def Let_def)

text \<open>
  A successful \<open>Acquire\<close>, when \<open>T::Init\<close> is \<open>f\<close> on the object alone: the new slot is
  one that was idle, it is in the requested state and has one reference.
\<close>

lemma Acquire_some:
  assumes wf: "pool_wf (ph_get H w)" and st: "st < ss_K (sp_set (ph_get H w))"
    and ne: "in_state (sp_set (ph_get H w)) 0 \<noteq> {}"
    and init: "\<And>w i. pool_wf (ph_get H w) \<Longrightarrow> i \<in> in_state (sp_set q) 0 \<Longrightarrow> pool_state (ph_get H w) i = st \<Longrightarrow>
        slot_of (ph_get H w) i = slot_of q i \<Longrightarrow> i < pool_N (ph_get H w) \<Longrightarrow>
        ph_init H w i = Inr (ph_put H (upd_slot (ph_get H w) i (\<lambda>s. s\<lparr> ps_obj := f (ps_obj s) \<rparr>)) w)"
    and q: "q = ph_get H w"
  shows "\<exists>i ss. i \<in> in_state (sp_set q) 0 \<and> moved_to (sp_set q) ss i st \<and>
     SparsePool_Acquire H w st =
       Inr (ph_put H (upd_slot (q\<lparr> sp_set := ss \<rparr>) i
              (\<lambda>s. \<lparr> ps_obj = f (ps_obj s), ps_handle = pool_handle q i, ps_refCount = 1 \<rparr>)) w,
            \<lparr> sptr_pool = True, sptr_handle = pool_handle q i \<rparr>)"
proof -
  have inv: "sset_inv (sp_set q)" using wf q by (simp add: pool_wf_def)
  obtain ss i where pop: "SparseSet_Pop (sp_set q) st = Inr (ss, pool_handle q i)"
    and i: "i \<in> in_state (sp_set q) 0" and m: "moved_to (sp_set q) ss i st"
    using Pop_idle [OF inv] st ne q by (fastforce elim!: returnsE)
  have iN: "i < pool_N q" "i < 2 ^ 32" using i sset_invD(2) [OF inv] by (auto simp: in_state_def)
  let ?p1 = "q\<lparr> sp_set := ss \<rparr>"
  let ?w1 = "ph_put H ?p1 w"
  have wf1: "pool_wf ?p1" using wf q moved_toD(1-3) [OF m] by (intro pool_wf_set) auto
  have N1: "i < pool_N ?p1" using iN moved_toD(2) [OF m] by simp
  have "cur_handle ss i = pool_handle q i" by (simp add: cur_handle_def moved_toD(4) [OF m])
  then have v: "SparsePool_IsValid H ?w1 (pool_handle q i)"
    using iN N1 by (simp add: SparsePool_IsValid_def IsValid_iff_cur_handle)
  have in1: "ph_init H ?w1 i = Inr (ph_put H (upd_slot ?p1 i (\<lambda>s. s\<lparr> ps_obj := f (ps_obj s) \<rparr>)) w)"
    using init [of ?w1 i] wf1 i N1 moved_toD(5) [OF m] by simp
  have coll: "upd_slot (upd_slot p j g) j g' = upd_slot p j (\<lambda>s. g' (g s))" for p :: "'a sparse_pool" and j g g'
    by (simp add: upd_slot_def slot_of_def op_store_def)
  have rec: "s\<lparr> ps_obj := a, ps_handle := b, ps_refCount := c \<rparr> =
      \<lparr> ps_obj = a, ps_handle = b, ps_refCount = c \<rparr>" for s :: "'a pslot" and a b c
    by (cases s) simp
  show ?thesis
    using pop q v in1 wf1 N1 iN i m
    by (intro exI [of _ i] exI [of _ ss])
       (simp add: SparsePool_Acquire_def Let_def Slot_Init_def slot_upd_eq SharedPoolPtr_make_def
         AddRef_eq coll rec)
qed

end

end
