(* ===== verification/SparsePool_Props.thy ===== *)
theory SparsePool_Props
  imports SparsePool "HOL-Library.Multiset"
begin

section \<open>What SparsePool and SharedPoolPtr promise\<close>

text \<open>
  A program over smart pointers: a list of pointer variables and operations on them. For a
  pool whose callbacks do nothing (the packet pool of the server), every such program runs
  without a fault, each slot counts exactly the variables that point to it, a variable is
  never dangling, and a slot is idle exactly when no variable points to it.
\<close>

datatype ptr_op =
    PAcquire nat           \<comment> \<open>a new variable initialised with \<open>Acquire(state)\<close>\<close>
  | PCopy nat              \<comment> \<open>a new variable copied from variable \<open>j\<close>\<close>
  | PMove nat              \<comment> \<open>a new variable moved from variable \<open>j\<close>\<close>
  | PAssign nat nat        \<comment> \<open>\<open>v[i] = v[j]\<close>\<close>
  | PMoveAssign nat nat    \<comment> \<open>\<open>v[i] = std::move(v[j])\<close>\<close>
  | PReset nat             \<comment> \<open>\<open>v[i].Reset()\<close>\<close>

definition ptr_step :: "('w, 'a) pool_host \<Rightarrow> 'w \<times> shared_ptr list \<Rightarrow> ptr_op \<Rightarrow> ('w \<times> shared_ptr list) res" where
  "ptr_step H c a = (let w = fst c; vs = snd c in
     case a of
       PAcquire st \<Rightarrow> andThen (SparsePool_Acquire H w st) (\<lambda>(w1, p). Inr (w1, vs @ [p]))
     | PCopy j \<Rightarrow> if j < length vs
         then andThen (SharedPoolPtr_copy H w (vs ! j)) (\<lambda>(w1, p). Inr (w1, vs @ [p])) else Inr c
     | PMove j \<Rightarrow> if j < length vs
         then (let (p, q) = SharedPoolPtr_move (vs ! j) in Inr (w, vs[j := q] @ [p])) else Inr c
     | PAssign i j \<Rightarrow> if i < length vs \<and> j < length vs
         then andThen (SharedPoolPtr_assign H w (i = j) (vs ! i) (vs ! j)) (\<lambda>(w1, p).
              Inr (w1, vs[i := p])) else Inr c
     | PMoveAssign i j \<Rightarrow> if i < length vs \<and> j < length vs
         then andThen (SharedPoolPtr_move_assign H w (i = j) (vs ! i) (vs ! j)) (\<lambda>(w1, p, q).
              Inr (w1, (vs[j := q])[i := p])) else Inr c
     | PReset i \<Rightarrow> if i < length vs
         then andThen (SharedPoolPtr_Reset H w (vs ! i)) (\<lambda>(w1, p). Inr (w1, vs[i := p])) else Inr c)"

fun ptr_run :: "('w, 'a) pool_host \<Rightarrow> 'w \<times> shared_ptr list \<Rightarrow> ptr_op list \<Rightarrow> ('w \<times> shared_ptr list) res" where
  "ptr_run H c [] = Inr c"
| "ptr_run H c (a # as) = andThen (ptr_step H c a) (\<lambda>c'. ptr_run H c' as)"

text \<open>How many variables point to slot \<open>i\<close>.\<close>

definition points_to :: "shared_ptr \<Rightarrow> nat \<Rightarrow> bool" where
  "points_to p i \<longleftrightarrow> sptr_pool p \<and> who_of (sptr_handle p) = i"

definition ptr_count :: "shared_ptr list \<Rightarrow> nat \<Rightarrow> nat" where
  "ptr_count vs i = length (filter (\<lambda>p. points_to p i) vs)"

lemma points_to_null [simp]: "\<not> points_to nullSharedPtr i"
  by (simp add: points_to_def nullSharedPtr_def)

lemma ptr_count_append [simp]: "ptr_count (vs @ us) i = ptr_count vs i + ptr_count us i"
  by (simp add: ptr_count_def)

lemma ptr_count_simps [simp]:
  "ptr_count [] i = 0"
  "ptr_count (p # vs) i = (if points_to p i then Suc (ptr_count vs i) else ptr_count vs i)"
  by (simp_all add: ptr_count_def)

lemma ptr_count_le: "ptr_count vs i \<le> length vs"
  by (simp add: ptr_count_def)

lemma ptr_count_update:
  "j < length vs \<Longrightarrow>
   ptr_count (vs[j := q]) i + (if points_to (vs ! j) i then 1 else 0) =
   ptr_count vs i + (if points_to q i then 1 else 0)"
proof (induction vs arbitrary: j)
  case (Cons v vs)
  then show ?case by (cases j) auto
qed simp

lemma ptr_count_pos: "j < length vs \<Longrightarrow> points_to (vs ! j) i \<Longrightarrow> 0 < ptr_count vs i"
  by (auto simp: ptr_count_def filter_empty_conv)

text \<open>Every non-null pointer carries the current handle of a slot in use.\<close>

definition ptr_fresh :: "'a sparse_pool \<Rightarrow> shared_ptr \<Rightarrow> bool" where
  "ptr_fresh p v \<longleftrightarrow> (sptr_pool v \<longrightarrow>
     who_of (sptr_handle v) < pool_N p \<and> sptr_handle v = pool_handle p (who_of (sptr_handle v)))"

lemma ptr_fresh_null [simp]: "ptr_fresh p nullSharedPtr"
  by (simp add: ptr_fresh_def nullSharedPtr_def)

definition vars_ok :: "nat \<Rightarrow> 'a sparse_pool \<Rightarrow> shared_ptr list \<Rightarrow> bool" where
  "vars_ok n p vs \<longleftrightarrow> pool_N p = n \<and> pool_ok p (ptr_count vs) \<and> (\<forall>v \<in> set vs. ptr_fresh p v)"

text \<open>Only the multiset of the variables matters, and null pointers do not.\<close>

lemma ptr_count_mset: "ptr_count vs i = size (filter_mset (\<lambda>p. points_to p i) (mset vs))"
  unfolding ptr_count_def by (metis mset_filter size_mset)

lemma vars_ok_mset:
  assumes "mset vs = mset us"
  shows "vars_ok n p vs \<longleftrightarrow> vars_ok n p us"
proof -
  have "ptr_count vs = ptr_count us" using assms by (simp add: fun_eq_iff ptr_count_mset)
  moreover have "set vs = set us" using assms by (metis set_mset_mset)
  ultimately show ?thesis by (simp add: vars_ok_def)
qed

lemma vars_ok_null [simp]: "vars_ok n p (nullSharedPtr # vs) \<longleftrightarrow> vars_ok n p vs"
proof -
  have "ptr_count (nullSharedPtr # vs) = ptr_count vs" by (simp add: fun_eq_iff)
  then show ?thesis by (simp add: vars_ok_def)
qed

lemma vars_ok_nonptr: "\<not> sptr_pool v \<Longrightarrow> vars_ok n p (v # vs) \<longleftrightarrow> vars_ok n p vs"
proof -
  assume v: "\<not> sptr_pool v"
  then have "ptr_count (v # vs) = ptr_count vs" by (simp add: fun_eq_iff points_to_def)
  then show ?thesis using v by (simp add: vars_ok_def ptr_fresh_def)
qed

lemma vars_ok_snoc: "vars_ok n p (vs @ [v]) \<longleftrightarrow> vars_ok n p (v # vs)"
  by (rule vars_ok_mset) simp

definition others :: "nat \<Rightarrow> 'b list \<Rightarrow> 'b list" where
  "others j vs = take j vs @ drop (Suc j) vs"

lemma mset_others: "j < length vs \<Longrightarrow> mset vs = mset (vs ! j # others j vs)"
  unfolding others_def by (subst id_take_nth_drop [of j vs]) simp_all

lemma mset_upd_others: "j < length vs \<Longrightarrow> mset (vs[j := q]) = mset (q # others j vs)"
  unfolding others_def by (simp add: upd_conv_take_nth_drop)

lemma mset_move_assign:
  assumes i: "i < length vs" and j: "j < length vs" and ij: "i \<noteq> j"
  shows "mset ((vs[j := n])[i := vs ! j]) = mset (n # others i vs)"
proof -
  let ?us = "vs[j := n]"
  have i': "i < length ?us" using i by simp
  have "mset (?us[i := vs ! j]) = add_mset (vs ! j) (mset (others i ?us))"
    using mset_upd_others [OF i', of "vs ! j"] by simp
  moreover have "add_mset (vs ! i) (mset (others i ?us)) = add_mset n (mset (others j vs))"
    using mset_others [OF i'] mset_upd_others [OF j, of n] ij by simp
  moreover have "add_mset (vs ! j) (mset (others j vs)) = add_mset (vs ! i) (mset (others i vs))"
    using mset_others [OF i] mset_others [OF j] by simp
  ultimately have "add_mset (vs ! i) (mset (?us[i := vs ! j])) =
      add_mset (vs ! i) (mset (n # others i vs))"
    by (metis add_mset_commute mset.simps(2))
  then show ?thesis by simp
qed

text \<open>A pool whose callbacks do nothing.\<close>

locale quiet_pool = pool_host_laws H for H :: "('w, 'a) pool_host" +
  assumes init_quiet: "ph_init H w i = Inr w"
    and deleter_quiet: "ph_deleter H w i = Inr w"
    and post_quiet: "ph_post H w = Inr w"
begin

lemma AddRef_ok:
  assumes ok: "pool_ok (ph_get H w) c" and f: "ptr_fresh (ph_get H w) v" and v: "sptr_pool v"
    and c: "0 < c (who_of (sptr_handle v))" "c (who_of (sptr_handle v)) + 1 < 2 ^ 64"
  shows "\<exists>p. SparsePool_AddRef H w (sptr_handle v) = Inr (ph_put H p w) \<and>
     pool_ok p (c(who_of (sptr_handle v) := c (who_of (sptr_handle v)) + 1)) \<and>
     sp_set p = sp_set (ph_get H w)"
  using AddRef_eq [OF pool_okD(1) [OF ok]] pool_ok_gain [OF ok _ c] f v
  by (auto simp: ptr_fresh_def)

text \<open>
  Giving a reference back: either others remain and the set does not change, or the slot is
  pushed and nobody points to it any more.
\<close>

lemma ReleaseRef_ok:
  assumes ok: "pool_ok (ph_get H w) c" and f: "ptr_fresh (ph_get H w) v" and v: "sptr_pool v"
    and c: "0 < c (who_of (sptr_handle v))" "c (who_of (sptr_handle v)) < 2 ^ 64"
  shows "\<exists>p. SparsePool_ReleaseRef H w (sptr_handle v) = Inr (ph_put H p w) \<and>
     pool_ok p (c(who_of (sptr_handle v) := c (who_of (sptr_handle v)) - 1)) \<and>
     (c (who_of (sptr_handle v)) \<noteq> 1 \<and> sp_set p = sp_set (ph_get H w) \<or>
      c (who_of (sptr_handle v)) = 1 \<and> pushed (sp_set (ph_get H w)) (sp_set p) (who_of (sptr_handle v)))"
proof -
  let ?i = "who_of (sptr_handle v)"
  have i: "?i < pool_N (ph_get H w)" using f v by (simp add: ptr_fresh_def)
  note wf = pool_okD(1) [OF ok]
  have rc: "ps_refCount (slot_of (ph_get H w) ?i) = c ?i" using pool_okD(2) [OF ok i] .
  show ?thesis
  proof (cases "c ?i = 1")
    case True
    then obtain ss where p: "pushed (sp_set (ph_get H w)) ss ?i"
      and r: "SparsePool_ReleaseRef H w (sptr_handle v) = ph_post H (ph_put H ((upd_slot (ph_get H w) ?i
        (\<lambda>s. s\<lparr> ps_refCount := sub64 (ps_refCount s) 1 \<rparr>))\<lparr> sp_set := ss \<rparr>) w)"
      using ReleaseRef_last [OF wf i _ deleter_quiet] rc by auto
    then show ?thesis
      using pool_ok_free [OF ok i True p] True by (auto simp: post_quiet)
  next
    case False
    then show ?thesis
      using ReleaseRef_keep [OF wf i] rc pool_ok_lose [OF ok i _ c(2)] c(1) by auto
  qed
qed

lemma fresh_after_push:
  assumes "ptr_fresh p v" and "pushed (sp_set p) (sp_set q) i" and "\<not> points_to v i"
  shows "ptr_fresh q v"
  using assms pushedD(2,4) [OF assms(2)]
  by (auto simp: ptr_fresh_def points_to_def cur_handle_def)

lemma fresh_same_set: "ptr_fresh p v \<Longrightarrow> sp_set q = sp_set p \<Longrightarrow> ptr_fresh q v"
  by (simp add: ptr_fresh_def)


lemma gain_var:
  assumes ok: "vars_ok n (ph_get H w) vs" and v: "sptr_pool v" "v \<in> set vs"
    and len: "length vs + 1 < 2 ^ 64"
  shows "\<exists>p. SparsePool_AddRef H w (sptr_handle v) = Inr (ph_put H p w) \<and> vars_ok n p (v # vs)"
proof -
  let ?i = "who_of (sptr_handle v)"
  have f: "ptr_fresh (ph_get H w) v" and o: "pool_ok (ph_get H w) (ptr_count vs)"
    using ok v by (auto simp: vars_ok_def)
  obtain j where "j < length vs" "vs ! j = v" using v(2) by (auto simp: in_set_conv_nth)
  then have "0 < ptr_count vs ?i" using ptr_count_pos [of j vs ?i] v(1) by (simp add: points_to_def)
  moreover have "ptr_count vs ?i + 1 < 2 ^ 64" using ptr_count_le [of vs ?i] len by linarith
  ultimately obtain p where "SparsePool_AddRef H w (sptr_handle v) = Inr (ph_put H p w)"
    and p: "pool_ok p ((ptr_count vs)(?i := ptr_count vs ?i + 1))" "sp_set p = sp_set (ph_get H w)"
    using AddRef_ok [OF o f v(1)] by blast
  moreover have "(ptr_count vs)(?i := ptr_count vs ?i + 1) = ptr_count (v # vs)"
    using v(1) by (auto simp: fun_eq_iff points_to_def)
  ultimately show ?thesis
    using ok v(2) fresh_same_set [OF _ p(2)] by (auto simp: vars_ok_def)
qed

lemma lose_var:
  assumes ok: "vars_ok n (ph_get H w) (v # vs)" and v: "sptr_pool v"
    and few: "ptr_count vs (who_of (sptr_handle v)) + 1 < 2 ^ 64"
  shows "\<exists>p. SparsePool_ReleaseRef H w (sptr_handle v) = Inr (ph_put H p w) \<and> vars_ok n p vs \<and>
    ss_K (sp_set p) = ss_K (sp_set (ph_get H w))"
proof -
  let ?i = "who_of (sptr_handle v)"
  have f: "ptr_fresh (ph_get H w) v" and o: "pool_ok (ph_get H w) (ptr_count (v # vs))"
    using ok by (auto simp: vars_ok_def)
  have c: "ptr_count (v # vs) ?i = Suc (ptr_count vs ?i)" using v by (simp add: points_to_def)
  moreover have "ptr_count (v # vs) ?i < 2 ^ 64" using c few by simp
  ultimately obtain p where r: "SparsePool_ReleaseRef H w (sptr_handle v) = Inr (ph_put H p w)"
    and p: "pool_ok p ((ptr_count (v # vs))(?i := ptr_count (v # vs) ?i - 1))"
    and s: "sp_set p = sp_set (ph_get H w) \<or>
      ptr_count (v # vs) ?i = 1 \<and> pushed (sp_set (ph_get H w)) (sp_set p) ?i"
    using ReleaseRef_ok [OF o f v] by auto
  have "(ptr_count (v # vs))(?i := ptr_count (v # vs) ?i - 1) = ptr_count vs"
    using v by (auto simp: fun_eq_iff points_to_def)
  moreover have "ptr_fresh p u" if u: "u \<in> set vs" for u
    using s
  proof
    assume "sp_set p = sp_set (ph_get H w)"
    then show ?thesis using u ok fresh_same_set by (auto simp: vars_ok_def)
  next
    assume a: "ptr_count (v # vs) ?i = 1 \<and> pushed (sp_set (ph_get H w)) (sp_set p) ?i"
    then have "\<not> points_to u ?i"
      using u c by (auto simp: ptr_count_def filter_empty_conv)
    moreover have "ptr_fresh (ph_get H w) u" using u ok by (simp add: vars_ok_def)
    ultimately show ?thesis using a fresh_after_push [of "ph_get H w" u p ?i] by blast
  qed
  moreover have "pool_N p = n" using s ok pushedD(2) by (auto simp: vars_ok_def)
  moreover have "ss_K (sp_set p) = ss_K (sp_set (ph_get H w))" using s pushedD(3) by auto
  ultimately show ?thesis using r p by (auto simp: vars_ok_def)
qed

lemma acquire_var:
  assumes ok: "vars_ok n (ph_get H w) vs" and st: "0 < st"
  shows "\<exists>p v. SparsePool_Acquire H w st = Inr (ph_put H p w, v) \<and> vars_ok n p (v # vs) \<and>
     (sptr_pool v \<longleftrightarrow> st < ss_K (sp_set (ph_get H w)) \<and> in_state (sp_set (ph_get H w)) 0 \<noteq> {}) \<and>
     (sptr_pool v \<longrightarrow> ptr_count vs (who_of (sptr_handle v)) = 0) \<and> ss_K (sp_set p) = ss_K (sp_set (ph_get H w))"
proof (cases "st < ss_K (sp_set (ph_get H w)) \<and> in_state (sp_set (ph_get H w)) 0 \<noteq> {}")
  case False
  have wf: "pool_wf (ph_get H w)" using ok by (auto simp: vars_ok_def dest: pool_okD(1))
  then show ?thesis
    using Acquire_none [OF wf, of st] False ok
    by (intro exI [of _ "ph_get H w"]) auto
next
  case True
  let ?q = "ph_get H w"
  have o: "pool_ok ?q (ptr_count vs)" using ok by (auto simp: vars_ok_def)
  note wf = pool_okD(1) [OF o]
  obtain i ss where i: "i \<in> in_state (sp_set ?q) 0" and m: "moved_to (sp_set ?q) ss i st"
    and a: "SparsePool_Acquire H w st =
       Inr (ph_put H (upd_slot (?q\<lparr> sp_set := ss \<rparr>) i
              (\<lambda>s. \<lparr> ps_obj = id (ps_obj s), ps_handle = pool_handle ?q i, ps_refCount = 1 \<rparr>)) w,
            \<lparr> sptr_pool = True, sptr_handle = pool_handle ?q i \<rparr>)"
    using Acquire_some [OF wf, of st ?q id] True by (fastforce simp: init_quiet upd_slot_id)
  have iN: "i < pool_N ?q" "i < 2 ^ 32" "pool_state ?q i = 0"
    using i pool_wfD(5) [OF wf] by (auto simp: in_state_def)
  then have c0: "ptr_count vs i = 0" using pool_okD(3) [OF o, of i] by simp
  have cur: "cur_handle ss = pool_handle ?q"
    using moved_toD(4) [OF m] by (auto simp: cur_handle_def fun_eq_iff)
  let ?v = "\<lparr> sptr_pool = True, sptr_handle = pool_handle ?q i \<rparr>"
  let ?p = "upd_slot (?q\<lparr> sp_set := ss \<rparr>) i
              (\<lambda>s. \<lparr> ps_obj = id (ps_obj s), ps_handle = pool_handle ?q i, ps_refCount = 1 \<rparr>)"
  have "pool_wf ?p" using wf moved_toD(1-3) [OF m] by (intro pool_wf_upd_slot pool_wf_set) auto
  then have "pool_ok ?p (ptr_count (?v # vs))"
    using o iN c0 st moved_toD(2,5) [OF m] by (auto simp: pool_ok_def points_to_def)
  moreover have "\<forall>u \<in> set (?v # vs). ptr_fresh ?p u"
    using ok iN moved_toD(2) [OF m] cur by (auto simp: vars_ok_def ptr_fresh_def)
  moreover have "pool_N ?p = n" using ok moved_toD(2) [OF m] by (simp add: vars_ok_def)
  ultimately show ?thesis
    using a True c0 iN moved_toD(3) [OF m] by (intro exI [of _ ?p] exI [of _ ?v]) (auto simp: vars_ok_def)
qed


lemma ptr_step_ok:
  assumes ok: "vars_ok n (ph_get H (fst c)) (snd c)" and len: "length (snd c) + 1 < 2 ^ 64"
    and a: "\<And>st. a = PAcquire st \<Longrightarrow> 0 < st"
  shows "returns (ptr_step H c a)
    (\<lambda>c'. vars_ok n (ph_get H (fst c')) (snd c') \<and> length (snd c') \<le> length (snd c) + 1)"
proof -
  obtain w vs where c: "c = (w, vs)" by (cases c)
  have ok': "vars_ok n (ph_get H w) vs" and len': "length vs + 1 < 2 ^ 64" using ok len c by auto
  have drop: "\<exists>p. (if sptr_pool v then SparsePool_ReleaseRef H w1 (sptr_handle v) else Inr w1) =
      Inr (ph_put H p w1) \<and> vars_ok n p us"
    if "vars_ok n (ph_get H w1) (v # us)" "length us + 1 < 2 ^ 64" for v us w1
  proof (cases "sptr_pool v")
    case True
    have "ptr_count us (who_of (sptr_handle v)) + 1 < 2 ^ 64"
      using ptr_count_le [of us] that(2) le_less_trans by (metis add_le_cancel_right)
    then show ?thesis using lose_var [OF that(1) True] True by (auto simp del: trunc64_id)
  next
    case False
    then show ?thesis
      using that(1) by (intro exI [of _ "ph_get H w1"]) (simp add: vars_ok_nonptr)
  qed
  have take: "\<exists>p. (if sptr_pool v then SparsePool_AddRef H w (sptr_handle v) else Inr w) =
      Inr (ph_put H p w) \<and> vars_ok n p (v # vs)" if "v \<in> set vs" for v
  proof (cases "sptr_pool v")
    case True
    then show ?thesis using gain_var [OF ok' True that len'] by simp
  next
    case False
    then show ?thesis
      using ok' by (intro exI [of _ "ph_get H w"]) (simp add: vars_ok_nonptr)
  qed
  have others_len: "i < length vs \<Longrightarrow> length (others i vs) + 2 \<le> length vs + 1" for i
    by (auto simp: others_def)
  show ?thesis
  proof (cases a)
    case (PAcquire st)
    then show ?thesis
      using acquire_var [OF ok', of st] a c by (auto simp: ptr_step_def vars_ok_snoc)
  next
    case (PCopy j)
    show ?thesis
    proof (cases "j < length vs")
      case True
      then show ?thesis
        using PCopy c take [of "vs ! j"] ok'
        by (auto simp: ptr_step_def SharedPoolPtr_copy_def vars_ok_snoc vars_ok_nonptr split: if_splits)
    qed (use PCopy c ok' in \<open>simp add: ptr_step_def\<close>)
  next
    case (PMove j)
    have "vars_ok n (ph_get H w) (vs[j := nullSharedPtr] @ [vs ! j])" if "j < length vs"
    proof -
      have "mset (vs[j := nullSharedPtr] @ [vs ! j]) = mset (nullSharedPtr # vs)"
        using mset_others [OF that] mset_upd_others [OF that] by simp
      from vars_ok_mset [OF this, of n "ph_get H w"] show ?thesis using ok' by simp
    qed
    then show ?thesis
      using PMove c ok' by (auto simp: ptr_step_def SharedPoolPtr_move_def)
  next
    case (PAssign i j)
    show ?thesis
    proof (cases "i < length vs \<and> j < length vs \<and> i \<noteq> j")
      case True
      then obtain p where p: "(if sptr_pool (vs ! j) then SparsePool_AddRef H w (sptr_handle (vs ! j)) else Inr w) =
          Inr (ph_put H p w)" "vars_ok n p (vs ! j # vs)" using take [of "vs ! j"] by auto
      have "mset (vs ! j # vs) = mset (vs ! i # vs ! j # others i vs)"
        using True mset_others [of i vs] by simp
      from vars_ok_mset [OF this, of n p]
      have "vars_ok n (ph_get H (ph_put H p w)) (vs ! i # vs ! j # others i vs)"
        using p(2) by simp
      from drop [OF this] obtain q where
        "(if sptr_pool (vs ! i) then SparsePool_ReleaseRef H (ph_put H p w) (sptr_handle (vs ! i))
          else Inr (ph_put H p w)) = Inr (ph_put H q w)" "vars_ok n q (vs ! j # others i vs)"
        using others_len [of i] True len' by auto
      then show ?thesis
        using PAssign c p True vars_ok_mset [OF mset_upd_others, of i vs n q "vs ! j"]
        by (simp add: ptr_step_def SharedPoolPtr_assign_def)
    qed (use PAssign c ok' in \<open>auto simp: ptr_step_def SharedPoolPtr_assign_def\<close>)
  next
    case (PMoveAssign i j)
    show ?thesis
    proof (cases "i < length vs \<and> j < length vs \<and> i \<noteq> j")
      case True
      have "vars_ok n (ph_get H w) (vs ! i # others i vs)"
        using ok' True vars_ok_mset [OF mset_others [of i vs], of n "ph_get H w"] by simp
      from drop [OF this] obtain q where q:
        "(if sptr_pool (vs ! i) then SparsePool_ReleaseRef H w (sptr_handle (vs ! i)) else Inr w) =
         Inr (ph_put H q w)" "vars_ok n q (others i vs)"
        using others_len [of i] True len' by auto
      have "mset ((vs[j := nullSharedPtr])[i := vs ! j]) = mset (nullSharedPtr # others i vs)"
        using True by (intro mset_move_assign) auto
      from vars_ok_mset [OF this, of n q] show ?thesis
        using PMoveAssign c q True
        by (auto simp: ptr_step_def SharedPoolPtr_move_assign_def)
    qed (use PMoveAssign c ok' in \<open>auto simp: ptr_step_def SharedPoolPtr_move_assign_def\<close>)
  next
    case (PReset i)
    show ?thesis
    proof (cases "i < length vs")
      case True
      have "vars_ok n (ph_get H w) (vs ! i # others i vs)"
        using ok' True vars_ok_mset [OF mset_others [of i vs], of n "ph_get H w"] by simp
      from drop [OF this] obtain q where q:
        "(if sptr_pool (vs ! i) then SparsePool_ReleaseRef H w (sptr_handle (vs ! i)) else Inr w) =
         Inr (ph_put H q w)" "vars_ok n q (others i vs)"
        using others_len [of i] True len' by auto
      then show ?thesis
        using PReset c True vars_ok_mset [OF mset_upd_others, of i vs n q nullSharedPtr]
        by (simp add: ptr_step_def SharedPoolPtr_Reset_def)
    qed (use PReset c ok' in \<open>simp add: ptr_step_def\<close>)
  qed
qed


lemma ptr_run_ok:
  assumes "vars_ok n (ph_get H (fst c)) (snd c)" and "length (snd c) + length ops < 2 ^ 64"
    and "\<forall>st. PAcquire st \<in> set ops \<longrightarrow> 0 < st"
  shows "returns (ptr_run H c ops) (\<lambda>c'. vars_ok n (ph_get H (fst c')) (snd c'))"
  using assms
proof (induction ops arbitrary: c)
  case Nil
  then show ?case by simp
next
  case (Cons a ops)
  have "returns (ptr_step H c a)
    (\<lambda>c'. vars_ok n (ph_get H (fst c')) (snd c') \<and> length (snd c') \<le> length (snd c) + 1)"
    using Cons.prems by (intro ptr_step_ok) auto
  then show ?case
    unfolding ptr_run.simps
    by (rule returns_andThen) (use Cons.IH Cons.prems(2,3) in auto)
qed

end

text \<open>A pool that is not part of a larger state and has no callbacks.\<close>

definition standalone_host :: "('a sparse_pool, 'a) pool_host" where
  "standalone_host =
     \<lparr> ph_get = (\<lambda>p. p), ph_put = (\<lambda>p _. p), ph_init = (\<lambda>p _. Inr p),
       ph_deleter = (\<lambda>p _. Inr p), ph_post = Inr \<rparr>"

lemma standalone_host_simps [simp]:
  "ph_get standalone_host p = p" "ph_put standalone_host p q = p"
  "ph_init standalone_host p i = Inr p" "ph_deleter standalone_host p i = Inr p"
  "ph_post standalone_host p = Inr p"
  by (simp_all add: standalone_host_def)

interpretation standalone: quiet_pool standalone_host
  by unfold_locales simp_all

subsection \<open>Properties\<close>




end
