(* ===== verification/Protocol.thy ===== *)
theory Protocol
  imports Prelude
begin

section \<open>Common/Config.hpp and Common/Protocol.hpp: constants and packet layout\<close>

text \<open>
  The constants of \<open>Config\<close>, the enumerations of \<open>Protocol.hpp\<close> and the packed structs,
  each as the list of its fields with their sizes. \<open>#pragma pack(push, 1)\<close> puts the fields
  one after the other, so offsets and \<open>sizeof\<close> are sums. Multi-byte fields are little
  endian, the byte order of the only platform the code builds for. Memory blocks are byte
  functions; \<open>float\<close> fields are opaque four byte patterns, since the server only copies
  them.
\<close>

subsection \<open>Config\<close>

definition kPort :: nat where "kPort = 12345"
definition kAcceptAddrSize :: nat where "kAcceptAddrSize = 16 + 16"
definition kBufferSize :: nat where "kBufferSize = 65536"
definition kMaxPacketSize :: nat where "kMaxPacketSize = 1024"
definition kMaxPacketCount :: nat where "kMaxPacketCount = 32768"
definition kMaxAccept :: nat where "kMaxAccept = 1000"
definition kMaxSession :: nat where "kMaxSession = 4096"
definition kIdLength :: nat where "kIdLength = 32"
definition kPasswordLength :: nat where "kPasswordLength = 32"
definition kWorkerThreadCount :: nat where "kWorkerThreadCount = 1"

subsection \<open>Enumerations\<close>

datatype io_type = IO_kNone | IO_kRecv | IO_kSend | IO_kAccept | IO_kDisconnect | IO_kCnt

datatype packet_id = PKT_kNone | PKT_kMove | PKT_kChat | PKT_kRegister | PKT_kLogin | PKT_kLogout
  | PKT_kCnt

fun packet_code :: "packet_id \<Rightarrow> nat" where
  "packet_code PKT_kNone = 0"
| "packet_code PKT_kMove = 1"
| "packet_code PKT_kChat = 2"
| "packet_code PKT_kRegister = 3"
| "packet_code PKT_kLogin = 4"
| "packet_code PKT_kLogout = 5"
| "packet_code PKT_kCnt = 6"

text \<open>The order of the underlying codes, as the code compares them.\<close>

instantiation packet_id :: linorder
begin

definition less_eq_packet_id :: "packet_id \<Rightarrow> packet_id \<Rightarrow> bool" where
  "less_eq_packet_id a b \<longleftrightarrow> packet_code a \<le> packet_code b"

definition less_packet_id :: "packet_id \<Rightarrow> packet_id \<Rightarrow> bool" where
  "less_packet_id a b \<longleftrightarrow> packet_code a < packet_code b"

instance
proof
  fix x y z :: packet_id
  show "x < y \<longleftrightarrow> x \<le> y \<and> \<not> y \<le> x"
    by (auto simp: less_eq_packet_id_def less_packet_id_def)
  show "x \<le> x" by (simp add: less_eq_packet_id_def)
  show "x \<le> z" if "x \<le> y" "y \<le> z" using that by (simp add: less_eq_packet_id_def)
  show "x = y" if "x \<le> y" "y \<le> x"
    using that by (cases x; cases y) (simp_all add: less_eq_packet_id_def)
  show "x \<le> y \<or> y \<le> x" by (auto simp: less_eq_packet_id_def)
qed

end

subsection \<open>Packed structs\<close>

type_synonym layout = "(string \<times> nat) list"

fun offset_of :: "layout \<Rightarrow> string \<Rightarrow> nat" where
  "offset_of [] f = 0"
| "offset_of ((g, n) # fs) f = (if g = f then 0 else n + offset_of fs f)"

definition size_of :: "layout \<Rightarrow> nat" where
  "size_of l = sum_list (map snd l)"

definition PACKET_HEADER :: layout where
  "PACKET_HEADER = [(''size'', 2), (''id'', 2)]"

definition C2S_MOVE :: layout where
  "C2S_MOVE = [(''header'', 4), (''x'', 4), (''y'', 4)]"

definition S2C_MOVE :: layout where
  "S2C_MOVE = [(''header'', 4), (''sessionHandle'', 8), (''x'', 4), (''y'', 4)]"

definition C2S_CHAT :: layout where
  "C2S_CHAT = [(''header'', 4), (''message'', 0)]"

definition S2C_CHAT :: layout where
  "S2C_CHAT = [(''header'', 4), (''sessionHandle'', 8), (''message'', 0)]"

definition C2S_REGISTER :: layout where
  "C2S_REGISTER = [(''header'', 4), (''id'', kIdLength), (''password'', kPasswordLength)]"

definition S2C_REGISTER :: layout where
  "S2C_REGISTER = [(''header'', 4), (''success'', 1), (''message'', 0)]"

definition C2S_LOGIN :: layout where
  "C2S_LOGIN = [(''header'', 4), (''id'', kIdLength), (''password'', kPasswordLength)]"

definition S2C_LOGIN :: layout where
  "S2C_LOGIN = [(''header'', 4), (''success'', 1), (''message'', 0)]"

definition C2S_LOGOUT :: layout where
  "C2S_LOGOUT = [(''header'', 4)]"

definition S2C_LOGOUT :: layout where
  "S2C_LOGOUT = [(''header'', 4), (''success'', 1), (''message'', 0)]"

lemmas layout_defs = PACKET_HEADER_def C2S_MOVE_def S2C_MOVE_def C2S_CHAT_def S2C_CHAT_def
  C2S_REGISTER_def S2C_REGISTER_def C2S_LOGIN_def S2C_LOGIN_def C2S_LOGOUT_def S2C_LOGOUT_def
  kIdLength_def kPasswordLength_def

lemma size_of_layouts [simp]:
  "size_of PACKET_HEADER = 4" "size_of C2S_MOVE = 12" "size_of S2C_MOVE = 20"
  "size_of C2S_CHAT = 4" "size_of S2C_CHAT = 12" "size_of C2S_REGISTER = 68"
  "size_of S2C_REGISTER = 5" "size_of C2S_LOGIN = 68" "size_of S2C_LOGIN = 5"
  "size_of C2S_LOGOUT = 4" "size_of S2C_LOGOUT = 5"
  by (simp_all add: size_of_def layout_defs)

lemma offset_of_fields [simp]:
  "offset_of PACKET_HEADER ''size'' = 0" "offset_of PACKET_HEADER ''id'' = 2"
  "offset_of C2S_MOVE ''x'' = 4" "offset_of C2S_MOVE ''y'' = 8"
  "offset_of S2C_MOVE ''sessionHandle'' = 4" "offset_of S2C_MOVE ''x'' = 12"
  "offset_of S2C_MOVE ''y'' = 16" "offset_of C2S_CHAT ''message'' = 4"
  "offset_of S2C_CHAT ''sessionHandle'' = 4" "offset_of S2C_CHAT ''message'' = 12"
  "offset_of C2S_REGISTER ''id'' = 4" "offset_of C2S_REGISTER ''password'' = 36"
  "offset_of S2C_REGISTER ''success'' = 4" "offset_of S2C_REGISTER ''message'' = 5"
  "offset_of C2S_LOGIN ''id'' = 4" "offset_of C2S_LOGIN ''password'' = 36"
  "offset_of S2C_LOGIN ''success'' = 4" "offset_of S2C_LOGIN ''message'' = 5"
  "offset_of S2C_LOGOUT ''success'' = 4" "offset_of S2C_LOGOUT ''message'' = 5"
  by (simp_all add: layout_defs)

subsection \<open>Little endian fields in byte memory\<close>

type_synonym bytes = "nat \<Rightarrow> u8"

fun le_bytes :: "nat \<Rightarrow> nat \<Rightarrow> u8 list" where
  "le_bytes 0 v = []"
| "le_bytes (Suc n) v = of_nat (v mod 256) # le_bytes n (v div 256)"

fun le_value :: "u8 list \<Rightarrow> nat" where
  "le_value [] = 0"
| "le_value (b # bs) = unat b + 256 * le_value bs"

definition write_bytes :: "bytes \<Rightarrow> nat \<Rightarrow> u8 list \<Rightarrow> bytes" where
  "write_bytes m a bs = (\<lambda>x. if a \<le> x \<and> x < a + length bs then bs ! (x - a) else m x)"

definition get_field :: "bytes \<Rightarrow> nat \<Rightarrow> nat \<Rightarrow> nat" where
  "get_field m a n = le_value (slice_fun m a n)"

definition put_field :: "bytes \<Rightarrow> nat \<Rightarrow> nat \<Rightarrow> nat \<Rightarrow> bytes" where
  "put_field m a n v = write_bytes m a (le_bytes n v)"

text \<open>\<open>header.size\<close> and \<open>header.id\<close> of the packet at address \<open>a\<close>.\<close>

definition header_size :: "bytes \<Rightarrow> nat \<Rightarrow> nat" where
  "header_size m a = get_field m (a + offset_of PACKET_HEADER ''size'') 2"

definition header_id :: "bytes \<Rightarrow> nat \<Rightarrow> nat" where
  "header_id m a = get_field m (a + offset_of PACKET_HEADER ''id'') 2"

definition set_header_size :: "bytes \<Rightarrow> nat \<Rightarrow> bytes" where
  "set_header_size m v = put_field m (offset_of PACKET_HEADER ''size'') 2 v"

definition set_header_id :: "bytes \<Rightarrow> packet_id \<Rightarrow> bytes" where
  "set_header_id m i = put_field m (offset_of PACKET_HEADER ''id'') 2 (packet_code i)"

subsection \<open>Lemmas on fields\<close>

lemma length_le_bytes [simp]: "length (le_bytes n v) = n"
  by (induction n arbitrary: v) simp_all

lemma le_value_bound: "le_value bs < 256 ^ length bs"
proof (induction bs)
  case Nil
  then show ?case by simp
next
  case (Cons b bs)
  have "unat b < 256" using unsigned_less [of b] by simp
  moreover have "256 * le_value bs + 256 \<le> 256 * 256 ^ length bs"
    using Cons.IH by (metis Suc_leI mult_Suc_right mult_le_mono2 add.commute)
  ultimately show ?case by simp
qed

lemma le_value_le_bytes: "le_value (le_bytes n v) = v mod 256 ^ n"
proof (induction n arbitrary: v)
  case 0
  then show ?case by simp
next
  case (Suc n)
  have "unat (of_nat (v mod 256) :: u8) = v mod 256"
    by (simp add: unat_of_nat)
  then show ?case
    using Suc.IH [of "v div 256"] by (simp add: mod_mult2_eq)
qed

lemma le_bytes_le_value: "le_bytes (length bs) (le_value bs) = bs"
proof (induction bs)
  case Nil
  then show ?case by simp
next
  case (Cons b bs)
  have "unat b < 256" using unsigned_less [of b] by simp
  then have "(unat b + 256 * le_value bs) div 256 = le_value bs"
    and "(unat b + 256 * le_value bs) mod 256 = unat b" by simp_all
  with Cons.IH show ?case by simp
qed

lemma get_field_bound: "get_field m a n < 256 ^ n"
  using le_value_bound [of "slice_fun m a n"] by (simp add: get_field_def)

lemma header_size_bound: "header_size m a < 65536"
  using get_field_bound [of m _ 2] by (simp add: header_size_def)

lemma header_id_bound: "header_id m a < 65536"
  using get_field_bound [of m _ 2] by (simp add: header_id_def)

lemma slice_write_same: "slice_fun (write_bytes m a bs) a (length bs) = bs"
  by (rule nth_equalityI) (simp_all add: write_bytes_def)

lemma slice_write_other:
  "b + n \<le> a \<or> a + length bs \<le> b \<Longrightarrow> slice_fun (write_bytes m a bs) b n = slice_fun m b n"
  by (rule slice_fun_cong) (auto simp: write_bytes_def)

lemma get_put_field_same: "get_field (put_field m a n v) a n = v mod 256 ^ n"
  using slice_write_same [of m a "le_bytes n v"]
  by (simp add: get_field_def put_field_def le_value_le_bytes)

lemma get_put_field_other:
  "b + k \<le> a \<or> a + n \<le> b \<Longrightarrow> get_field (put_field m a n v) b k = get_field m b k"
  by (simp add: get_field_def put_field_def slice_write_other)

lemma get_write_field_other:
  "b + k \<le> a \<or> a + length bs \<le> b \<Longrightarrow> get_field (write_bytes m a bs) b k = get_field m b k"
  by (simp add: get_field_def slice_write_other)

lemma get_field_cong:
  "(\<And>x. a \<le> x \<Longrightarrow> x < a + n \<Longrightarrow> m x = m' x) \<Longrightarrow> get_field m a n = get_field m' a n"
  unfolding get_field_def by (simp cong: slice_fun_cong)

lemma header_at_0: "header_size m 0 = get_field m 0 2" "header_id m 0 = get_field m 2 2"
  by (simp_all add: header_size_def header_id_def numeral_2_eq_2)

lemma header_setters: "set_header_size m v = put_field m 0 2 v"
  "set_header_id m i = put_field m 2 2 (packet_code i)"
  by (simp_all add: set_header_size_def set_header_id_def)

lemma packet_code_bound: "packet_code i < 256"
  by (cases i) simp_all

lemma header_fields_set [simp]:
  "header_size (set_header_size m v) 0 = v mod 65536"
  "header_id (set_header_id m i) 0 = packet_code i"
  "header_id (set_header_size m v) 0 = header_id m 0"
  "header_size (set_header_id m i) 0 = header_size m 0"
  using packet_code_bound [of i]
  by (simp_all add: header_at_0 header_setters get_put_field_same get_put_field_other)

end
