(* ===== verification/MirroredRingBuffer.thy ===== *)
theory MirroredRingBuffer
  imports Protocol
begin

section \<open>Common/MirroredRingBuffer: one memory mapped twice, back to back\<close>

text \<open>
  The constructor maps the same pages at \<open>[0, size)\<close> and \<open>[size, 2 * size)\<close> of a reserved
  range, so a block of at most \<open>size\<close> bytes that starts below \<open>size\<close> is contiguous. A
  buffer is its size and the physical bytes; the virtual address \<open>a\<close> (relative to
  \<open>buffer_\<close>) shows the byte at \<open>a mod size\<close>, and an access beyond \<open>2 * size\<close> leaves the
  mapping. The Windows calls of the constructor are the argument \<open>api\<close>: the allocation
  granularity and whether each call succeeds. Fresh section pages are zero.
\<close>

record ring =
  rb_size :: nat
  rb_mem :: bytes

record vm_api =
  vm_granularity :: nat
  vm_CreateFileMapping :: bool
  vm_VirtualAlloc :: bool
  vm_MapFirst :: bool
  vm_MapSecond :: bool

datatype vm_resource = FileMapping | FirstView | SecondView

text \<open>The result of the constructor: the resources left open, and the buffer or the fault.\<close>

definition MirroredRingBuffer_new :: "vm_api \<Rightarrow> nat \<Rightarrow> vm_resource set \<times> ring res" where
  "MirroredRingBuffer_new api sz =
     (if sz mod vm_granularity api \<noteq> 0 then ({}, Inl FatalLog)
      else if \<not> vm_CreateFileMapping api then ({}, Inl FatalLog)
      else if \<not> vm_VirtualAlloc api then ({}, Inl FatalLog)
      else if \<not> vm_MapFirst api then ({FileMapping}, Inl FatalLog)
      else if \<not> vm_MapSecond api then ({FileMapping, FirstView}, Inl FatalLog)
      else ({FileMapping, FirstView, SecondView}, Inr \<lparr> rb_size = sz, rb_mem = (\<lambda>_. 0) \<rparr>))"

definition MirroredRingBuffer_delete :: "vm_resource set \<Rightarrow> vm_resource set" where
  "MirroredRingBuffer_delete open_res = open_res - {FirstView, SecondView} - {FileMapping}"

definition ring_Reset :: "ring \<Rightarrow> ring" where
  "ring_Reset r = r\<lparr> rb_mem := (\<lambda>x. if x < rb_size r then 0 else rb_mem r x) \<rparr>"

text \<open>The virtual memory behind \<open>GetBuffer()\<close>, reading and writing through it.\<close>

definition ring_view :: "ring \<Rightarrow> bytes" where
  "ring_view r = (\<lambda>a. rb_mem r (a mod rb_size r))"

fun store_mirrored :: "nat \<Rightarrow> bytes \<Rightarrow> nat \<Rightarrow> u8 list \<Rightarrow> bytes" where
  "store_mirrored n m a [] = m"
| "store_mirrored n m a (b # bs) = store_mirrored n (m(a mod n := b)) (Suc a) bs"

definition ring_write :: "ring \<Rightarrow> nat \<Rightarrow> u8 list \<Rightarrow> ring res" where
  "ring_write r a bs =
     andThen (require (a + length bs \<le> 2 * rb_size r) OutOfBounds) (\<lambda>_.
     Inr (r\<lparr> rb_mem := store_mirrored (rb_size r) (rb_mem r) a bs \<rparr>))"

definition ring_read :: "ring \<Rightarrow> nat \<Rightarrow> nat \<Rightarrow> u8 list res" where
  "ring_read r a n =
     andThen (require (a + n \<le> 2 * rb_size r) OutOfBounds) (\<lambda>_.
     Inr (slice_fun (ring_view r) a n))"

subsection \<open>Lemmas\<close>

lemma ring_view_mirror [simp]: "ring_view r (a + rb_size r) = ring_view r a"
  by (simp add: ring_view_def)

lemma slice_view_mirror: "slice_fun (ring_view r) (a + rb_size r) n = slice_fun (ring_view r) a n"
  by (rule slice_fun_shift) (metis add.assoc add.commute ring_view_mirror)

lemma mod_apart:
  fixes a b n :: nat
  assumes "a < b" "b < a + n"
  shows "a mod n \<noteq> b mod n"
proof
  assume "a mod n = b mod n"
  then have "n dvd b - a" using assms(1) by (metis less_imp_le_nat mod_eq_dvd_iff_nat)
  moreover have "0 < b - a" "b - a < n" using assms by auto
  ultimately show False using nat_dvd_not_less by blast
qed

lemma store_mirrored_other:
  "(\<forall>i < length bs. x \<noteq> (a + i) mod n) \<Longrightarrow> store_mirrored n m a bs x = m x"
proof (induction bs arbitrary: a m)
  case Nil
  then show ?case by simp
next
  case (Cons b bs)
  have "\<forall>i < length bs. x \<noteq> (Suc a + i) mod n"
    using Cons.prems by (metis Suc_less_eq add_Suc_shift length_Cons)
  moreover have "x \<noteq> a mod n" using Cons.prems by (metis add.right_neutral length_Cons zero_less_Suc)
  ultimately show ?case using Cons.IH by simp
qed

lemma store_mirrored_at:
  "length bs \<le> n \<Longrightarrow> i < length bs \<Longrightarrow> store_mirrored n m a bs ((a + i) mod n) = bs ! i"
proof (induction bs arbitrary: a m i)
  case Nil
  then show ?case by simp
next
  case (Cons b bs)
  show ?case
  proof (cases i)
    case 0
    have "\<forall>j < length bs. a mod n \<noteq> (Suc a + j) mod n"
      using Cons.prems(1) mod_apart [of a "Suc a + _" n] by auto
    then show ?thesis using 0 store_mirrored_other [of bs "a mod n" "Suc a" n] by simp
  next
    case (Suc j)
    have "store_mirrored n (m(a mod n := b)) (Suc a) bs ((Suc a + j) mod n) = bs ! j"
      by (rule Cons.IH) (use Cons.prems Suc in auto)
    then show ?thesis using Suc by (simp only: store_mirrored.simps nth_Cons_Suc add_Suc_shift)
  qed
qed

text \<open>What a write of at most \<open>size\<close> bytes shows through both views.\<close>

lemma view_store_at:
  assumes "length bs \<le> rb_size r" and "i < length bs"
  shows "ring_view (r\<lparr> rb_mem := store_mirrored (rb_size r) (rb_mem r) a bs \<rparr>) (a + i) = bs ! i"
  using store_mirrored_at [OF assms] by (simp add: ring_view_def)

lemma view_store_other:
  assumes "x < a" "a + length bs \<le> x + rb_size r"
  shows "ring_view (r\<lparr> rb_mem := store_mirrored (rb_size r) (rb_mem r) a bs \<rparr>) x = ring_view r x"
proof -
  have "x mod rb_size r \<noteq> (a + i) mod rb_size r" if "i < length bs" for i
    using mod_apart [of x "a + i" "rb_size r"] assms that by simp
  then show ?thesis by (simp add: ring_view_def store_mirrored_other)
qed

lemma slice_store_same:
  assumes "length bs \<le> rb_size r"
  shows "slice_fun (ring_view (r\<lparr> rb_mem := store_mirrored (rb_size r) (rb_mem r) a bs \<rparr>)) a (length bs) = bs"
  by (rule nth_equalityI) (simp_all add: view_store_at [OF assms])

lemma slice_store_before:
  assumes "x + n \<le> a" "a + length bs \<le> x + rb_size r"
  shows "slice_fun (ring_view (r\<lparr> rb_mem := store_mirrored (rb_size r) (rb_mem r) a bs \<rparr>)) x n =
    slice_fun (ring_view r) x n"
  using assms by (intro slice_fun_cong view_store_other) auto


end
