(* ===== verification/OverlappedEx.thy ===== *)
theory OverlappedEx
  imports MirroredRingBuffer SparsePool
begin

section \<open>Server/OverlappedEx.hpp: one asynchronous operation and its buffer\<close>

text \<open>
  The operation's kind, the \<open>WSABUF\<close> handed to the kernel (an offset into the buffer and a
  length), the mirrored ring buffer, the two positions in it, and the smart pointer that keeps
  the session alive while the operation is pending. \<open>recvPos_\<close> is where the next byte is
  taken out and \<open>sendPos_\<close> where the next byte is put in, on both paths. The \<open>OVERLAPPED\<close>
  structure belongs to the kernel; the code only zeroes it, so it is not part of the record.
\<close>

record overlapped_ex =
  ov_ioType :: io_type
  ov_wsaBuf :: "nat option"
  ov_wsaLen :: nat
  ov_buffer :: ring
  ov_sessionPtr :: shared_ptr
  ov_recvPos :: nat
  ov_sendPos :: nat

definition OverlappedEx_new :: "nat \<Rightarrow> overlapped_ex" where
  "OverlappedEx_new bufferSize =
     \<lparr> ov_ioType = IO_kNone, ov_wsaBuf = None, ov_wsaLen = 0,
       ov_buffer = \<lparr> rb_size = bufferSize, rb_mem = (\<lambda>_. 0) \<rparr>,
       ov_sessionPtr = nullSharedPtr, ov_recvPos = 0, ov_sendPos = 0 \<rparr>"

text \<open>The plain fields that \<open>Reset\<close> clears; \<open>sessionPtr_.Reset()\<close> comes after them.\<close>

definition ov_clear :: "overlapped_ex \<Rightarrow> overlapped_ex" where
  "ov_clear ov = ov\<lparr> ov_ioType := IO_kNone, ov_wsaBuf := None, ov_wsaLen := 0,
     ov_buffer := ring_Reset (ov_buffer ov), ov_recvPos := 0, ov_sendPos := 0 \<rparr>"

text \<open>The number of bytes in the buffer, \<open>sendPos_ - recvPos_\<close>, and those bytes.\<close>

definition ov_avail :: "overlapped_ex \<Rightarrow> nat" where
  "ov_avail ov = sub64 (ov_sendPos ov) (ov_recvPos ov)"

definition ov_pending :: "overlapped_ex \<Rightarrow> u8 list" where
  "ov_pending ov = slice_fun (ring_view (ov_buffer ov)) (ov_recvPos ov) (ov_sendPos ov - ov_recvPos ov)"

text \<open>
  The invariant of both directions: the first unread byte is in the first view, and at most a
  buffer full of bytes is unread.
\<close>

definition ov_inv :: "overlapped_ex \<Rightarrow> bool" where
  "ov_inv ov \<longleftrightarrow> ov_recvPos ov < rb_size (ov_buffer ov) \<and> ov_recvPos ov \<le> ov_sendPos ov \<and>
     ov_sendPos ov \<le> ov_recvPos ov + rb_size (ov_buffer ov) \<and> rb_size (ov_buffer ov) < 2 ^ 32"

lemma ov_avail_eq: "ov_inv ov \<Longrightarrow> ov_avail ov = ov_sendPos ov - ov_recvPos ov"
  unfolding ov_avail_def ov_inv_def by (rule sub64_id) auto

lemma length_ov_pending [simp]: "length (ov_pending ov) = ov_sendPos ov - ov_recvPos ov"
  by (simp add: ov_pending_def)

lemma ov_inv_clear: "0 < rb_size (ov_buffer ov) \<Longrightarrow> rb_size (ov_buffer ov) < 2 ^ 32 \<Longrightarrow> ov_inv (ov_clear ov)"
  by (simp add: ov_inv_def ov_clear_def ring_Reset_def)

text \<open>The wrap at the end of \<open>OnRecv\<close> and \<open>OnSend\<close>: both positions move back by one buffer.\<close>

definition ov_wrap :: "overlapped_ex \<Rightarrow> overlapped_ex" where
  "ov_wrap ov =
     (if ov_recvPos ov \<ge> rb_size (ov_buffer ov)
      then ov\<lparr> ov_recvPos := sub64 (ov_recvPos ov) (rb_size (ov_buffer ov)),
               ov_sendPos := sub64 (ov_sendPos ov) (rb_size (ov_buffer ov)) \<rparr>
      else ov)"

lemma ov_wrap_eq:
  assumes "ov_recvPos ov \<le> ov_sendPos ov" "ov_sendPos ov < 2 ^ 64"
  shows "ov_wrap ov = (if ov_recvPos ov \<ge> rb_size (ov_buffer ov)
      then ov\<lparr> ov_recvPos := ov_recvPos ov - rb_size (ov_buffer ov),
               ov_sendPos := ov_sendPos ov - rb_size (ov_buffer ov) \<rparr>
      else ov)"
  using assms by (simp add: ov_wrap_def sub64_id)

text \<open>Unwrapped positions: within two buffers, as between the reads of one completion.\<close>

lemma ov_wrap_inv:
  assumes "ov_recvPos ov < 2 * rb_size (ov_buffer ov)" "ov_recvPos ov \<le> ov_sendPos ov"
    and "ov_sendPos ov \<le> ov_recvPos ov + rb_size (ov_buffer ov)" "rb_size (ov_buffer ov) < 2 ^ 32"
  shows "ov_inv (ov_wrap ov)" and "ov_pending (ov_wrap ov) = ov_pending ov"
    and "ov_buffer (ov_wrap ov) = ov_buffer ov"
proof -
  have s: "ov_sendPos ov < 2 ^ 64" using assms by simp
  note eq = ov_wrap_eq [OF assms(2) s]
  show "ov_inv (ov_wrap ov)" using assms unfolding eq ov_inv_def by auto
  show "ov_buffer (ov_wrap ov) = ov_buffer ov" unfolding eq by auto
  show "ov_pending (ov_wrap ov) = ov_pending ov"
  proof (cases "ov_recvPos ov \<ge> rb_size (ov_buffer ov)")
    case True
    let ?n = "ov_sendPos ov - ov_recvPos ov" and ?a = "ov_recvPos ov - rb_size (ov_buffer ov)"
    have "ov_sendPos ov - rb_size (ov_buffer ov) - ?a = ?n" using True by simp
    then show ?thesis
      using True slice_view_mirror [of "ov_buffer ov" ?a ?n] unfolding eq ov_pending_def by simp
  qed (simp add: eq)
qed

end
