(* ===== verification/TaskQueue.thy ===== *)
theory TaskQueue
  imports Prelude
begin

section \<open>Server/TaskQueue.hpp: the queue between the I/O threads and the packet worker\<close>

text \<open>
  \<open>Push\<close> appends under the mutex and notifies. \<open>Pop\<close> waits under the mutex until there is
  a task or the queue is shutting down; it returns \<open>nullptr\<close> as soon as the queue is
  shutting down, and the oldest task otherwise. The sequential operations come first:
  \<open>TaskQueue_Pop q = None\<close> means that the call blocks in this state. The second part models
  the threads step by step, with the mutex and the waiting set of the condition variable.
\<close>

record 't task_queue =
  tq_tasks :: "'t list"
  tq_shuttingDown :: bool

definition TaskQueue_new :: "'t task_queue" where
  "TaskQueue_new = \<lparr> tq_tasks = [], tq_shuttingDown = False \<rparr>"

definition TaskQueue_Shutdown :: "'t task_queue \<Rightarrow> 't task_queue" where
  "TaskQueue_Shutdown q = q\<lparr> tq_shuttingDown := True \<rparr>"

definition TaskQueue_Push :: "'t task_queue \<Rightarrow> 't \<Rightarrow> 't task_queue" where
  "TaskQueue_Push q t = q\<lparr> tq_tasks := tq_tasks q @ [t] \<rparr>"

text \<open>The predicate \<open>Pop\<close> waits for.\<close>

definition pop_ready :: "'t task_queue \<Rightarrow> bool" where
  "pop_ready q \<longleftrightarrow> tq_tasks q \<noteq> [] \<or> tq_shuttingDown q"

definition TaskQueue_Pop :: "'t task_queue \<Rightarrow> ('t task_queue \<times> 't option) option" where
  "TaskQueue_Pop q =
     (if \<not> pop_ready q then None
      else if tq_shuttingDown q then Some (q, None)
      else case tq_tasks q of
             [] \<Rightarrow> None
           | t # ts \<Rightarrow> Some (q\<lparr> tq_tasks := ts \<rparr>, Some t))"

subsection \<open>The contract of a FIFO queue\<close>

text \<open>A run of pushes and pops; the list collects what the pops returned.\<close>

datatype 't queue_op = QPush 't | QPop

fun queue_run :: "('q \<Rightarrow> 't \<Rightarrow> 'q) \<Rightarrow> ('q \<Rightarrow> ('q \<times> 't option) option) \<Rightarrow> 'q \<Rightarrow> 't queue_op list \<Rightarrow> 'q \<times> 't list" where
  "queue_run push pop q [] = (q, [])"
| "queue_run push pop q (QPush t # ops) = queue_run push pop (push q t) ops"
| "queue_run push pop q (QPop # ops) =
     (case pop q of
        Some (q', Some t) \<Rightarrow> (let (r, ts) = queue_run push pop q' ops in (r, t # ts))
      | _ \<Rightarrow> queue_run push pop q ops)"

fun pushed_items :: "'t queue_op list \<Rightarrow> 't list" where
  "pushed_items [] = []"
| "pushed_items (QPush t # ops) = t # pushed_items ops"
| "pushed_items (QPop # ops) = pushed_items ops"

locale fifo_queue =
  fixes push :: "'q \<Rightarrow> 't \<Rightarrow> 'q"
    and pop :: "'q \<Rightarrow> ('q \<times> 't option) option"
    and contents :: "'q \<Rightarrow> 't list"
    and active :: "'q \<Rightarrow> bool"
  assumes contents_push: "active q \<Longrightarrow> contents (push q t) = contents q @ [t] \<and> active (push q t)"
    and pop_empty: "active q \<Longrightarrow> contents q = [] \<Longrightarrow> pop q = None"
    and pop_cons: "active q \<Longrightarrow> contents q = t # ts \<Longrightarrow>
          \<exists>q'. pop q = Some (q', Some t) \<and> contents q' = ts \<and> active q'"
begin

lemma run_fifo:
  assumes "active q"
  shows "snd (queue_run push pop q ops) @ contents (fst (queue_run push pop q ops)) =
         contents q @ pushed_items ops"
  using assms
proof (induction ops arbitrary: q)
  case Nil
  then show ?case by simp
next
  case (Cons a ops)
  show ?case
  proof (cases a)
    case (QPush t)
    then show ?thesis using Cons contents_push [of q t] by simp
  next
    case QPop
    show ?thesis
    proof (cases "contents q")
      case Nil
      then show ?thesis using Cons QPop pop_empty by simp
    next
      case (Cons t ts)
      then obtain q' where "pop q = Some (q', Some t)" "contents q' = ts" "active q'"
        using pop_cons Cons.prems by blast
      then show ?thesis
        using QPop Cons Cons.IH [of q'] by (auto simp: split_beta Let_def)
    qed
  qed
qed

end

interpretation task_queue: fifo_queue TaskQueue_Push TaskQueue_Pop tq_tasks
  "\<lambda>q. \<not> tq_shuttingDown q"
  by unfold_locales (auto simp: TaskQueue_Push_def TaskQueue_Pop_def pop_ready_def)

text \<open>C18: until the shutdown, the tasks \<open>Pop\<close> has returned followed by those still queued are
  exactly the tasks pushed, in the order of the pushes: none is lost, repeated or reordered.\<close>

theorem TaskQueue_fifo:
  "snd (queue_run TaskQueue_Push TaskQueue_Pop TaskQueue_new ops) @
     tq_tasks (fst (queue_run TaskQueue_Push TaskQueue_Pop TaskQueue_new ops)) = pushed_items ops"
  using task_queue.run_fifo [of TaskQueue_new ops] by (simp add: TaskQueue_new_def)

text \<open>Once the queue is shutting down, \<open>Pop\<close> never blocks and never returns a task: it
  returns \<open>nullptr\<close> whatever is queued, so tasks queued at that moment are never run.\<close>

lemma TaskQueue_shutdown_drops:
  "TaskQueue_Pop (TaskQueue_Shutdown q) = Some (TaskQueue_Shutdown q, None) \<and>
   TaskQueue_Pop (TaskQueue_Push (TaskQueue_Shutdown q) t) =
     Some (TaskQueue_Push (TaskQueue_Shutdown q) t, None)"
  by (simp add: TaskQueue_Pop_def TaskQueue_Shutdown_def TaskQueue_Push_def pop_ready_def)

end
