(* ===== verification/DBManager.thy ===== *)
theory DBManager
  imports Prelude
begin

section \<open>Server/DBManager: prepared statements over SQLite\<close>

text \<open>
  SQLite itself is a parameter: a record of the calls the code makes, over an abstract
  database state \<open>'db\<close>. A statement is its query, its bound parameters and the number of
  \<open>sqlite3_step\<close> calls so far; \<open>sqlite3_finalize\<close> in the destructor of \<open>StmtPtr\<close> only
  frees it. \<open>sq_step\<close> returns the result code and the new database, and
  \<open>sq_column_int64\<close> reads a column of the row the last step produced. Results of the bind
  calls are ignored by the code and so have no counterpart.
\<close>

subsection \<open>The interface to SQLite\<close>

type_synonym cstr = "u8 list"

datatype sql_value = SqlInteger int | SqlReal u64 | SqlText cstr

record sql_stmt =
  st_query :: string
  st_binds :: "(nat \<times> sql_value) list"
  st_steps :: nat

record 'db sqlite =
  sq_open :: "int"
  sq_prepare :: "'db \<Rightarrow> string \<Rightarrow> int"
  sq_step :: "'db \<Rightarrow> sql_stmt \<Rightarrow> int \<times> 'db"
  sq_column_int64 :: "'db \<Rightarrow> sql_stmt \<Rightarrow> nat \<Rightarrow> int"

definition SQLITE_OK :: int where "SQLITE_OK = 0"
definition SQLITE_CONSTRAINT :: int where "SQLITE_CONSTRAINT = 19"
definition SQLITE_ROW :: int where "SQLITE_ROW = 100"
definition SQLITE_DONE :: int where "SQLITE_DONE = 101"

lemmas sqlite_codes = SQLITE_OK_def SQLITE_CONSTRAINT_def SQLITE_ROW_def SQLITE_DONE_def

subsection \<open>DBManager\<close>

text \<open>The constructor: a failed \<open>sqlite3_open\<close> is fatal.\<close>

definition DBManager_new :: "'db sqlite \<Rightarrow> 'db \<Rightarrow> 'db res" where
  "DBManager_new S db = (if sq_open S \<noteq> SQLITE_OK then Inl FatalLog else Inr db)"

text \<open>
  The parameter types of \<open>BindParameter\<close>. A \<open>std::string\<close> is passed as \<open>c_str()\<close> with
  length -1, so the text ends at its first zero byte.
\<close>

datatype sql_arg = ArgInt int | ArgInt64 int | ArgFloat u64 | ArgString cstr | ArgCharPtr cstr

definition until_nul :: "cstr \<Rightarrow> cstr" where
  "until_nul s = takeWhile (\<lambda>b. b \<noteq> 0) s"

fun BindParameter :: "sql_stmt \<Rightarrow> nat \<Rightarrow> sql_arg \<Rightarrow> sql_stmt" where
  "BindParameter st index (ArgInt v) = st\<lparr> st_binds := st_binds st @ [(index, SqlInteger v)] \<rparr>"
| "BindParameter st index (ArgInt64 v) = st\<lparr> st_binds := st_binds st @ [(index, SqlInteger v)] \<rparr>"
| "BindParameter st index (ArgFloat v) = st\<lparr> st_binds := st_binds st @ [(index, SqlReal v)] \<rparr>"
| "BindParameter st index (ArgString v) =
     st\<lparr> st_binds := st_binds st @ [(index, SqlText (until_nul v))] \<rparr>"
| "BindParameter st index (ArgCharPtr v) =
     st\<lparr> st_binds := st_binds st @ [(index, SqlText (until_nul v))] \<rparr>"

text \<open>\<open>(BindParameter(stmt, index++, args), ...)\<close>\<close>

fun bind_args :: "sql_stmt \<Rightarrow> nat \<Rightarrow> sql_arg list \<Rightarrow> sql_stmt" where
  "bind_args st index [] = st"
| "bind_args st index (a # as) = bind_args (BindParameter st index a) (Suc index) as"

definition Prepare :: "'db sqlite \<Rightarrow> 'db \<Rightarrow> string \<Rightarrow> sql_arg list \<Rightarrow> sql_stmt option" where
  "Prepare S db query args =
     (if sq_prepare S db query \<noteq> SQLITE_OK then None
      else Some (bind_args \<lparr> st_query = query, st_binds = [], st_steps = 0 \<rparr> 1 args))"

definition sqlite3_step :: "'db sqlite \<Rightarrow> 'db \<Rightarrow> sql_stmt \<Rightarrow> int \<times> 'db \<times> sql_stmt" where
  "sqlite3_step S db st =
     (let (r, db') = sq_step S db st in (r, db', st\<lparr> st_steps := Suc (st_steps st) \<rparr>))"

definition ExecuteNonQuery :: "'db sqlite \<Rightarrow> 'db \<Rightarrow> string \<Rightarrow> sql_arg list \<Rightarrow> 'db \<times> bool" where
  "ExecuteNonQuery S db query args =
     (case Prepare S db query args of
        None \<Rightarrow> (db, False)
      | Some st \<Rightarrow>
          (let (result, db', st') = sqlite3_step S db st in
           if result \<noteq> SQLITE_DONE \<and> result \<noteq> SQLITE_ROW then (db', False)
           else (db', True)))"

text \<open>
  The row loop of \<open>ExecuteQuery\<close>; the callback updates an accumulator from the statement.
  \<open>None\<close> is a statement that never stops producing rows.
\<close>

partial_function (option) query_loop ::
    "'db sqlite \<Rightarrow> ('db \<Rightarrow> sql_stmt \<Rightarrow> 'r \<Rightarrow> 'r) \<Rightarrow> 'db \<Rightarrow> sql_stmt \<Rightarrow> 'r \<Rightarrow> ('db \<times> 'r \<times> int) option" where
  "query_loop S callback db st acc =
     (let (result, db', st') = sqlite3_step S db st in
      if result = SQLITE_ROW then query_loop S callback db' st' (callback db' st' acc)
      else Some (db', acc, result))"

definition ExecuteQuery ::
    "'db sqlite \<Rightarrow> 'db \<Rightarrow> string \<Rightarrow> ('db \<Rightarrow> sql_stmt \<Rightarrow> 'r \<Rightarrow> 'r) \<Rightarrow> 'r \<Rightarrow> sql_arg list \<Rightarrow> ('db \<times> 'r \<times> bool) res" where
  "ExecuteQuery S db query callback acc args =
     (case Prepare S db query args of
        None \<Rightarrow> Inr (db, acc, False)
      | Some st \<Rightarrow>
          (case query_loop S callback db st acc of
             None \<Rightarrow> Inl NoReturn
           | Some (db', acc', result) \<Rightarrow> Inr (db', acc', result = SQLITE_DONE)))"

end
