(* ===== verification/AccountManager.thy ===== *)
theory AccountManager
  imports DBManager
begin

section \<open>Server/Account and Server/AccountManager\<close>

text \<open>
  An \<open>Account\<close> is built from a user id and a password; its \<open>dbId_\<close> is 0 from the start
  and nothing in the program assigns it. \<open>AccountManager\<close> creates the table, inserts an
  account, and looks one up. What the code relies on of SQLite for these three statements is
  the predicate \<open>sqlite_accounts\<close>: a database shows a table of accounts, and each statement
  does to it what the SQL says.
\<close>

record account =
  ac_dbId :: int
  ac_userId :: cstr
  ac_password :: cstr

definition Account_new :: "cstr \<Rightarrow> cstr \<Rightarrow> account" where
  "Account_new userId password = \<lparr> ac_dbId = 0, ac_userId = userId, ac_password = password \<rparr>"

definition Account_SetUserId :: "account \<Rightarrow> cstr \<Rightarrow> account" where
  "Account_SetUserId a u = a\<lparr> ac_userId := u \<rparr>"

definition Account_SetPassword :: "account \<Rightarrow> cstr \<Rightarrow> account" where
  "Account_SetPassword a p = a\<lparr> ac_password := p \<rparr>"

definition create_query :: string where
  "create_query = ''CREATE TABLE IF NOT EXISTS accounts ('' @
     ''id INTEGER PRIMARY KEY AUTOINCREMENT,'' @
     ''username TEXT UNIQUE NOT NULL,'' @ ''password TEXT NOT NULL);''"

definition insert_query :: string where
  "insert_query = ''INSERT INTO accounts (username, password) VALUES (?, ?);''"

definition select_query :: string where
  "select_query = ''SELECT id FROM accounts WHERE username = ? AND password = ?;''"

definition AccountManager_new :: "'db sqlite \<Rightarrow> 'db \<Rightarrow> 'db" where
  "AccountManager_new S db = fst (ExecuteNonQuery S db create_query [])"

definition RegisterAccount :: "'db sqlite \<Rightarrow> 'db \<Rightarrow> account \<Rightarrow> 'db \<times> bool" where
  "RegisterAccount S db a =
     ExecuteNonQuery S db insert_query [ArgString (ac_userId a), ArgString (ac_password a)]"

definition Authenticate :: "'db sqlite \<Rightarrow> 'db \<Rightarrow> account \<Rightarrow> ('db \<times> int) res" where
  "Authenticate S db a =
     andThen (ExecuteQuery S db select_query (\<lambda>db st _. sq_column_int64 S db st 0) 0
                [ArgString (ac_userId a), ArgString (ac_password a)]) (\<lambda>(db', result, _).
     Inr (db', result))"

subsection \<open>What the statements do\<close>

type_synonym accounts = "cstr \<rightharpoonup> int \<times> cstr"

text \<open>The id of the account with this name and password.\<close>

definition account_id :: "accounts \<Rightarrow> cstr \<Rightarrow> cstr \<Rightarrow> int option" where
  "account_id t u p = (case t u of Some (i, p') \<Rightarrow> if p' = p then Some i else None | None \<Rightarrow> None)"

text \<open>
  The documented behaviour of SQLite on the statements of the program, seen through
  \<open>tbl :: 'db \<rightharpoonup> accounts\<close> (\<open>None\<close> while the table does not exist): the three queries
  compile once the table exists, the insertion of a new name adds one row whose key is
  positive and answers \<open>SQLITE_DONE\<close>, the insertion of a name that is taken answers
  \<open>SQLITE_CONSTRAINT\<close> and changes nothing, and a selection produces the matching row, if
  there is one, and then \<open>SQLITE_DONE\<close>.
\<close>

definition insert_stmt :: "cstr \<Rightarrow> cstr \<Rightarrow> sql_stmt" where
  "insert_stmt u p =
     \<lparr> st_query = insert_query, st_binds = [(1, SqlText u), (2, SqlText p)], st_steps = 0 \<rparr>"

definition select_stmt :: "cstr \<Rightarrow> cstr \<Rightarrow> nat \<Rightarrow> sql_stmt" where
  "select_stmt u p n =
     \<lparr> st_query = select_query, st_binds = [(1, SqlText u), (2, SqlText p)], st_steps = n \<rparr>"

definition sql_creates :: "'db sqlite \<Rightarrow> ('db \<Rightarrow> accounts option) \<Rightarrow> bool" where
  "sql_creates S tbl \<longleftrightarrow>
     (\<forall>db. sq_prepare S db create_query = SQLITE_OK) \<and>
     (\<forall>db binds n. tbl (snd (sq_step S db \<lparr> st_query = create_query, st_binds = binds, st_steps = n \<rparr>)) =
        Some (case tbl db of None \<Rightarrow> Map.empty | Some t \<Rightarrow> t))"

definition sql_compiles :: "'db sqlite \<Rightarrow> ('db \<Rightarrow> accounts option) \<Rightarrow> bool" where
  "sql_compiles S tbl \<longleftrightarrow> (\<forall>db t. tbl db = Some t \<longrightarrow>
     sq_prepare S db insert_query = SQLITE_OK \<and> sq_prepare S db select_query = SQLITE_OK)"

definition sql_inserts :: "'db sqlite \<Rightarrow> ('db \<Rightarrow> accounts option) \<Rightarrow> bool" where
  "sql_inserts S tbl \<longleftrightarrow> (\<forall>db t u p. tbl db = Some t \<longrightarrow>
     (case t u of
        None \<Rightarrow> fst (sq_step S db (insert_stmt u p)) = SQLITE_DONE \<and>
          (\<exists>i > 0. tbl (snd (sq_step S db (insert_stmt u p))) = Some (t(u \<mapsto> (i, p))))
      | Some _ \<Rightarrow> fst (sq_step S db (insert_stmt u p)) = SQLITE_CONSTRAINT \<and>
          tbl (snd (sq_step S db (insert_stmt u p))) = Some t))"

definition sql_selects :: "'db sqlite \<Rightarrow> ('db \<Rightarrow> accounts option) \<Rightarrow> bool" where
  "sql_selects S tbl \<longleftrightarrow> (\<forall>db t u p n. tbl db = Some t \<longrightarrow>
     tbl (snd (sq_step S db (select_stmt u p n))) = Some t \<and>
     (case account_id t u p of
        Some i \<Rightarrow> fst (sq_step S db (select_stmt u p n)) = (if n = 0 then SQLITE_ROW else SQLITE_DONE) \<and>
          (n = 0 \<longrightarrow> sq_column_int64 S (snd (sq_step S db (select_stmt u p n))) (select_stmt u p 1) 0 = i)
      | None \<Rightarrow> fst (sq_step S db (select_stmt u p n)) = SQLITE_DONE))"

definition sqlite_accounts :: "'db sqlite \<Rightarrow> ('db \<Rightarrow> accounts option) \<Rightarrow> bool" where
  "sqlite_accounts S tbl \<longleftrightarrow>
     sql_creates S tbl \<and> sql_compiles S tbl \<and> sql_inserts S tbl \<and> sql_selects S tbl"

lemma AccountManager_new_table:
  assumes "sqlite_accounts S tbl"
  shows "tbl (AccountManager_new S db) = Some (case tbl db of None \<Rightarrow> Map.empty | Some t \<Rightarrow> t)"
  using assms
  by (simp add: AccountManager_new_def ExecuteNonQuery_def Prepare_def sqlite3_step_def
      sqlite_accounts_def sql_creates_def split_beta Let_def)

lemma bound_stmts:
  "bind_args \<lparr> st_query = insert_query, st_binds = [], st_steps = 0 \<rparr> 1 [ArgString u, ArgString p] =
     insert_stmt (until_nul u) (until_nul p)"
  "bind_args \<lparr> st_query = select_query, st_binds = [], st_steps = 0 \<rparr> 1 [ArgString u, ArgString p] =
     select_stmt (until_nul u) (until_nul p) 0"
  by (simp_all add: insert_stmt_def select_stmt_def numeral_2_eq_2)

lemma RegisterAccount_eq:
  assumes "sq_prepare S db insert_query = SQLITE_OK"
    and "r = sq_step S db (insert_stmt (until_nul (ac_userId a)) (until_nul (ac_password a)))"
  shows "RegisterAccount S db a = (snd r, fst r = SQLITE_DONE \<or> fst r = SQLITE_ROW)"
  using assms bound_stmts(1) [of "ac_userId a" "ac_password a"]
  by (simp add: RegisterAccount_def ExecuteNonQuery_def Prepare_def sqlite3_step_def split_beta
      Let_def del: bind_args.simps)

lemma RegisterAccount_spec:
  assumes S: "sqlite_accounts S tbl" and t: "tbl db = Some t"
  shows "snd (RegisterAccount S db a) = (t (until_nul (ac_userId a)) = None) \<and>
    (\<exists>i > 0. tbl (fst (RegisterAccount S db a)) = Some
      (if t (until_nul (ac_userId a)) = None
       then t(until_nul (ac_userId a) \<mapsto> (i, until_nul (ac_password a))) else t))"
proof -
  let ?u = "until_nul (ac_userId a)" and ?p = "until_nul (ac_password a)"
  have prep: "sq_prepare S db insert_query = SQLITE_OK"
    using S t by (simp add: sqlite_accounts_def sql_compiles_def)
  note eq = RegisterAccount_eq [OF prep refl]
  have ins: "sql_inserts S tbl" using S by (simp add: sqlite_accounts_def)
  show ?thesis
  proof (cases "t ?u")
    case None
    then have "fst (sq_step S db (insert_stmt ?u ?p)) = SQLITE_DONE"
      and "\<exists>i > 0. tbl (snd (sq_step S db (insert_stmt ?u ?p))) = Some (t(?u \<mapsto> (i, ?p)))"
      using ins [unfolded sql_inserts_def, rule_format, OF t, of ?u ?p] by simp_all
    then show ?thesis using None eq by simp
  next
    case (Some x)
    then have "fst (sq_step S db (insert_stmt ?u ?p)) = SQLITE_CONSTRAINT"
      and "tbl (snd (sq_step S db (insert_stmt ?u ?p))) = Some t"
      using ins [unfolded sql_inserts_def, rule_format, OF t, of ?u ?p] by simp_all
    then show ?thesis
      using Some eq by (auto simp: sqlite_codes intro: exI [of _ 1])
  qed
qed

lemma Authenticate_spec:
  assumes S: "sqlite_accounts S tbl" and t: "tbl db = Some t"
  shows "returns (Authenticate S db a) (\<lambda>(db', result). tbl db' = Some t \<and>
    result = (case account_id t (until_nul (ac_userId a)) (until_nul (ac_password a)) of
                None \<Rightarrow> 0 | Some i \<Rightarrow> i))"
proof -
  let ?u = "until_nul (ac_userId a)" and ?p = "until_nul (ac_password a)"
  have prep: "sq_prepare S db select_query = SQLITE_OK"
    using S t by (simp add: sqlite_accounts_def sql_compiles_def)
  have sel: "sql_selects S tbl" using S by (simp add: sqlite_accounts_def)
  note step = sel [unfolded sql_selects_def, rule_format, of _ t ?u ?p]
  have next_stmt: "(select_stmt ?u ?p n)\<lparr> st_steps := Suc (st_steps (select_stmt ?u ?p n)) \<rparr> =
      select_stmt ?u ?p (Suc n)" for n by (simp add: select_stmt_def)
  have auth: "Authenticate S db a = (case query_loop S (\<lambda>db st _. sq_column_int64 S db st 0) db (select_stmt ?u ?p 0) 0 of
       None \<Rightarrow> Inl NoReturn | Some (db', r, _) \<Rightarrow> Inr (db', r))"
    using bound_stmts(2) [of "ac_userId a" "ac_password a"]
    by (simp add: Authenticate_def ExecuteQuery_def Prepare_def prep del: bind_args.simps split: option.splits)
  show ?thesis
  proof (cases "account_id t ?u ?p")
    case None
    then have "query_loop S (\<lambda>db st _. sq_column_int64 S db st 0) db (select_stmt ?u ?p 0) 0 =
        Some (snd (sq_step S db (select_stmt ?u ?p 0)), 0, SQLITE_DONE)"
      using step [OF t, of 0]
      by (subst query_loop.simps) (simp add: sqlite3_step_def split_beta Let_def sqlite_codes)
    then show ?thesis using None auth step [OF t, of 0] by simp
  next
    case (Some i)
    let ?db1 = "snd (sq_step S db (select_stmt ?u ?p 0))"
    have 1: "tbl ?db1 = Some t" "fst (sq_step S db (select_stmt ?u ?p 0)) = SQLITE_ROW"
      "sq_column_int64 S ?db1 (select_stmt ?u ?p (Suc 0)) 0 = i"
      using step [OF t, of 0] Some by auto
    have 2: "tbl (snd (sq_step S ?db1 (select_stmt ?u ?p (Suc 0)))) = Some t"
      "fst (sq_step S ?db1 (select_stmt ?u ?p (Suc 0))) = SQLITE_DONE"
      using step [OF 1(1), of "Suc 0"] Some by auto
    have "query_loop S (\<lambda>db st _. sq_column_int64 S db st 0) db (select_stmt ?u ?p 0) 0 =
        query_loop S (\<lambda>db st _. sq_column_int64 S db st 0) ?db1 (select_stmt ?u ?p (Suc 0)) i"
      using 1 by (subst query_loop.simps) (simp add: sqlite3_step_def split_beta Let_def next_stmt)
    also have "\<dots> = Some (snd (sq_step S ?db1 (select_stmt ?u ?p (Suc 0))), i, SQLITE_DONE)"
      using 2 by (subst query_loop.simps)
        (simp add: sqlite3_step_def split_beta Let_def sqlite_codes)
    finally show ?thesis using Some 2(1) auth by simp
  qed
qed

end
