(* ===== verification/ServerState.thy ===== *)
theory ServerState
  imports OverlappedEx TaskQueue AccountManager
begin

section \<open>The state of the server and access to its parts\<close>

text \<open>
  One record holds what the server's components share: the session pool, the
  \<open>sessionPtrs_\<close> array and whether \<open>Init\<close> has set the other pointers of \<open>SessionManager\<close>, the packet pool and the task queue of
  \<open>PacketHandler\<close>, \<open>pendingAccepts_\<close> of \<open>Listener\<close>, the database behind
  \<open>AccountManager\<close>, and the list of Windows calls made so far.

  A session object is named by its index in the pool: \<open>this\<close> in a method of \<open>Session\<close>
  is that index, as the pool never moves an object. Each session owns one socket, so the
  index names the socket in a call as well.

  What lies outside the program is in the environment record: the results of the Windows
  calls (a function of the calls made before and of the call), the SQLite library, and the
  callback \<open>postReleaseFunc_\<close> that \<open>SessionManager::Init\<close> installs in the session pool.
\<close>

subsection \<open>Windows calls\<close>

datatype os_call =
    OS_WSARecv nat nat nat       \<comment> \<open>session, offset in its receive buffer, length\<close>
  | OS_WSASend nat nat nat       \<comment> \<open>session, offset in its send buffer, length\<close>
  | OS_AcceptEx nat
  | OS_DisconnectEx nat
  | OS_SetAcceptContext nat
  | OS_SetNoDelay nat
  | OS_RegisterIocp nat u64

text \<open>The return value of a call and what \<open>WSAGetLastError()\<close> gives after it.\<close>

type_synonym os = "os_call list \<Rightarrow> os_call \<Rightarrow> int \<times> int"

definition SOCKET_ERROR :: int where "SOCKET_ERROR = - 1"
definition WSA_IO_PENDING :: int where "WSA_IO_PENDING = 997"
definition ERROR_NETNAME_DELETED :: int where "ERROR_NETNAME_DELETED = 64"
definition ERROR_OPERATION_ABORTED :: int where "ERROR_OPERATION_ABORTED = 995"

subsection \<open>Records\<close>

datatype session_state = SS_kIdle | SS_kPending | SS_kConnected | SS_kDisconnecting | SS_kCnt

fun state_code :: "session_state \<Rightarrow> nat" where
  "state_code SS_kIdle = 0"
| "state_code SS_kPending = 1"
| "state_code SS_kConnected = 2"
| "state_code SS_kDisconnecting = 3"
| "state_code SS_kCnt = 4"

record session =
  se_recvOv :: overlapped_ex
  se_sendOv :: overlapped_ex
  se_disconnectOv :: overlapped_ex
  se_handle :: u64
  se_accountId :: int
  se_sessionManager :: bool
  se_listener :: bool
  se_packetHandler :: bool
  se_isSending :: bool

record task =
  task_this :: nat
  task_packet :: shared_ptr

record 'db world =
  w_spool :: "session sparse_pool"
  w_sessionPtrs :: "nat \<Rightarrow> shared_ptr"
  w_managerInit :: bool
  w_ppool :: "bytes sparse_pool"
  w_tasks :: "task task_queue"
  w_pendingAccepts :: nat
  w_db :: 'db
  w_trace :: "os_call list"

record 'db env =
  e_os :: os
  e_sql :: "'db sqlite"
  e_post :: "'db world \<Rightarrow> 'db world res"

definition Session_new :: "nat \<Rightarrow> session" where
  "Session_new bufferSize =
     \<lparr> se_recvOv = OverlappedEx_new bufferSize, se_sendOv = OverlappedEx_new bufferSize,
       se_disconnectOv = OverlappedEx_new bufferSize, se_handle = kInvalidHandle,
       se_accountId = 0, se_sessionManager = False, se_listener = False,
       se_packetHandler = False, se_isSending = False \<rparr>"

text \<open>The server after its constructors: \<open>n\<close> sessions, \<open>m\<close> packets, buffers of \<open>b\<close> bytes.\<close>

definition world_new :: "nat \<Rightarrow> nat \<Rightarrow> nat \<Rightarrow> 'db \<Rightarrow> 'db world" where
  "world_new n m b db =
     \<lparr> w_spool = SparsePool_new (Session_new b) n (state_code SS_kCnt),
       w_sessionPtrs = (\<lambda>_. nullSharedPtr), w_managerInit = False,
       w_ppool = SparsePool_new (\<lambda>_. 0) m 2,
       w_tasks = TaskQueue_new, w_pendingAccepts = 0, w_db = db, w_trace = [] \<rparr>"

text \<open>A Windows call: it is appended to the trace and answered by the environment.\<close>

definition os_do :: "'db env \<Rightarrow> 'db world \<Rightarrow> os_call \<Rightarrow> 'db world \<times> int \<times> int" where
  "os_do E w c = (w\<lparr> w_trace := w_trace w @ [c] \<rparr>, e_os E (w_trace w) c)"

subsection \<open>The two pools in the server\<close>

text \<open>
  The packet pool has no callbacks: \<open>std::array\<close> has no \<open>Init\<close>, there is no deleter and no
  post-release function. \<open>session_host\<close> is the session pool for everything but \<open>Acquire\<close>.
\<close>

definition packet_host :: "('db world, bytes) pool_host" where
  "packet_host =
     \<lparr> ph_get = w_ppool, ph_put = (\<lambda>p w. w\<lparr> w_ppool := p \<rparr>), ph_init = (\<lambda>w _. Inr w),
       ph_deleter = (\<lambda>w _. Inr w), ph_post = Inr \<rparr>"

definition session_host :: "'db env \<Rightarrow> ('db world, session) pool_host" where
  "session_host E =
     \<lparr> ph_get = w_spool, ph_put = (\<lambda>p w. w\<lparr> w_spool := p \<rparr>), ph_init = (\<lambda>w _. Inr w),
       ph_deleter = (\<lambda>w _. Inr w), ph_post = e_post E \<rparr>"

lemma packet_host_simps [simp]:
  "ph_get packet_host w = w_ppool w" "ph_put packet_host p w = w\<lparr> w_ppool := p \<rparr>"
  "ph_init packet_host w i = Inr w" "ph_deleter packet_host w i = Inr w"
  "ph_post packet_host w = Inr w"
  by (simp_all add: packet_host_def)

lemma session_host_simps [simp]:
  "ph_get (session_host E) w = w_spool w" "ph_put (session_host E) p w = w\<lparr> w_spool := p \<rparr>"
  "ph_init (session_host E) w i = Inr w" "ph_deleter (session_host E) w i = Inr w"
  "ph_post (session_host E) w = e_post E w"
  by (simp_all add: session_host_def)

interpretation spool: pool_host_laws "session_host E" for E
  by unfold_locales simp_all

interpretation ppool: pool_host_laws packet_host
  by unfold_locales simp_all

subsection \<open>Sessions\<close>

definition sess_at :: "'db env \<Rightarrow> 'db world \<Rightarrow> nat \<Rightarrow> session res" where
  "sess_at E w i = andThen (slot_at (session_host E) w i) (\<lambda>s. Inr (ps_obj s))"

definition sess_upd :: "'db env \<Rightarrow> 'db world \<Rightarrow> nat \<Rightarrow> (session \<Rightarrow> session) \<Rightarrow> 'db world res" where
  "sess_upd E w i f = slot_upd (session_host E) w i (\<lambda>s. s\<lparr> ps_obj := f (ps_obj s) \<rparr>)"

datatype ov_field = RecvOv | SendOv | DisconnectOv

fun get_ov :: "ov_field \<Rightarrow> session \<Rightarrow> overlapped_ex" where
  "get_ov RecvOv s = se_recvOv s"
| "get_ov SendOv s = se_sendOv s"
| "get_ov DisconnectOv s = se_disconnectOv s"

fun upd_ov :: "ov_field \<Rightarrow> (overlapped_ex \<Rightarrow> overlapped_ex) \<Rightarrow> session \<Rightarrow> session" where
  "upd_ov RecvOv f s = s\<lparr> se_recvOv := f (se_recvOv s) \<rparr>"
| "upd_ov SendOv f s = s\<lparr> se_sendOv := f (se_sendOv s) \<rparr>"
| "upd_ov DisconnectOv f s = s\<lparr> se_disconnectOv := f (se_disconnectOv s) \<rparr>"

text \<open>\<open>ov.sessionPtr_.Reset()\<close>\<close>

definition ov_ptr_Reset :: "'db env \<Rightarrow> 'db world \<Rightarrow> nat \<Rightarrow> ov_field \<Rightarrow> 'db world res" where
  "ov_ptr_Reset E w i f =
     andThen (sess_at E w i) (\<lambda>s.
     andThen (SharedPoolPtr_Reset (session_host E) w (ov_sessionPtr (get_ov f s))) (\<lambda>(w1, p).
     sess_upd E w1 i (upd_ov f (\<lambda>ov. ov\<lparr> ov_sessionPtr := p \<rparr>))))"

text \<open>\<open>ov.sessionPtr_ = <temporary>\<close>: a move assignment.\<close>

definition ov_ptr_take :: "'db env \<Rightarrow> 'db world \<Rightarrow> nat \<Rightarrow> ov_field \<Rightarrow> shared_ptr \<Rightarrow> 'db world res" where
  "ov_ptr_take E w i f tmp =
     andThen (sess_at E w i) (\<lambda>s.
     andThen (SharedPoolPtr_move_assign (session_host E) w False (ov_sessionPtr (get_ov f s)) tmp)
       (\<lambda>(w1, p, _).
     sess_upd E w1 i (upd_ov f (\<lambda>ov. ov\<lparr> ov_sessionPtr := p \<rparr>))))"

text \<open>\<open>OverlappedEx::Reset\<close> and \<open>Session::Init\<close>. \<open>accountId_\<close> is not touched.\<close>

definition OverlappedEx_Reset :: "'db env \<Rightarrow> 'db world \<Rightarrow> nat \<Rightarrow> ov_field \<Rightarrow> 'db world res" where
  "OverlappedEx_Reset E w i f =
     andThen (sess_upd E w i (upd_ov f ov_clear)) (\<lambda>w1. ov_ptr_Reset E w1 i f)"

definition Session_Init :: "'db env \<Rightarrow> 'db world \<Rightarrow> nat \<Rightarrow> 'db world res" where
  "Session_Init E w i =
     andThen (OverlappedEx_Reset E w i RecvOv) (\<lambda>w1.
     andThen (OverlappedEx_Reset E w1 i SendOv) (\<lambda>w2.
     andThen (OverlappedEx_Reset E w2 i DisconnectOv) (\<lambda>w3.
     sess_upd E w3 i (\<lambda>s. s\<lparr> se_listener := False, se_isSending := False,
                           se_handle := kInvalidHandle \<rparr>))))"

definition session_pool :: "'db env \<Rightarrow> ('db world, session) pool_host" where
  "session_pool E = (session_host E)\<lparr> ph_init := Session_Init E \<rparr>"

subsection \<open>SessionManager: lookup, states and release\<close>

definition SessionManager_GetSession :: "'db env \<Rightarrow> 'db world \<Rightarrow> u64 \<Rightarrow> ('db world \<times> shared_ptr) res" where
  "SessionManager_GetSession E w h =
     (let idx = who_of h in
      andThen (require (idx < pool_N (w_spool w)) OutOfBounds) (\<lambda>_.
      SharedPoolPtr_copy (session_host E) w (w_sessionPtrs w idx)))"

definition SessionManager_GetSessionsInState :: "'db world \<Rightarrow> session_state \<Rightarrow> u64 list res" where
  "SessionManager_GetSessionsInState w st =
     SparseSet_GetIndicesInState (sp_set (w_spool w)) (state_code st)"

definition SessionManager_GetState :: "'db world \<Rightarrow> u64 \<Rightarrow> nat res" where
  "SessionManager_GetState w h = SparseSet_GetState (sp_set (w_spool w)) h"

definition SessionManager_SetState :: "'db env \<Rightarrow> 'db world \<Rightarrow> u64 \<Rightarrow> session_state \<Rightarrow> 'db world res" where
  "SessionManager_SetState E w h st = SparsePool_MoveToState (session_host E) w h (state_code st)"

definition SessionManager_ConnectSession :: "'db env \<Rightarrow> 'db world \<Rightarrow> u64 \<Rightarrow> 'db world res" where
  "SessionManager_ConnectSession E w h =
     SparsePool_MoveToState (session_host E) w h (state_code SS_kConnected)"

definition SessionManager_DisconnectSession :: "'db env \<Rightarrow> 'db world \<Rightarrow> u64 \<Rightarrow> 'db world res" where
  "SessionManager_DisconnectSession E w h =
     (let idx = who_of h in
      andThen (require (idx < pool_N (w_spool w)) OutOfBounds) (\<lambda>_.
      andThen (SharedPoolPtr_Reset (session_host E) w (w_sessionPtrs w idx)) (\<lambda>(w1, p).
      Inr (w1\<lparr> w_sessionPtrs := (w_sessionPtrs w1)(idx := p) \<rparr>))))"

text \<open>\<open>sessionPtrs_[idx]->accountId_ = v\<close>\<close>

definition set_accountId :: "'db env \<Rightarrow> 'db world \<Rightarrow> u64 \<Rightarrow> int \<Rightarrow> 'db world res" where
  "set_accountId E w h v =
     (let idx = who_of h in
      andThen (require (idx < pool_N (w_spool w)) OutOfBounds) (\<lambda>_.
      andThen (require (sptr_pool (w_sessionPtrs w idx)) NullPointer) (\<lambda>_.
      sess_upd E w (who_of (sptr_handle (w_sessionPtrs w idx))) (\<lambda>s. s\<lparr> se_accountId := v \<rparr>))))"

definition SessionManager_LogInSession :: "'db env \<Rightarrow> 'db world \<Rightarrow> u64 \<Rightarrow> account \<Rightarrow> ('db world \<times> bool) res" where
  "SessionManager_LogInSession E w h a =
     andThen (require (w_managerInit w) NullPointer) (\<lambda>_.
     andThen (Authenticate (e_sql E) (w_db w) a) (\<lambda>(db, result).
     andThen (set_accountId E (w\<lparr> w_db := db \<rparr>) h (ac_dbId a)) (\<lambda>w1.
     Inr (w1, result \<noteq> 0))))"

definition SessionManager_LogOutSession :: "'db env \<Rightarrow> 'db world \<Rightarrow> u64 \<Rightarrow> 'db world res" where
  "SessionManager_LogOutSession E w h = set_accountId E w h 0"

subsection \<open>PacketHandler: packets and tasks\<close>

definition PacketHandler_AcquirePacket :: "'db world \<Rightarrow> ('db world \<times> shared_ptr) res" where
  "PacketHandler_AcquirePacket w = SparsePool_Acquire packet_host w 1"

text \<open>\<open>packet->data()\<close> as a byte block, and storing a changed block back.\<close>

definition packet_data :: "'db world \<Rightarrow> shared_ptr \<Rightarrow> bytes res" where
  "packet_data w p = SharedPoolPtr_Get packet_host w p"

definition packet_store :: "'db world \<Rightarrow> shared_ptr \<Rightarrow> bytes \<Rightarrow> 'db world res" where
  "packet_store w p blk =
     andThen (require (sptr_pool p) NullPointer) (\<lambda>_.
     slot_upd packet_host w (who_of (sptr_handle p)) (\<lambda>s. s\<lparr> ps_obj := blk \<rparr>))"

text \<open>\<open>memcpy\<close> into a block at an offset: a block has \<open>kMaxPacketSize\<close> bytes.\<close>

definition block_write :: "bytes \<Rightarrow> nat \<Rightarrow> u8 list \<Rightarrow> bytes res" where
  "block_write blk a bs =
     andThen (require (a + length bs \<le> kMaxPacketSize) OutOfBounds) (\<lambda>_. Inr (write_bytes blk a bs))"

definition block_read :: "bytes \<Rightarrow> nat \<Rightarrow> nat \<Rightarrow> u8 list res" where
  "block_read blk a n =
     andThen (require (a + n \<le> kMaxPacketSize) OutOfBounds) (\<lambda>_. Inr (slice_fun blk a n))"

text \<open>
  \<open>AcquirePacket(header)\<close>: the source of the \<open>memcpy\<close> is given as the bytes of the packet,
  read where the header lies.
\<close>

definition PacketHandler_AcquirePacket_copy :: "'db world \<Rightarrow> u8 list \<Rightarrow> ('db world \<times> shared_ptr) res" where
  "PacketHandler_AcquirePacket_copy w src =
     andThen (PacketHandler_AcquirePacket w) (\<lambda>(w1, p).
     andThen (packet_data w1 p) (\<lambda>blk.
     andThen (block_write blk 0 src) (\<lambda>blk'.
     andThen (packet_store w1 p blk') (\<lambda>w2.
     Inr (w2, p)))))"

definition PacketHandler_PostTask :: "'db world \<Rightarrow> task \<Rightarrow> 'db world" where
  "PacketHandler_PostTask w t = w\<lparr> w_tasks := TaskQueue_Push (w_tasks w) t \<rparr>"

end
