(* ===== verification/Framing.thy ===== *)
theory Framing
  imports Protocol
begin

section \<open>The packet stream a client sends, abstractly\<close>

text \<open>
  What \<open>Session::OnRecv\<close> is meant to do, stated on the byte stream alone: cut the stream into
  packets by the size field of their headers, keep an incomplete packet for later, and stop
  at a header whose size is invalid. The detailed model of the receive path (ring buffer,
  positions, packet pool, task queue) refines \<open>parse_stream\<close>.
\<close>

definition size_field :: "u8 list \<Rightarrow> nat" where
  "size_field bs = le_value (take 2 bs)"

function parse_stream :: "nat \<Rightarrow> u8 list \<Rightarrow> u8 list list \<times> u8 list \<times> bool" where
  "parse_stream lim bs =
     (if length bs < 4 then ([], bs, True)
      else if size_field bs < 4 \<or> lim \<le> size_field bs then ([], bs, False)
      else if length bs < size_field bs then ([], bs, True)
      else (let (ps, rest, ok) = parse_stream lim (drop (size_field bs) bs)
            in (take (size_field bs) bs # ps, rest, ok)))"
  by pat_completeness auto
termination
  by (relation "measure (\<lambda>(lim, bs). length bs)") auto

declare parse_stream.simps [simp del]

definition packet_wf :: "nat \<Rightarrow> u8 list \<Rightarrow> bool" where
  "packet_wf lim p \<longleftrightarrow> 4 \<le> length p \<and> length p < lim \<and> size_field p = length p"

text \<open>Chunks fed one after the other, keeping the unconsumed rest between them; after an invalid
  header everything that follows stays unread.\<close>

fun feed_chunks :: "nat \<Rightarrow> u8 list \<Rightarrow> u8 list list \<Rightarrow> u8 list list \<times> u8 list \<times> bool" where
  "feed_chunks lim rest [] = parse_stream lim rest"
| "feed_chunks lim rest (c # cs) =
     (let (ps, rest', ok) = parse_stream lim rest in
      if \<not> ok then (ps, rest' @ c @ concat cs, False)
      else (let (qs, rest'', ok') = feed_chunks lim (rest' @ c) cs in (ps @ qs, rest'', ok')))"

lemma size_field_append: "2 \<le> length a \<Longrightarrow> size_field (a @ b) = size_field a"
  by (simp add: size_field_def)

lemma parse_stream_append:
  "parse_stream lim a = (ps, rest, True) \<Longrightarrow>
   parse_stream lim (a @ b) =
     (let (qs, rest', ok) = parse_stream lim (rest @ b) in (ps @ qs, rest', ok))"
proof (induction lim a arbitrary: ps rule: parse_stream.induct)
  case (1 lim a)
  show ?case
  proof (cases "length a < 4 \<or> length a < size_field a")
    case True
    then have "ps = [] \<and> rest = a"
      using "1.prems" by (subst (asm) parse_stream.simps) (auto split: if_splits prod.splits)
    then show ?thesis by simp
  next
    case False
    then have v: "\<not> (size_field a < 4 \<or> lim \<le> size_field a)"
      using "1.prems" by (subst (asm) parse_stream.simps) (auto split: if_splits)
    obtain ps' ok where r: "parse_stream lim (drop (size_field a) a) = (ps', rest, True)"
      and ps: "ps = take (size_field a) a # ps'"
      using "1.prems" False v by (subst (asm) parse_stream.simps) (auto split: if_splits prod.splits)
    have "parse_stream lim (drop (size_field a) a @ b) =
        (let (qs, rest', ok) = parse_stream lim (rest @ b) in (ps' @ qs, rest', ok))"
      using "1.IH" [OF _ v _ r] False by simp
    then show ?thesis
      using False v ps
      by (subst parse_stream.simps) (auto simp: size_field_append split: prod.splits)
  qed
qed

lemma parse_stream_append_bad:
  "parse_stream lim a = (ps, rest, False) \<Longrightarrow> parse_stream lim (a @ b) = (ps, rest @ b, False)"
proof (induction lim a arbitrary: ps rule: parse_stream.induct)
  case (1 lim a)
  have l: "\<not> (length a < 4)"
    using "1.prems" by (subst (asm) parse_stream.simps) (auto split: if_splits)
  show ?case
  proof (cases "size_field a < 4 \<or> lim \<le> size_field a")
    case True
    then have "ps = [] \<and> rest = a"
      using "1.prems" l by (subst (asm) parse_stream.simps) simp
    then show ?thesis using True l by (subst parse_stream.simps) (simp add: size_field_append)
  next
    case False
    have l2: "\<not> length a < size_field a"
      using "1.prems" l False by (subst (asm) parse_stream.simps) (auto split: if_splits)
    obtain ps' where r: "parse_stream lim (drop (size_field a) a) = (ps', rest, False)"
      and ps: "ps = take (size_field a) a # ps'"
      using "1.prems" l l2 False by (subst (asm) parse_stream.simps) (auto split: if_splits prod.splits)
    have "parse_stream lim (drop (size_field a) a @ b) = (ps', rest @ b, False)"
      using "1.IH" [OF l False l2 r] .
    then show ?thesis
      using l l2 False ps by (subst parse_stream.simps) (auto simp: size_field_append)
  qed
qed

lemma feed_chunks_parse: "feed_chunks lim rest cs = parse_stream lim (rest @ concat cs)"
proof (induction cs arbitrary: rest)
  case Nil
  then show ?case by simp
next
  case (Cons c cs)
  obtain ps rest' ok where p: "parse_stream lim rest = (ps, rest', ok)" by (cases "parse_stream lim rest") auto
  show ?case
  proof (cases ok)
    case True
    then show ?thesis
      using p parse_stream_append [of lim rest ps rest' "c @ concat cs"] Cons.IH [of "rest' @ c"]
      by (auto split: prod.splits)
  next
    case False
    then show ?thesis
      using p parse_stream_append_bad [of lim rest ps rest' "c @ concat cs"]
      by simp
  qed
qed

lemma parse_stream_packet:
  "packet_wf lim p \<Longrightarrow>
   parse_stream lim (p @ b) = (let (qs, rest, ok) = parse_stream lim b in (p # qs, rest, ok))"
  by (subst parse_stream.simps) (auto simp: packet_wf_def size_field_append)

lemma parse_stream_packets:
  "\<forall>p \<in> set ps. packet_wf lim p \<Longrightarrow>
   parse_stream lim (concat ps @ b) = (let (qs, rest, ok) = parse_stream lim b in (ps @ qs, rest, ok))"
proof (induction ps)
  case Nil
  then show ?case by (simp split: prod.splits)
next
  case (Cons p ps)
  then show ?case using parse_stream_packet [of lim p "concat ps @ b"] by (auto split: prod.splits)
qed

lemma parse_stream_wf:
  "parse_stream lim bs = (ps, rest, ok) \<Longrightarrow>
   (\<forall>p \<in> set ps. packet_wf lim p) \<and> bs = concat ps @ rest"
proof (induction lim bs arbitrary: ps rule: parse_stream.induct)
  case (1 lim bs)
  show ?case
  proof (cases "length bs < 4 \<or> size_field bs < 4 \<or> lim \<le> size_field bs \<or> length bs < size_field bs")
    case True
    then have "ps = [] \<and> rest = bs"
      using "1.prems" by (subst (asm) parse_stream.simps) (auto split: if_splits)
    then show ?thesis by simp
  next
    case False
    obtain ps' where r: "parse_stream lim (drop (size_field bs) bs) = (ps', rest, ok)"
      and ps: "ps = take (size_field bs) bs # ps'"
      using "1.prems" False by (subst (asm) parse_stream.simps) (auto split: if_splits prod.splits)
    have "(\<forall>p \<in> set ps'. packet_wf lim p) \<and> drop (size_field bs) bs = concat ps' @ rest"
      using "1.IH" [OF _ _ _ r] False by auto
    moreover have "packet_wf lim (take (size_field bs) bs)"
      using False by (auto simp: packet_wf_def size_field_def min_absorb1)
    ultimately show ?thesis
      using ps append_take_drop_id [of "size_field bs" bs] by (simp add: \<open>ps = _\<close>)
  qed
qed

lemma parse_stream_rest:
  "parse_stream lim bs = (ps, rest, True) \<Longrightarrow>
   length rest < 4 \<or> length rest < size_field rest \<and> size_field rest < lim"
proof (induction lim bs arbitrary: ps rule: parse_stream.induct)
  case (1 lim bs)
  show ?case
  proof (cases "length bs < 4 \<or> size_field bs < 4 \<or> lim \<le> size_field bs \<or> length bs < size_field bs")
    case True
    then show ?thesis
      using "1.prems" by (subst (asm) parse_stream.simps) (auto split: if_splits)
  next
    case False
    obtain ps' where "parse_stream lim (drop (size_field bs) bs) = (ps', rest, True)"
      using "1.prems" False by (subst (asm) parse_stream.simps) (auto split: if_splits prod.splits)
    then show ?thesis using "1.IH" False by auto
  qed
qed

text \<open>
  A prefix of a valid stream: its packets are the first ones of the whole, and what is left of
  it is no longer than the longest packet or the incomplete end.
\<close>

lemma parse_stream_prefix:
  assumes whole: "parse_stream lim (a @ b) = (ps, rest, True)" and part: "parse_stream lim a = (ps1, rest1, ok1)"
    and ps: "\<forall>p \<in> set ps. length p \<le> B" and rest: "length rest \<le> B" and four: "4 \<le> B"
  shows "ok1" and "\<exists>ps2. ps = ps1 @ ps2 \<and> parse_stream lim (rest1 @ b) = (ps2, rest, True)" and "length rest1 \<le> B"
proof -
  show ok1 using whole part parse_stream_append_bad [of lim a ps1 rest1 b] by (cases ok1) auto
  then have part': "parse_stream lim a = (ps1, rest1, True)" using part by simp
  obtain ps2 where ps2: "ps = ps1 @ ps2" "parse_stream lim (rest1 @ b) = (ps2, rest, True)"
    using parse_stream_append [OF part', of b] whole by (auto split: prod.splits)
  then show "\<exists>ps2. ps = ps1 @ ps2 \<and> parse_stream lim (rest1 @ b) = (ps2, rest, True)" by blast
  show "length rest1 \<le> B"
  proof (cases "length rest1 < 4")
    case False
    then have inc: "length rest1 < size_field rest1" using parse_stream_rest [OF part'] by simp
    have sf: "size_field (rest1 @ b) = size_field rest1" using False by (simp add: size_field_append)
    show ?thesis
    proof (cases ps2)
      case Nil
      then have "rest = rest1 @ b" using parse_stream_wf [OF ps2(2)] by simp
      then show ?thesis using rest by simp
    next
      case (Cons p qs)
      then have "length p = size_field rest1"
        using ps2(2) False sf by (subst (asm) parse_stream.simps) (auto split: if_splits prod.splits)
      then show ?thesis using ps ps2(1) Cons inc by auto
    qed
  qed (use four in simp)
qed

lemma parse_stream_again:
  assumes "parse_stream lim bs = (ps, rest, True)"
  shows "parse_stream lim rest = ([], rest, True)"
  using parse_stream_rest [OF assms] by (subst parse_stream.simps) auto

end
