(* ===== verification/Session.thy ===== *)
theory Session
  imports ServerState Framing
begin

section \<open>Server/Session: the operations of one connection\<close>

text \<open>
  Every method of \<open>Session\<close> as a function of the environment, the world and the index of
  the session. The boolean in a result is the method's return value. The two mutexes
  \<open>sendCs_\<close> and \<open>connectCs_\<close> make the sections they guard single steps. Log lines have no
  effect on the state and are left out.
\<close>

subsection \<open>Receiving\<close>

text \<open>\<open>sessionManager_->GetSession(handle_)\<close> stored in an overlapped block.\<close>

definition ov_ptr_self :: "'db env \<Rightarrow> 'db world \<Rightarrow> nat \<Rightarrow> ov_field \<Rightarrow> 'db world res" where
  "ov_ptr_self E w i f =
     andThen (sess_at E w i) (\<lambda>s.
     andThen (require (se_sessionManager s) NullPointer) (\<lambda>_.
     andThen (SessionManager_GetSession E w (se_handle s)) (\<lambda>(w1, tmp).
     ov_ptr_take E w1 i f tmp)))"

text \<open>
  What \<open>RegisterRecv\<close> and \<open>RegisterSend\<close> do with the result of the call: a pending call
  is a success, any other failure drops the reference again.
\<close>

definition io_posted :: "'db env \<Rightarrow> 'db world \<Rightarrow> nat \<Rightarrow> ov_field \<Rightarrow> int \<times> int \<Rightarrow> ('db world \<times> bool) res" where
  "io_posted E w i f r =
     (if fst r = SOCKET_ERROR then
        if snd r = WSA_IO_PENDING then Inr (w, True)
        else andThen (ov_ptr_Reset E w i f) (\<lambda>w1. Inr (w1, False))
      else Inr (w, True))"

text \<open>The length is computed in \<open>size_t\<close> and stored in the 32 bits of \<open>WSABUF::len\<close>.\<close>

definition recv_len :: "overlapped_ex \<Rightarrow> nat" where
  "recv_len ov = trunc32 (trunc64 (sub64 (rb_size (ov_buffer ov)) (ov_sendPos ov) + ov_recvPos ov))"

definition Session_RegisterRecv :: "'db env \<Rightarrow> 'db world \<Rightarrow> nat \<Rightarrow> ('db world \<times> bool) res" where
  "Session_RegisterRecv E w i =
     andThen (sess_at E w i) (\<lambda>s.
     let ov = se_recvOv s; len = recv_len ov in
     andThen (sess_upd E w i (upd_ov RecvOv (\<lambda>ov. ov\<lparr> ov_wsaLen := len \<rparr>))) (\<lambda>w1.
     if len = 0 then Inr (w1, False)
     else
       andThen (sess_upd E w1 i (upd_ov RecvOv (\<lambda>ov.
         ov\<lparr> ov_ioType := IO_kRecv, ov_wsaBuf := Some (ov_sendPos ov) \<rparr>))) (\<lambda>w2.
       andThen (ov_ptr_self E w2 i RecvOv) (\<lambda>w3.
       let (w4, r) = os_do E w3 (OS_WSARecv i (ov_sendPos ov) len) in
       io_posted E w4 i RecvOv r))))"

text \<open>
  One round of the loop of \<open>OnRecv\<close>: \<open>RecvStop\<close> is the \<open>break\<close>, \<open>RecvBad\<close> the
  \<open>return false\<close>, \<open>RecvMore\<close> another round after a packet has been queued. The queued
  lambda captures \<open>this\<close> and the packet.
\<close>

datatype recv_ctl = RecvMore | RecvStop | RecvBad

definition Session_take_packet :: "'db env \<Rightarrow> 'db world \<Rightarrow> nat \<Rightarrow> nat \<Rightarrow> 'db world res" where
  "Session_take_packet E w i hs =
     andThen (sess_at E w i) (\<lambda>s.
     andThen (require (se_packetHandler s) NullPointer) (\<lambda>_.
     andThen (ring_read (ov_buffer (se_recvOv s)) (ov_recvPos (se_recvOv s)) hs) (\<lambda>bs.
     andThen (PacketHandler_AcquirePacket_copy w bs) (\<lambda>(w1, packet).
     sess_upd E (PacketHandler_PostTask w1 \<lparr> task_this = i, task_packet = packet \<rparr>) i
       (upd_ov RecvOv (\<lambda>ov. ov\<lparr> ov_recvPos := trunc64 (ov_recvPos ov + hs) \<rparr>))))))"

definition OnRecv_round :: "'db env \<Rightarrow> nat \<Rightarrow> 'db world \<Rightarrow> ('db world \<times> recv_ctl) res" where
  "OnRecv_round E i w =
     andThen (sess_at E w i) (\<lambda>s.
     let ov = se_recvOv s; availableData = ov_avail ov in
     if availableData < size_of PACKET_HEADER then Inr (w, RecvStop)
     else
       andThen (ring_read (ov_buffer ov) (ov_recvPos ov) (size_of PACKET_HEADER)) (\<lambda>header.
       let hs = size_field header in
       if hs < size_of PACKET_HEADER \<or> hs \<ge> rb_size (ov_buffer ov) then Inr (w, RecvBad)
       else if availableData < hs then Inr (w, RecvStop)
       else andThen (Session_take_packet E w i hs) (\<lambda>w1. Inr (w1, RecvMore))))"

partial_function (option) OnRecv_loop ::
    "'db env \<Rightarrow> nat \<Rightarrow> 'db world \<Rightarrow> ('db world \<times> recv_ctl) res option" where
  "OnRecv_loop E i w =
     (case OnRecv_round E i w of
        Inl e \<Rightarrow> Some (Inl e)
      | Inr (w1, c) \<Rightarrow> if c = RecvMore then OnRecv_loop E i w1 else Some (Inr (w1, c)))"

definition Session_OnRecv :: "'db env \<Rightarrow> 'db world \<Rightarrow> nat \<Rightarrow> nat \<Rightarrow> ('db world \<times> bool) res" where
  "Session_OnRecv E w i bytesTransferred =
     andThen (sess_upd E w i (upd_ov RecvOv (\<lambda>ov.
       ov\<lparr> ov_sendPos := trunc64 (ov_sendPos ov + bytesTransferred) \<rparr>))) (\<lambda>w1.
     andThen (loop_result (OnRecv_loop E i w1)) (\<lambda>(w2, c).
     if c = RecvBad then Inr (w2, False)
     else
       andThen (sess_upd E w2 i (upd_ov RecvOv ov_wrap)) (\<lambda>w3.
       Session_RegisterRecv E w3 i)))"

subsection \<open>Sending\<close>

definition Session_RegisterSend :: "'db env \<Rightarrow> 'db world \<Rightarrow> nat \<Rightarrow> ('db world \<times> bool) res" where
  "Session_RegisterSend E w i =
     andThen (sess_at E w i) (\<lambda>s.
     andThen (require (se_isSending s) AssertFailed) (\<lambda>_.
     let ov = se_sendOv s; len = trunc32 (ov_avail ov) in
     andThen (sess_upd E w i (upd_ov SendOv (\<lambda>ov.
       ov\<lparr> ov_ioType := IO_kSend, ov_wsaBuf := Some (ov_recvPos ov), ov_wsaLen := len \<rparr>))) (\<lambda>w1.
     andThen (ov_ptr_self E w1 i SendOv) (\<lambda>w2.
     let (w3, r) = os_do E w2 (OS_WSASend i (ov_recvPos ov) len) in
     io_posted E w3 i SendOv r))))"

definition Session_OnSend :: "'db env \<Rightarrow> 'db world \<Rightarrow> nat \<Rightarrow> nat \<Rightarrow> ('db world \<times> bool) res" where
  "Session_OnSend E w i bytesTransferred =
     andThen (sess_at E w i) (\<lambda>s.
     andThen (require (se_isSending s) AssertFailed) (\<lambda>_.
     let ov1 = ov_wrap ((se_sendOv s)\<lparr> ov_recvPos := trunc64 (ov_recvPos (se_sendOv s) + bytesTransferred) \<rparr>) in
     andThen (sess_upd E w i (upd_ov SendOv (\<lambda>_. ov1))) (\<lambda>w1.
     if ov_recvPos ov1 = ov_sendPos ov1 then
       andThen (sess_upd E w1 i (\<lambda>s. s\<lparr> se_isSending := False \<rparr>)) (\<lambda>w2. Inr (w2, True))
     else Session_RegisterSend E w1 i)))"

text \<open>
  \<open>SendPacket\<close>: the header the reference designates is the start of a packet block, of
  which \<open>header.size\<close> bytes are copied behind the data that waits to be sent.
\<close>

definition Session_SendPacket :: "'db env \<Rightarrow> 'db world \<Rightarrow> nat \<Rightarrow> bytes \<Rightarrow> ('db world \<times> bool) res" where
  "Session_SendPacket E w i blk =
     andThen (sess_at E w i) (\<lambda>s.
     let ov = se_sendOv s; sz = header_size blk 0 in
     if trunc64 (ov_avail ov + sz) > rb_size (ov_buffer ov) then Inr (w, False)
     else
       andThen (block_read blk 0 sz) (\<lambda>bs.
       andThen (ring_write (ov_buffer ov) (ov_sendPos ov) bs) (\<lambda>r.
       andThen (sess_upd E w i (upd_ov SendOv (\<lambda>ov.
         ov\<lparr> ov_buffer := r, ov_sendPos := trunc64 (ov_sendPos ov + sz) \<rparr>))) (\<lambda>w1.
       if se_isSending s then Inr (w1, True)
       else
         andThen (sess_upd E w1 i (\<lambda>s. s\<lparr> se_isSending := True \<rparr>)) (\<lambda>w2.
         Session_RegisterSend E w2 i)))))"

text \<open>\<open>HandleIO\<close>: the block \<open>ovEx\<close> is block \<open>f\<close> of session \<open>k\<close>.\<close>

definition Session_HandleIO ::
    "'db env \<Rightarrow> 'db world \<Rightarrow> nat \<Rightarrow> nat \<Rightarrow> ov_field \<Rightarrow> nat \<Rightarrow> ('db world \<times> bool) res" where
  "Session_HandleIO E w i k f bytesTransferred =
     andThen (sess_at E w k) (\<lambda>s.
     case ov_ioType (get_ov f s) of
       IO_kRecv \<Rightarrow> Session_OnRecv E w i bytesTransferred
     | IO_kSend \<Rightarrow> Session_OnSend E w i bytesTransferred
     | _ \<Rightarrow> Inr (w, False))"

subsection \<open>Connecting and disconnecting\<close>

text \<open>
  \<open>AcceptEx\<close> and \<open>DisconnectEx\<close> return a \<open>BOOL\<close>; the code compares it with
  \<open>SOCKET_ERROR\<close>. The reference taken for the completion is not dropped on a failure.
\<close>

definition ex_posted :: "'db world \<Rightarrow> int \<times> int \<Rightarrow> ('db world \<times> bool) res" where
  "ex_posted w r = Inr (w, \<not> (fst r = SOCKET_ERROR \<and> snd r \<noteq> WSA_IO_PENDING))"

definition Session_RegisterAccept :: "'db env \<Rightarrow> 'db world \<Rightarrow> nat \<Rightarrow> ('db world \<times> bool) res" where
  "Session_RegisterAccept E w i =
     andThen (sess_upd E w i (upd_ov RecvOv (\<lambda>ov. ov\<lparr> ov_ioType := IO_kAccept, ov_wsaBuf := Some 0,
       ov_wsaLen := trunc32 (rb_size (ov_buffer ov)) \<rparr>))) (\<lambda>w1.
     andThen (ov_ptr_self E w1 i RecvOv) (\<lambda>w2.
     let (w3, r) = os_do E w2 (OS_AcceptEx i) in ex_posted w3 r))"

definition Session_RegisterDisconnect :: "'db env \<Rightarrow> 'db world \<Rightarrow> nat \<Rightarrow> ('db world \<times> bool) res" where
  "Session_RegisterDisconnect E w i =
     andThen (sess_upd E w i (upd_ov DisconnectOv (\<lambda>ov. ov\<lparr> ov_ioType := IO_kDisconnect \<rparr>))) (\<lambda>w1.
     andThen (ov_ptr_self E w1 i DisconnectOv) (\<lambda>w2.
     let (w3, r) = os_do E w2 (OS_DisconnectEx i) in ex_posted w3 r))"

text \<open>\<open>sprintf(message, "%lld", handle_)\<close>: the 64 bits read as a signed number.\<close>

fun decimal_digits :: "nat \<Rightarrow> u8 list" where
  "decimal_digits n = (if n < 10 then [of_nat (48 + n)]
                       else decimal_digits (n div 10) @ [of_nat (48 + n mod 10)])"

declare decimal_digits.simps [simp del]

definition print_lld :: "u64 \<Rightarrow> u8 list" where
  "print_lld h = (if sint h < 0 then 45 # decimal_digits (nat (- sint h))
                  else decimal_digits (nat (sint h)))"

text \<open>\<open>strlen\<close> of the text at an offset of a block.\<close>

definition block_strlen :: "bytes \<Rightarrow> nat \<Rightarrow> nat res" where
  "block_strlen blk a =
     (let n = length (until_nul (slice_fun blk a (kMaxPacketSize - a))) in
      andThen (require (a + n < kMaxPacketSize) OutOfBounds) (\<lambda>_. Inr n))"

text \<open>The welcome packet of \<open>Connect\<close>, built in a block of the packet pool.\<close>

definition welcome_block :: "bytes \<Rightarrow> u64 \<Rightarrow> bytes res" where
  "welcome_block blk h =
     (let msg = offset_of S2C_CHAT ''message'' in
      andThen (block_write (set_header_id blk PKT_kChat) msg (print_lld h @ [0])) (\<lambda>blk1.
      andThen (block_strlen blk1 msg) (\<lambda>n.
      Inr (set_header_size blk1 (size_of PACKET_HEADER + n + 1)))))"

definition Session_Connect :: "'db env \<Rightarrow> 'db world \<Rightarrow> nat \<Rightarrow> ('db world \<times> bool) res" where
  "Session_Connect E w i =
     andThen (sess_at E w i) (\<lambda>s.
     andThen (require (se_sessionManager s) NullPointer) (\<lambda>_.
     andThen (SessionManager_GetState w (se_handle s)) (\<lambda>st.
     if st \<noteq> state_code SS_kPending then Inr (w, False)
     else
       andThen (SessionManager_ConnectSession E w (se_handle s)) (\<lambda>w1.
       andThen (require (se_packetHandler s) NullPointer) (\<lambda>_.
       andThen (PacketHandler_AcquirePacket w1) (\<lambda>(w2, packet).
       andThen (packet_data w2 packet) (\<lambda>blk.
       andThen (welcome_block blk (se_handle s)) (\<lambda>blk'.
       andThen (packet_store w2 packet blk') (\<lambda>w3.
       andThen (Session_SendPacket E w3 i blk') (\<lambda>(w4, sent).
       andThen (if sent then Session_RegisterRecv E w4 i else Inr (w4, False)) (\<lambda>(w5, ok).
       andThen (SharedPoolPtr_delete packet_host w5 packet) (\<lambda>w6.
       Inr (w6, ok)))))))))))))"

definition Session_Disconnect :: "'db env \<Rightarrow> 'db world \<Rightarrow> nat \<Rightarrow> ('db world \<times> bool) res" where
  "Session_Disconnect E w i =
     andThen (sess_at E w i) (\<lambda>s.
     andThen (require (se_sessionManager s) NullPointer) (\<lambda>_.
     andThen (SessionManager_GetState w (se_handle s)) (\<lambda>st.
     if st = state_code SS_kPending \<or> st = state_code SS_kConnected then
       andThen (SessionManager_SetState E w (se_handle s) SS_kDisconnecting) (\<lambda>w1.
       Session_RegisterDisconnect E w1 i)
     else if st = state_code SS_kDisconnecting then Inr (w, True)
     else Inr (w, False))))"

definition Session_Reset :: "'db env \<Rightarrow> 'db world \<Rightarrow> nat \<Rightarrow> ('db world \<times> bool) res" where
  "Session_Reset E w i =
     andThen (sess_at E w i) (\<lambda>s.
     andThen (require (se_sessionManager s) NullPointer) (\<lambda>_.
     andThen (SessionManager_DisconnectSession E w (se_handle s)) (\<lambda>w1. Inr (w1, True))))"

end
