(* ===== verification/SessionManager.thy ===== *)
theory SessionManager
  imports Session
begin

section \<open>Server/SessionManager: creation and registration of sessions\<close>

text \<open>
  The lookups and state changes of \<open>SessionManager\<close> that \<open>Session\<close> calls are in
  \<open>ServerState\<close>; here are the operations that build on sessions. \<open>w_managerInit\<close> says
  whether \<open>Init\<close> has set \<open>packetHandler_\<close>, \<open>accountManager_\<close> and \<open>iocpCore_\<close>.
\<close>

text \<open>\<open>IocpCore::Register\<close> of the socket of session \<open>i\<close>: a null handle is a failure.\<close>

definition IocpCore_Register :: "'db env \<Rightarrow> 'db world \<Rightarrow> nat \<Rightarrow> u64 \<Rightarrow> 'db world \<times> bool" where
  "IocpCore_Register E w i completionKey =
     (let (w1, r) = os_do E w (OS_RegisterIocp i completionKey) in (w1, fst r \<noteq> 0))"

definition SessionManager_RegisterSession :: "'db env \<Rightarrow> 'db world \<Rightarrow> u64 \<Rightarrow> ('db world \<times> bool) res" where
  "SessionManager_RegisterSession E w h =
     andThen (sess_at E w (who_of h)) (\<lambda>_.
     andThen (require (w_managerInit w) NullPointer) (\<lambda>_.
     Inr (IocpCore_Register E w (who_of h) h)))"

text \<open>\<open>std::ranges::all_of\<close> stops at the first socket that cannot be registered.\<close>

fun register_all :: "'db env \<Rightarrow> 'db world \<Rightarrow> u64 list \<Rightarrow> ('db world \<times> bool) res" where
  "register_all E w [] = Inr (w, True)"
| "register_all E w (h # hs) =
     andThen (SessionManager_RegisterSession E w h) (\<lambda>(w1, ok).
     if ok then register_all E w1 hs else Inr (w1, False))"

definition SessionManager_Init :: "'db env \<Rightarrow> 'db world \<Rightarrow> ('db world \<times> bool) res" where
  "SessionManager_Init E w =
     (let w1 = w\<lparr> w_managerInit := True \<rparr> in
      andThen (SessionManager_GetSessionsInState w1 SS_kIdle) (\<lambda>handles. register_all E w1 handles))"

definition SessionManager_CreateSession :: "'db env \<Rightarrow> 'db world \<Rightarrow> ('db world \<times> shared_ptr) res" where
  "SessionManager_CreateSession E w =
     andThen (SparsePool_Acquire (session_pool E) w (state_code SS_kPending)) (\<lambda>(w1, sessionPtr).
     if \<not> SharedPoolPtr_IsValid (session_host E) w1 sessionPtr then
       andThen (SharedPoolPtr_delete (session_host E) w1 sessionPtr) (\<lambda>w2. Inr (w2, nullSharedPtr))
     else
       let h = sptr_handle sessionPtr; idx = who_of h in
       andThen (sess_upd E w1 idx (\<lambda>s. s\<lparr> se_sessionManager := True,
         se_packetHandler := w_managerInit w1, se_handle := h \<rparr>)) (\<lambda>w2.
       andThen (require (idx < pool_N (w_spool w2)) OutOfBounds) (\<lambda>_.
       andThen (SharedPoolPtr_move_assign (session_host E) w2 False (w_sessionPtrs w2 idx) sessionPtr)
         (\<lambda>(w3, p, _).
       let w4 = w3\<lparr> w_sessionPtrs := (w_sessionPtrs w3)(idx := p) \<rparr> in
       SharedPoolPtr_copy (session_host E) w4 (w_sessionPtrs w4 idx)))))"

end
