(* ===== verification/PacketHandler.thy ===== *)
theory PacketHandler
  imports SessionManager
begin

section \<open>Server/PacketHandler: the packet worker and its handlers\<close>

text \<open>
  \<open>PostTask\<close> and \<open>AcquirePacket\<close> are in \<open>ServerState\<close>. A queued task is the lambda of
  \<open>Session::OnRecv\<close>: the session it captured as a raw pointer and the packet it owns.
  \<open>Execute\<close> copies the packet once more and calls the handler of its id; a handler gets
  the bytes of that copy.
\<close>

subsection \<open>Sending to sessions\<close>

definition PacketHandler_SendToSession :: "'db env \<Rightarrow> 'db world \<Rightarrow> u64 \<Rightarrow> bytes \<Rightarrow> 'db world res" where
  "PacketHandler_SendToSession E w sessionHandle blk =
     andThen (SessionManager_GetSession E w sessionHandle) (\<lambda>(w1, session).
     andThen (if SharedPoolPtr_IsValid (session_host E) w1 session
              then andThen (Session_SendPacket E w1 (who_of (sptr_handle session)) blk) (\<lambda>(w2, _). Inr w2)
              else Inr w1) (\<lambda>w3.
     SharedPoolPtr_delete (session_host E) w3 session))"

fun broadcast_to :: "'db env \<Rightarrow> 'db world \<Rightarrow> u64 \<Rightarrow> bytes \<Rightarrow> u64 list \<Rightarrow> 'db world res" where
  "broadcast_to E w sessionHandle blk [] = Inr w"
| "broadcast_to E w sessionHandle blk (h # hs) =
     andThen (if h \<noteq> sessionHandle then PacketHandler_SendToSession E w h blk else Inr w) (\<lambda>w1.
     broadcast_to E w1 sessionHandle blk hs)"

definition PacketHandler_Broadcast :: "'db env \<Rightarrow> 'db world \<Rightarrow> u64 \<Rightarrow> bytes \<Rightarrow> 'db world res" where
  "PacketHandler_Broadcast E w sessionHandle blk =
     andThen (SessionManager_GetSessionsInState w SS_kConnected) (\<lambda>sessions.
     broadcast_to E w sessionHandle blk sessions)"

subsection \<open>Handlers\<close>

text \<open>\<open>session.GetHandle()\<close>\<close>

definition session_handle :: "'db env \<Rightarrow> 'db world \<Rightarrow> nat \<Rightarrow> u64 res" where
  "session_handle E w i = andThen (sess_at E w i) (\<lambda>s. Inr (se_handle s))"

text \<open>
  A response lives in a packet of its own: \<open>with_packet\<close> acquires it, lets the handler fill
  and use the block, and drops the reference at the end of the handler.
\<close>

definition with_packet :: "'db world \<Rightarrow> ('db world \<Rightarrow> shared_ptr \<Rightarrow> bytes \<Rightarrow> 'db world res) \<Rightarrow> 'db world res" where
  "with_packet w f =
     andThen (PacketHandler_AcquirePacket w) (\<lambda>(w1, packet).
     andThen (packet_data w1 packet) (\<lambda>blk.
     andThen (f w1 packet blk) (\<lambda>w2.
     SharedPoolPtr_delete packet_host w2 packet)))"

definition move_block :: "bytes \<Rightarrow> bytes \<Rightarrow> u64 \<Rightarrow> bytes res" where
  "move_block blk header h =
     (let b1 = set_header_size (set_header_id blk PKT_kMove) (size_of S2C_MOVE);
          b2 = put_field b1 (offset_of S2C_MOVE ''sessionHandle'') 8 (unat h) in
      andThen (block_read header (offset_of C2S_MOVE ''x'') 4) (\<lambda>x.
      andThen (block_write b2 (offset_of S2C_MOVE ''x'') x) (\<lambda>b3.
      andThen (block_read header (offset_of C2S_MOVE ''y'') 4) (\<lambda>y.
      block_write b3 (offset_of S2C_MOVE ''y'') y))))"

definition PacketHandler_HandleMove :: "'db env \<Rightarrow> 'db world \<Rightarrow> nat \<Rightarrow> bytes \<Rightarrow> 'db world res" where
  "PacketHandler_HandleMove E w i header =
     with_packet w (\<lambda>w1 packet blk.
     andThen (session_handle E w1 i) (\<lambda>h.
     andThen (move_block blk header h) (\<lambda>blk'.
     andThen (packet_store w1 packet blk') (\<lambda>w2.
     PacketHandler_Broadcast E w2 h blk'))))"

text \<open>The new size is stored in 16 bits; the message is copied in full.\<close>

definition chat_block :: "bytes \<Rightarrow> bytes \<Rightarrow> u64 \<Rightarrow> bytes res" where
  "chat_block blk header h =
     (let sz = header_size header 0;
          b1 = set_header_size (set_header_id blk PKT_kChat) (sz + 8);
          b2 = put_field b1 (offset_of S2C_CHAT ''sessionHandle'') 8 (unat h);
          n = sub64 sz (size_of PACKET_HEADER) in
      andThen (block_read header (size_of PACKET_HEADER) n) (\<lambda>msg.
      block_write b2 (offset_of S2C_CHAT ''message'') msg))"

definition PacketHandler_HandleChat :: "'db env \<Rightarrow> 'db world \<Rightarrow> nat \<Rightarrow> bytes \<Rightarrow> 'db world res" where
  "PacketHandler_HandleChat E w i header =
     with_packet w (\<lambda>w1 packet blk.
     andThen (session_handle E w1 i) (\<lambda>h.
     andThen (chat_block blk header h) (\<lambda>blk'.
     andThen (packet_store w1 packet blk') (\<lambda>w2.
     PacketHandler_Broadcast E w2 h blk'))))"

text \<open>
  A response with a success flag and a text: \<open>strncpy_s\<close> with the length of the text
  copies it and its terminating zero. The three packed structs have the same layout.
\<close>

definition ascii :: "string \<Rightarrow> u8 list" where
  "ascii s = map (\<lambda>c. of_nat (of_char c)) s"

definition response_block :: "bytes \<Rightarrow> packet_id \<Rightarrow> layout \<Rightarrow> bool \<Rightarrow> string \<Rightarrow> bytes res" where
  "response_block blk pid l success resultMessage =
     (let b1 = set_header_id blk pid;
          b2 = put_field b1 (offset_of l ''success'') 1 (if success then 1 else 0);
          messageLength = length resultMessage + 1 in
      andThen (block_write b2 (offset_of l ''message'') (ascii resultMessage @ [0])) (\<lambda>b3.
      Inr (set_header_size b3 (size_of l + messageLength))))"

text \<open>The account of a request: the id and the password up to \<open>strnlen\<close>.\<close>

definition request_account :: "bytes \<Rightarrow> layout \<Rightarrow> account res" where
  "request_account header l =
     andThen (block_read header (offset_of l ''id'') kIdLength) (\<lambda>u.
     andThen (block_read header (offset_of l ''password'') kPasswordLength) (\<lambda>p.
     Inr (Account_new (until_nul u) (until_nul p))))"

definition PacketHandler_HandleRegister :: "'db env \<Rightarrow> 'db world \<Rightarrow> nat \<Rightarrow> bytes \<Rightarrow> 'db world res" where
  "PacketHandler_HandleRegister E w i header =
     andThen (request_account header C2S_REGISTER) (\<lambda>a.
     let (db, success) = RegisterAccount (e_sql E) (w_db w) a in
     with_packet (w\<lparr> w_db := db \<rparr>) (\<lambda>w1 packet blk.
     andThen (response_block blk PKT_kRegister S2C_REGISTER success
       (if success then ''Registration successful'' else ''ID already exists'')) (\<lambda>blk'.
     andThen (packet_store w1 packet blk') (\<lambda>w2.
     andThen (Session_SendPacket E w2 i blk') (\<lambda>(w3, _). Inr w3)))))"

definition PacketHandler_HandleLogin :: "'db env \<Rightarrow> 'db world \<Rightarrow> nat \<Rightarrow> bytes \<Rightarrow> 'db world res" where
  "PacketHandler_HandleLogin E w i header =
     andThen (request_account header C2S_LOGIN) (\<lambda>a.
     with_packet w (\<lambda>w1 packet blk.
     andThen (session_handle E w1 i) (\<lambda>h.
     andThen (SessionManager_LogInSession E w1 h a) (\<lambda>(w2, success).
     andThen (response_block blk PKT_kLogin S2C_LOGIN success
       (if success then ''Login successful'' else ''Invalid credentials'')) (\<lambda>blk'.
     andThen (packet_store w2 packet blk') (\<lambda>w3.
     andThen (Session_SendPacket E w3 i blk') (\<lambda>(w4, _). Inr w4)))))))"

definition PacketHandler_HandleLogout :: "'db env \<Rightarrow> 'db world \<Rightarrow> nat \<Rightarrow> bytes \<Rightarrow> 'db world res" where
  "PacketHandler_HandleLogout E w i header =
     with_packet w (\<lambda>w1 packet blk.
     andThen (response_block blk PKT_kLogout S2C_LOGOUT True ''Logout successful'') (\<lambda>blk'.
     andThen (packet_store w1 packet blk') (\<lambda>w2.
     andThen (Session_SendPacket E w2 i blk') (\<lambda>(w3, _).
     andThen (session_handle E w3 i) (\<lambda>h.
     SessionManager_LogOutSession E w3 h)))))"

subsection \<open>Execute and the worker\<close>

text \<open>The table the constructor fills: \<open>handlers_[0]\<close> stays empty.\<close>

definition PacketHandler_handlers ::
    "'db env \<Rightarrow> nat \<Rightarrow> ('db world \<Rightarrow> nat \<Rightarrow> bytes \<Rightarrow> 'db world res) option" where
  "PacketHandler_handlers E =
     (\<lambda>_. None)
       (packet_code PKT_kMove := Some (PacketHandler_HandleMove E),
        packet_code PKT_kChat := Some (PacketHandler_HandleChat E),
        packet_code PKT_kRegister := Some (PacketHandler_HandleRegister E),
        packet_code PKT_kLogin := Some (PacketHandler_HandleLogin E),
        packet_code PKT_kLogout := Some (PacketHandler_HandleLogout E))"

definition PacketHandler_Execute :: "'db env \<Rightarrow> 'db world \<Rightarrow> nat \<Rightarrow> bytes \<Rightarrow> 'db world res" where
  "PacketHandler_Execute E w i header =
     (if header_id header 0 \<ge> packet_code PKT_kCnt then Inr w
      else case PacketHandler_handlers E (header_id header 0) of
        None \<Rightarrow> Inr w
      | Some handler \<Rightarrow>
          with_packet w (\<lambda>w1 packet blk.
          andThen (block_read header 0 (header_size header 0)) (\<lambda>bs.
          andThen (block_write blk 0 bs) (\<lambda>blk'.
          andThen (packet_store w1 packet blk') (\<lambda>w2.
          handler w2 i blk')))))"

text \<open>Running a task: the lambda, and its destruction at the end of the worker's round.\<close>

definition run_task :: "'db env \<Rightarrow> 'db world \<Rightarrow> task \<Rightarrow> 'db world res" where
  "run_task E w t =
     andThen (packet_data w (task_packet t)) (\<lambda>header.
     andThen (PacketHandler_Execute E w (task_this t) header) (\<lambda>w1.
     SharedPoolPtr_delete packet_host w1 (task_packet t)))"

text \<open>
  The worker runs until \<open>Pop\<close> blocks on the empty queue or returns \<open>nullptr\<close> on
  shutdown; the flag says whether the thread has ended.
\<close>

partial_function (option) PacketHandler_WorkerThreadFunc ::
    "'db env \<Rightarrow> 'db world \<Rightarrow> ('db world \<times> bool) res option" where
  "PacketHandler_WorkerThreadFunc E w =
     (case TaskQueue_Pop (w_tasks w) of
        None \<Rightarrow> Some (Inr (w, False))
      | Some (q, None) \<Rightarrow> Some (Inr (w\<lparr> w_tasks := q \<rparr>, True))
      | Some (q, Some t) \<Rightarrow>
          (case run_task E (w\<lparr> w_tasks := q \<rparr>) t of
             Inl e \<Rightarrow> Some (Inl e)
           | Inr w1 \<Rightarrow> PacketHandler_WorkerThreadFunc E w1))"

end
