(* ===== verification/Listener.thy ===== *)
theory Listener
  imports PacketHandler
begin

section \<open>Server/Listener: the pool of pending accepts\<close>

text \<open>
  \<open>PostAccept\<close> fills the number of pending \<open>AcceptEx\<close> calls up to \<open>kMaxAccept\<close>. It is
  also the post-release function of the session pool, so releasing a session posts a new
  accept. \<open>server_env\<close> ties this knot: at depth \<open>Suc d\<close> the release of a session runs
  \<open>PostAccept\<close> whose own releases run at depth \<open>d\<close>; at depth 0 a release does not return.
\<close>

datatype accept_ctl = AcceptMore | AcceptDone bool

definition PostAccept_round :: "'db env \<Rightarrow> 'db world \<Rightarrow> ('db world \<times> accept_ctl) res" where
  "PostAccept_round E w =
     (if w_pendingAccepts w \<ge> kMaxAccept then Inr (w, AcceptDone True)
      else
        andThen (SessionManager_CreateSession E (w\<lparr> w_pendingAccepts := trunc64 (w_pendingAccepts w + 1) \<rparr>))
          (\<lambda>(w1, sessionPtr).
        if \<not> SharedPoolPtr_IsValid (session_host E) w1 sessionPtr then
          andThen (SharedPoolPtr_delete (session_host E)
              (w1\<lparr> w_pendingAccepts := sub64 (w_pendingAccepts w1) 1 \<rparr>) sessionPtr) (\<lambda>w2.
          Inr (w2, AcceptDone False))
        else
          let i = who_of (sptr_handle sessionPtr) in
          andThen (Session_RegisterAccept E w1 i) (\<lambda>(w2, ok).
          if \<not> ok then
            andThen (Session_Disconnect E
                (w2\<lparr> w_pendingAccepts := sub64 (w_pendingAccepts w2) 1 \<rparr>) i) (\<lambda>(w3, _).
            andThen (SharedPoolPtr_delete (session_host E) w3 sessionPtr) (\<lambda>w4.
            Inr (w4, AcceptDone False)))
          else
            andThen (sess_upd E w2 i (\<lambda>s. s\<lparr> se_listener := True \<rparr>)) (\<lambda>w3.
            andThen (SharedPoolPtr_delete (session_host E) w3 sessionPtr) (\<lambda>w4.
            Inr (w4, AcceptMore))))))"

partial_function (option) PostAccept_loop :: "'db env \<Rightarrow> 'db world \<Rightarrow> ('db world \<times> bool) res option" where
  "PostAccept_loop E w =
     (case PostAccept_round E w of
        Inl e \<Rightarrow> Some (Inl e)
      | Inr (w1, c) \<Rightarrow>
          (case c of AcceptMore \<Rightarrow> PostAccept_loop E w1 | AcceptDone b \<Rightarrow> Some (Inr (w1, b))))"

definition Listener_PostAccept :: "'db env \<Rightarrow> 'db world \<Rightarrow> ('db world \<times> bool) res" where
  "Listener_PostAccept E w = loop_result (PostAccept_loop E w)"

definition Listener_DecrementPendingAccepts :: "'db env \<Rightarrow> 'db world \<Rightarrow> 'db world res" where
  "Listener_DecrementPendingAccepts E w =
     andThen (Listener_PostAccept E (w\<lparr> w_pendingAccepts := sub64 (w_pendingAccepts w) 1 \<rparr>)) (\<lambda>(w1, _).
     Inr w1)"

definition Listener_HandleAccept :: "'db env \<Rightarrow> 'db world \<Rightarrow> nat \<Rightarrow> ('db world \<times> bool) res" where
  "Listener_HandleAccept E w i =
     andThen (sess_at E w i) (\<lambda>_.
     let (w1, r1) = os_do E w (OS_SetAcceptContext i) in
     if fst r1 = SOCKET_ERROR then Inr (w1, False)
     else
       let (w2, r2) = os_do E w1 (OS_SetNoDelay i) in
       if fst r2 = SOCKET_ERROR then Inr (w2, False)
       else
         andThen (Session_Connect E w2 i) (\<lambda>(w3, ok). Inr (w3, ok)))"

text \<open>The environment in which a released session posts a new accept.\<close>

fun server_env :: "os \<Rightarrow> 'db sqlite \<Rightarrow> nat \<Rightarrow> 'db env" where
  "server_env os sql 0 = \<lparr> e_os = os, e_sql = sql, e_post = (\<lambda>_. Inl NoReturn) \<rparr>"
| "server_env os sql (Suc d) =
     \<lparr> e_os = os, e_sql = sql,
       e_post = (\<lambda>w. andThen (Listener_PostAccept (server_env os sql d) w) (\<lambda>(w1, _). Inr w1)) \<rparr>"

end
