(* ===== verification/IocpCore.thy ===== *)
theory IocpCore
  imports Listener
begin

section \<open>Server/IocpCore: completions and their dispatch\<close>

text \<open>
  A completion is what \<open>GetQueuedCompletionStatus\<close> returns: whether the operation
  succeeded, the number of bytes, the error code and the overlapped block, here the session
  that contains it and which of its three blocks it is. \<open>CONTAINING_RECORD\<close> finds the block
  from its address alone, so it does not matter whether the session is still alive.
\<close>

record completion =
  co_ok :: bool
  co_bytes :: nat
  co_error :: int
  co_target :: "(nat \<times> ov_field) option"

text \<open>\<open>sessionPtr->f()\<close> on a local pointer: the index of the session it designates.\<close>

definition via :: "'db env \<Rightarrow> 'db world \<Rightarrow> shared_ptr \<Rightarrow> nat res" where
  "via E w p = andThen (SharedPoolPtr_Get (session_host E) w p) (\<lambda>_. Inr (who_of (sptr_handle p)))"

text \<open>A local copy of \<open>overlappedEx.sessionPtr_\<close>.\<close>

definition ov_ptr_copy :: "'db env \<Rightarrow> 'db world \<Rightarrow> nat \<Rightarrow> ov_field \<Rightarrow> ('db world \<times> shared_ptr) res" where
  "ov_ptr_copy E w i f =
     andThen (sess_at E w i) (\<lambda>s. SharedPoolPtr_copy (session_host E) w (ov_sessionPtr (get_ov f s)))"

definition disconnect_via :: "'db env \<Rightarrow> 'db world \<Rightarrow> shared_ptr \<Rightarrow> 'db world res" where
  "disconnect_via E w p =
     andThen (via E w p) (\<lambda>j. andThen (Session_Disconnect E w j) (\<lambda>(w1, _). Inr w1))"

definition reset_via :: "'db env \<Rightarrow> 'db world \<Rightarrow> shared_ptr \<Rightarrow> 'db world res" where
  "reset_via E w p =
     andThen (via E w p) (\<lambda>j. andThen (Session_Reset E w j) (\<lambda>(w1, _). Inr w1))"

text \<open>The error code selects a log line only, so it does not occur in the result.\<close>

definition IocpCore_HandleError :: "'db env \<Rightarrow> 'db world \<Rightarrow> nat \<Rightarrow> ov_field \<Rightarrow> 'db world res" where
  "IocpCore_HandleError E w i f =
     andThen (ov_ptr_copy E w i f) (\<lambda>(w1, sessionPtr).
     andThen (sess_at E w1 i) (\<lambda>s.
     andThen (if ov_ioType (get_ov f s) = IO_kDisconnect then reset_via E w1 sessionPtr
              else andThen (ov_ptr_Reset E w1 i f) (\<lambda>w2. disconnect_via E w2 sessionPtr)) (\<lambda>w3.
     SharedPoolPtr_delete (session_host E) w3 sessionPtr)))"

definition IocpCore_DispatchAccept :: "'db env \<Rightarrow> 'db world \<Rightarrow> shared_ptr \<Rightarrow> 'db world res" where
  "IocpCore_DispatchAccept E w p =
     andThen (via E w p) (\<lambda>j.
     andThen (sess_at E w j) (\<lambda>s.
     andThen (require (se_listener s) NullPointer) (\<lambda>_.
     andThen (Listener_HandleAccept E w j) (\<lambda>(w1, ok).
     if ok then Inr w1 else disconnect_via E w1 p))))"

definition IocpCore_DispatchDisconnect :: "'db env \<Rightarrow> 'db world \<Rightarrow> shared_ptr \<Rightarrow> 'db world res" where
  "IocpCore_DispatchDisconnect E w p = reset_via E w p"

definition IocpCore_DispatchRecvSend ::
    "'db env \<Rightarrow> 'db world \<Rightarrow> shared_ptr \<Rightarrow> nat \<Rightarrow> ov_field \<Rightarrow> nat \<Rightarrow> 'db world res" where
  "IocpCore_DispatchRecvSend E w p i f bytesTransferred =
     (if bytesTransferred = 0 then disconnect_via E w p
      else
        andThen (via E w p) (\<lambda>j.
        andThen (Session_HandleIO E w j i f bytesTransferred) (\<lambda>(w1, ok).
        if ok then Inr w1 else disconnect_via E w1 p)))"

definition IocpCore_Dispatch :: "'db env \<Rightarrow> 'db world \<Rightarrow> nat \<Rightarrow> ov_field \<Rightarrow> nat \<Rightarrow> 'db world res" where
  "IocpCore_Dispatch E w i f bytesTransferred =
     andThen (ov_ptr_copy E w i f) (\<lambda>(w1, sessionPtr).
     andThen (ov_ptr_Reset E w1 i f) (\<lambda>w2.
     andThen (sess_at E w2 i) (\<lambda>s.
     andThen (case ov_ioType (get_ov f s) of
                IO_kAccept \<Rightarrow> IocpCore_DispatchAccept E w2 sessionPtr
              | IO_kDisconnect \<Rightarrow> IocpCore_DispatchDisconnect E w2 sessionPtr
              | IO_kRecv \<Rightarrow> IocpCore_DispatchRecvSend E w2 sessionPtr i f bytesTransferred
              | IO_kSend \<Rightarrow> IocpCore_DispatchRecvSend E w2 sessionPtr i f bytesTransferred
              | _ \<Rightarrow> disconnect_via E w2 sessionPtr) (\<lambda>w3.
     SharedPoolPtr_delete (session_host E) w3 sessionPtr))))"

text \<open>
  One round of \<open>WorkerThread\<close>. The flag of the result says whether the thread goes on.
\<close>

definition IocpCore_WorkerThread_round ::
    "'db env \<Rightarrow> bool \<Rightarrow> 'db world \<Rightarrow> completion \<Rightarrow> ('db world \<times> bool) res" where
  "IocpCore_WorkerThread_round E isShuttingDown w c =
     (case co_target c of
        None \<Rightarrow> if isShuttingDown then Inr (w, False) else Inl FatalLog
      | Some (i, f) \<Rightarrow>
          andThen (ov_ptr_copy E w i f) (\<lambda>(w1, sessionPtr).
          andThen (sess_at E w1 i) (\<lambda>s.
          andThen (if ov_ioType (get_ov f s) = IO_kAccept then
                     andThen (via E w1 sessionPtr) (\<lambda>j.
                     andThen (sess_at E w1 j) (\<lambda>t.
                     andThen (require (se_listener t) NullPointer) (\<lambda>_.
                     Listener_DecrementPendingAccepts E w1)))
                   else Inr w1) (\<lambda>w2.
          andThen (if co_ok c then IocpCore_Dispatch E w2 i f (co_bytes c)
                   else IocpCore_HandleError E w2 i f) (\<lambda>w3.
          andThen (SharedPoolPtr_delete (session_host E) w3 sessionPtr) (\<lambda>w4.
          Inr (w4, True)))))))"

text \<open>A sequence of completions, until the thread ends.\<close>

fun IocpCore_WorkerThread :: "'db env \<Rightarrow> bool \<Rightarrow> 'db world \<Rightarrow> completion list \<Rightarrow> 'db world res" where
  "IocpCore_WorkerThread E isShuttingDown w [] = Inr w"
| "IocpCore_WorkerThread E isShuttingDown w (c # cs) =
     andThen (IocpCore_WorkerThread_round E isShuttingDown w c) (\<lambda>(w1, goOn).
     if goOn then IocpCore_WorkerThread E isShuttingDown w1 cs else Inr w1)"

end
