(* ===== verification/WorldLemmas.thy ===== *)
theory WorldLemmas
  imports PacketHandler
begin

section \<open>How the operations of a session change the world\<close>

text \<open>
  Views of the world (\<open>sess\<close>, \<open>refs\<close>) and \<open>touch\<close>, the common shape of the steps of one
  session: they change the object and the reference count of one slot and append Windows
  calls. Two touches of the same slot compose, so each method of \<open>Session\<close> is one touch.
  The second part does the same for taking a packet from the packet pool.
\<close>

subsection \<open>Views and touches\<close>

definition sess :: "'db world \<Rightarrow> nat \<Rightarrow> session" where
  "sess w i = ps_obj (slot_of (w_spool w) i)"

definition refs :: "'db world \<Rightarrow> nat \<Rightarrow> nat" where
  "refs w i = ps_refCount (slot_of (w_spool w) i)"

definition sstate :: "'db world \<Rightarrow> nat \<Rightarrow> nat" where
  "sstate w i = pool_state (w_spool w) i"

definition swf :: "'db world \<Rightarrow> nat \<Rightarrow> bool" where
  "swf w i \<longleftrightarrow> pool_wf (w_spool w) \<and> i < pool_N (w_spool w)"

definition touch :: "'db world \<Rightarrow> nat \<Rightarrow> (session \<Rightarrow> session) \<Rightarrow> (nat \<Rightarrow> nat) \<Rightarrow> os_call list \<Rightarrow> 'db world" where
  "touch w i F R cs =
     w\<lparr> w_spool := upd_slot (w_spool w) i
          (\<lambda>s. s\<lparr> ps_obj := F (ps_obj s), ps_refCount := R (ps_refCount s) \<rparr>),
        w_trace := w_trace w @ cs \<rparr>"

lemma touch_views [simp]:
  "sess (touch w i F R cs) j = (if j = i then F (sess w i) else sess w j)"
  "refs (touch w i F R cs) j = (if j = i then R (refs w i) else refs w j)"
  "sstate (touch w i F R cs) j = sstate w j"
  "w_sessionPtrs (touch w i F R cs) = w_sessionPtrs w"
  "w_managerInit (touch w i F R cs) = w_managerInit w"
  "w_ppool (touch w i F R cs) = w_ppool w"
  "w_tasks (touch w i F R cs) = w_tasks w"
  "w_pendingAccepts (touch w i F R cs) = w_pendingAccepts w"
  "w_db (touch w i F R cs) = w_db w"
  "w_trace (touch w i F R cs) = w_trace w @ cs"
  "sp_set (w_spool (touch w i F R cs)) = sp_set (w_spool w)"
  by (simp_all add: touch_def sess_def refs_def sstate_def)

lemma swf_touch [simp]: "swf w j \<Longrightarrow> swf (touch w i F R cs) j"
  by (simp add: swf_def touch_def)

lemma upd_slot_twice: "upd_slot (upd_slot p i f) i g = upd_slot p i (\<lambda>s. g (f s))"
  by (simp add: upd_slot_def slot_of_def op_store_def)

lemma touch_touch [simp]:
  "touch (touch w i F R cs) i G Q ds = touch w i (\<lambda>s. G (F s)) (\<lambda>n. Q (R n)) (cs @ ds)"
  by (simp add: touch_def upd_slot_twice)

lemma touch_cong:
  "F (sess w i) = G (sess w i) \<Longrightarrow> R (refs w i) = Q (refs w i) \<Longrightarrow> touch w i F R cs = touch w i G Q cs"
  by (simp add: touch_def upd_slot_def sess_def refs_def)

lemma touch_none: "swf w i \<Longrightarrow> touch w i (\<lambda>s. s) (\<lambda>n. n) [] = w"
  by (simp add: touch_def swf_def upd_slot_id)

lemma other_fields [simp]:
  "sess (w\<lparr> w_ppool := p \<rparr>) i = sess w i" "sess (w\<lparr> w_tasks := t \<rparr>) i = sess w i"
  "refs (w\<lparr> w_ppool := p \<rparr>) i = refs w i" "refs (w\<lparr> w_tasks := t \<rparr>) i = refs w i"
  "swf (w\<lparr> w_ppool := p \<rparr>) i = swf w i" "swf (w\<lparr> w_tasks := t \<rparr>) i = swf w i"
  "sstate (w\<lparr> w_ppool := p \<rparr>) i = sstate w i" "sstate (w\<lparr> w_tasks := t \<rparr>) i = sstate w i"
  by (simp_all add: sess_def refs_def swf_def sstate_def)

lemma touch_other [simp]:
  "touch (w\<lparr> w_ppool := p \<rparr>) i F R cs = (touch w i F R cs)\<lparr> w_ppool := p \<rparr>"
  "touch (w\<lparr> w_tasks := t \<rparr>) i F R cs = (touch w i F R cs)\<lparr> w_tasks := t \<rparr>"
  by (simp_all add: touch_def)

lemma sess_at_eq [simp]: "swf w i \<Longrightarrow> sess_at E w i = Inr (sess w i)"
  by (simp add: sess_at_def sess_def swf_def spool.slot_at_eq)

lemma sess_upd_eq [simp]: "swf w i \<Longrightarrow> sess_upd E w i F = Inr (touch w i F (\<lambda>n. n) [])"
  by (simp add: sess_upd_def swf_def spool.slot_upd_eq touch_def)

lemma os_do_touch: "swf w i \<Longrightarrow> os_do E w c = (touch w i (\<lambda>s. s) (\<lambda>n. n) [c], e_os E (w_trace w) c)"
  by (simp add: os_do_def touch_def swf_def upd_slot_id)

lemma get_upd_ov [simp]:
  "get_ov f (upd_ov f G s) = G (get_ov f s)"
  "f \<noteq> g \<Longrightarrow> get_ov f (upd_ov g G s) = get_ov f s"
  by (cases f; cases g; simp)+

lemma upd_ov_fun [simp]:
  "upd_ov RecvOv G = (\<lambda>s. s\<lparr> se_recvOv := G (se_recvOv s) \<rparr>)"
  "upd_ov SendOv G = (\<lambda>s. s\<lparr> se_sendOv := G (se_sendOv s) \<rparr>)"
  "upd_ov DisconnectOv G = (\<lambda>s. s\<lparr> se_disconnectOv := G (se_disconnectOv s) \<rparr>)"
  by (rule ext, simp)+

lemma upd_ov_keeps [simp]:
  "se_handle (upd_ov f G s) = se_handle s" "se_accountId (upd_ov f G s) = se_accountId s"
  "se_sessionManager (upd_ov f G s) = se_sessionManager s"
  "se_listener (upd_ov f G s) = se_listener s"
  "se_packetHandler (upd_ov f G s) = se_packetHandler s"
  "se_isSending (upd_ov f G s) = se_isSending s"
  by (cases f; simp)+

subsection \<open>Sessions that their manager holds\<close>

text \<open>
  \<open>linked w i\<close>: the manager's pointer for slot \<open>i\<close> is the session in it, the session knows
  its manager, and the count has room for another reference.
\<close>

definition linked :: "'db world \<Rightarrow> nat \<Rightarrow> bool" where
  "linked w i \<longleftrightarrow> swf w i \<and> who_of (se_handle (sess w i)) = i \<and> se_sessionManager (sess w i) \<and>
     w_sessionPtrs w i = \<lparr> sptr_pool = True, sptr_handle = se_handle (sess w i) \<rparr> \<and>
     0 < refs w i \<and> refs w i + 2 < 2 ^ 64"

lemma linkedD:
  assumes "linked w i"
  shows "swf w i" and "who_of (se_handle (sess w i)) = i" and "se_sessionManager (sess w i)"
    and "w_sessionPtrs w i = \<lparr> sptr_pool = True, sptr_handle = se_handle (sess w i) \<rparr>"
    and "0 < refs w i" and "refs w i + 2 < 2 ^ 64" and "i < pool_N (w_spool w)" and "pool_wf (w_spool w)"
  using assms by (auto simp: linked_def swf_def)

lemma linked_touch:
  "linked w i \<Longrightarrow> se_handle (F (sess w i)) = se_handle (sess w i) \<Longrightarrow>
   se_sessionManager (F (sess w i)) = se_sessionManager (sess w i) \<Longrightarrow>
   0 < R (refs w i) \<Longrightarrow> R (refs w i) + 2 < 2 ^ 64 \<Longrightarrow> linked (touch w i F R cs) i"
  by (simp add: linked_def)

lemma linked_other [simp]:
  "linked (w\<lparr> w_ppool := p \<rparr>) i = linked w i" "linked (w\<lparr> w_tasks := t \<rparr>) i = linked w i"
  by (simp_all add: linked_def)

lemma GetSession_linked:
  assumes "linked w i" "who_of h = i"
  shows "SessionManager_GetSession E w h =
    Inr (touch w i (\<lambda>s. s) (\<lambda>n. n + 1) [], \<lparr> sptr_pool = True, sptr_handle = se_handle (sess w i) \<rparr>)"
proof -
  note D = linkedD [OF assms(1)]
  have "touch w i (\<lambda>s. s) (\<lambda>n. trunc64 (n + 1)) [] = touch w i (\<lambda>s. s) (\<lambda>n. n + 1) []"
    using D(6) by (intro touch_cong) auto
  then show ?thesis
    using D assms(2)
    by (simp add: SessionManager_GetSession_def SharedPoolPtr_copy_def spool.AddRef_eq touch_def)
qed

lemma ov_ptr_self_eq:
  assumes l: "linked w i" and n: "\<not> sptr_pool (ov_sessionPtr (get_ov f (sess w i)))"
  shows "ov_ptr_self E w i f = Inr (touch w i
      (\<lambda>s. upd_ov f (\<lambda>ov. ov\<lparr> ov_sessionPtr := \<lparr> sptr_pool = True, sptr_handle = se_handle s \<rparr> \<rparr>) s)
      (\<lambda>n. n + 1) [])"
proof -
  note D = linkedD [OF l]
  have "ov_ptr_self E w i f = Inr (touch w i
      (upd_ov f (\<lambda>ov. ov\<lparr> ov_sessionPtr := \<lparr> sptr_pool = True, sptr_handle = se_handle (sess w i) \<rparr> \<rparr>))
      (\<lambda>n. n + 1) [])"
    using D n by (simp add: ov_ptr_self_def GetSession_linked [OF l] ov_ptr_take_def SharedPoolPtr_move_assign_def)
  also have "\<dots> = Inr (touch w i
      (\<lambda>s. upd_ov f (\<lambda>ov. ov\<lparr> ov_sessionPtr := \<lparr> sptr_pool = True, sptr_handle = se_handle s \<rparr> \<rparr>) s)
      (\<lambda>n. n + 1) [])"
    by (rule arg_cong [where f = Inr], rule touch_cong) simp_all
  finally show ?thesis .
qed

lemma ov_ptr_Reset_null:
  assumes "swf w i" "\<not> sptr_pool (ov_sessionPtr (get_ov f (sess w i)))"
  shows "ov_ptr_Reset E w i f =
    Inr (touch w i (upd_ov f (\<lambda>ov. ov\<lparr> ov_sessionPtr := nullSharedPtr \<rparr>)) (\<lambda>n. n) [])"
  using assms by (simp add: ov_ptr_Reset_def SharedPoolPtr_Reset_def)

lemma ov_ptr_Reset_keep:
  assumes wf: "swf w i" and p: "sptr_pool (ov_sessionPtr (get_ov f (sess w i)))"
    "who_of (sptr_handle (ov_sessionPtr (get_ov f (sess w i)))) = i"
    and r: "1 < refs w i" "refs w i < 2 ^ 64"
  shows "ov_ptr_Reset E w i f =
    Inr (touch w i (upd_ov f (\<lambda>ov. ov\<lparr> ov_sessionPtr := nullSharedPtr \<rparr>)) (\<lambda>n. n - 1) [])"
proof -
  have c: "touch w i F (\<lambda>n. sub64 n 1) [] = touch w i F (\<lambda>n. n - 1) []" for F
    using r sub64_id [of 1 "refs w i"] by (intro touch_cong) auto
  have "SharedPoolPtr_Reset (session_host E) w (ov_sessionPtr (get_ov f (sess w i))) =
      Inr (touch w i (\<lambda>s. s) (\<lambda>n. sub64 n 1) [], nullSharedPtr)"
    using wf p r by (simp add: SharedPoolPtr_Reset_def spool.ReleaseRef_keep touch_def swf_def refs_def)
  then show ?thesis using wf c by (simp add: ov_ptr_Reset_def)
qed

text \<open>What \<open>io_posted\<close> leaves when the block already holds the session.\<close>

definition posted_ok :: "int \<times> int \<Rightarrow> bool" where
  "posted_ok r \<longleftrightarrow> fst r \<noteq> SOCKET_ERROR \<or> snd r = WSA_IO_PENDING"

lemma io_posted_eq:
  assumes wf: "swf w i" and p: "sptr_pool (ov_sessionPtr (get_ov f (sess w i)))"
    "who_of (sptr_handle (ov_sessionPtr (get_ov f (sess w i)))) = i"
    and r: "1 < refs w i" "refs w i < 2 ^ 64"
  shows "io_posted E w i f r = Inr
    (if posted_ok r then w
     else touch w i (upd_ov f (\<lambda>ov. ov\<lparr> ov_sessionPtr := nullSharedPtr \<rparr>)) (\<lambda>n. n - 1) [], posted_ok r)"
  using ov_ptr_Reset_keep [OF assms] by (auto simp: io_posted_def posted_ok_def)

subsection \<open>Posting a receive and a send\<close>

text \<open>The receive block after \<open>RegisterRecv\<close>, by whether the call was accepted.\<close>

definition recv_block :: "u64 \<Rightarrow> bool \<Rightarrow> overlapped_ex \<Rightarrow> overlapped_ex" where
  "recv_block h ok ov = ov\<lparr> ov_ioType := IO_kRecv, ov_wsaBuf := Some (ov_sendPos ov),
     ov_wsaLen := rb_size (ov_buffer ov) - (ov_sendPos ov - ov_recvPos ov),
     ov_sessionPtr := (if ok then \<lparr> sptr_pool = True, sptr_handle = h \<rparr> else nullSharedPtr) \<rparr>"

definition send_block :: "u64 \<Rightarrow> bool \<Rightarrow> overlapped_ex \<Rightarrow> overlapped_ex" where
  "send_block h ok ov = ov\<lparr> ov_ioType := IO_kSend, ov_wsaBuf := Some (ov_recvPos ov),
     ov_wsaLen := ov_sendPos ov - ov_recvPos ov,
     ov_sessionPtr := (if ok then \<lparr> sptr_pool = True, sptr_handle = h \<rparr> else nullSharedPtr) \<rparr>"

lemma recv_len_eq:
  assumes "ov_inv ov"
  shows "recv_len ov = rb_size (ov_buffer ov) - (ov_sendPos ov - ov_recvPos ov)"
proof -
  let ?n = "rb_size (ov_buffer ov)" and ?s = "ov_sendPos ov" and ?r = "ov_recvPos ov"
  have b: "?r < ?n" "?r \<le> ?s" "?s \<le> ?r + ?n" "?n < 2 ^ 32" using assms by (auto simp: ov_inv_def)
  have "trunc64 (sub64 ?n ?s + ?r) = ?n - (?s - ?r)"
  proof (cases "?s \<le> ?n")
    case True
    then have "sub64 ?n ?s = ?n - ?s" using b by (intro sub64_id) auto
    then show ?thesis using True b by simp
  next
    case False
    have s: "?s mod 2 ^ 64 = ?s" using b by simp
    have "sub64 ?n ?s = (?n + 2 ^ 64 - ?s) mod 2 ^ 64" by (simp only: sub64_def s)
    also have "\<dots> = ?n + 2 ^ 64 - ?s" using False b by simp
    finally have eq: "sub64 ?n ?s + ?r = (?n - (?s - ?r)) + 2 ^ 64" using False b by simp
    have "?n - (?s - ?r) < 2 ^ 64" using b by simp
    then show ?thesis unfolding trunc64_def eq mod_add_self2 by (rule mod_less)
  qed
  then show ?thesis using b by (simp add: recv_len_def)
qed

lemma RegisterRecv_eq:
  assumes l: "linked w i" and n: "\<not> sptr_pool (ov_sessionPtr (se_recvOv (sess w i)))"
    and inv: "ov_inv (se_recvOv (sess w i))"
    and room: "ov_sendPos (se_recvOv (sess w i)) < ov_recvPos (se_recvOv (sess w i)) + rb_size (ov_buffer (se_recvOv (sess w i)))"
    and c: "c = OS_WSARecv i (ov_sendPos (se_recvOv (sess w i))) (recv_len (se_recvOv (sess w i)))"
    and ok: "ok = posted_ok (e_os E (w_trace w) c)"
  shows "Session_RegisterRecv E w i = Inr (touch w i
      (\<lambda>s. s\<lparr> se_recvOv := recv_block (se_handle s) ok (se_recvOv s) \<rparr>)
      (\<lambda>n. if ok then n + 1 else n) [c], ok)"
proof -
  note D = linkedD [OF l]
  have len: "recv_len (se_recvOv (sess w i)) \<noteq> 0" using inv room by (auto simp: recv_len_eq ov_inv_def)
  let ?ov = "se_recvOv (sess w i)"
  let ?w2 = "touch w i (\<lambda>s. upd_ov RecvOv (\<lambda>ov. ov\<lparr> ov_ioType := IO_kRecv, ov_wsaBuf := Some (ov_sendPos ov) \<rparr>)
      (upd_ov RecvOv (\<lambda>ov. ov\<lparr> ov_wsaLen := recv_len ?ov \<rparr>) s)) (\<lambda>n. n) []"
  let ?w3 = "touch w i (\<lambda>s. upd_ov RecvOv (\<lambda>ov. ov\<lparr> ov_sessionPtr := \<lparr> sptr_pool = True, sptr_handle = se_handle s \<rparr> \<rparr>)
      (upd_ov RecvOv (\<lambda>ov. ov\<lparr> ov_ioType := IO_kRecv, ov_wsaBuf := Some (ov_sendPos ov) \<rparr>)
      (upd_ov RecvOv (\<lambda>ov. ov\<lparr> ov_wsaLen := recv_len ?ov \<rparr>) s))) (\<lambda>n. n + 1) []"
  have "linked ?w2 i" using l D by (intro linked_touch) auto
  then have w3: "ov_ptr_self E ?w2 i RecvOv = Inr ?w3"
    using ov_ptr_self_eq [of ?w2 i RecvOv E] n D by simp
  have "Session_RegisterRecv E w i = io_posted E (touch ?w3 i (\<lambda>s. s) (\<lambda>n. n) [c]) i RecvOv (e_os E (w_trace w) c)"
    using D len w3 by (simp add: Session_RegisterRecv_def Let_def os_do_touch [where i = i] c)
  also have "\<dots> = Inr (touch w i
      (\<lambda>s. s\<lparr> se_recvOv := recv_block (se_handle s) ok (se_recvOv s) \<rparr>)
      (\<lambda>n. if ok then n + 1 else n) [c], ok)"
    using D by (subst io_posted_eq)
      (auto simp: ok recv_block_def recv_len_eq [OF inv] intro!: touch_cong)
  finally show ?thesis .
qed

lemma RegisterSend_eq:
  assumes l: "linked w i" and n: "\<not> sptr_pool (ov_sessionPtr (se_sendOv (sess w i)))"
    and inv: "ov_inv (se_sendOv (sess w i))" and sending: "se_isSending (sess w i)"
    and c: "c = OS_WSASend i (ov_recvPos (se_sendOv (sess w i)))
              (ov_sendPos (se_sendOv (sess w i)) - ov_recvPos (se_sendOv (sess w i)))"
    and ok: "ok = posted_ok (e_os E (w_trace w) c)"
  shows "Session_RegisterSend E w i = Inr (touch w i
      (\<lambda>s. s\<lparr> se_sendOv := send_block (se_handle s) ok (se_sendOv s) \<rparr>)
      (\<lambda>n. if ok then n + 1 else n) [c], ok)"
proof -
  note D = linkedD [OF l]
  let ?ov = "se_sendOv (sess w i)"
  let ?len = "ov_sendPos ?ov - ov_recvPos ?ov"
  have len: "trunc32 (ov_avail ?ov) = ?len"
    using inv by (subst ov_avail_eq) (auto simp: ov_inv_def)
  let ?w1 = "touch w i (upd_ov SendOv (\<lambda>ov. ov\<lparr> ov_ioType := IO_kSend, ov_wsaBuf := Some (ov_recvPos ov), ov_wsaLen := ?len \<rparr>)) (\<lambda>n. n) []"
  let ?w2 = "touch w i (\<lambda>s. upd_ov SendOv (\<lambda>ov. ov\<lparr> ov_sessionPtr := \<lparr> sptr_pool = True, sptr_handle = se_handle s \<rparr> \<rparr>)
      (upd_ov SendOv (\<lambda>ov. ov\<lparr> ov_ioType := IO_kSend, ov_wsaBuf := Some (ov_recvPos ov), ov_wsaLen := ?len \<rparr>) s)) (\<lambda>n. n + 1) []"
  have "linked ?w1 i" using l D by (intro linked_touch) auto
  then have w2: "ov_ptr_self E ?w1 i SendOv = Inr ?w2"
    using ov_ptr_self_eq [of ?w1 i SendOv E] n D by simp
  have "Session_RegisterSend E w i = io_posted E (touch ?w2 i (\<lambda>s. s) (\<lambda>n. n) [c]) i SendOv (e_os E (w_trace w) c)"
    using D len w2 sending by (simp add: Session_RegisterSend_def Let_def os_do_touch [where i = i] c)
  also have "\<dots> = Inr (touch w i
      (\<lambda>s. s\<lparr> se_sendOv := send_block (se_handle s) ok (se_sendOv s) \<rparr>)
      (\<lambda>n. if ok then n + 1 else n) [c], ok)"
    using D by (subst io_posted_eq) (auto simp: ok send_block_def intro!: touch_cong)
  finally show ?thesis .
qed

subsection \<open>The packet pool\<close>

text \<open>
  \<open>ppool_ext p p'\<close>: \<open>p'\<close> has the packets in use of \<open>p\<close> unchanged, and maybe more.
  \<open>taken p p' j\<close>: \<open>p'\<close> has exactly the packet \<open>j\<close> more.
\<close>

definition packets_ok :: "bytes sparse_pool \<Rightarrow> bool" where
  "packets_ok p \<longleftrightarrow> pool_wf p \<and> ss_K (sp_set p) = 2"

definition free_packets :: "bytes sparse_pool \<Rightarrow> nat" where
  "free_packets p = card (in_state (sp_set p) 0)"

definition ppool_ext :: "bytes sparse_pool \<Rightarrow> bytes sparse_pool \<Rightarrow> bool" where
  "ppool_ext p p' \<longleftrightarrow> packets_ok p' \<and> pool_N p' = pool_N p \<and>
     (\<forall>j. pool_state p j \<noteq> 0 \<longrightarrow> pool_state p' j \<noteq> 0 \<and> slot_of p' j = slot_of p j \<and>
        pool_handle p' j = pool_handle p j)"

lemma ppool_ext_refl: "packets_ok p \<Longrightarrow> ppool_ext p p"
  by (simp add: ppool_ext_def)

lemma ppool_ext_trans: "ppool_ext p q \<Longrightarrow> ppool_ext q r \<Longrightarrow> ppool_ext p r"
  by (simp add: ppool_ext_def)

definition taken :: "bytes sparse_pool \<Rightarrow> bytes sparse_pool \<Rightarrow> nat \<Rightarrow> bytes \<Rightarrow> bool" where
  "taken p p' j blk \<longleftrightarrow> ppool_ext p p' \<and> j < pool_N p \<and> pool_state p j = 0 \<and> pool_state p' j = 1 \<and>
     slot_of p' j = \<lparr> ps_obj = blk, ps_handle = pool_handle p j, ps_refCount = 1 \<rparr> \<and>
     in_state (sp_set p') 0 = in_state (sp_set p) 0 - {j} \<and> (\<forall>k. pool_handle p' k = pool_handle p k)"

lemma takenD:
  assumes "taken p p' j blk"
  shows "ppool_ext p p'" and "j < pool_N p'" and "pool_state p' j = 1" and "packets_ok p'"
    and "slot_of p' j = \<lparr> ps_obj = blk, ps_handle = pool_handle p j, ps_refCount = 1 \<rparr>"
    and "pool_handle p' j = pool_handle p j" and "who_of (pool_handle p j) = j"
    and "free_packets p' + 1 = free_packets p" and "pool_wf p'"
proof -
  have p': "packets_ok p'" and N: "pool_N p' = pool_N p" and j: "j < pool_N p"
    and i: "in_state (sp_set p') 0 = in_state (sp_set p) 0 - {j}" and z: "pool_state p j = 0"
    using assms by (auto simp: taken_def ppool_ext_def)
  show "ppool_ext p p'" "j < pool_N p'" "pool_state p' j = 1" "packets_ok p'" "pool_wf p'"
    "slot_of p' j = \<lparr> ps_obj = blk, ps_handle = pool_handle p j, ps_refCount = 1 \<rparr>"
    "pool_handle p' j = pool_handle p j"
    using assms by (auto simp: taken_def ppool_ext_def packets_ok_def)
  have "j < 2 ^ 32" using p' N j pool_wfD(5) [of p'] by (simp add: packets_ok_def)
  then show "who_of (pool_handle p j) = j" by simp
  have "j \<in> in_state (sp_set p) 0" using j z by (simp add: in_state_def)
  moreover have "finite (in_state (sp_set p) 0)" by (simp add: in_state_def)
  ultimately show "free_packets p' + 1 = free_packets p"
    unfolding free_packets_def i by (metis Suc_eq_plus1 card_Suc_Diff1)
qed

lemma AcquirePacket_taken:
  assumes ok: "packets_ok (w_ppool w)" and free: "0 < free_packets (w_ppool w)"
  shows "\<exists>j p'. PacketHandler_AcquirePacket w =
      Inr (w\<lparr> w_ppool := p' \<rparr>, \<lparr> sptr_pool = True, sptr_handle = pool_handle (w_ppool w) j \<rparr>) \<and>
    taken (w_ppool w) p' j (ps_obj (slot_of (w_ppool w) j))"
proof -
  let ?q = "w_ppool w"
  have wf: "pool_wf ?q" and K: "ss_K (sp_set ?q) = 2" using ok by (auto simp: packets_ok_def)
  have ne: "in_state (sp_set ?q) 0 \<noteq> {}" using free by (auto simp: free_packets_def)
  obtain i ss where i: "i \<in> in_state (sp_set ?q) 0" and m: "moved_to (sp_set ?q) ss i 1"
    and acq: "SparsePool_Acquire packet_host w 1 =
       Inr (w\<lparr> w_ppool := upd_slot (?q\<lparr> sp_set := ss \<rparr>) i
              (\<lambda>s. \<lparr> ps_obj = ps_obj s, ps_handle = pool_handle ?q i, ps_refCount = 1 \<rparr>) \<rparr>,
            \<lparr> sptr_pool = True, sptr_handle = pool_handle ?q i \<rparr>)"
  proof -
    have init: "ph_init packet_host v i =
        Inr (ph_put packet_host (upd_slot (ph_get packet_host v) i (\<lambda>s. s\<lparr> ps_obj := ps_obj s \<rparr>)) v)"
      if "pool_wf (ph_get packet_host v)" "i < pool_N (ph_get packet_host v)" for v :: "'a world" and i
      using that by (simp add: upd_slot_id)
    have "1 < ss_K (sp_set (ph_get packet_host w))" using K by simp
    from ppool.Acquire_some [where f = "\<lambda>x. x" and w = w and st = 1 and q = ?q, OF _ this]
    show ?thesis using wf ne init that by fastforce
  qed
  let ?p' = "upd_slot (?q\<lparr> sp_set := ss \<rparr>) i
      (\<lambda>s. \<lparr> ps_obj = ps_obj s, ps_handle = pool_handle ?q i, ps_refCount = 1 \<rparr>)"
  note M = moved_toD [OF m]
  have iq: "i < pool_N ?q" "pool_state ?q i = 0" using i by (auto simp: in_state_def)
  have wf': "pool_wf ?p'" using wf M(1-3) by (intro pool_wf_upd_slot pool_wf_set) auto
  have "in_state ss 0 = in_state (sp_set ?q) 0 - {i}"
    using M(2,5) by (auto simp: in_state_def)
  moreover have "\<And>j. cur_handle ss j = pool_handle ?q j" using M(4) by (simp add: cur_handle_def)
  ultimately have "taken ?q ?p' i (ps_obj (slot_of ?q i))"
    using wf' K M(2,3,5) iq by (auto simp: taken_def ppool_ext_def packets_ok_def)
  then show ?thesis using acq unfolding PacketHandler_AcquirePacket_def by blast
qed

text \<open>A block of a taken packet can be replaced.\<close>

lemma taken_store:
  assumes t: "taken p p' j blk"
  shows "taken p (upd_slot p' j (\<lambda>s. s\<lparr> ps_obj := blk' \<rparr>)) j blk'"
  using t by (auto simp: taken_def ppool_ext_def packets_ok_def)

lemma packet_access:
  assumes "pool_wf (w_ppool w)" "j < pool_N (w_ppool w)" "who_of h = j"
  shows "packet_data w \<lparr> sptr_pool = True, sptr_handle = h \<rparr> = Inr (ps_obj (slot_of (w_ppool w) j))"
    and "packet_store w \<lparr> sptr_pool = True, sptr_handle = h \<rparr> blk =
      Inr (w\<lparr> w_ppool := upd_slot (w_ppool w) j (\<lambda>s. s\<lparr> ps_obj := blk \<rparr>) \<rparr>)"
  using assms
  by (simp_all add: packet_data_def packet_store_def SharedPoolPtr_Get_def SparsePool_GetObj_def
      ppool.slot_at_eq ppool.slot_upd_eq)

lemma AcquirePacket_copy_taken:
  assumes ok: "packets_ok (w_ppool w)" and free: "0 < free_packets (w_ppool w)"
    and fit: "length src \<le> kMaxPacketSize"
  shows "\<exists>j p' blk. PacketHandler_AcquirePacket_copy w src =
      Inr (w\<lparr> w_ppool := p' \<rparr>, \<lparr> sptr_pool = True, sptr_handle = pool_handle (w_ppool w) j \<rparr>) \<and>
    taken (w_ppool w) p' j blk \<and> slice_fun blk 0 (length src) = src"
proof -
  obtain j p1 where a: "PacketHandler_AcquirePacket w =
      Inr (w\<lparr> w_ppool := p1 \<rparr>, \<lparr> sptr_pool = True, sptr_handle = pool_handle (w_ppool w) j \<rparr>)"
    and t: "taken (w_ppool w) p1 j (ps_obj (slot_of (w_ppool w) j))"
    using AcquirePacket_taken [OF ok free] by blast
  note T = takenD [OF t]
  let ?blk = "write_bytes (ps_obj (slot_of (w_ppool w) j)) 0 src"
  have "PacketHandler_AcquirePacket_copy w src =
      Inr (w\<lparr> w_ppool := upd_slot p1 j (\<lambda>s. s\<lparr> ps_obj := ?blk \<rparr>) \<rparr>,
           \<lparr> sptr_pool = True, sptr_handle = pool_handle (w_ppool w) j \<rparr>)"
    using a T fit by (simp add: PacketHandler_AcquirePacket_copy_def packet_access [where j = j] block_write_def)
  then show ?thesis
    using taken_store [OF t, of ?blk] slice_write_same [of _ 0 src] by blast
qed

subsection \<open>Giving a packet back\<close>

text \<open>\<open>returned p p' j\<close>: \<open>p'\<close> is \<open>p\<close> with packet \<open>j\<close> free.\<close>

definition returned :: "bytes sparse_pool \<Rightarrow> bytes sparse_pool \<Rightarrow> nat \<Rightarrow> bool" where
  "returned p p' j \<longleftrightarrow> packets_ok p' \<and> pool_N p' = pool_N p \<and> j < pool_N p \<and> pool_state p j \<noteq> 0 \<and>
     pool_state p' j = 0 \<and>
     (\<forall>k. k \<noteq> j \<longrightarrow> pool_state p' k = pool_state p k \<and> slot_of p' k = slot_of p k \<and> pool_handle p' k = pool_handle p k)"

lemma returned_free:
  assumes "returned p p' j"
  shows "free_packets p' = free_packets p + 1"
proof -
  have st: "pool_state p' k = (if k = j then 0 else pool_state p k)" for k
    using assms by (simp add: returned_def)
  have "in_state (sp_set p') 0 = insert j (in_state (sp_set p) 0)" and "j \<notin> in_state (sp_set p) 0"
    using assms by (auto simp: returned_def in_state_def st)
  moreover have "finite (in_state (sp_set p) 0)" by (simp add: in_state_def)
  ultimately show ?thesis by (simp add: free_packets_def)
qed

lemma packet_delete:
  assumes ok: "packets_ok (w_ppool w)" and j: "j < pool_N (w_ppool w)" "pool_state (w_ppool w) j \<noteq> 0"
    and r: "ps_refCount (slot_of (w_ppool w) j) = 1" and h: "who_of h = j"
  shows "\<exists>p'. SharedPoolPtr_delete packet_host w \<lparr> sptr_pool = True, sptr_handle = h \<rparr> = Inr (w\<lparr> w_ppool := p' \<rparr>) \<and>
    returned (w_ppool w) p' j"
proof -
  let ?p = "w_ppool w"
  have wf: "pool_wf ?p" and K: "ss_K (sp_set ?p) = 2" using ok by (auto simp: packets_ok_def)
  let ?q = "upd_slot ?p j (\<lambda>s. s\<lparr> ps_refCount := sub64 (ps_refCount s) 1 \<rparr>)"
  obtain ss where pu: "pushed (sp_set ?p) ss j"
    and del: "SparsePool_ReleaseRef packet_host w h = Inr (w\<lparr> w_ppool := ?q\<lparr> sp_set := ss \<rparr> \<rparr>)"
    using ppool.ReleaseRef_last [of w h] wf j r h by auto
  note P = pushedD [OF pu]
  have "pool_wf (?q\<lparr> sp_set := ss \<rparr>)" using wf P(1-3) by (intro pool_wf_set) auto
  then have "returned ?p (?q\<lparr> sp_set := ss \<rparr>) j"
    using K P(2-5) j by (auto simp: returned_def packets_ok_def cur_handle_def)
  then show ?thesis using del by (auto simp: SharedPoolPtr_delete_def)
qed

text \<open>A packet taken and given back, with other packets left alone in between.\<close>

lemma taken_returned_ext:
  assumes "taken p q j blk" and "ppool_ext q q'" and "returned q' p' j"
  shows "ppool_ext p p'"
proof -
  have ne: "k \<noteq> j" if "pool_state p k \<noteq> 0" for k using that assms(1) by (auto simp: taken_def)
  have "pool_state q k \<noteq> 0 \<and> slot_of q k = slot_of p k \<and> pool_handle q k = pool_handle p k"
    if "pool_state p k \<noteq> 0" for k using that assms(1) by (simp add: taken_def ppool_ext_def)
  then have "pool_state q' k \<noteq> 0 \<and> slot_of q' k = slot_of p k \<and> pool_handle q' k = pool_handle p k"
    if "pool_state p k \<noteq> 0" for k using that assms(2) by (simp add: ppool_ext_def)
  then have "pool_state p' k \<noteq> 0 \<and> slot_of p' k = slot_of p k \<and> pool_handle p' k = pool_handle p k"
    if "pool_state p k \<noteq> 0" for k using that ne [OF that] assms(3) by (simp add: returned_def)
  moreover have "packets_ok p'" "pool_N p' = pool_N p"
    using assms by (simp_all add: taken_def ppool_ext_def returned_def)
  ultimately show ?thesis by (simp add: ppool_ext_def)
qed

lemma with_packet_ok:
  assumes ok: "packets_ok (w_ppool w)" and free: "0 < free_packets (w_ppool w)"
    and body: "\<And>p j. taken (w_ppool w) p j (ps_obj (slot_of (w_ppool w) j)) \<Longrightarrow>
      \<exists>w2 p2 blk. f (w\<lparr> w_ppool := p \<rparr>) \<lparr> sptr_pool = True, sptr_handle = pool_handle (w_ppool w) j \<rparr> (ps_obj (slot_of (w_ppool w) j)) = Inr w2 \<and>
        taken (w_ppool w) p2 j blk \<and> ppool_ext p2 (w_ppool w2) \<and> free_packets (w_ppool w2) = free_packets p2 \<and> Q w2"
  shows "\<exists>w2 p'. with_packet w f = Inr (w2\<lparr> w_ppool := p' \<rparr>) \<and> Q w2 \<and> ppool_ext (w_ppool w) p' \<and>
    free_packets p' = free_packets (w_ppool w)"
proof -
  obtain j p where a: "PacketHandler_AcquirePacket w =
      Inr (w\<lparr> w_ppool := p \<rparr>, \<lparr> sptr_pool = True, sptr_handle = pool_handle (w_ppool w) j \<rparr>)"
    and t: "taken (w_ppool w) p j (ps_obj (slot_of (w_ppool w) j))"
    using AcquirePacket_taken [OF ok free] by blast
  note T = takenD [OF t]
  obtain w2 p2 blk where f: "f (w\<lparr> w_ppool := p \<rparr>) \<lparr> sptr_pool = True, sptr_handle = pool_handle (w_ppool w) j \<rparr> (ps_obj (slot_of (w_ppool w) j)) = Inr w2"
    and t2: "taken (w_ppool w) p2 j blk" and e2: "ppool_ext p2 (w_ppool w2)"
    and n2: "free_packets (w_ppool w2) = free_packets p2" and Q: "Q w2"
    using body [OF t] by blast
  note T2 = takenD [OF t2]
  have j2: "packets_ok (w_ppool w2)" "j < pool_N (w_ppool w2)" "pool_state (w_ppool w2) j \<noteq> 0"
    "ps_refCount (slot_of (w_ppool w2) j) = 1"
    using e2 T2(2,3,5) by (simp_all add: ppool_ext_def)
  obtain p' where d: "SharedPoolPtr_delete packet_host w2 \<lparr> sptr_pool = True, sptr_handle = pool_handle (w_ppool w) j \<rparr> =
      Inr (w2\<lparr> w_ppool := p' \<rparr>)" and r: "returned (w_ppool w2) p' j"
    using packet_delete [OF j2 T(7)] by auto
  have "ppool_ext (w_ppool w) p'" by (rule taken_returned_ext [OF t2 e2 r])
  moreover have "free_packets p' = free_packets (w_ppool w)" using returned_free [OF r] n2 T2(8) by simp
  moreover have "with_packet w f = Inr (w2\<lparr> w_ppool := p' \<rparr>)"
    using a f d T by (simp add: with_packet_def packet_access [where j = j])
  ultimately show ?thesis using Q by blast
qed

subsection \<open>Steps of one session\<close>

text \<open>\<open>only_session i w w'\<close>: \<open>w'\<close> differs from \<open>w\<close> in session \<open>i\<close> and the trace only.\<close>

definition only_session :: "nat \<Rightarrow> 'db world \<Rightarrow> 'db world \<Rightarrow> bool" where
  "only_session i w w' \<longleftrightarrow>
     (\<forall>j. j \<noteq> i \<longrightarrow> sess w' j = sess w j \<and> refs w' j = refs w j) \<and>
     se_handle (sess w' i) = se_handle (sess w i) \<and> sp_set (w_spool w') = sp_set (w_spool w) \<and>
     (\<forall>j. swf w j \<longrightarrow> swf w' j) \<and> w_sessionPtrs w' = w_sessionPtrs w \<and>
     w_managerInit w' = w_managerInit w \<and> w_ppool w' = w_ppool w \<and> w_tasks w' = w_tasks w \<and>
     w_pendingAccepts w' = w_pendingAccepts w \<and> w_db w' = w_db w"

lemma only_session_refl [simp]: "only_session i w w"
  by (simp add: only_session_def)

lemma only_session_touch:
  "se_handle (F (sess w i)) = se_handle (sess w i) \<Longrightarrow> only_session i w (touch w i F R cs)"
  by (simp add: only_session_def)

lemma only_session_trans: "only_session i w v \<Longrightarrow> only_session i v u \<Longrightarrow> only_session i w u"
  by (simp add: only_session_def)

lemma only_sessionD:
  assumes "only_session i w w'"
  shows "j \<noteq> i \<Longrightarrow> sess w' j = sess w j" and "j \<noteq> i \<Longrightarrow> refs w' j = refs w j"
    and "se_handle (sess w' i) = se_handle (sess w i)" and "sp_set (w_spool w') = sp_set (w_spool w)"
    and "swf w j \<Longrightarrow> swf w' j" and "w_sessionPtrs w' = w_sessionPtrs w" and "w_ppool w' = w_ppool w"
    and "w_managerInit w' = w_managerInit w" and "w_tasks w' = w_tasks w" and "w_db w' = w_db w"
  using assms by (auto simp: only_session_def)

end
