(* ===== verification/IocpLemmas.thy ===== *)
theory IocpLemmas
  imports IocpCore WorldLemmas
begin

section \<open>The worker thread's round on a live session\<close>

text \<open>
  The local smart pointers of \<open>WorkerThread\<close>, \<open>Dispatch\<close> and \<open>HandleError\<close> on a session that
  other references keep alive, and the round for a completed receive or send.
\<close>

subsection \<open>Local pointers of the worker thread\<close>

lemma ptr_copy_eq:
  assumes "swf w i" "who_of h = i" "refs w i + 1 < 2 ^ 64"
  shows "SharedPoolPtr_copy (session_host E) w \<lparr> sptr_pool = True, sptr_handle = h \<rparr> =
    Inr (touch w i (\<lambda>s. s) (\<lambda>n. n + 1) [], \<lparr> sptr_pool = True, sptr_handle = h \<rparr>)"
proof -
  have "touch w i (\<lambda>s. s) (\<lambda>n. trunc64 (n + 1)) [] = touch w i (\<lambda>s. s) (\<lambda>n. n + 1) []"
    using assms(3) by (intro touch_cong) auto
  then show ?thesis
    using assms by (simp add: SharedPoolPtr_copy_def spool.AddRef_eq touch_def swf_def)
qed

lemma ptr_delete_keep:
  assumes "swf w i" "who_of h = i" "1 < refs w i" "refs w i < 2 ^ 64"
  shows "SharedPoolPtr_delete (session_host E) w \<lparr> sptr_pool = True, sptr_handle = h \<rparr> =
    Inr (touch w i (\<lambda>s. s) (\<lambda>n. n - 1) [])"
proof -
  have "touch w i (\<lambda>s. s) (\<lambda>n. sub64 n 1) [] = touch w i (\<lambda>s. s) (\<lambda>n. n - 1) []"
    using assms(3,4) sub64_id [of 1 "refs w i"] by (intro touch_cong) auto
  then show ?thesis
    using assms by (simp add: SharedPoolPtr_delete_def spool.ReleaseRef_keep touch_def swf_def refs_def)
qed

lemma ov_ptr_copy_eq:
  assumes "swf w i" "ov_sessionPtr (get_ov f (sess w i)) = \<lparr> sptr_pool = True, sptr_handle = h \<rparr>"
    "who_of h = i" "refs w i + 1 < 2 ^ 64"
  shows "ov_ptr_copy E w i f = Inr (touch w i (\<lambda>s. s) (\<lambda>n. n + 1) [], \<lparr> sptr_pool = True, sptr_handle = h \<rparr>)"
  using assms ptr_copy_eq [of w i h E] by (simp add: ov_ptr_copy_def)

lemma via_eq:
  assumes "swf w i" "who_of h = i"
  shows "via E w \<lparr> sptr_pool = True, sptr_handle = h \<rparr> = Inr i"
  using assms by (simp add: via_def SharedPoolPtr_Get_def SparsePool_GetObj_def spool.slot_at_eq swf_def)

subsection \<open>A completed receive or send\<close>

abbreviation ov_unlink :: "ov_field \<Rightarrow> session \<Rightarrow> session" where
  "ov_unlink f \<equiv> upd_ov f (\<lambda>ov. ov\<lparr> ov_sessionPtr := nullSharedPtr \<rparr>)"

text \<open>Until the call of the handler both local copies exist and the block is unlinked.\<close>

lemma dispatch_prefix:
  assumes wf: "swf w i" and p: "ov_sessionPtr (get_ov f (sess w i)) = \<lparr> sptr_pool = True, sptr_handle = h \<rparr>"
    and h: "who_of h = i" and r: "0 < refs w i" "refs w i + 2 < 2 ^ 64"
  shows "ov_ptr_copy E w i f = Inr (touch w i (\<lambda>s. s) (\<lambda>n. n + 1) [], \<lparr> sptr_pool = True, sptr_handle = h \<rparr>)"
    and "ov_ptr_copy E (touch w i (\<lambda>s. s) (\<lambda>n. n + 1) []) i f =
      Inr (touch w i (\<lambda>s. s) (\<lambda>n. n + 2) [], \<lparr> sptr_pool = True, sptr_handle = h \<rparr>)"
    and "ov_ptr_Reset E (touch w i (\<lambda>s. s) (\<lambda>n. n + 2) []) i f = Inr (touch w i (ov_unlink f) (\<lambda>n. n + 1) [])"
proof -
  show "ov_ptr_copy E w i f = Inr (touch w i (\<lambda>s. s) (\<lambda>n. n + 1) [], \<lparr> sptr_pool = True, sptr_handle = h \<rparr>)"
    using assms by (subst ov_ptr_copy_eq) auto
  show "ov_ptr_copy E (touch w i (\<lambda>s. s) (\<lambda>n. n + 1) []) i f =
      Inr (touch w i (\<lambda>s. s) (\<lambda>n. n + 2) [], \<lparr> sptr_pool = True, sptr_handle = h \<rparr>)"
    using assms by (subst ov_ptr_copy_eq) auto
  show "ov_ptr_Reset E (touch w i (\<lambda>s. s) (\<lambda>n. n + 2) []) i f = Inr (touch w i (ov_unlink f) (\<lambda>n. n + 1) [])"
    using assms by (subst ov_ptr_Reset_keep) (auto intro!: touch_cong)
qed

lemma round_io_ok:
  assumes wf: "swf w i" and p: "ov_sessionPtr (get_ov f (sess w i)) = \<lparr> sptr_pool = True, sptr_handle = h \<rparr>"
    and h: "who_of h = i" and r: "0 < refs w i" "refs w i + 2 < 2 ^ 64"
    and io: "ov_ioType (get_ov f (sess w i)) = IO_kRecv \<or> ov_ioType (get_ov f (sess w i)) = IO_kSend"
    and n: "0 < n" and hd: "Session_HandleIO E (touch w i (ov_unlink f) (\<lambda>n. n + 1) []) i i f n = Inr (w4, True)"
    and wf4: "swf w4 i" and r4: "2 < refs w4 i" "refs w4 i < 2 ^ 64"
  shows "IocpCore_WorkerThread_round E shutting w \<lparr> co_ok = True, co_bytes = n, co_error = e, co_target = Some (i, f) \<rparr> =
    Inr (touch w4 i (\<lambda>s. s) (\<lambda>n. n - 2) [], True)"
proof -
  let ?p = "\<lparr> sptr_pool = True, sptr_handle = h \<rparr>"
  let ?w1 = "touch w i (\<lambda>s. s) (\<lambda>n. n + 1) []" and ?w3 = "touch w i (ov_unlink f) (\<lambda>n. n + 1) []"
  note pre = dispatch_prefix [OF wf p h r, of E]
  have "via E ?w3 ?p = Inr i" using wf h by (intro via_eq) auto
  then have disp: "IocpCore_DispatchRecvSend E ?w3 ?p i f n = Inr w4"
    using n hd by (simp add: IocpCore_DispatchRecvSend_def)
  have d1: "SharedPoolPtr_delete (session_host E) w4 ?p = Inr (touch w4 i (\<lambda>s. s) (\<lambda>n. n - 1) [])"
    using wf4 h r4 by (intro ptr_delete_keep) auto
  have d2: "SharedPoolPtr_delete (session_host E) (touch w4 i (\<lambda>s. s) (\<lambda>n. n - 1) []) ?p =
      Inr (touch w4 i (\<lambda>s. s) (\<lambda>n. n - 2) [])"
    using wf4 h r4 by (subst ptr_delete_keep [where i = i]) (auto intro!: touch_cong)
  have "IocpCore_Dispatch E ?w1 i f n = Inr (touch w4 i (\<lambda>s. s) (\<lambda>n. n - 1) [])"
    using wf pre(2,3) disp d1 io by (auto simp: IocpCore_Dispatch_def)
  then show ?thesis
    using wf pre(1) d2 io by (auto simp: IocpCore_WorkerThread_round_def)
qed

end
