(* ===== verification/Samples.thy ===== *)
theory Samples
  imports IocpLemmas
begin

section \<open>Concrete worlds\<close>

text \<open>
  Small instances of the server for the concrete instances of the theorems: \<open>n\<close> sessions,
  all in one state and with a receive posted, \<open>m\<close> free packets, and an environment in which
  every Windows call succeeds at once.
\<close>

definition sample_set :: "nat \<Rightarrow> nat \<Rightarrow> sparse_set" where
  "sample_set n st =
     \<lparr> ss_N = n, ss_K = 4,
       ss_sparse = (\<lambda>i. \<lparr> sl_where = i, sl_generation = 0, sl_state = st \<rparr>),
       ss_dense = (\<lambda>i. i), ss_cursor = (\<lambda>s. if s \<le> st then 0 else n) \<rparr>"

lemma sample_set_inv: "st < 4 \<Longrightarrow> n < 2 ^ 32 \<Longrightarrow> sset_inv (sample_set n st)"
  by (simp add: sset_inv_def sample_set_def)

definition sample_session :: "nat \<Rightarrow> nat \<Rightarrow> session" where
  "sample_session b i =
     (Session_new b)\<lparr>
       se_recvOv := (OverlappedEx_new b)\<lparr> ov_ioType := IO_kRecv, ov_wsaBuf := Some 0, ov_wsaLen := b,
         ov_sessionPtr := \<lparr> sptr_pool = True, sptr_handle = mk_handle 0 i \<rparr> \<rparr>,
       se_handle := mk_handle 0 i, se_sessionManager := True, se_listener := True, se_packetHandler := True \<rparr>"

definition sample_world :: "nat \<Rightarrow> nat \<Rightarrow> nat \<Rightarrow> nat \<Rightarrow> 'db \<Rightarrow> 'db world" where
  "sample_world n st b m db =
     (world_new n m b db)\<lparr>
       w_spool := \<lparr> sp_set = sample_set n st,
         sp_pool = \<lparr> op_N = n, op_lazy = False, op_mem = (\<lambda>i. if i < n then
           Some \<lparr> ps_obj = sample_session b i, ps_handle = mk_handle 0 i, ps_refCount = 2 \<rparr> else None) \<rparr> \<rparr>,
       w_sessionPtrs := (\<lambda>i. if i < n then \<lparr> sptr_pool = True, sptr_handle = mk_handle 0 i \<rparr> else nullSharedPtr),
       w_managerInit := True \<rparr>"

definition offline_sqlite :: "'db sqlite" where
  "offline_sqlite = \<lparr> sq_open = 1, sq_prepare = (\<lambda>_ _. 1), sq_step = (\<lambda>db _. (1, db)), sq_column_int64 = (\<lambda>_ _ _. 0) \<rparr>"

definition sample_env :: "unit env" where
  "sample_env = server_env (\<lambda>_ _. (0, 0)) offline_sqlite 0"

lemma sample_env_os [simp]: "e_os sample_env tr c = (0, 0)"
  by (simp add: sample_env_def)

lemma sample_posted [simp]: "posted_ok (0, 0)"
  by (simp add: posted_ok_def SOCKET_ERROR_def)

lemma sample_pool_wf [simp]: "st < 4 \<Longrightarrow> n < 2 ^ 32 \<Longrightarrow> pool_wf (w_spool (sample_world n st b m db))"
  using sample_set_inv [of st n]
  by (simp add: sample_world_def pool_wf_def eager_full_def) (simp add: sample_set_def)

lemma sample_views [simp]:
  "pool_N (w_spool (sample_world n st b m db)) = n"
  "i < n \<Longrightarrow> sess (sample_world n st b m db) i = sample_session b i"
  "i < n \<Longrightarrow> refs (sample_world n st b m db) i = 2"
  "sstate (sample_world n st b m db) i = st"
  "i < n \<Longrightarrow> w_sessionPtrs (sample_world n st b m db) i = \<lparr> sptr_pool = True, sptr_handle = mk_handle 0 i \<rparr>"
  "w_ppool (sample_world n st b m db) = SparsePool_new (\<lambda>_. 0) m 2"
  "w_tasks (sample_world n st b m db) = TaskQueue_new"
  "w_managerInit (sample_world n st b m db)"
  "w_trace (sample_world n st b m db) = []"
  by (simp_all add: sample_world_def sample_set_def sess_def refs_def sstate_def slot_of_def world_new_def)

lemma sample_session_fields [simp]:
  "se_handle (sample_session b i) = mk_handle 0 i" "se_sessionManager (sample_session b i)"
  "se_packetHandler (sample_session b i)" "se_listener (sample_session b i)" "\<not> se_isSending (sample_session b i)"
  "se_recvOv (sample_session b i) = (OverlappedEx_new b)\<lparr> ov_ioType := IO_kRecv, ov_wsaBuf := Some 0, ov_wsaLen := b,
         ov_sessionPtr := \<lparr> sptr_pool = True, sptr_handle = mk_handle 0 i \<rparr> \<rparr>"
  "se_sendOv (sample_session b i) = OverlappedEx_new b"
  "se_disconnectOv (sample_session b i) = OverlappedEx_new b"
  by (simp_all add: sample_session_def Session_new_def)

lemma sample_swf [simp]: "st < 4 \<Longrightarrow> n < 2 ^ 32 \<Longrightarrow> i < n \<Longrightarrow> swf (sample_world n st b m db) i"
  by (simp add: swf_def)

lemma sample_linked [simp]:
  "st < 4 \<Longrightarrow> n < 2 ^ 32 \<Longrightarrow> i < n \<Longrightarrow> linked (sample_world n st b m db) i"
  by (simp add: linked_def)

lemma new_packets_ok [simp]:
  assumes "m < 2 ^ 32"
  shows "packets_ok (SparsePool_new x m 2)" and "free_packets (SparsePool_new x m 2) = m"
proof -
  show "packets_ok (SparsePool_new x m 2)"
    using pool_ok_new [of 2 m x] assms by (simp add: packets_ok_def pool_ok_def) (simp add: SparsePool_new_def SparseSet_init_def)
  have "in_state (SparseSet_init m 2) 0 = {i. i < m}" by (auto simp: in_state_def SparseSet_init_def)
  then show "free_packets (SparsePool_new x m 2) = m" by (simp add: free_packets_def SparsePool_new_def)
qed

end
