(* ===== verification/Accept_Props.thy ===== *)
theory Accept_Props
  imports Samples
begin

section \<open>Posting accepts\<close>

text \<open>
  \<open>PostAccept\<close> takes idle sessions from the pool until \<open>kMaxAccept\<close> accepts are pending or no session is
  idle. \<open>accept_ready\<close>: a session in the pool is held by no pointer. \<open>posted\<close>: a session that waits for a
  connection, with its two references.
\<close>

definition null_session :: "session \<Rightarrow> bool" where
  "null_session s \<longleftrightarrow> \<not> sptr_pool (ov_sessionPtr (se_recvOv s)) \<and> \<not> sptr_pool (ov_sessionPtr (se_sendOv s)) \<and>
     \<not> sptr_pool (ov_sessionPtr (se_disconnectOv s))"

definition accept_ready :: "'db world \<Rightarrow> bool" where
  "accept_ready w \<longleftrightarrow> pool_wf (w_spool w) \<and> w_managerInit w \<and>
     (\<forall>i \<in> in_state (sp_set (w_spool w)) 0. null_session (sess w i) \<and> \<not> sptr_pool (w_sessionPtrs w i))"

definition posted :: "'db world \<Rightarrow> nat \<Rightarrow> bool" where
  "posted w i \<longleftrightarrow> linked w i \<and> sstate w i = state_code SS_kPending \<and> refs w i = 2 \<and> se_listener (sess w i) \<and>
     se_packetHandler (sess w i) \<and> ov_ioType (se_recvOv (sess w i)) = IO_kAccept \<and>
     ov_sessionPtr (se_recvOv (sess w i)) = w_sessionPtrs w i"

text \<open>The generations of the sessions, which make their handles.\<close>

definition generations :: "'db world \<Rightarrow> nat \<Rightarrow> u32" where
  "generations w k = sl_generation (ss_sparse (sp_set (w_spool w)) k)"

subsection \<open>Initializing a session\<close>

definition ov_renewed :: "overlapped_ex \<Rightarrow> overlapped_ex" where
  "ov_renewed ov = (ov_clear ov)\<lparr> ov_sessionPtr := nullSharedPtr \<rparr>"

definition renewed :: "session \<Rightarrow> session" where
  "renewed s = s\<lparr> se_recvOv := ov_renewed (se_recvOv s), se_sendOv := ov_renewed (se_sendOv s),
     se_disconnectOv := ov_renewed (se_disconnectOv s), se_listener := False, se_isSending := False,
     se_handle := kInvalidHandle \<rparr>"

lemma OverlappedEx_Reset_eq:
  assumes "swf w i" "\<not> sptr_pool (ov_sessionPtr (get_ov f (sess w i)))"
  shows "OverlappedEx_Reset E w i f = Inr (touch w i (upd_ov f ov_renewed) (\<lambda>n. n) [])"
proof -
  let ?w = "touch w i (upd_ov f ov_clear) (\<lambda>n. n) []"
  have "\<not> sptr_pool (ov_sessionPtr (get_ov f (sess ?w i)))" using assms(2) by (simp add: ov_clear_def)
  then have "OverlappedEx_Reset E w i f = Inr (touch ?w i (upd_ov f (\<lambda>ov. ov\<lparr> ov_sessionPtr := nullSharedPtr \<rparr>)) (\<lambda>n. n) [])"
    using assms(1) ov_ptr_Reset_null [of ?w i f E] by (simp add: OverlappedEx_Reset_def)
  then show ?thesis by (cases f) (simp_all add: ov_renewed_def)
qed

lemma Session_Init_eq:
  assumes wf: "swf w i" and n: "null_session (sess w i)"
  shows "Session_Init E w i = Inr (touch w i renewed (\<lambda>n. n) [])"
  using assms by (simp add: Session_Init_def OverlappedEx_Reset_eq null_session_def renewed_def [abs_def])

interpretation apool: pool_host_laws "session_pool E" for E
  by unfold_locales (simp_all add: session_pool_def session_host_def)

lemma session_pool_simps [simp]:
  "ph_get (session_pool E) w = w_spool w" "ph_put (session_pool E) p w = w\<lparr> w_spool := p \<rparr>"
  "ph_init (session_pool E) w i = Session_Init E w i"
  by (simp_all add: session_pool_def session_host_def)

subsection \<open>One accept\<close>

text \<open>The world with a session taken from the pool and registered with its manager.\<close>

definition created :: "'db world \<Rightarrow> nat \<Rightarrow> sparse_set \<Rightarrow> 'db world" where
  "created w i ss =
     (let h = pool_handle (w_spool w) i in
      w\<lparr> w_spool := upd_slot ((w_spool w)\<lparr> sp_set := ss \<rparr>) i
           (\<lambda>s. \<lparr> ps_obj = (renewed (ps_obj s))\<lparr> se_sessionManager := True, se_packetHandler := True, se_handle := h \<rparr>,
                  ps_handle = h, ps_refCount = 2 \<rparr>),
         w_sessionPtrs := (w_sessionPtrs w)(i := \<lparr> sptr_pool = True, sptr_handle = h \<rparr>) \<rparr>)"

lemma CreateSession_none:
  assumes "accept_ready w" and "in_state (sp_set (w_spool w)) 0 = {}"
  shows "SessionManager_CreateSession E w = Inr (w, nullSharedPtr)"
  using apool.Acquire_none [where E = E and w = w] assms
  by (simp add: SessionManager_CreateSession_def accept_ready_def SharedPoolPtr_IsValid_def SharedPoolPtr_delete_def)

lemma CreateSession_some:
  assumes ready: "accept_ready w" and ne: "in_state (sp_set (w_spool w)) 0 \<noteq> {}"
  shows "\<exists>i ss. i \<in> in_state (sp_set (w_spool w)) 0 \<and> moved_to (sp_set (w_spool w)) ss i 1 \<and>
    SessionManager_CreateSession E w = Inr (created w i ss, \<lparr> sptr_pool = True, sptr_handle = pool_handle (w_spool w) i \<rparr>)"
proof -
  let ?q = "w_spool w"
  have wf: "pool_wf ?q" using ready by (simp add: accept_ready_def)
  have K: "1 < ss_K (sp_set (ph_get (session_pool E) w))" using pool_wfD(2) [OF wf] by simp
  have init: "ph_init (session_pool E) v i = Inr (ph_put (session_pool E) (upd_slot (ph_get (session_pool E) v) i (\<lambda>s. s\<lparr> ps_obj := renewed (ps_obj s) \<rparr>)) v)"
    if "pool_wf (ph_get (session_pool E) v)" "i \<in> in_state (sp_set ?q) 0" "slot_of (ph_get (session_pool E) v) i = slot_of ?q i"
      "i < pool_N (ph_get (session_pool E) v)" for v :: "'a world" and i
  proof -
    have "null_session (sess v i)" using that ready by (simp add: accept_ready_def sess_def)
    then show ?thesis using that Session_Init_eq [of v i E] by (simp add: swf_def touch_def)
  qed
  obtain i ss where i: "i \<in> in_state (sp_set ?q) 0" and m: "moved_to (sp_set ?q) ss i 1"
    and acq: "SparsePool_Acquire (session_pool E) w 1 =
       Inr (w\<lparr> w_spool := upd_slot (?q\<lparr> sp_set := ss \<rparr>) i
              (\<lambda>s. \<lparr> ps_obj = renewed (ps_obj s), ps_handle = pool_handle ?q i, ps_refCount = 1 \<rparr>) \<rparr>,
            \<lparr> sptr_pool = True, sptr_handle = pool_handle ?q i \<rparr>)"
    using apool.Acquire_some [where E = E and f = renewed and w = w and st = 1 and q = ?q, OF _ K] wf ne init by fastforce
  let ?w1 = "w\<lparr> w_spool := upd_slot (?q\<lparr> sp_set := ss \<rparr>) i
              (\<lambda>s. \<lparr> ps_obj = renewed (ps_obj s), ps_handle = pool_handle ?q i, ps_refCount = 1 \<rparr>) \<rparr>"
  let ?P = "\<lparr> sptr_pool = True, sptr_handle = pool_handle ?q i \<rparr>"
  note M = moved_toD [OF m]
  have iq: "i < pool_N ?q" "i < 2 ^ 32" using i pool_wfD(5) [OF wf] by (auto simp: in_state_def)
  have "pool_wf (?q\<lparr> sp_set := ss \<rparr>)" using wf M(1-3) by (rule pool_wf_set)
  then have w1: "swf ?w1 i" using iq M(2) by (simp add: swf_def)
  have who: "who_of (pool_handle ?q i) = i" using iq by simp
  have "cur_handle ss i = pool_handle ?q i" by (simp add: cur_handle_def M(4))
  then have valid: "SharedPoolPtr_IsValid (session_host E) ?w1 ?P"
    using iq M(2) by (simp add: SharedPoolPtr_IsValid_def SparsePool_IsValid_def IsValid_iff_cur_handle)
  let ?F = "\<lambda>s. s\<lparr> se_sessionManager := True, se_packetHandler := w_managerInit ?w1, se_handle := pool_handle ?q i \<rparr>"
  let ?w2 = "touch ?w1 i ?F (\<lambda>n. n) []"
  let ?w4 = "?w2\<lparr> w_sessionPtrs := (w_sessionPtrs ?w2)(i := ?P) \<rparr>"
  have w4: "swf ?w4 i" "refs ?w4 i = 1" using w1 by (simp_all add: swf_def touch_def refs_def)
  have null: "\<not> sptr_pool (w_sessionPtrs w i)" using ready i by (simp add: accept_ready_def)
  have "SessionManager_CreateSession E w = SharedPoolPtr_copy (session_host E) ?w4 ?P"
    using acq valid w1 who iq M(2) null
    by (simp add: SessionManager_CreateSession_def Let_def SharedPoolPtr_move_assign_def)
  also have "\<dots> = Inr (touch ?w4 i (\<lambda>s. s) (\<lambda>n. n + 1) [], ?P)"
    using ptr_copy_eq [OF w4(1) who] w4(2) by simp
  also have "touch ?w4 i (\<lambda>s. s) (\<lambda>n. n + 1) [] = created w i ss"
    using ready by (cases w) (simp add: created_def touch_def accept_ready_def upd_slot_def slot_of_def op_store_def Let_def numeral_2_eq_2)
  finally show ?thesis using i m by blast
qed

lemma created_facts:
  fixes w :: "'db world"
  assumes wf: "pool_wf (w_spool w)" and i: "i \<in> in_state (sp_set (w_spool w)) 0" and m: "moved_to (sp_set (w_spool w)) ss i 1"
  shows "linked (created w i ss) i" and "refs (created w i ss) i = 2" and "sstate (created w i ss) i = 1"
    and "SharedPoolPtr_IsValid (session_host E) (created w i ss) \<lparr> sptr_pool = True, sptr_handle = pool_handle (w_spool w) i \<rparr>"
    and "who_of (pool_handle (w_spool w) i) = i"
    and "sess (created w i ss) i = (renewed (sess w i))\<lparr> se_sessionManager := True, se_packetHandler := True, se_handle := pool_handle (w_spool w) i \<rparr>"
    and "w_sessionPtrs (created w i ss) i = \<lparr> sptr_pool = True, sptr_handle = pool_handle (w_spool w) i \<rparr>"
    and "sp_set (w_spool (created w i ss)) = ss"
    and "j \<noteq> i \<Longrightarrow> sess (created w i ss) j = sess w j \<and> refs (created w i ss) j = refs w j \<and>
      sstate (created w i ss) j = sstate w j \<and> w_sessionPtrs (created w i ss) j = w_sessionPtrs w j"
    and "w_pendingAccepts (created w i ss) = w_pendingAccepts w" and "w_trace (created w i ss) = w_trace w"
    and "w_managerInit (created w i ss) = w_managerInit w" and "pool_wf (w_spool (created w i ss))"
    and "w_ppool (created w i ss) = w_ppool w"
proof -
  note M = moved_toD [OF m]
  have iq: "i < pool_N (w_spool w)" "i < 2 ^ 32" using i pool_wfD(5) [OF wf] by (auto simp: in_state_def)
  show who: "who_of (pool_handle (w_spool w) i) = i" using iq by simp
  have "pool_wf ((w_spool w)\<lparr> sp_set := ss \<rparr>)" using wf M(1-3) by (rule pool_wf_set)
  then show wf': "pool_wf (w_spool (created w i ss))" by (simp add: created_def Let_def)
  show set: "sp_set (w_spool (created w i ss)) = ss" by (simp add: created_def Let_def)
  show refs: "refs (created w i ss) i = 2" by (simp add: created_def refs_def Let_def)
  show sess: "sess (created w i ss) i = (renewed (sess w i))\<lparr> se_sessionManager := True, se_packetHandler := True, se_handle := pool_handle (w_spool w) i \<rparr>"
    by (simp add: created_def sess_def Let_def)
  show ptr: "w_sessionPtrs (created w i ss) i = \<lparr> sptr_pool = True, sptr_handle = pool_handle (w_spool w) i \<rparr>"
    by (simp add: created_def Let_def)
  show "linked (created w i ss) i" using wf' refs sess ptr who iq M(2) set by (simp add: linked_def swf_def)
  show "sstate (created w i ss) i = 1" using M(5) [of i] set by (simp add: sstate_def)
  have "cur_handle ss i = pool_handle (w_spool w) i" by (simp add: cur_handle_def M(4))
  then show "SharedPoolPtr_IsValid (session_host E) (created w i ss) \<lparr> sptr_pool = True, sptr_handle = pool_handle (w_spool w) i \<rparr>"
    using iq M(2) set by (simp add: SharedPoolPtr_IsValid_def SparsePool_IsValid_def IsValid_iff_cur_handle)
  show "sess (created w i ss) j = sess w j \<and> refs (created w i ss) j = refs w j \<and>
      sstate (created w i ss) j = sstate w j \<and> w_sessionPtrs (created w i ss) j = w_sessionPtrs w j" if "j \<noteq> i"
    using that M(5) [of j] by (simp add: created_def sess_def refs_def sstate_def Let_def)
qed (simp_all add: created_def Let_def)

definition accept_block :: "u64 \<Rightarrow> overlapped_ex \<Rightarrow> overlapped_ex" where
  "accept_block h ov = ov\<lparr> ov_ioType := IO_kAccept, ov_wsaBuf := Some 0, ov_wsaLen := trunc32 (rb_size (ov_buffer ov)),
     ov_sessionPtr := \<lparr> sptr_pool = True, sptr_handle = h \<rparr> \<rparr>"

text \<open>The system takes every \<open>AcceptEx\<close>, at once or pending.\<close>

definition takes_accepts :: "'db env \<Rightarrow> bool" where
  "takes_accepts E \<longleftrightarrow> (\<forall>tr i. posted_ok (e_os E tr (OS_AcceptEx i)))"

lemma RegisterAccept_eq:
  assumes l: "linked w i" and n: "\<not> sptr_pool (ov_sessionPtr (se_recvOv (sess w i)))" and os: "takes_accepts E"
  shows "Session_RegisterAccept E w i = Inr (touch w i
      (\<lambda>s. s\<lparr> se_recvOv := accept_block (se_handle s) (se_recvOv s) \<rparr>) (\<lambda>n. n + 1) [OS_AcceptEx i], True)"
proof -
  note D = linkedD [OF l]
  let ?F = "\<lambda>s. s\<lparr> se_recvOv := (se_recvOv s)\<lparr> ov_ioType := IO_kAccept, ov_wsaBuf := Some 0,
       ov_wsaLen := trunc32 (rb_size (ov_buffer (se_recvOv s))) \<rparr> \<rparr>"
  let ?w1 = "touch w i ?F (\<lambda>n. n) []"
  have "linked ?w1 i" using l D by (intro linked_touch) auto
  then have w2: "ov_ptr_self E ?w1 i RecvOv = Inr (touch ?w1 i
      (\<lambda>s. upd_ov RecvOv (\<lambda>ov. ov\<lparr> ov_sessionPtr := \<lparr> sptr_pool = True, sptr_handle = se_handle s \<rparr> \<rparr>) s) (\<lambda>n. n + 1) [])"
    using n D by (intro ov_ptr_self_eq) simp_all
  have "posted_ok (e_os E (w_trace w) (OS_AcceptEx i))" using os by (simp add: takes_accepts_def)
  then have ex: "ex_posted v (e_os E (w_trace w) (OS_AcceptEx i)) = Inr (v, True)" for v :: "'a world"
    by (auto simp: ex_posted_def posted_ok_def)
  have "Session_RegisterAccept E w i = Inr (touch (touch ?w1 i
      (\<lambda>s. upd_ov RecvOv (\<lambda>ov. ov\<lparr> ov_sessionPtr := \<lparr> sptr_pool = True, sptr_handle = se_handle s \<rparr> \<rparr>) s) (\<lambda>n. n + 1) []) i
      (\<lambda>s. s) (\<lambda>n. n) [OS_AcceptEx i], True)"
    using D w2 ex by (simp add: Session_RegisterAccept_def Let_def os_do_touch [where i = i])
  then show ?thesis by (simp add: accept_block_def)
qed

text \<open>The blocks of a session with a new accept: empty, and the send block is free.\<close>

definition fresh_accept :: "session \<Rightarrow> session \<Rightarrow> bool" where
  "fresh_accept s s' \<longleftrightarrow> se_sendOv s' = ov_renewed (se_sendOv s) \<and> \<not> se_isSending s' \<and>
     se_recvOv s' = accept_block (se_handle s') (ov_renewed (se_recvOv s))"

text \<open>What one round of \<open>PostAccept\<close> does when it posts an accept for session \<open>i\<close>.\<close>

definition accept_step :: "'db world \<Rightarrow> 'db world \<Rightarrow> nat \<Rightarrow> bool" where
  "accept_step w w' i \<longleftrightarrow> posted w' i \<and> fresh_accept (sess w i) (sess w' i) \<and> accept_ready w' \<and>
     in_state (sp_set (w_spool w')) 0 = in_state (sp_set (w_spool w)) 0 - {i} \<and> pool_N (w_spool w') = pool_N (w_spool w) \<and>
     w_pendingAccepts w' = w_pendingAccepts w + 1 \<and> w_trace w' = w_trace w @ [OS_AcceptEx i] \<and>
     w_ppool w' = w_ppool w \<and> ss_K (sp_set (w_spool w')) = ss_K (sp_set (w_spool w)) \<and> generations w' = generations w \<and>
     (\<forall>j. j \<noteq> i \<longrightarrow> sess w' j = sess w j \<and> refs w' j = refs w j \<and> sstate w' j = sstate w j \<and> w_sessionPtrs w' j = w_sessionPtrs w j)"

lemma PostAccept_round_posts:
  fixes w :: "'db world"
  assumes ready: "accept_ready w" and ne: "in_state (sp_set (w_spool w)) 0 \<noteq> {}"
    and room: "w_pendingAccepts w < kMaxAccept" and os: "takes_accepts E"
  shows "\<exists>i w'. i \<in> in_state (sp_set (w_spool w)) 0 \<and> PostAccept_round E w = Inr (w', AcceptMore) \<and> accept_step w w' i"
proof -
  let ?w0 = "w\<lparr> w_pendingAccepts := w_pendingAccepts w + 1 \<rparr>"
  have same: "sess ?w0 j = sess w j" "refs ?w0 j = refs w j" "sstate ?w0 j = sstate w j" for j by (simp_all add: sess_def refs_def sstate_def)
  have t: "trunc64 (w_pendingAccepts w + 1) = w_pendingAccepts w + 1" using room by (simp add: kMaxAccept_def)
  have "accept_ready ?w0" using ready same by (simp add: accept_ready_def)
  from CreateSession_some [OF this, of E] ne obtain i ss where i: "i \<in> in_state (sp_set (w_spool w)) 0"
    and m: "moved_to (sp_set (w_spool w)) ss i 1"
    and c: "SessionManager_CreateSession E ?w0 = Inr (created ?w0 i ss, \<lparr> sptr_pool = True, sptr_handle = pool_handle (w_spool w) i \<rparr>)"
    by auto
  have wf: "pool_wf (w_spool ?w0)" using ready by (simp add: accept_ready_def)
  let ?w1 = "created ?w0 i ss" and ?h = "pool_handle (w_spool w) i"
  have i0: "i \<in> in_state (sp_set (w_spool ?w0)) 0" and m0: "moved_to (sp_set (w_spool ?w0)) ss i 1" using i m by simp_all
  note C = created_facts [OF wf i0 m0]
  let ?G = "\<lambda>s. s\<lparr> se_recvOv := accept_block (se_handle s) (se_recvOv s), se_listener := True \<rparr>"
  let ?w' = "touch ?w1 i ?G (\<lambda>n. n) [OS_AcceptEx i]"
  have swf: "swf ?w1 i" by (rule linkedD [OF C(1)])
  have null: "\<not> sptr_pool (ov_sessionPtr (se_recvOv (sess ?w1 i)))" unfolding C(6) by (simp add: renewed_def ov_renewed_def)
  note R = RegisterAccept_eq [OF C(1) null os]
  let ?w3 = "touch ?w1 i ?G (\<lambda>n. n + 1) [OS_AcceptEx i]"
  have "refs ?w3 i = 3" using C(2) by simp
  then have del: "SharedPoolPtr_delete (session_host E) ?w3 \<lparr> sptr_pool = True, sptr_handle = ?h \<rparr> = Inr ?w'"
    using ptr_delete_keep [of ?w3 i ?h E] swf C(5) by simp
  have "PostAccept_round E w = Inr (?w', AcceptMore)"
    using room t c C(4,5) R swf del by (simp add: PostAccept_round_def Let_def)
  moreover have "accept_step w ?w' i"
  proof -
    have "posted ?w' i" using C(1-3,6,7) by (simp add: posted_def linked_touch accept_block_def)
    moreover have idle: "in_state (sp_set (w_spool ?w')) 0 = in_state (sp_set (w_spool w)) 0 - {i}"
      using C(8) moved_toD(2,5) [OF m] by (auto simp: in_state_def)
    moreover have "accept_ready ?w'"
    proof -
      have "pool_wf (w_spool ?w')" using swf_touch [OF swf] unfolding swf_def by blast
      moreover have "null_session (sess ?w' j) \<and> \<not> sptr_pool (w_sessionPtrs ?w' j)"
        if "j \<in> in_state (sp_set (w_spool ?w')) 0" for j
      proof -
        have j: "j \<noteq> i" "j \<in> in_state (sp_set (w_spool w)) 0" using that unfolding idle by simp_all
        then show ?thesis using C(9) [OF j(1)] same(1) [of j] ready by (simp add: accept_ready_def)
      qed
      ultimately show ?thesis using ready C(12) unfolding accept_ready_def by simp
    qed
    moreover have "fresh_accept (sess w i) (sess ?w' i)" using C(6) same by (simp add: fresh_accept_def renewed_def)
    moreover have "generations ?w' = generations w" using C(8) moved_toD(4) [OF m] by (simp add: generations_def fun_eq_iff)
    ultimately show ?thesis using C(8-11,14) moved_toD(2,3) [OF m] same by (simp add: accept_step_def)
  qed
  ultimately show ?thesis using i by blast
qed

lemma PostAccept_round_empty:
  assumes ready: "accept_ready w" and ne: "in_state (sp_set (w_spool w)) 0 = {}" and room: "w_pendingAccepts w < kMaxAccept"
  shows "PostAccept_round E w = Inr (w, AcceptDone False)"
proof -
  let ?w0 = "w\<lparr> w_pendingAccepts := w_pendingAccepts w + 1 \<rparr>"
  have "accept_ready ?w0" using ready by (simp add: accept_ready_def sess_def)
  then have "SessionManager_CreateSession E ?w0 = Inr (?w0, nullSharedPtr)" using ne by (intro CreateSession_none) simp_all
  moreover have "w_pendingAccepts w + 1 < 2 ^ 64" using room by (simp add: kMaxAccept_def)
  ultimately show ?thesis using room sub64_id [of 1 "w_pendingAccepts w + 1"]
    by (simp add: PostAccept_round_def SharedPoolPtr_IsValid_def SharedPoolPtr_delete_def)
qed

subsection \<open>All of them\<close>

lemma posted_kept:
  assumes "accept_step w w' i" and "posted w j" and "j \<noteq> i"
  shows "posted w' j"
proof -
  have s: "sess w' j = sess w j" "refs w' j = refs w j" "sstate w' j = sstate w j" "w_sessionPtrs w' j = w_sessionPtrs w j"
    "pool_N (w_spool w') = pool_N (w_spool w)" "pool_wf (w_spool w')"
    using assms(1,3) by (simp_all add: accept_step_def accept_ready_def)
  then show ?thesis using assms(2) by (simp add: posted_def linked_def swf_def)
qed

text \<open>The accepts that were posted, in the order of the calls.\<close>

definition accepts_posted :: "'db world \<Rightarrow> 'db world \<Rightarrow> nat list \<Rightarrow> bool" where
  "accepts_posted w w' is \<longleftrightarrow> distinct is \<and> set is \<subseteq> in_state (sp_set (w_spool w)) 0 \<and>
     in_state (sp_set (w_spool w')) 0 = in_state (sp_set (w_spool w)) 0 - set is \<and>
     w_pendingAccepts w' = w_pendingAccepts w + length is \<and> w_trace w' = w_trace w @ map OS_AcceptEx is \<and>
     w_ppool w' = w_ppool w \<and> ss_K (sp_set (w_spool w')) = ss_K (sp_set (w_spool w)) \<and> generations w' = generations w \<and>
     (\<forall>i \<in> set is. posted w' i \<and> fresh_accept (sess w i) (sess w' i)) \<and>
     (\<forall>j. j \<notin> set is \<longrightarrow> sess w' j = sess w j \<and> refs w' j = refs w j \<and> sstate w' j = sstate w j \<and> w_sessionPtrs w' j = w_sessionPtrs w j)"

lemma accepts_posted_Cons:
  assumes 1: "i \<in> in_state (sp_set (w_spool w)) 0" "accept_step w w1 i" and 2: "accepts_posted w1 w' is" and p: "posted w' i"
  shows "accepts_posted w w' (i # is)"
proof -
  have "i \<notin> in_state (sp_set (w_spool w1)) 0" using 1(2) by (simp add: accept_step_def)
  then have i: "i \<notin> set is" using 2 by (auto simp: accepts_posted_def)
  have a: "in_state (sp_set (w_spool w1)) 0 = in_state (sp_set (w_spool w)) 0 - {i}" "w_pendingAccepts w1 = w_pendingAccepts w + 1"
    "w_trace w1 = w_trace w @ [OS_AcceptEx i]" using 1(2) by (simp_all add: accept_step_def)
  have b: "distinct is" "set is \<subseteq> in_state (sp_set (w_spool w1)) 0"
    "in_state (sp_set (w_spool w')) 0 = in_state (sp_set (w_spool w1)) 0 - set is"
    "w_pendingAccepts w' = w_pendingAccepts w1 + length is" "w_trace w' = w_trace w1 @ map OS_AcceptEx is"
    "\<forall>i \<in> set is. posted w' i \<and> fresh_accept (sess w1 i) (sess w' i)"
    using 2 by (simp_all add: accepts_posted_def)
  have "sess w' j = sess w j \<and> refs w' j = refs w j \<and> sstate w' j = sstate w j \<and> w_sessionPtrs w' j = w_sessionPtrs w j"
    if "j \<notin> set (i # is)" for j
  proof -
    have j: "j \<noteq> i" "j \<notin> set is" using that by simp_all
    have "sess w1 j = sess w j \<and> refs w1 j = refs w j \<and> sstate w1 j = sstate w j \<and> w_sessionPtrs w1 j = w_sessionPtrs w j"
      using 1(2) j(1) unfolding accept_step_def by blast
    moreover have "sess w' j = sess w1 j \<and> refs w' j = refs w1 j \<and> sstate w' j = sstate w1 j \<and> w_sessionPtrs w' j = w_sessionPtrs w1 j"
      using 2 j(2) unfolding accepts_posted_def by blast
    ultimately show ?thesis by simp
  qed
  moreover have "set (i # is) \<subseteq> in_state (sp_set (w_spool w)) 0" using b(2) 1(1) unfolding a(1) by auto
  moreover have "in_state (sp_set (w_spool w')) 0 = in_state (sp_set (w_spool w)) 0 - set (i # is)" unfolding b(3) a(1) by auto
  moreover have "w_pendingAccepts w' = w_pendingAccepts w + length (i # is)" "w_trace w' = w_trace w @ map OS_AcceptEx (i # is)"
    using a(2,3) b(4,5) by simp_all
  moreover have "distinct (i # is)" using b(1) i by simp
  moreover have "posted w' j \<and> fresh_accept (sess w j) (sess w' j)" if "j \<in> set (i # is)" for j
  proof (cases "j = i")
    case True
    then show ?thesis using p 1(2) 2 i by (simp add: accept_step_def accepts_posted_def)
  next
    case False
    then show ?thesis using that b(6) 1(2) by (auto simp: accept_step_def)
  qed
  moreover have "w_ppool w' = w_ppool w" "ss_K (sp_set (w_spool w')) = ss_K (sp_set (w_spool w))" "generations w' = generations w"
    using 1(2) 2 by (simp_all add: accept_step_def accepts_posted_def)
  ultimately show ?thesis unfolding accepts_posted_def by blast
qed

lemma posted_unchanged:
  assumes "accepts_posted w w' is" and "posted w j" and "j \<notin> set is" and "swf w' j"
  shows "posted w' j"
  using assms by (simp add: accepts_posted_def posted_def linked_def)

lemma PostAccept_loop_posts:
  assumes "accept_ready w" and "takes_accepts E" and "w_pendingAccepts w \<le> kMaxAccept"
  shows "\<exists>w' is. PostAccept_loop E w = Some (Inr (w', w_pendingAccepts w' = kMaxAccept)) \<and> accepts_posted w w' is \<and>
    accept_ready w' \<and> pool_N (w_spool w') = pool_N (w_spool w) \<and>
    length is = min (kMaxAccept - w_pendingAccepts w) (card (in_state (sp_set (w_spool w)) 0))"
  using assms(1,3)
proof (induction "kMaxAccept - w_pendingAccepts w" arbitrary: w)
  case 0
  then have full: "w_pendingAccepts w = kMaxAccept" by linarith
  then have "PostAccept_round E w = Inr (w, AcceptDone True)" by (simp add: PostAccept_round_def)
  then have "PostAccept_loop E w = Some (Inr (w, w_pendingAccepts w = kMaxAccept))"
    using full by (subst PostAccept_loop.simps) simp
  then show ?case using full 0(2) by (intro exI [of _ w] exI [of _ "[]"]) (simp add: accepts_posted_def)
next
  case (Suc n)
  have room: "w_pendingAccepts w < kMaxAccept" using Suc.hyps(2) by linarith
  let ?I = "in_state (sp_set (w_spool w)) 0"
  show ?case
  proof (cases "?I = {}")
    case True
    then have "PostAccept_loop E w = Some (Inr (w, w_pendingAccepts w = kMaxAccept))"
      using PostAccept_round_empty [OF Suc.prems(1) True room, of E] room by (subst PostAccept_loop.simps) simp
    then show ?thesis using True Suc.prems by (intro exI [of _ w] exI [of _ "[]"]) (simp add: accepts_posted_def)
  next
    case False
    obtain i w1 where i: "i \<in> ?I" and r: "PostAccept_round E w = Inr (w1, AcceptMore)" and s: "accept_step w w1 i"
      using PostAccept_round_posts [OF Suc.prems(1) False room assms(2)] by blast
    have s': "posted w1 i" "accept_ready w1" "in_state (sp_set (w_spool w1)) 0 = ?I - {i}" "w_pendingAccepts w1 = w_pendingAccepts w + 1"
      "pool_N (w_spool w1) = pool_N (w_spool w)" using s by (simp_all add: accept_step_def)
    have "n = kMaxAccept - w_pendingAccepts w1" "w_pendingAccepts w1 \<le> kMaxAccept" using Suc.hyps(2) s'(4) room by linarith+
    from Suc.hyps(1) [OF this(1) s'(2) this(2)] obtain w' "is" where
      w': "PostAccept_loop E w1 = Some (Inr (w', w_pendingAccepts w' = kMaxAccept))" "accepts_posted w1 w' is" "accept_ready w'"
        "pool_N (w_spool w') = pool_N (w_spool w1)"
        "length is = min (kMaxAccept - w_pendingAccepts w1) (card (in_state (sp_set (w_spool w1)) 0))" by blast
    have "i \<notin> set is" using w'(2) s'(3) by (auto simp: accepts_posted_def)
    moreover have "swf w' i" using w'(3,4) s'(1) by (simp add: swf_def accept_ready_def posted_def linked_def)
    ultimately have "posted w' i" using posted_unchanged [OF w'(2) s'(1)] by blast
    then have "accepts_posted w w' (i # is)" by (rule accepts_posted_Cons [OF i s w'(2)])
    moreover have "PostAccept_loop E w = Some (Inr (w', w_pendingAccepts w' = kMaxAccept))"
      using r w'(1) by (subst PostAccept_loop.simps) simp
    moreover have "finite ?I" by (simp add: in_state_def)
    then have "card ?I = Suc (card (?I - {i}))" using i by (rule card.remove)
    then have "length (i # is) = min (kMaxAccept - w_pendingAccepts w) (card ?I)"
      using w'(5) s'(3,4) room by simp
    ultimately show ?thesis using w'(3,4) s'(5) by auto
  qed
qed

text \<open>C9: When the system takes the \<open>AcceptEx\<close> calls, \<open>PostAccept\<close> returns, and posts accepts until
  \<open>kMaxAccept\<close> are pending or no session is idle, which is its result. Each is posted once, on a session
  of its own that was idle and is pending now, held by its manager and by its receive block; the calls are
  in the trace in this order, and no other session changes.\<close>

theorem Listener_PostAccept_fills:
  assumes "accept_ready w" and "takes_accepts E" and "w_pendingAccepts w \<le> kMaxAccept"
  shows "\<exists>w' is. Listener_PostAccept E w = Inr (w', w_pendingAccepts w' = kMaxAccept) \<and> accepts_posted w w' is \<and>
    length is = min (kMaxAccept - w_pendingAccepts w) (card (in_state (sp_set (w_spool w)) 0))"
  using PostAccept_loop_posts [OF assms] by (auto simp: Listener_PostAccept_def loop_result_def)

text \<open>The new server with three sessions: all of them wait for connections.\<close>

theorem Listener_PostAccept_fills_witness:
  "\<exists>w' is. Listener_PostAccept sample_env ((world_new 3 2 64 ())\<lparr> w_managerInit := True \<rparr>) = Inr (w', False) \<and>
     length is = 3 \<and> w_trace w' = map OS_AcceptEx is \<and> distinct is \<and> (\<forall>i \<in> set is. posted w' i)"
proof -
  let ?w = "(world_new 3 2 64 ())\<lparr> w_managerInit := True \<rparr>"
  have idle: "in_state (sp_set (w_spool ?w)) 0 = {..<3}"
    by (auto simp: in_state_def world_new_def SparsePool_new_def SparseSet_init_def)
  have "pool_wf (w_spool ?w)" using pool_okD(1) [OF pool_ok_new [of 4 3]] by (simp add: world_new_def)
  moreover have "null_session (sess ?w i) \<and> \<not> sptr_pool (w_sessionPtrs ?w i)" if "i < 3" for i
    using that by (simp add: sess_def world_new_def Slot_new_def Session_new_def null_session_def OverlappedEx_new_def)
  ultimately have "accept_ready ?w" unfolding accept_ready_def idle by simp
  moreover have "takes_accepts sample_env" by (simp add: takes_accepts_def)
  moreover have "w_pendingAccepts ?w \<le> kMaxAccept" by (simp add: world_new_def)
  ultimately obtain w' "is" where r: "Listener_PostAccept sample_env ?w = Inr (w', w_pendingAccepts w' = kMaxAccept)"
    "accepts_posted ?w w' is" "length is = min (kMaxAccept - w_pendingAccepts ?w) (card (in_state (sp_set (w_spool ?w)) 0))"
    using Listener_PostAccept_fills by blast
  have n: "length is = 3" using r(3) unfolding idle by (simp add: world_new_def kMaxAccept_def)
  then have "w_pendingAccepts w' = 3" using r(2) by (simp add: accepts_posted_def world_new_def)
  then have "Listener_PostAccept sample_env ?w = Inr (w', False)" using r(1) by (simp add: kMaxAccept_def)
  then show ?thesis using r(2) n by (auto simp: accepts_posted_def world_new_def)
qed

end
