(* ===== verification/Session_Recv.thy ===== *)
theory Session_Recv
  imports WorldLemmas
begin

section \<open>Receiving: OnRecv implements the abstract packet stream\<close>

text \<open>
  The loop of \<open>OnRecv\<close> turns the unread bytes of the ring buffer into queued tasks exactly
  as \<open>parse_stream\<close> cuts them; then the run over several completions, where the bytes of one
  packet may arrive in any pieces.
\<close>

subsection \<open>One round of the loop\<close>

text \<open>Positions between the rounds: the read position may have passed the buffer end.\<close>

definition recv_ready :: "overlapped_ex \<Rightarrow> bool" where
  "recv_ready ov \<longleftrightarrow> ov_recvPos ov \<le> ov_sendPos ov \<and>
     ov_sendPos ov \<le> ov_recvPos ov + rb_size (ov_buffer ov) \<and>
     ov_sendPos ov < 2 * rb_size (ov_buffer ov) \<and> rb_size (ov_buffer ov) < 2 ^ 32"

definition recv_adv :: "nat \<Rightarrow> overlapped_ex \<Rightarrow> overlapped_ex" where
  "recv_adv n ov = ov\<lparr> ov_recvPos := ov_recvPos ov + n \<rparr>"

lemma recv_adv_simps [simp]:
  "ov_recvPos (recv_adv n ov) = ov_recvPos ov + n" "ov_sendPos (recv_adv n ov) = ov_sendPos ov"
  "ov_buffer (recv_adv n ov) = ov_buffer ov" "ov_sessionPtr (recv_adv n ov) = ov_sessionPtr ov"
  "recv_adv m (recv_adv n ov) = recv_adv (n + m) ov" "recv_adv 0 ov = ov"
  by (simp_all add: recv_adv_def)

lemma recv_ready_avail: "recv_ready ov \<Longrightarrow> ov_avail ov = length (ov_pending ov)"
  unfolding ov_avail_def recv_ready_def by (simp add: sub64_id)

lemma recv_ready_adv: "recv_ready ov \<Longrightarrow> n \<le> length (ov_pending ov) \<Longrightarrow> recv_ready (recv_adv n ov)"
  by (auto simp: recv_ready_def)

lemma pending_adv: "n \<le> length (ov_pending ov) \<Longrightarrow> ov_pending (recv_adv n ov) = drop n (ov_pending ov)"
  by (simp add: ov_pending_def drop_slice_fun)

lemma ring_read_pending:
  assumes "recv_ready ov" "n \<le> length (ov_pending ov)"
  shows "ring_read (ov_buffer ov) (ov_recvPos ov) n = Inr (take n (ov_pending ov))"
proof -
  have "ov_recvPos ov + n \<le> 2 * rb_size (ov_buffer ov)" using assms by (auto simp: recv_ready_def)
  then show ?thesis using assms by (simp add: ring_read_def ov_pending_def take_slice_fun)
qed

text \<open>A task that will run on session \<open>i\<close> with the packet \<open>bs\<close>.\<close>

definition queued :: "bytes sparse_pool \<Rightarrow> nat \<Rightarrow> task \<Rightarrow> u8 list \<Rightarrow> bool" where
  "queued p i t bs \<longleftrightarrow> task_this t = i \<and> sptr_pool (task_packet t) \<and>
     (let h = sptr_handle (task_packet t); j = who_of h in
      j < pool_N p \<and> h = pool_handle p j \<and> pool_state p j \<noteq> 0 \<and> ps_refCount (slot_of p j) = 1 \<and>
      slice_fun (ps_obj (slot_of p j)) 0 (length bs) = bs)"

lemma queued_ext: "queued p i t bs \<Longrightarrow> ppool_ext p p' \<Longrightarrow> queued p' i t bs"
  by (auto simp: queued_def ppool_ext_def Let_def)

lemma queued_taken:
  assumes t: "taken p p' j blk" and b: "slice_fun blk 0 (length bs) = bs"
  shows "queued p' i \<lparr> task_this = i, task_packet = \<lparr> sptr_pool = True, sptr_handle = pool_handle p j \<rparr> \<rparr> bs"
  using takenD [OF t] b by (simp add: queued_def)

lemma take_packet_eq:
  assumes wf: "swf w i" and h: "se_packetHandler (sess w i)"
    and r: "recv_ready (se_recvOv (sess w i))" and n: "n \<le> length (ov_pending (se_recvOv (sess w i)))"
    and fit: "n \<le> kMaxPacketSize" and ok: "packets_ok (w_ppool w)" and free: "0 < free_packets (w_ppool w)"
  shows "\<exists>p' t. Session_take_packet E w i n =
      Inr ((touch w i (upd_ov RecvOv (recv_adv n)) (\<lambda>n. n) [])\<lparr> w_ppool := p', w_tasks := TaskQueue_Push (w_tasks w) t \<rparr>) \<and>
    queued p' i t (take n (ov_pending (se_recvOv (sess w i)))) \<and> ppool_ext (w_ppool w) p' \<and>
    free_packets p' + 1 = free_packets (w_ppool w)"
proof -
  let ?ov = "se_recvOv (sess w i)"
  let ?src = "take n (ov_pending ?ov)"
  have len: "length ?src = n" using n by simp
  obtain j p' blk where a: "PacketHandler_AcquirePacket_copy w ?src =
      Inr (w\<lparr> w_ppool := p' \<rparr>, \<lparr> sptr_pool = True, sptr_handle = pool_handle (w_ppool w) j \<rparr>)"
    and t: "taken (w_ppool w) p' j blk" and b: "slice_fun blk 0 (length ?src) = ?src"
    using AcquirePacket_copy_taken [OF ok free, of ?src] fit len by auto
  let ?t = "\<lparr> task_this = i, task_packet = \<lparr> sptr_pool = True, sptr_handle = pool_handle (w_ppool w) j \<rparr> \<rparr>"
  have "touch w i (upd_ov RecvOv (\<lambda>ov. ov\<lparr> ov_recvPos := trunc64 (ov_recvPos ov + n) \<rparr>)) (\<lambda>n. n) [] =
      touch w i (upd_ov RecvOv (recv_adv n)) (\<lambda>n. n) []"
    using r n by (intro touch_cong) (auto simp: recv_adv_def recv_ready_def)
  then have "Session_take_packet E w i n =
      Inr ((touch w i (upd_ov RecvOv (recv_adv n)) (\<lambda>n. n) [])\<lparr> w_ppool := p', w_tasks := TaskQueue_Push (w_tasks w) ?t \<rparr>)"
    using wf h ring_read_pending [OF r n] a by (simp add: Session_take_packet_def PacketHandler_PostTask_def)
  then show ?thesis using queued_taken [OF t b] takenD(1,8) [OF t] by blast
qed

lemma round_stops:
  assumes wf: "swf w i" and r: "recv_ready (se_recvOv (sess w i))"
    and ps: "parse_stream (rb_size (ov_buffer (se_recvOv (sess w i)))) (ov_pending (se_recvOv (sess w i))) = ([], rest, ok)"
  shows "OnRecv_round E i w = Inr (w, if ok then RecvStop else RecvBad)"
    and "rest = ov_pending (se_recvOv (sess w i))"
proof -
  let ?ov = "se_recvOv (sess w i)"
  have a: "ov_avail ?ov = length (ov_pending ?ov)" by (rule recv_ready_avail [OF r])
  show "rest = ov_pending ?ov"
    using ps by (subst (asm) parse_stream.simps) (auto split: if_splits prod.splits)
  show "OnRecv_round E i w = Inr (w, if ok then RecvStop else RecvBad)"
  proof (cases "length (ov_pending ?ov) < 4")
    case True
    then show ?thesis
      using wf a ps by (subst (asm) parse_stream.simps) (simp add: OnRecv_round_def Let_def)
  next
    case False
    then have "ring_read (ov_buffer ?ov) (ov_recvPos ?ov) 4 = Inr (take 4 (ov_pending ?ov))"
      using ring_read_pending [OF r, of 4] by linarith
    moreover have "size_field (take 4 (ov_pending ?ov)) = size_field (ov_pending ?ov)"
      by (simp add: size_field_def)
    ultimately show ?thesis
      using wf a ps False
      by (subst (asm) parse_stream.simps) (auto simp: OnRecv_round_def Let_def split: if_splits prod.splits)
  qed
qed

lemma round_goes_on:
  assumes wf: "swf w i" and r: "recv_ready (se_recvOv (sess w i))"
    and ps: "parse_stream (rb_size (ov_buffer (se_recvOv (sess w i)))) (ov_pending (se_recvOv (sess w i))) = (p # ps, rest, ok)"
  shows "OnRecv_round E i w = andThen (Session_take_packet E w i (length p)) (\<lambda>w1. Inr (w1, RecvMore))"
    and "p = take (length p) (ov_pending (se_recvOv (sess w i)))"
    and "length p \<le> length (ov_pending (se_recvOv (sess w i)))"
    and "parse_stream (rb_size (ov_buffer (se_recvOv (sess w i)))) (drop (length p) (ov_pending (se_recvOv (sess w i)))) = (ps, rest, ok)"
proof -
  let ?ov = "se_recvOv (sess w i)"
  let ?pend = "ov_pending ?ov"
  have a: "ov_avail ?ov = length ?pend" by (rule recv_ready_avail [OF r])
  have c: "\<not> length ?pend < 4" "\<not> (size_field ?pend < 4 \<or> rb_size (ov_buffer ?ov) \<le> size_field ?pend)"
    "\<not> length ?pend < size_field ?pend" "p = take (size_field ?pend) ?pend"
    "parse_stream (rb_size (ov_buffer ?ov)) (drop (size_field ?pend) ?pend) = (ps, rest, ok)"
    using ps by (subst (asm) parse_stream.simps; auto split: if_splits prod.splits)+
  then have l: "length p = size_field ?pend" by simp
  show "p = take (length p) ?pend" "length p \<le> length ?pend"
    "parse_stream (rb_size (ov_buffer ?ov)) (drop (length p) ?pend) = (ps, rest, ok)"
    using c l by auto
  have "ring_read (ov_buffer ?ov) (ov_recvPos ?ov) 4 = Inr (take 4 ?pend)"
    using ring_read_pending [OF r, of 4] c(1) by linarith
  moreover have "size_field (take 4 ?pend) = size_field ?pend" by (simp add: size_field_def)
  ultimately show "OnRecv_round E i w = andThen (Session_take_packet E w i (length p)) (\<lambda>w1. Inr (w1, RecvMore))"
    using wf a c(1-3) l by (simp add: OnRecv_round_def Let_def)
qed

subsection \<open>The loop\<close>

lemma OnRecv_loop_parses:
  assumes "swf w i" and "se_packetHandler (sess w i)" and "recv_ready (se_recvOv (sess w i))"
    and "parse_stream (rb_size (ov_buffer (se_recvOv (sess w i)))) (ov_pending (se_recvOv (sess w i))) = (ps, rest, ok)"
    and "\<forall>p \<in> set ps. length p \<le> kMaxPacketSize"
    and "packets_ok (w_ppool w)" and "length ps \<le> free_packets (w_ppool w)"
  shows "\<exists>p' ts. OnRecv_loop E i w = Some (Inr
      ((touch w i (upd_ov RecvOv (recv_adv (length (concat ps)))) (\<lambda>n. n) [])
         \<lparr> w_ppool := p', w_tasks := (w_tasks w)\<lparr> tq_tasks := tq_tasks (w_tasks w) @ ts \<rparr> \<rparr>,
       if ok then RecvStop else RecvBad)) \<and>
    list_all2 (queued p' i) ts ps \<and> ppool_ext (w_ppool w) p' \<and>
    free_packets p' + length ps = free_packets (w_ppool w) \<and>
    rest = drop (length (concat ps)) (ov_pending (se_recvOv (sess w i))) \<and>
    length (concat ps) \<le> length (ov_pending (se_recvOv (sess w i)))"
  using assms
proof (induction ps arbitrary: w)
  case Nil
  have "OnRecv_loop E i w = Some (Inr (w, if ok then RecvStop else RecvBad))"
    using round_stops(1) [OF Nil.prems(1,3,4)] by (subst OnRecv_loop.simps) simp
  moreover have "rest = ov_pending (se_recvOv (sess w i))"
    by (rule round_stops(2) [OF Nil.prems(1,3,4)])
  ultimately show ?case
    using ppool_ext_refl [OF Nil.prems(6)]
    by (intro exI [of _ "w_ppool w"] exI [of _ "[]"])
       (simp add: touch_none [OF Nil.prems(1)])
next
  case (Cons p ps)
  note R = round_goes_on [OF Cons.prems(1,3,4)]
  have fit: "length p \<le> kMaxPacketSize" and free: "0 < free_packets (w_ppool w)" using Cons.prems(5,7) by auto
  obtain p1 t where tp: "Session_take_packet E w i (length p) =
      Inr ((touch w i (upd_ov RecvOv (recv_adv (length p))) (\<lambda>n. n) [])
        \<lparr> w_ppool := p1, w_tasks := TaskQueue_Push (w_tasks w) t \<rparr>)"
    and q: "queued p1 i t p" and e1: "ppool_ext (w_ppool w) p1" and f1: "free_packets p1 + 1 = free_packets (w_ppool w)"
    using take_packet_eq [OF Cons.prems(1,2,3) R(3) fit Cons.prems(6) free, of E] R(2) by auto
  let ?w1 = "(touch w i (upd_ov RecvOv (recv_adv (length p))) (\<lambda>n. n) [])
        \<lparr> w_ppool := p1, w_tasks := TaskQueue_Push (w_tasks w) t \<rparr>"
  have ov1: "se_recvOv (sess ?w1 i) = recv_adv (length p) (se_recvOv (sess w i))" by simp
  have pend1: "ov_pending (se_recvOv (sess ?w1 i)) = drop (length p) (ov_pending (se_recvOv (sess w i)))"
    unfolding ov1 by (rule pending_adv [OF R(3)])
  have "parse_stream (rb_size (ov_buffer (se_recvOv (sess ?w1 i)))) (ov_pending (se_recvOv (sess ?w1 i))) = (ps, rest, ok)"
    unfolding pend1 using R(4) by (simp add: ov1)
  moreover have "recv_ready (se_recvOv (sess ?w1 i))"
    unfolding ov1 by (rule recv_ready_adv [OF Cons.prems(3) R(3)])
  ultimately obtain p2 ts where loop: "OnRecv_loop E i ?w1 = Some (Inr
      ((touch ?w1 i (upd_ov RecvOv (recv_adv (length (concat ps)))) (\<lambda>n. n) [])
         \<lparr> w_ppool := p2, w_tasks := (w_tasks ?w1)\<lparr> tq_tasks := tq_tasks (w_tasks ?w1) @ ts \<rparr> \<rparr>,
       if ok then RecvStop else RecvBad))"
    and ih: "list_all2 (queued p2 i) ts ps" "ppool_ext p1 p2" "free_packets p2 + length ps = free_packets p1"
      "rest = drop (length (concat ps)) (drop (length p) (ov_pending (se_recvOv (sess w i))))"
      "length (concat ps) \<le> length (ov_pending (se_recvOv (sess w i))) - length p"
    using Cons.IH [of ?w1] Cons.prems(1,2,5,7) f1 e1 unfolding pend1 by (auto simp: ppool_ext_def)
  have "OnRecv_loop E i w = OnRecv_loop E i ?w1"
    using R(1) tp by (subst OnRecv_loop.simps) simp
  moreover have "touch ?w1 i (upd_ov RecvOv (recv_adv (length (concat ps)))) (\<lambda>n. n) [] =
      (touch w i (upd_ov RecvOv (recv_adv (length (concat (p # ps))))) (\<lambda>n. n) [])
        \<lparr> w_ppool := p1, w_tasks := TaskQueue_Push (w_tasks w) t \<rparr>"
    by (simp add: upd_ov_fun)
  ultimately show ?case
    using loop ih(1-3) q queued_ext [OF q ih(2)] ppool_ext_trans [OF e1 ih(2)] f1 R(3) ih(4,5)
    by (intro exI [of _ p2] exI [of _ "t # ts"]) (auto simp: TaskQueue_Push_def add.commute upd_ov_fun)
qed

subsection \<open>OnRecv\<close>

text \<open>The receive block once \<open>n\<close> more bytes count as received.\<close>

definition recv_more :: "nat \<Rightarrow> overlapped_ex \<Rightarrow> overlapped_ex" where
  "recv_more n ov = ov\<lparr> ov_sendPos := ov_sendPos ov + n \<rparr>"

lemma recv_more_simps [simp]:
  "ov_recvPos (recv_more n ov) = ov_recvPos ov" "ov_sendPos (recv_more n ov) = ov_sendPos ov + n"
  "ov_buffer (recv_more n ov) = ov_buffer ov" "ov_sessionPtr (recv_more n ov) = ov_sessionPtr ov"
  by (simp_all add: recv_more_def)

definition ov_room :: "overlapped_ex \<Rightarrow> nat" where
  "ov_room ov = rb_size (ov_buffer ov) - (ov_sendPos ov - ov_recvPos ov)"

lemma recv_ready_more: "ov_inv ov \<Longrightarrow> n \<le> ov_room ov \<Longrightarrow> recv_ready (recv_more n ov)"
  by (auto simp: ov_inv_def recv_ready_def ov_room_def)

text \<open>The block after all complete packets have been taken.\<close>

definition recv_done :: "nat \<Rightarrow> nat \<Rightarrow> overlapped_ex \<Rightarrow> overlapped_ex" where
  "recv_done n m ov = ov_wrap (recv_adv m (recv_more n ov))"

lemma ov_wrap_sessionPtr [simp]: "ov_sessionPtr (ov_wrap ov) = ov_sessionPtr ov"
  by (simp add: ov_wrap_def)

lemma recv_done_facts:
  assumes inv: "ov_inv ov" and n: "n \<le> ov_room ov" and m: "m \<le> length (ov_pending (recv_more n ov))"
  shows "ov_inv (recv_done n m ov)" and "ov_pending (recv_done n m ov) = drop m (ov_pending (recv_more n ov))"
    and "ov_buffer (recv_done n m ov) = ov_buffer ov" and "ov_sessionPtr (recv_done n m ov) = ov_sessionPtr ov"
proof -
  have r: "recv_ready (recv_adv m (recv_more n ov))" by (intro recv_ready_adv recv_ready_more inv n m)
  then have a: "ov_recvPos (recv_adv m (recv_more n ov)) < 2 * rb_size (ov_buffer (recv_adv m (recv_more n ov)))"
    "ov_recvPos (recv_adv m (recv_more n ov)) \<le> ov_sendPos (recv_adv m (recv_more n ov))"
    "ov_sendPos (recv_adv m (recv_more n ov)) \<le>
       ov_recvPos (recv_adv m (recv_more n ov)) + rb_size (ov_buffer (recv_adv m (recv_more n ov)))"
    "rb_size (ov_buffer (recv_adv m (recv_more n ov))) < 2 ^ 32"
    unfolding recv_ready_def by linarith+
  show "ov_inv (recv_done n m ov)" "ov_buffer (recv_done n m ov) = ov_buffer ov"
    "ov_pending (recv_done n m ov) = drop m (ov_pending (recv_more n ov))"
    using ov_wrap_inv [OF a] pending_adv [OF m] by (simp_all add: recv_done_def)
  show "ov_sessionPtr (recv_done n m ov) = ov_sessionPtr ov" by (simp add: recv_done_def)
qed

lemma OnRecv_eq:
  assumes l: "linked w i" and h: "se_packetHandler (sess w i)"
    and np: "\<not> sptr_pool (ov_sessionPtr (se_recvOv (sess w i)))"
    and inv: "ov_inv (se_recvOv (sess w i))" and n: "n \<le> ov_room (se_recvOv (sess w i))"
    and four: "4 \<le> rb_size (ov_buffer (se_recvOv (sess w i)))"
    and parse: "parse_stream (rb_size (ov_buffer (se_recvOv (sess w i)))) (ov_pending (recv_more n (se_recvOv (sess w i)))) = (ps, rest, True)"
    and fit: "\<forall>p \<in> set ps. length p \<le> kMaxPacketSize"
    and ok: "packets_ok (w_ppool w)" and free: "length ps \<le> free_packets (w_ppool w)"
    and os: "\<forall>tr a k. posted_ok (e_os E tr (OS_WSARecv i a k))"
  shows "\<exists>p' ts c. Session_OnRecv E w i n = Inr
      ((touch w i (\<lambda>s. s\<lparr> se_recvOv := recv_block (se_handle s) True (recv_done n (length (concat ps)) (se_recvOv s)) \<rparr>)
          (\<lambda>n. n + 1) [c])
         \<lparr> w_ppool := p', w_tasks := (w_tasks w)\<lparr> tq_tasks := tq_tasks (w_tasks w) @ ts \<rparr> \<rparr>, True) \<and>
    list_all2 (queued p' i) ts ps \<and> ppool_ext (w_ppool w) p' \<and>
    free_packets p' + length ps = free_packets (w_ppool w) \<and>
    rest = ov_pending (recv_done n (length (concat ps)) (se_recvOv (sess w i))) \<and>
    length (concat ps) \<le> length (ov_pending (recv_more n (se_recvOv (sess w i))))"
proof -
  note D = linkedD [OF l]
  let ?ov = "se_recvOv (sess w i)" and ?L = "length (concat ps)"
  let ?w1 = "touch w i (\<lambda>s. s\<lparr> se_recvOv := recv_more n (se_recvOv s) \<rparr>) (\<lambda>n. n) []"
  have w1: "sess_upd E w i (upd_ov RecvOv (\<lambda>ov. ov\<lparr> ov_sendPos := trunc64 (ov_sendPos ov + n) \<rparr>)) = Inr ?w1"
    using D inv n by (auto simp: recv_more_def ov_inv_def ov_room_def intro!: touch_cong)
  have r: "recv_ready (se_recvOv (sess ?w1 i))" using recv_ready_more [OF inv n] by simp
  obtain p' ts where loop: "OnRecv_loop E i ?w1 = Some (Inr
      ((touch ?w1 i (upd_ov RecvOv (recv_adv ?L)) (\<lambda>n. n) [])
         \<lparr> w_ppool := p', w_tasks := (w_tasks ?w1)\<lparr> tq_tasks := tq_tasks (w_tasks ?w1) @ ts \<rparr> \<rparr>, RecvStop))"
    and q: "list_all2 (queued p' i) ts ps" "ppool_ext (w_ppool w) p'" "free_packets p' + length ps = free_packets (w_ppool w)"
    and rest: "rest = drop ?L (ov_pending (recv_more n ?ov))"
    and L: "?L \<le> length (ov_pending (recv_more n ?ov))"
    using OnRecv_loop_parses [of ?w1 i ps rest True E] D h r parse fit ok free by auto
  note F = recv_done_facts [OF inv n L]
  let ?w3 = "(touch w i (\<lambda>s. s\<lparr> se_recvOv := recv_done n ?L (se_recvOv s) \<rparr>) (\<lambda>n. n) [])
      \<lparr> w_ppool := p', w_tasks := (w_tasks w)\<lparr> tq_tasks := tq_tasks (w_tasks w) @ ts \<rparr> \<rparr>"
  have "Session_OnRecv E w i n = Session_RegisterRecv E ?w3 i"
    using w1 loop D by (simp add: Session_OnRecv_def loop_result_def upd_ov_fun recv_done_def)
  also have "\<dots> = Inr (touch ?w3 i (\<lambda>s. s\<lparr> se_recvOv := recv_block (se_handle s) True (se_recvOv s) \<rparr>) (\<lambda>n. n + 1)
      [OS_WSARecv i (ov_sendPos (recv_done n ?L ?ov)) (recv_len (recv_done n ?L ?ov))], True)"
  proof -
    have l3: "linked ?w3 i" using l D by (simp add: linked_touch)
    have "length rest < rb_size (ov_buffer ?ov)"
      using parse_stream_rest [OF parse] four by linarith
    then have room: "ov_sendPos (recv_done n ?L ?ov) < ov_recvPos (recv_done n ?L ?ov) + rb_size (ov_buffer (recv_done n ?L ?ov))"
      using F(1) length_ov_pending [of "recv_done n ?L ?ov"]
      unfolding F(2,3) rest [symmetric] ov_inv_def by linarith
    show ?thesis
      using RegisterRecv_eq [OF l3, of _ True] np F(1,4) room os D by simp
  qed
  finally show ?thesis
    using q rest L F(2) by (intro exI [of _ p'] exI [of _ ts]) auto
qed

text \<open>What the system does to the memory when it completes a receive: it writes the data
  where the call said.\<close>

definition kernel_receive :: "'db env \<Rightarrow> 'db world \<Rightarrow> nat \<Rightarrow> u8 list \<Rightarrow> 'db world res" where
  "kernel_receive E w i data =
     andThen (sess_at E w i) (\<lambda>s.
     let ov = se_recvOv s in
     case ov_wsaBuf ov of
       None \<Rightarrow> Inl NullPointer
     | Some a \<Rightarrow>
         andThen (require (length data \<le> ov_wsaLen ov) OutOfBounds) (\<lambda>_.
         andThen (ring_write (ov_buffer ov) a data) (\<lambda>r.
         sess_upd E w i (upd_ov RecvOv (\<lambda>ov. ov\<lparr> ov_buffer := r \<rparr>)))))"

end
