(* ===== verification/Recv_Props.thy ===== *)
theory Recv_Props
  imports Samples Session_Recv
begin

section \<open>Receiving through the completion port\<close>

text \<open>
  From the completion of a receive to the queued packets: the round of the worker thread, the
  dispatch and \<open>OnRecv\<close> together, over any number of completions.
\<close>

subsection \<open>The completion of a receive\<close>

text \<open>\<open>listening w i\<close>: a receive is posted for session \<open>i\<close> and holds a reference to it.\<close>

definition listening :: "'db world \<Rightarrow> nat \<Rightarrow> bool" where
  "listening w i \<longleftrightarrow> linked w i \<and> se_packetHandler (sess w i) \<and> 1 < refs w i \<and> refs w i + 4 < 2 ^ 64 \<and>
     (let ov = se_recvOv (sess w i) in
      ov_inv ov \<and> 4 \<le> rb_size (ov_buffer ov) \<and> ov_ioType ov = IO_kRecv \<and>
      ov_wsaBuf ov = Some (ov_sendPos ov) \<and> ov_wsaLen ov = ov_room ov \<and> 0 < ov_room ov \<and>
      ov_sessionPtr ov = \<lparr> sptr_pool = True, sptr_handle = se_handle (sess w i) \<rparr>)"

lemma listeningD:
  assumes "listening w i"
  shows "linked w i" and "se_packetHandler (sess w i)" and "1 < refs w i" and "refs w i + 4 < 2 ^ 64"
    and "ov_inv (se_recvOv (sess w i))" and "4 \<le> rb_size (ov_buffer (se_recvOv (sess w i)))"
    and "ov_ioType (se_recvOv (sess w i)) = IO_kRecv"
    and "ov_wsaBuf (se_recvOv (sess w i)) = Some (ov_sendPos (se_recvOv (sess w i)))"
    and "ov_wsaLen (se_recvOv (sess w i)) = ov_room (se_recvOv (sess w i))"
    and "0 < ov_room (se_recvOv (sess w i))"
    and "ov_sessionPtr (se_recvOv (sess w i)) = \<lparr> sptr_pool = True, sptr_handle = se_handle (sess w i) \<rparr>"
    and "swf w i" and "who_of (se_handle (sess w i)) = i" and "i < pool_N (w_spool w)"
  using assms by (auto simp: listening_def Let_def linked_def swf_def)

definition recv_completion :: "nat \<Rightarrow> nat \<Rightarrow> completion" where
  "recv_completion i n = \<lparr> co_ok = True, co_bytes = n, co_error = 0, co_target = Some (i, RecvOv) \<rparr>"

lemma recv_block_ptr [simp]:
  "recv_block h ok (recv_done n m (ov\<lparr> ov_sessionPtr := p \<rparr>)) = recv_block h ok (recv_done n m ov)"
  by (simp add: recv_block_def recv_done_def ov_wrap_def recv_adv_def recv_more_def)

lemma pending_ptr [simp]:
  "ov_pending (recv_more n (ov\<lparr> ov_sessionPtr := p \<rparr>)) = ov_pending (recv_more n ov)"
  "ov_pending (recv_done n m (ov\<lparr> ov_sessionPtr := p \<rparr>)) = ov_pending (recv_done n m ov)"
  by (simp_all add: ov_pending_def recv_done_def ov_wrap_def recv_adv_def recv_more_def)

lemma recv_completion_round:
  assumes li: "listening w i" and n: "0 < n" "n \<le> ov_room (se_recvOv (sess w i))"
    and parse: "parse_stream (rb_size (ov_buffer (se_recvOv (sess w i)))) (ov_pending (recv_more n (se_recvOv (sess w i)))) = (ps, rest, True)"
    and fit: "\<forall>p \<in> set ps. length p \<le> kMaxPacketSize"
    and ok: "packets_ok (w_ppool w)" and free: "length ps \<le> free_packets (w_ppool w)"
    and os: "\<forall>tr a k. posted_ok (e_os E tr (OS_WSARecv i a k))"
  shows "\<exists>p' ts c. IocpCore_WorkerThread_round E shutting w (recv_completion i n) = Inr
      ((touch w i (\<lambda>s. s\<lparr> se_recvOv := recv_block (se_handle s) True (recv_done n (length (concat ps)) (se_recvOv s)) \<rparr>)
          (\<lambda>n. n) [c])
         \<lparr> w_ppool := p', w_tasks := (w_tasks w)\<lparr> tq_tasks := tq_tasks (w_tasks w) @ ts \<rparr> \<rparr>, True) \<and>
    list_all2 (queued p' i) ts ps \<and> ppool_ext (w_ppool w) p' \<and>
    free_packets p' + length ps = free_packets (w_ppool w) \<and>
    rest = ov_pending (recv_done n (length (concat ps)) (se_recvOv (sess w i))) \<and>
    length (concat ps) \<le> length (ov_pending (recv_more n (se_recvOv (sess w i))))"
proof -
  note D = listeningD [OF li]
  let ?h = "se_handle (sess w i)"
  let ?w3 = "touch w i (upd_ov RecvOv (\<lambda>ov. ov\<lparr> ov_sessionPtr := nullSharedPtr \<rparr>)) (\<lambda>n. n + 1) []"
  have l3: "linked ?w3 i" using D by (intro linked_touch) auto
  have n3: "n \<le> ov_room (se_recvOv (sess ?w3 i))" using n by (simp add: ov_room_def)
  have i3: "ov_inv (se_recvOv (sess ?w3 i))" using D(5) by (simp add: ov_inv_def)
  obtain p' ts c where on: "Session_OnRecv E ?w3 i n = Inr
      ((touch ?w3 i (\<lambda>s. s\<lparr> se_recvOv := recv_block (se_handle s) True (recv_done n (length (concat ps)) (se_recvOv s)) \<rparr>)
          (\<lambda>n. n + 1) [c])
         \<lparr> w_ppool := p', w_tasks := (w_tasks ?w3)\<lparr> tq_tasks := tq_tasks (w_tasks ?w3) @ ts \<rparr> \<rparr>, True)"
    and q: "list_all2 (queued p' i) ts ps" "ppool_ext (w_ppool w) p'"
      "free_packets p' + length ps = free_packets (w_ppool w)"
      "rest = ov_pending (recv_done n (length (concat ps)) (se_recvOv (sess w i)))"
      "length (concat ps) \<le> length (ov_pending (recv_more n (se_recvOv (sess w i))))"
    using OnRecv_eq [OF l3 _ _ i3 n3, of ps rest E] D parse fit ok free os by auto
  let ?w4 = "(touch w i (\<lambda>s. s\<lparr> se_recvOv := recv_block (se_handle s) True (recv_done n (length (concat ps)) (se_recvOv s)) \<rparr>)
          (\<lambda>n. n + 2) [c])
         \<lparr> w_ppool := p', w_tasks := (w_tasks w)\<lparr> tq_tasks := tq_tasks (w_tasks w) @ ts \<rparr> \<rparr>"
  have "Session_HandleIO E ?w3 i i RecvOv n = Inr (?w4, True)"
    using D on by (simp add: Session_HandleIO_def)
  then have r: "IocpCore_WorkerThread_round E shutting w (recv_completion i n) =
      Inr (touch ?w4 i (\<lambda>s. s) (\<lambda>n. n - 2) [], True)"
    using D n unfolding recv_completion_def by (intro round_io_ok [where h = ?h]) auto
  have t: "touch ?w4 i (\<lambda>s. s) (\<lambda>n. n - 2) [] =
      (touch w i (\<lambda>s. s\<lparr> se_recvOv := recv_block (se_handle s) True (recv_done n (length (concat ps)) (se_recvOv s)) \<rparr>)
          (\<lambda>n. n) [c])
         \<lparr> w_ppool := p', w_tasks := (w_tasks w)\<lparr> tq_tasks := tq_tasks (w_tasks w) @ ts \<rparr> \<rparr>"
    by simp
  show ?thesis unfolding r t using q by blast
qed

subsection \<open>A chunk of data arrives\<close>

text \<open>The system writes a chunk and the worker thread handles its completion.\<close>

definition receive_chunk :: "'db env \<Rightarrow> 'db world \<Rightarrow> nat \<Rightarrow> u8 list \<Rightarrow> 'db world res" where
  "receive_chunk E w i data =
     andThen (kernel_receive E w i data) (\<lambda>w1.
     andThen (IocpCore_WorkerThread_round E False w1 (recv_completion i (length data))) (\<lambda>(w2, _). Inr w2))"

fun receive_chunks :: "'db env \<Rightarrow> 'db world \<Rightarrow> nat \<Rightarrow> u8 list list \<Rightarrow> 'db world res" where
  "receive_chunks E w i [] = Inr w"
| "receive_chunks E w i (c # cs) = andThen (receive_chunk E w i c) (\<lambda>w1. receive_chunks E w1 i cs)"

abbreviation recv_pending :: "'db world \<Rightarrow> nat \<Rightarrow> u8 list" where
  "recv_pending w i \<equiv> ov_pending (se_recvOv (sess w i))"

abbreviation recv_size :: "'db world \<Rightarrow> nat \<Rightarrow> nat" where
  "recv_size w i \<equiv> rb_size (ov_buffer (se_recvOv (sess w i)))"

lemma kernel_receive_eq:
  assumes li: "listening w i" and n: "length data \<le> ov_room (se_recvOv (sess w i))"
  shows "\<exists>r. kernel_receive E w i data =
      Inr (touch w i (\<lambda>s. s\<lparr> se_recvOv := (se_recvOv s)\<lparr> ov_buffer := r \<rparr> \<rparr>) (\<lambda>n. n) []) \<and>
    rb_size r = recv_size w i \<and>
    ov_pending (recv_more (length data) ((se_recvOv (sess w i))\<lparr> ov_buffer := r \<rparr>)) = recv_pending w i @ data"
proof -
  note D = listeningD [OF li]
  let ?ov = "se_recvOv (sess w i)"
  let ?n = "rb_size (ov_buffer ?ov)" and ?a = "ov_sendPos ?ov" and ?b = "ov_recvPos ?ov"
  let ?r = "(ov_buffer ?ov)\<lparr> rb_mem := store_mirrored ?n (rb_mem (ov_buffer ?ov)) ?a data \<rparr>"
  have b: "?b < ?n" "?b \<le> ?a" "?a + length data \<le> ?b + ?n"
    using D(5) n by (auto simp: ov_inv_def ov_room_def)
  then have w: "ring_write (ov_buffer ?ov) ?a data = Inr ?r" by (simp add: ring_write_def)
  have old: "slice_fun (ring_view ?r) ?b (?a - ?b) = slice_fun (ring_view (ov_buffer ?ov)) ?b (?a - ?b)"
    using b by (intro slice_store_before) auto
  have new: "slice_fun (ring_view ?r) ?a (length data) = data"
    using b by (intro slice_store_same) auto
  have len: "?a + length data - ?b = (?a - ?b) + length data" and at: "?b + (?a - ?b) = ?a" using b by auto
  have "slice_fun (ring_view ?r) ?b (?a + length data - ?b) = recv_pending w i @ data"
    unfolding len slice_fun_add at old new by (simp add: ov_pending_def)
  then have "ov_pending (recv_more (length data) (?ov\<lparr> ov_buffer := ?r \<rparr>)) = recv_pending w i @ data"
    by (simp add: ov_pending_def recv_more_def)
  then show ?thesis using D n w by (intro exI [of _ ?r]) (simp add: kernel_receive_def Let_def)
qed

lemma receive_chunk_ok:
  assumes li: "listening w i" and n: "data \<noteq> []" "length data \<le> ov_room (se_recvOv (sess w i))"
    and parse: "parse_stream (recv_size w i) (recv_pending w i @ data) = (ps, rest, True)"
    and fit: "\<forall>p \<in> set ps. length p \<le> kMaxPacketSize"
    and ok: "packets_ok (w_ppool w)" and free: "length ps \<le> free_packets (w_ppool w)"
    and os: "\<forall>tr a k. posted_ok (e_os E tr (OS_WSARecv i a k))"
  shows "\<exists>w' ts. receive_chunk E w i data = Inr w' \<and> listening w' i \<and>
      recv_pending w' i = rest \<and> recv_size w' i = recv_size w i \<and>
      w_tasks w' = (w_tasks w)\<lparr> tq_tasks := tq_tasks (w_tasks w) @ ts \<rparr> \<and>
      list_all2 (queued (w_ppool w') i) ts ps \<and> ppool_ext (w_ppool w) (w_ppool w') \<and>
      free_packets (w_ppool w') + length ps = free_packets (w_ppool w)"
proof -
  note D = listeningD [OF li]
  obtain r where k: "kernel_receive E w i data =
      Inr (touch w i (\<lambda>s. s\<lparr> se_recvOv := (se_recvOv s)\<lparr> ov_buffer := r \<rparr> \<rparr>) (\<lambda>n. n) [])"
    and rs: "rb_size r = recv_size w i"
    and pend: "ov_pending (recv_more (length data) ((se_recvOv (sess w i))\<lparr> ov_buffer := r \<rparr>)) = recv_pending w i @ data"
    using kernel_receive_eq [OF li n(2)] by blast
  let ?w1 = "touch w i (\<lambda>s. s\<lparr> se_recvOv := (se_recvOv s)\<lparr> ov_buffer := r \<rparr> \<rparr>) (\<lambda>n. n) []"
  let ?ov1 = "(se_recvOv (sess w i))\<lparr> ov_buffer := r \<rparr>"
  have room1: "ov_room ?ov1 = ov_room (se_recvOv (sess w i))" using rs by (simp add: ov_room_def)
  have inv1: "ov_inv ?ov1" using D(5) rs by (simp add: ov_inv_def)
  have "linked ?w1 i" using D by (intro linked_touch) (auto simp: linked_def)
  then have li1: "listening ?w1 i"
    using D rs room1 inv1 by (simp add: listening_def Let_def)
  let ?ov2 = "recv_done (length data) (length (concat ps)) ?ov1"
  obtain p' ts c where rd: "IocpCore_WorkerThread_round E False ?w1 (recv_completion i (length data)) = Inr
      ((touch ?w1 i (\<lambda>s. s\<lparr> se_recvOv := recv_block (se_handle s) True
            (recv_done (length data) (length (concat ps)) (se_recvOv s)) \<rparr>) (\<lambda>n. n) [c])
         \<lparr> w_ppool := p', w_tasks := (w_tasks ?w1)\<lparr> tq_tasks := tq_tasks (w_tasks ?w1) @ ts \<rparr> \<rparr>, True)"
    and q: "list_all2 (queued p' i) ts ps" "ppool_ext (w_ppool w) p'" "free_packets p' + length ps = free_packets (w_ppool w)"
      "rest = ov_pending ?ov2" "length (concat ps) \<le> length (ov_pending (recv_more (length data) ?ov1))"
    using recv_completion_round [OF li1, of "length data" ps rest E False] n rs room1 pend parse fit ok free os
    by auto
  let ?w' = "(touch ?w1 i (\<lambda>s. s\<lparr> se_recvOv := recv_block (se_handle s) True
            (recv_done (length data) (length (concat ps)) (se_recvOv s)) \<rparr>) (\<lambda>n. n) [c])
         \<lparr> w_ppool := p', w_tasks := (w_tasks ?w1)\<lparr> tq_tasks := tq_tasks (w_tasks ?w1) @ ts \<rparr> \<rparr>"
  have F: "ov_inv ?ov2" "ov_buffer ?ov2 = r"
    using recv_done_facts [OF inv1 _ q(5)] n(2) room1 by simp_all
  have "length rest < recv_size w i" using parse_stream_rest [OF parse] D(6) by linarith
  then have "0 < ov_room ?ov2" using q(4) F rs by (simp add: ov_room_def)
  moreover have "linked ?w' i" using D by (simp add: linked_def)
  ultimately have "listening ?w' i"
    using D F rs by (simp add: listening_def Let_def recv_block_def ov_inv_def ov_room_def)
  moreover have "recv_pending ?w' i = rest" using q(4) by (simp add: recv_block_def ov_pending_def)
  moreover have "recv_size ?w' i = recv_size w i" using F rs by (simp add: recv_block_def)
  ultimately show ?thesis
    using k rd q by (intro exI [of _ ?w'] exI [of _ ts]) (simp add: receive_chunk_def)
qed

lemma receive_chunks_ok:
  assumes "listening w i" and "length (recv_pending w i) \<le> kMaxPacketSize"
    and "parse_stream (recv_size w i) (recv_pending w i) = ([], recv_pending w i, True)"
    and "parse_stream (recv_size w i) (recv_pending w i @ concat chunks) = (ps, rest, True)"
    and "\<forall>p \<in> set ps. length p \<le> kMaxPacketSize" and "length rest \<le> kMaxPacketSize"
    and "\<forall>c \<in> set chunks. c \<noteq> [] \<and> length c + kMaxPacketSize \<le> recv_size w i"
    and "packets_ok (w_ppool w)" and "length ps \<le> free_packets (w_ppool w)"
    and "\<forall>tr a k. posted_ok (e_os E tr (OS_WSARecv i a k))"
  shows "\<exists>w' ts. receive_chunks E w i chunks = Inr w' \<and> listening w' i \<and> recv_pending w' i = rest \<and>
      w_tasks w' = (w_tasks w)\<lparr> tq_tasks := tq_tasks (w_tasks w) @ ts \<rparr> \<and>
      list_all2 (queued (w_ppool w') i) ts ps \<and> ppool_ext (w_ppool w) (w_ppool w')"
  using assms
proof (induction chunks arbitrary: w ps)
  case Nil
  then show ?case using ppool_ext_refl by (intro exI [of _ w] exI [of _ "[]"]) simp
next
  case (Cons c cs)
  obtain ps1 rest1 ok1 where p1: "parse_stream (recv_size w i) (recv_pending w i @ c) = (ps1, rest1, ok1)"
    by (cases "parse_stream (recv_size w i) (recv_pending w i @ c)") auto
  have whole: "parse_stream (recv_size w i) ((recv_pending w i @ c) @ concat cs) = (ps, rest, True)"
    using Cons.prems(4) by simp
  note P = parse_stream_prefix [OF whole p1 Cons.prems(5,6)]
  have ok1: ok1 and r1: "length rest1 \<le> kMaxPacketSize" by (rule P(1,3); simp add: kMaxPacketSize_def)+
  obtain ps2 where ps2: "ps = ps1 @ ps2" "parse_stream (recv_size w i) (rest1 @ concat cs) = (ps2, rest, True)"
    using P(2) by (auto simp: kMaxPacketSize_def)
  have p1': "parse_stream (recv_size w i) (recv_pending w i @ c) = (ps1, rest1, True)" using p1 ok1 by simp
  have "length (recv_pending w i) = ov_sendPos (se_recvOv (sess w i)) - ov_recvPos (se_recvOv (sess w i))" by simp
  then have room: "length c \<le> ov_room (se_recvOv (sess w i))"
    using Cons.prems(2,7) unfolding ov_room_def by auto
  obtain w1 ts1 where w1: "receive_chunk E w i c = Inr w1" "listening w1 i" "recv_pending w1 i = rest1"
      "recv_size w1 i = recv_size w i" "w_tasks w1 = (w_tasks w)\<lparr> tq_tasks := tq_tasks (w_tasks w) @ ts1 \<rparr>"
    and q1: "list_all2 (queued (w_ppool w1) i) ts1 ps1" "ppool_ext (w_ppool w) (w_ppool w1)"
      "free_packets (w_ppool w1) + length ps1 = free_packets (w_ppool w)"
    using receive_chunk_ok [OF Cons.prems(1) _ room p1' _ Cons.prems(8) _ Cons.prems(10)]
      Cons.prems(5,7,9) ps2(1) by auto
  have ok': "packets_ok (w_ppool w1)" using q1(2) by (simp add: ppool_ext_def)
  obtain w' ts2 where w': "receive_chunks E w1 i cs = Inr w'" "listening w' i" "recv_pending w' i = rest"
      "w_tasks w' = (w_tasks w1)\<lparr> tq_tasks := tq_tasks (w_tasks w1) @ ts2 \<rparr>"
      "list_all2 (queued (w_ppool w') i) ts2 ps2" "ppool_ext (w_ppool w1) (w_ppool w')"
    using Cons.IH [of w1 ps2] w1 r1 ps2 Cons.prems(5,6,7,9,10) ok' q1(3) parse_stream_again [OF p1'] by auto
  have "list_all2 (queued (w_ppool w') i) ts1 ps1"
    using q1(1) by (rule list_all2_mono) (use w'(6) queued_ext in blast)
  then have "list_all2 (queued (w_ppool w') i) (ts1 @ ts2) ps"
    using w'(5) ps2(1) by (simp add: list_all2_appendI)
  then show ?case
    using w1(1,5) w'(1-4) ppool_ext_trans [OF q1(2) w'(6)]
    by (intro exI [of _ w'] exI [of _ "ts1 @ ts2"]) simp
qed

text \<open>C1: fragmentation and coalescing. When a client sends the packets \<open>ps\<close> and then an
  incomplete packet, then however the bytes are cut into received chunks, the completions run
  without a fault, exactly the tasks for \<open>ps\<close> are queued in order, each with a packet that
  holds the bytes of its packet, the incomplete end stays in the buffer, and the session goes
  on receiving.\<close>

theorem Session_reassembles_packets:
  assumes "listening w i" and "recv_pending w i = []"
    and "concat chunks = concat ps @ rest"
    and "\<forall>p \<in> set ps. packet_wf (recv_size w i) p \<and> length p \<le> kMaxPacketSize"
    and "parse_stream (recv_size w i) rest = ([], rest, True)" and "length rest \<le> kMaxPacketSize"
    and "\<forall>c \<in> set chunks. c \<noteq> [] \<and> length c + kMaxPacketSize \<le> recv_size w i"
    and "packets_ok (w_ppool w)" and "length ps \<le> free_packets (w_ppool w)"
    and "\<forall>tr a k. posted_ok (e_os E tr (OS_WSARecv i a k))"
  shows "\<exists>w' ts. receive_chunks E w i chunks = Inr w' \<and> listening w' i \<and> recv_pending w' i = rest \<and>
      w_tasks w' = (w_tasks w)\<lparr> tq_tasks := tq_tasks (w_tasks w) @ ts \<rparr> \<and>
      list_all2 (queued (w_ppool w') i) ts ps"
proof -
  have p: "parse_stream (recv_size w i) (recv_pending w i @ concat chunks) = (ps, rest, True)"
    using assms(2-5) parse_stream_packets [of ps "recv_size w i" rest] by simp
  have n: "parse_stream (recv_size w i) (recv_pending w i) = ([], recv_pending w i, True)"
    using assms(2) by (subst parse_stream.simps) simp
  show ?thesis
    using receive_chunks_ok [OF assms(1) _ n p _ assms(6-10)] assms(2,4) by auto
qed

text \<open>Two packets of 4 and 6 bytes and two bytes of a third, in three chunks, on a session with
  a buffer of 4096 bytes.\<close>

lemma sample_listening:
  "st < 4 \<Longrightarrow> n < 2 ^ 32 \<Longrightarrow> i < n \<Longrightarrow> 4 \<le> b \<Longrightarrow> b < 2 ^ 32 \<Longrightarrow> listening (sample_world n st b m db) i"
  by (simp add: listening_def OverlappedEx_new_def ov_inv_def ov_room_def)

theorem Session_reassembles_packets_witness:
  "\<exists>w' ts. receive_chunks sample_env (sample_world 1 2 4096 2 ()) 0 [[4], [0, 1, 0, 6, 0, 2], [0, 7, 8, 9, 0]] = Inr w' \<and>
     listening w' 0 \<and> recv_pending w' 0 = [9, 0] \<and>
     w_tasks w' = (w_tasks (sample_world 1 2 4096 2 ()))\<lparr> tq_tasks := tq_tasks (w_tasks (sample_world 1 2 4096 2 ())) @ ts \<rparr> \<and>
     list_all2 (queued (w_ppool w') 0) ts [[4, 0, 1, 0], [6, 0, 2, 0, 7, 8]]"
  by (rule Session_reassembles_packets)
     (auto simp: sample_listening packet_wf_def size_field_def OverlappedEx_new_def ov_pending_def kMaxPacketSize_def parse_stream.simps)

end
