(* ===== verification/Session_Send.thy ===== *)
theory Session_Send
  imports Session_Recv Samples
begin

section \<open>Sending: SendPacket and OnSend implement a byte queue\<close>

text \<open>
  The send block is a queue of bytes: \<open>SendPacket\<close> appends a whole packet or refuses it, and
  one \<open>WSASend\<close> at a time covers a prefix of the queue. The lemmas give each method as one
  touch of the session; the property says that the bytes on the wire and those still queued
  are the accepted packets in order.
\<close>

subsection \<open>Appending behind the data that waits\<close>

definition send_more :: "u8 list \<Rightarrow> overlapped_ex \<Rightarrow> overlapped_ex" where
  "send_more bs ov = ov\<lparr>
     ov_buffer := (ov_buffer ov)\<lparr> rb_mem := store_mirrored (rb_size (ov_buffer ov)) (rb_mem (ov_buffer ov)) (ov_sendPos ov) bs \<rparr>,
     ov_sendPos := ov_sendPos ov + length bs \<rparr>"

lemma send_more_simps [simp]:
  "ov_recvPos (send_more bs ov) = ov_recvPos ov" "ov_sendPos (send_more bs ov) = ov_sendPos ov + length bs"
  "rb_size (ov_buffer (send_more bs ov)) = rb_size (ov_buffer ov)"
  "ov_sessionPtr (send_more bs ov) = ov_sessionPtr ov" "ov_ioType (send_more bs ov) = ov_ioType ov"
  "ov_wsaBuf (send_more bs ov) = ov_wsaBuf ov" "ov_wsaLen (send_more bs ov) = ov_wsaLen ov"
  by (simp_all add: send_more_def)

lemma send_more_facts:
  assumes inv: "ov_inv ov" and n: "length bs \<le> ov_room ov"
  shows "ov_inv (send_more bs ov)" and "ov_pending (send_more bs ov) = ov_pending ov @ bs"
    and "ring_write (ov_buffer ov) (ov_sendPos ov) bs = Inr (ov_buffer (send_more bs ov))"
proof -
  let ?n = "rb_size (ov_buffer ov)" and ?a = "ov_sendPos ov" and ?b = "ov_recvPos ov"
  let ?r = "ov_buffer (send_more bs ov)"
  have b: "?b < ?n" "?b \<le> ?a" "?a + length bs \<le> ?b + ?n" "?n < 2 ^ 32"
    using inv n by (auto simp: ov_inv_def ov_room_def)
  show "ov_inv (send_more bs ov)" using b by (simp add: ov_inv_def)
  show "ring_write (ov_buffer ov) ?a bs = Inr ?r" using b by (simp add: ring_write_def send_more_def)
  have old: "slice_fun (ring_view ?r) ?b (?a - ?b) = slice_fun (ring_view (ov_buffer ov)) ?b (?a - ?b)"
    using b unfolding send_more_def by (simp, intro slice_store_before) auto
  have new: "slice_fun (ring_view ?r) ?a (length bs) = bs"
    using b unfolding send_more_def by (simp, intro slice_store_same) auto
  have len: "?a + length bs - ?b = (?a - ?b) + length bs" and at: "?b + (?a - ?b) = ?a" using b by auto
  have "slice_fun (ring_view ?r) ?b (?a + length bs - ?b) = ov_pending ov @ bs"
    unfolding len slice_fun_add at old new by (simp add: ov_pending_def)
  then show "ov_pending (send_more bs ov) = ov_pending ov @ bs" by (simp add: ov_pending_def)
qed

subsection \<open>The state of the send direction\<close>

text \<open>
  Either nothing waits and no send is posted, or a send of a non-empty prefix of the waiting
  bytes is posted and holds a reference to the session.
\<close>

definition send_ok :: "'db world \<Rightarrow> nat \<Rightarrow> bool" where
  "send_ok w i \<longleftrightarrow> linked w i \<and> refs w i + 4 < 2 ^ 64 \<and>
     (let ov = se_sendOv (sess w i) in
      ov_inv ov \<and>
      (if se_isSending (sess w i)
       then 1 < refs w i \<and> ov_ioType ov = IO_kSend \<and> ov_wsaBuf ov = Some (ov_recvPos ov) \<and>
         0 < ov_wsaLen ov \<and> ov_wsaLen ov \<le> ov_sendPos ov - ov_recvPos ov \<and>
         ov_sessionPtr ov = \<lparr> sptr_pool = True, sptr_handle = se_handle (sess w i) \<rparr>
       else ov_sendPos ov = ov_recvPos ov \<and> \<not> sptr_pool (ov_sessionPtr ov)))"

lemma send_okD:
  assumes "send_ok w i"
  shows "linked w i" and "refs w i + 4 < 2 ^ 64" and "ov_inv (se_sendOv (sess w i))"
    and "se_isSending (sess w i) \<Longrightarrow> 1 < refs w i"
    and "se_isSending (sess w i) \<Longrightarrow> ov_ioType (se_sendOv (sess w i)) = IO_kSend"
    and "se_isSending (sess w i) \<Longrightarrow> ov_wsaBuf (se_sendOv (sess w i)) = Some (ov_recvPos (se_sendOv (sess w i)))"
    and "se_isSending (sess w i) \<Longrightarrow> 0 < ov_wsaLen (se_sendOv (sess w i))"
    and "se_isSending (sess w i) \<Longrightarrow>
      ov_wsaLen (se_sendOv (sess w i)) \<le> ov_sendPos (se_sendOv (sess w i)) - ov_recvPos (se_sendOv (sess w i))"
    and "se_isSending (sess w i) \<Longrightarrow>
      ov_sessionPtr (se_sendOv (sess w i)) = \<lparr> sptr_pool = True, sptr_handle = se_handle (sess w i) \<rparr>"
    and "\<not> se_isSending (sess w i) \<Longrightarrow> ov_sendPos (se_sendOv (sess w i)) = ov_recvPos (se_sendOv (sess w i))"
    and "\<not> se_isSending (sess w i) \<Longrightarrow> \<not> sptr_pool (ov_sessionPtr (se_sendOv (sess w i)))"
  using assms by (auto simp: send_ok_def Let_def)

lemma SendPacket_refuses:
  assumes ok: "send_ok w i" and big: "ov_room (se_sendOv (sess w i)) < header_size blk 0"
  shows "Session_SendPacket E w i blk = Inr (w, False)"
proof -
  note D = send_okD [OF ok]
  have "header_size blk 0 < 65536" by (rule header_size_bound)
  then show ?thesis
    using linkedD(1) [OF D(1)] D(3) big
    by (simp add: Session_SendPacket_def Let_def ov_avail_eq) (auto simp: ov_room_def ov_inv_def)
qed

lemma SendPacket_queues:
  assumes ok: "send_ok w i" and fit: "header_size blk 0 \<le> ov_room (se_sendOv (sess w i))"
    and sz: "header_size blk 0 \<le> kMaxPacketSize" and s: "se_isSending (sess w i)"
  shows "Session_SendPacket E w i blk = Inr (touch w i
    (\<lambda>s. s\<lparr> se_sendOv := send_more (slice_fun blk 0 (header_size blk 0)) (se_sendOv s) \<rparr>) (\<lambda>n. n) [], True)"
proof -
  note D = send_okD [OF ok]
  let ?bs = "slice_fun blk 0 (header_size blk 0)" and ?ov = "se_sendOv (sess w i)"
  have r: "ring_write (ov_buffer ?ov) (ov_sendPos ?ov) ?bs = Inr (ov_buffer (send_more ?bs ?ov))"
    using fit by (intro send_more_facts(3) D(3)) simp
  have "\<not> rb_size (ov_buffer ?ov) < trunc64 (ov_avail ?ov + header_size blk 0)"
    using D(3) fit by (auto simp: ov_avail_eq ov_room_def ov_inv_def)
  then show ?thesis
    using linkedD(1) [OF D(1)] D(3) fit sz s r
    by (auto simp: Session_SendPacket_def Let_def block_read_def ov_inv_def ov_room_def send_more_def
        intro!: touch_cong)
qed

lemma SendPacket_starts:
  assumes ok: "send_ok w i" and fit: "header_size blk 0 \<le> ov_room (se_sendOv (sess w i))"
    and sz: "header_size blk 0 \<le> kMaxPacketSize" and s: "\<not> se_isSending (sess w i)"
    and os: "\<forall>tr a k. posted_ok (e_os E tr (OS_WSASend i a k))"
  shows "Session_SendPacket E w i blk = Inr (touch w i
    (\<lambda>s. s\<lparr> se_isSending := True,
      se_sendOv := send_block (se_handle s) True (send_more (slice_fun blk 0 (header_size blk 0)) (se_sendOv s)) \<rparr>)
    (\<lambda>n. n + 1) [OS_WSASend i (ov_recvPos (se_sendOv (sess w i))) (header_size blk 0)], True)"
proof -
  note D = send_okD [OF ok]
  let ?bs = "slice_fun blk 0 (header_size blk 0)" and ?ov = "se_sendOv (sess w i)"
  have r: "ring_write (ov_buffer ?ov) (ov_sendPos ?ov) ?bs = Inr (ov_buffer (send_more ?bs ?ov))"
    using fit by (intro send_more_facts(3) D(3)) simp
  have g: "\<not> rb_size (ov_buffer ?ov) < trunc64 (ov_avail ?ov + header_size blk 0)"
    using D(3) fit by (auto simp: ov_avail_eq ov_room_def ov_inv_def)
  let ?w1 = "touch w i (\<lambda>s. s\<lparr> se_sendOv := send_more ?bs (se_sendOv s) \<rparr>) (\<lambda>n. n) []"
  have w1: "sess_upd E w i (upd_ov SendOv (\<lambda>ov. ov\<lparr> ov_buffer := ov_buffer (send_more ?bs ?ov),
      ov_sendPos := trunc64 (ov_sendPos ov + header_size blk 0) \<rparr>)) = Inr ?w1"
    using linkedD(1) [OF D(1)] D(3) fit
    by (auto simp: ov_inv_def ov_room_def send_more_def intro!: touch_cong)
  let ?w2 = "touch w i (\<lambda>s. s\<lparr> se_sendOv := send_more ?bs (se_sendOv s), se_isSending := True \<rparr>) (\<lambda>n. n) []"
  have "linked ?w2 i" using D linkedD [OF D(1)] by (intro linked_touch) auto
  moreover have "ov_inv (se_sendOv (sess ?w2 i))" using send_more_facts(1) [OF D(3), of ?bs] fit by simp
  ultimately have "Session_RegisterSend E ?w2 i = Inr (touch ?w2 i
      (\<lambda>s. s\<lparr> se_sendOv := send_block (se_handle s) True (se_sendOv s) \<rparr>) (\<lambda>n. n + 1)
      [OS_WSASend i (ov_recvPos ?ov) (header_size blk 0)], True)"
    using D(10,11) s os by (subst RegisterSend_eq [where ok = True]) (simp_all add: send_more_def)
  moreover have w2: "sess_upd E ?w1 i (\<lambda>s. s\<lparr> se_isSending := True \<rparr>) = Inr ?w2"
    using linkedD(1) [OF D(1)] by simp
  ultimately show ?thesis
    using linkedD(1) [OF D(1)] sz s r g
    by (simp add: Session_SendPacket_def Let_def block_read_def w1 w2 del: sess_upd_eq upd_ov_fun)
qed

text \<open>\<open>OnSend\<close> when the block has been unlinked by \<open>Dispatch\<close>.\<close>

lemma OnSend_last:
  assumes wf: "swf w i" and inv: "ov_inv (se_sendOv (sess w i))" and s: "se_isSending (sess w i)"
    and n: "n = ov_sendPos (se_sendOv (sess w i)) - ov_recvPos (se_sendOv (sess w i))"
  shows "Session_OnSend E w i n = Inr (touch w i
    (\<lambda>s. s\<lparr> se_sendOv := recv_done 0 n (se_sendOv s), se_isSending := False \<rparr>) (\<lambda>n. n) [], True)"
proof -
  let ?ov = "se_sendOv (sess w i)"
  have e: "ov_wrap (?ov\<lparr> ov_recvPos := trunc64 (ov_recvPos ?ov + n) \<rparr>) = recv_done 0 n ?ov"
    using inv n by (simp add: recv_done_def recv_adv_def recv_more_def ov_inv_def)
  have "length (ov_pending (recv_done 0 n ?ov)) = 0"
    using recv_done_facts(2) [OF inv, of 0 n] n by simp
  then have "ov_recvPos (recv_done 0 n ?ov) = ov_sendPos (recv_done 0 n ?ov)"
    using recv_done_facts(1) [OF inv, of 0 n] n by (simp add: ov_inv_def)
  then show ?thesis
    using wf s e by (auto simp: Session_OnSend_def Let_def intro!: touch_cong)
qed

lemma OnSend_more:
  assumes l: "linked w i" and np: "\<not> sptr_pool (ov_sessionPtr (se_sendOv (sess w i)))"
    and inv: "ov_inv (se_sendOv (sess w i))" and s: "se_isSending (sess w i)"
    and n: "n < ov_sendPos (se_sendOv (sess w i)) - ov_recvPos (se_sendOv (sess w i))"
    and os: "\<forall>tr a k. posted_ok (e_os E tr (OS_WSASend i a k))"
  shows "\<exists>c. Session_OnSend E w i n = Inr (touch w i
    (\<lambda>s. s\<lparr> se_sendOv := send_block (se_handle s) True (recv_done 0 n (se_sendOv s)) \<rparr>) (\<lambda>n. n + 1) [c], True)"
proof -
  note L = linkedD [OF l]
  let ?ov = "se_sendOv (sess w i)"
  have e: "ov_wrap (?ov\<lparr> ov_recvPos := trunc64 (ov_recvPos ?ov + n) \<rparr>) = recv_done 0 n ?ov"
  proof -
    have "ov_recvPos ?ov + n < 2 ^ 64" using inv n unfolding ov_inv_def by auto
    then show ?thesis by (simp add: recv_done_def recv_adv_def recv_more_def)
  qed
  have "length (ov_pending (recv_done 0 n ?ov)) \<noteq> 0"
    using recv_done_facts(2) [OF inv, of 0 n] n by simp
  then have ne: "ov_recvPos (recv_done 0 n ?ov) \<noteq> ov_sendPos (recv_done 0 n ?ov)" by simp
  let ?w1 = "touch w i (\<lambda>s. s\<lparr> se_sendOv := recv_done 0 n ?ov \<rparr>) (\<lambda>n. n) []"
  have "linked ?w1 i" using l L by (intro linked_touch) auto
  moreover have "ov_inv (recv_done 0 n ?ov)" using recv_done_facts(1) [OF inv, of 0 n] n by simp
  ultimately obtain c where "Session_RegisterSend E ?w1 i = Inr (touch ?w1 i
      (\<lambda>s. s\<lparr> se_sendOv := send_block (se_handle s) True (se_sendOv s) \<rparr>) (\<lambda>n. n + 1) [c], True)"
    using RegisterSend_eq [of ?w1 i _ True E] np s os by (auto simp: recv_done_def)
  moreover have "touch ?w1 i (\<lambda>s. s\<lparr> se_sendOv := send_block (se_handle s) True (se_sendOv s) \<rparr>) (\<lambda>n. n + 1) [c] =
      touch w i (\<lambda>s. s\<lparr> se_sendOv := send_block (se_handle s) True (recv_done 0 n (se_sendOv s)) \<rparr>) (\<lambda>n. n + 1) [c]"
    by (simp, intro touch_cong) simp_all
  ultimately show ?thesis
    using L s e ne by (auto simp: Session_OnSend_def Let_def)
qed

subsection \<open>Runs of sends and completions\<close>

definition send_completion :: "nat \<Rightarrow> nat \<Rightarrow> completion" where
  "send_completion i n = \<lparr> co_ok = True, co_bytes = n, co_error = 0, co_target = Some (i, SendOv) \<rparr>"

text \<open>
  One event on the send direction of session \<open>i\<close>: a packet to send, or the completion of the
  posted send after \<open>n\<close> bytes. The system takes those bytes from the memory the call named;
  \<open>wire\<close> collects them, \<open>acc\<close> the bytes of the packets \<open>SendPacket\<close> accepted.
\<close>

datatype send_event = SendReq bytes | SendDone nat

fun send_step :: "'db env \<Rightarrow> nat \<Rightarrow> 'db world \<times> u8 list \<times> u8 list \<Rightarrow> send_event \<Rightarrow> ('db world \<times> u8 list \<times> u8 list) res" where
  "send_step E i (w, wire, acc) (SendReq blk) =
     andThen (Session_SendPacket E w i blk) (\<lambda>(w1, ok).
     Inr (w1, wire, if ok then acc @ slice_fun blk 0 (header_size blk 0) else acc))"
| "send_step E i (w, wire, acc) (SendDone n) =
     andThen (sess_at E w i) (\<lambda>s.
     if \<not> se_isSending s \<or> n = 0 \<or> n > ov_wsaLen (se_sendOv s) then Inr (w, wire, acc)
     else
       andThen (IocpCore_WorkerThread_round E False w (send_completion i n)) (\<lambda>(w1, _).
       Inr (w1, wire @ slice_fun (ring_view (ov_buffer (se_sendOv s))) (the (ov_wsaBuf (se_sendOv s))) n, acc)))"

fun send_run :: "'db env \<Rightarrow> nat \<Rightarrow> 'db world \<times> u8 list \<times> u8 list \<Rightarrow> send_event list \<Rightarrow> ('db world \<times> u8 list \<times> u8 list) res" where
  "send_run E i x [] = Inr x"
| "send_run E i x (e # es) = andThen (send_step E i x e) (\<lambda>x1. send_run E i x1 es)"

abbreviation send_pending :: "'db world \<Rightarrow> nat \<Rightarrow> u8 list" where
  "send_pending w i \<equiv> ov_pending (se_sendOv (sess w i))"

lemma send_ok_posted:
  assumes l: "linked w i" and r: "1 < refs w i" "refs w i + 4 < 2 ^ 64" and inv: "ov_inv ov"
    and ne: "ov_recvPos ov < ov_sendPos ov" and s: "se_isSending (sess w i)"
    and e: "se_sendOv (sess w i) = send_block (se_handle (sess w i)) True ov"
  shows "send_ok w i" and "send_pending w i = ov_pending ov"
  using assms by (auto simp: send_ok_def Let_def send_block_def ov_inv_def ov_pending_def)

lemma send_request_ok:
  assumes ok: "send_ok w i" and sz: "0 < header_size blk 0" "header_size blk 0 \<le> kMaxPacketSize"
    and os: "\<forall>tr a k. posted_ok (e_os E tr (OS_WSASend i a k))" and r: "refs w i + 5 < 2 ^ 64"
  shows "\<exists>w1 b. Session_SendPacket E w i blk = Inr (w1, b) \<and> send_ok w1 i \<and>
    b = (header_size blk 0 \<le> ov_room (se_sendOv (sess w i))) \<and>
    send_pending w1 i = send_pending w i @ (if b then slice_fun blk 0 (header_size blk 0) else []) \<and>
    only_session i w w1 \<and> refs w1 i + (if se_isSending (sess w1 i) then 0 else 1) = refs w i + (if se_isSending (sess w i) then 0 else 1)"
proof (cases "header_size blk 0 \<le> ov_room (se_sendOv (sess w i))")
  case False
  then show ?thesis using SendPacket_refuses [OF ok, of blk E] ok by auto
next
  case fit: True
  note D = send_okD [OF ok]
  note L = linkedD [OF D(1)]
  let ?bs = "slice_fun blk 0 (header_size blk 0)"
  have len: "length ?bs \<le> ov_room (se_sendOv (sess w i))" using fit by simp
  note M = send_more_facts [OF D(3) len]
  show ?thesis
  proof (cases "se_isSending (sess w i)")
    case True
    let ?w1 = "touch w i (\<lambda>s. s\<lparr> se_sendOv := send_more ?bs (se_sendOv s) \<rparr>) (\<lambda>n. n) []"
    have "linked ?w1 i" using D(1) L by (intro linked_touch) auto
    then have "send_ok ?w1 i" using D True M(1) by (auto simp: send_ok_def Let_def)
    then show ?thesis
      using SendPacket_queues [OF ok fit sz(2) True, of E] M(2) fit
      by (intro exI [of _ ?w1] exI [of _ True]) (simp add: only_session_touch)
  next
    case False
    then obtain c where "Session_SendPacket E w i blk = Inr (touch w i
      (\<lambda>s. s\<lparr> se_isSending := True, se_sendOv := send_block (se_handle s) True (send_more ?bs (se_sendOv s)) \<rparr>)
      (\<lambda>n. n + 1) [c], True)" (is "_ = Inr (?w1, True)")
      using SendPacket_starts [OF ok fit sz(2) _ os] by blast
    moreover have "linked ?w1 i" using D(1) L r by (intro linked_touch) auto
    then have "send_ok ?w1 i" and "send_pending ?w1 i = ov_pending (send_more ?bs (se_sendOv (sess w i)))"
      by (rule send_ok_posted; use L r M(1) D(10) [OF False] sz(1) in simp)+
    ultimately show ?thesis
      using M(2) fit False by (intro exI [of _ ?w1] exI [of _ True]) (simp add: only_session_touch)
  qed
qed

lemma send_done_ok:
  assumes ok: "send_ok w i" and s: "se_isSending (sess w i)" and n: "0 < n" "n \<le> ov_wsaLen (se_sendOv (sess w i))"
    and os: "\<forall>tr a k. posted_ok (e_os E tr (OS_WSASend i a k))"
  shows "\<exists>w1. IocpCore_WorkerThread_round E shutting w (send_completion i n) = Inr (w1, True) \<and> send_ok w1 i \<and>
    send_pending w1 i = drop n (send_pending w i) \<and>
    slice_fun (ring_view (ov_buffer (se_sendOv (sess w i)))) (the (ov_wsaBuf (se_sendOv (sess w i)))) n = take n (send_pending w i) \<and>
    refs w1 i + (if se_isSending (sess w1 i) then 0 else 1) = refs w i"
proof -
  note D = send_okD(1-3) [OF ok] and S = send_okD(4-9) [OF ok s]
  note L = linkedD [OF D(1)]
  let ?ov = "se_sendOv (sess w i)" and ?h = "se_handle (sess w i)"
  let ?ov3 = "?ov\<lparr> ov_sessionPtr := nullSharedPtr \<rparr>"
  let ?w3 = "touch w i (ov_unlink SendOv) (\<lambda>n. n + 1) []"
  have np: "n \<le> ov_sendPos ?ov - ov_recvPos ?ov" using S(5) n by simp
  have inv3: "ov_inv ?ov3" using D(3) by (simp add: ov_inv_def)
  have l3: "linked ?w3 i" using D L by (intro linked_touch) auto
  have wire: "slice_fun (ring_view (ov_buffer ?ov)) (the (ov_wsaBuf ?ov)) n = take n (send_pending w i)"
    using S(3) np by (simp add: ov_pending_def take_slice_fun)
  have pend3: "ov_pending ?ov3 = send_pending w i" by (simp add: ov_pending_def)
  have F: "ov_inv (recv_done 0 n ?ov3)" "ov_pending (recv_done 0 n ?ov3) = drop n (send_pending w i)"
    "ov_sessionPtr (recv_done 0 n ?ov3) = nullSharedPtr"
    using recv_done_facts [OF inv3, of 0 n] np pend3 by (simp_all add: recv_more_def)
  show ?thesis
  proof (cases "n = ov_sendPos ?ov - ov_recvPos ?ov")
    case True
    let ?w4 = "touch ?w3 i (\<lambda>s. s\<lparr> se_sendOv := recv_done 0 n (se_sendOv s), se_isSending := False \<rparr>) (\<lambda>n. n) []"
    have "Session_OnSend E ?w3 i n = Inr (?w4, True)"
      using L inv3 s True by (intro OnSend_last) simp_all
    then have "Session_HandleIO E ?w3 i i SendOv n = Inr (?w4, True)"
      using L S by (simp add: Session_HandleIO_def)
    then have "IocpCore_WorkerThread_round E shutting w (send_completion i n) =
        Inr (touch ?w4 i (\<lambda>s. s) (\<lambda>n. n - 2) [], True)"
      using D L S n unfolding send_completion_def by (intro round_io_ok [where h = ?h]) auto
    moreover have "linked (touch ?w4 i (\<lambda>s. s) (\<lambda>n. n - 2) []) i" using D(1) L S(1) by (simp add: linked_def)
    moreover have "ov_sendPos (recv_done 0 n ?ov3) = ov_recvPos (recv_done 0 n ?ov3)"
      using arg_cong [OF F(2), of length] True F(1) by (simp add: ov_inv_def)
    ultimately show ?thesis
      using F D(2) S(1) wire by (intro exI [of _ "touch ?w4 i (\<lambda>s. s) (\<lambda>n. n - 2) []"]) (simp add: send_ok_def Let_def)
  next
    case False
    then have lt: "n < ov_sendPos ?ov - ov_recvPos ?ov" using np by simp
    obtain c where os3: "Session_OnSend E ?w3 i n = Inr (touch ?w3 i
        (\<lambda>s. s\<lparr> se_sendOv := send_block (se_handle s) True (recv_done 0 n (se_sendOv s)) \<rparr>) (\<lambda>n. n + 1) [c], True)"
      (is "_ = Inr (?w4, True)")
      using OnSend_more [OF l3 _ _ _ _ os, of n] inv3 s lt by auto
    then have "Session_HandleIO E ?w3 i i SendOv n = Inr (?w4, True)"
      using L S by (simp add: Session_HandleIO_def)
    then have rd: "IocpCore_WorkerThread_round E shutting w (send_completion i n) =
        Inr (touch ?w4 i (\<lambda>s. s) (\<lambda>n. n - 2) [], True)"
      using D L S n unfolding send_completion_def by (intro round_io_ok [where h = ?h]) auto
    let ?w5 = "touch ?w4 i (\<lambda>s. s) (\<lambda>n. n - 2) []"
    have l5: "linked ?w5 i" using D(1) L S(1) by (simp add: linked_def)
    have "length (ov_pending (recv_done 0 n ?ov3)) \<noteq> 0" using F(2) lt by simp
    then have ne: "ov_recvPos (recv_done 0 n ?ov3) < ov_sendPos (recv_done 0 n ?ov3)" by simp
    have "send_ok ?w5 i" "send_pending ?w5 i = ov_pending (recv_done 0 n ?ov3)"
      by (rule send_ok_posted [OF l5 _ _ F(1) ne]; use D(2) L S(1) s in simp)+
    then show ?thesis using rd F(2) wire s S(1) by (intro exI [of _ ?w5]) simp
  qed
qed

lemma send_run_fifo:
  assumes "send_ok w i"
    and "\<forall>blk. SendReq blk \<in> set es \<longrightarrow> 0 < header_size blk 0 \<and> header_size blk 0 \<le> kMaxPacketSize"
    and "\<forall>tr a k. posted_ok (e_os E tr (OS_WSASend i a k))"
    and "wire @ send_pending w i = acc" and "refs w i + (if se_isSending (sess w i) then 0 else 1) + 5 < 2 ^ 64"
  shows "\<exists>w' wire' acc'. send_run E i (w, wire, acc) es = Inr (w', wire', acc') \<and> send_ok w' i \<and>
    wire' @ send_pending w' i = acc'"
  using assms
proof (induction es arbitrary: w wire acc)
  case Nil
  then show ?case by simp
next
  case (Cons e es)
  note L = linkedD [OF send_okD(1) [OF Cons.prems(1)]]
  have step: "\<exists>w1 wire1 acc1. send_step E i (w, wire, acc) e = Inr (w1, wire1, acc1) \<and> send_ok w1 i \<and>
      wire1 @ send_pending w1 i = acc1 \<and>
      refs w1 i + (if se_isSending (sess w1 i) then 0 else 1) = refs w i + (if se_isSending (sess w i) then 0 else 1)"
  proof (cases e)
    case (SendReq blk)
    then have sz: "0 < header_size blk 0" "header_size blk 0 \<le> kMaxPacketSize" using Cons.prems(2) by auto
    have r: "refs w i + 5 < 2 ^ 64" using Cons.prems(5) by simp
    obtain w1 b where "Session_SendPacket E w i blk = Inr (w1, b)" "send_ok w1 i"
      "send_pending w1 i = send_pending w i @ (if b then slice_fun blk 0 (header_size blk 0) else [])"
      "refs w1 i + (if se_isSending (sess w1 i) then 0 else 1) = refs w i + (if se_isSending (sess w i) then 0 else 1)"
      using send_request_ok [OF Cons.prems(1) sz Cons.prems(3) r] by blast
    then show ?thesis using Cons.prems(4) SendReq by auto
  next
    case (SendDone n)
    show ?thesis
    proof (cases "\<not> se_isSending (sess w i) \<or> n = 0 \<or> n > ov_wsaLen (se_sendOv (sess w i))")
      case True
      then show ?thesis using SendDone Cons.prems(1,4) L by auto
    next
      case False
      then obtain w1 where w1: "IocpCore_WorkerThread_round E False w (send_completion i n) = Inr (w1, True)" "send_ok w1 i"
        "send_pending w1 i = drop n (send_pending w i)"
        "slice_fun (ring_view (ov_buffer (se_sendOv (sess w i)))) (the (ov_wsaBuf (se_sendOv (sess w i)))) n = take n (send_pending w i)"
        "refs w1 i + (if se_isSending (sess w1 i) then 0 else 1) = refs w i"
        using send_done_ok [OF Cons.prems(1) _ _ _ Cons.prems(3), of n False] by auto
      then have "(wire @ take n (send_pending w i)) @ send_pending w1 i = acc"
        using Cons.prems(4) by simp
      then show ?thesis using w1 SendDone False L by auto
    qed
  qed
  then obtain w1 wire1 acc1 where s1: "send_step E i (w, wire, acc) e = Inr (w1, wire1, acc1)" "send_ok w1 i"
    "wire1 @ send_pending w1 i = acc1"
    "refs w1 i + (if se_isSending (sess w1 i) then 0 else 1) = refs w i + (if se_isSending (sess w i) then 0 else 1)"
    by blast
  have "\<forall>blk. SendReq blk \<in> set es \<longrightarrow> 0 < header_size blk 0 \<and> header_size blk 0 \<le> kMaxPacketSize"
    using Cons.prems(2) by simp
  moreover have "refs w1 i + (if se_isSending (sess w1 i) then 0 else 1) + 5 < 2 ^ 64" using s1(4) Cons.prems(5) by simp
  ultimately show ?case
    using Cons.IH [of w1 wire1 acc1] s1 Cons.prems(3) by auto
qed

text \<open>C3: sending is a byte queue. From a session with nothing to send, after any sequence of
  send requests and completions, complete or partial, nothing has faulted, and the bytes put on
  the wire followed by those still waiting are exactly the packets \<open>SendPacket\<close> accepted, in
  order: data of a posted send is never overwritten, lost, repeated or reordered.\<close>

theorem Session_send_fifo:
  assumes "send_ok w i" and "\<not> se_isSending (sess w i)" and "refs w i + 6 < 2 ^ 64"
    and "\<forall>blk. SendReq blk \<in> set es \<longrightarrow> 0 < header_size blk 0 \<and> header_size blk 0 \<le> kMaxPacketSize"
    and "\<forall>tr a k. posted_ok (e_os E tr (OS_WSASend i a k))"
  shows "\<exists>w' wire acc. send_run E i (w, [], []) es = Inr (w', wire, acc) \<and> send_ok w' i \<and>
    wire @ send_pending w' i = acc"
proof -
  have "send_pending w i = []" using send_okD(10) [OF assms(1,2)] by (simp add: ov_pending_def)
  then show ?thesis
    using assms by (intro send_run_fifo) auto
qed

lemma sample_send_ok:
  "st < 4 \<Longrightarrow> n < 2 ^ 32 \<Longrightarrow> i < n \<Longrightarrow> 0 < b \<Longrightarrow> b < 2 ^ 32 \<Longrightarrow> send_ok (sample_world n st b m db) i"
  by (simp add: send_ok_def OverlappedEx_new_def ov_inv_def)

text \<open>Two packets of 5 bytes; the first send completes in two parts.\<close>

theorem Session_send_fifo_witness:
  "\<exists>w' wire acc. send_run sample_env 0 (sample_world 1 2 4096 2 (), [], [])
      [SendReq (set_header_size (\<lambda>_. 7) 5), SendDone 3, SendReq (set_header_size (\<lambda>_. 8) 5), SendDone 2] =
        Inr (w', wire, acc) \<and> send_ok w' 0 \<and> wire @ send_pending w' 0 = acc"
  by (rule Session_send_fifo) (auto simp: sample_send_ok kMaxPacketSize_def)

end
