(* ===== verification/Lifecycle.thy ===== *)
theory Lifecycle
  imports Recv_Props Session_Send
begin

section \<open>Connect and Disconnect: the state machine of a session\<close>

text \<open>
  A session goes from pending to connected to disconnecting. The lemmas say what a change of
  state does to the views of the world; the properties that \<open>Connect\<close> starts both directions
  exactly from the pending state, and that however often \<open>Disconnect\<close> is called, one
  \<open>DisconnectEx\<close> is posted.
\<close>

subsection \<open>Changing the state\<close>

definition with_set :: "'db world \<Rightarrow> sparse_set \<Rightarrow> 'db world" where
  "with_set w ss = w\<lparr> w_spool := (w_spool w)\<lparr> sp_set := ss \<rparr> \<rparr>"

lemma with_set_views [simp]:
  "sess (with_set w ss) i = sess w i" "refs (with_set w ss) i = refs w i"
  "sstate (with_set w ss) i = sl_state (ss_sparse ss i)"
  "w_sessionPtrs (with_set w ss) = w_sessionPtrs w" "w_managerInit (with_set w ss) = w_managerInit w"
  "w_ppool (with_set w ss) = w_ppool w" "w_tasks (with_set w ss) = w_tasks w"
  "w_trace (with_set w ss) = w_trace w" "w_pendingAccepts (with_set w ss) = w_pendingAccepts w" "sp_set (w_spool (with_set w ss)) = ss"
  by (simp_all add: with_set_def sess_def refs_def sstate_def)

definition sessions_K :: "'db world \<Rightarrow> bool" where
  "sessions_K w \<longleftrightarrow> ss_K (sp_set (w_spool w)) = 4"

lemma with_set_swf:
  assumes "swf w i" and "moved_to (sp_set (w_spool w)) ss j st"
  shows "swf (with_set w ss) i"
  using assms moved_toD(1-3) [OF assms(2)] pool_wf_set [of "w_spool w" ss]
  by (simp add: swf_def with_set_def)

lemma with_set_linked:
  assumes "linked w i" and "moved_to (sp_set (w_spool w)) ss j st"
  shows "linked (with_set w ss) i"
  using assms with_set_swf [OF linkedD(1) [OF assms(1)] assms(2)] by (simp add: linked_def)

lemma state_change_eq:
  assumes wf: "swf w i" and h: "who_of h = i" and K: "sessions_K w" and st: "st < 4"
  shows "\<exists>ss. moved_to (sp_set (w_spool w)) ss i st \<and>
    SparsePool_MoveToState (session_host E) w h st = Inr (with_set w ss)"
  using spool.MoveToState_eq [where w = w and h = h and s = st and E = E] assms by (simp add: swf_def sessions_K_def with_set_def)

lemma GetState_sstate: "swf w (who_of h) \<Longrightarrow> SessionManager_GetState w h = Inr (sstate w (who_of h))"
  by (simp add: SessionManager_GetState_def GetState_eq swf_def sstate_def)

lemma with_set_states:
  assumes "moved_to (sp_set (w_spool w)) ss i st"
  shows "sstate (with_set w ss) j = (if j = i then st else sstate w j)" and "sessions_K (with_set w ss) = sessions_K w"
  using moved_toD(3,5) [OF assms] by (simp_all add: sstate_def sessions_K_def)

subsection \<open>Disconnect\<close>

lemma RegisterDisconnect_eq:
  assumes l: "linked w i" and n: "\<not> sptr_pool (ov_sessionPtr (se_disconnectOv (sess w i)))"
  shows "\<exists>F. Session_RegisterDisconnect E w i = Inr (touch w i F (\<lambda>n. n + 1) [OS_DisconnectEx i],
      \<not> (fst (e_os E (w_trace w) (OS_DisconnectEx i)) = SOCKET_ERROR \<and>
         snd (e_os E (w_trace w) (OS_DisconnectEx i)) \<noteq> WSA_IO_PENDING)) \<and>
    se_handle (F (sess w i)) = se_handle (sess w i) \<and> se_sessionManager (F (sess w i)) = se_sessionManager (sess w i) \<and>
    ov_sessionPtr (se_disconnectOv (F (sess w i))) = \<lparr> sptr_pool = True, sptr_handle = se_handle (sess w i) \<rparr> \<and>
    ov_ioType (se_disconnectOv (F (sess w i))) = IO_kDisconnect"
proof -
  note D = linkedD [OF l]
  let ?w1 = "touch w i (\<lambda>s. s\<lparr> se_disconnectOv := (se_disconnectOv s)\<lparr> ov_ioType := IO_kDisconnect \<rparr> \<rparr>) (\<lambda>n. n) []"
  have l1: "linked ?w1 i" using l D by (intro linked_touch) auto
  have "ov_ptr_self E ?w1 i DisconnectOv = Inr (touch ?w1 i
      (\<lambda>s. s\<lparr> se_disconnectOv := (se_disconnectOv s)\<lparr> ov_sessionPtr := \<lparr> sptr_pool = True, sptr_handle = se_handle s \<rparr> \<rparr> \<rparr>)
      (\<lambda>n. n + 1) [])"
    using ov_ptr_self_eq [OF l1, of DisconnectOv E] n by simp
  then show ?thesis
    using D by (intro exI [of _ "\<lambda>s. s\<lparr> se_disconnectOv := (se_disconnectOv s)\<lparr> ov_ioType := IO_kDisconnect,
        ov_sessionPtr := \<lparr> sptr_pool = True, sptr_handle = se_handle s \<rparr> \<rparr> \<rparr>"])
      (simp add: Session_RegisterDisconnect_def os_do_touch [where i = i] ex_posted_def)
qed

lemma Disconnect_first:
  assumes l: "linked w i" and K: "sessions_K w" and st: "sstate w i = 1 \<or> sstate w i = 2"
    and n: "\<not> sptr_pool (ov_sessionPtr (se_disconnectOv (sess w i)))" and r: "refs w i + 3 < 2 ^ 64"
  shows "\<exists>w1 b. Session_Disconnect E w i = Inr (w1, b) \<and> linked w1 i \<and> sessions_K w1 \<and>
    sstate w1 i = 3 \<and> (\<forall>j. j \<noteq> i \<longrightarrow> sstate w1 j = sstate w j \<and> sess w1 j = sess w j) \<and>
    refs w1 i = refs w i + 1 \<and> w_trace w1 = w_trace w @ [OS_DisconnectEx i] \<and>
    ov_sessionPtr (se_disconnectOv (sess w1 i)) = \<lparr> sptr_pool = True, sptr_handle = se_handle (sess w1 i) \<rparr>"
proof -
  note D = linkedD [OF l]
  obtain ss where m: "moved_to (sp_set (w_spool w)) ss i 3"
    and set: "SparsePool_MoveToState (session_host E) w (se_handle (sess w i)) 3 = Inr (with_set w ss)"
    using state_change_eq [of w i "se_handle (sess w i)" 3 E] D K by auto
  let ?w1 = "with_set w ss"
  have l1: "linked ?w1 i" by (rule with_set_linked [OF l m])
  obtain F where reg: "Session_RegisterDisconnect E ?w1 i = Inr (touch ?w1 i F (\<lambda>n. n + 1) [OS_DisconnectEx i],
      \<not> (fst (e_os E (w_trace ?w1) (OS_DisconnectEx i)) = SOCKET_ERROR \<and>
         snd (e_os E (w_trace ?w1) (OS_DisconnectEx i)) \<noteq> WSA_IO_PENDING))"
    and F: "se_handle (F (sess w i)) = se_handle (sess w i)" "se_sessionManager (F (sess w i)) = se_sessionManager (sess w i)"
      "ov_sessionPtr (se_disconnectOv (F (sess w i))) = \<lparr> sptr_pool = True, sptr_handle = se_handle (sess w i) \<rparr>"
    using RegisterDisconnect_eq [OF l1, of E] n by auto
  have "linked (touch ?w1 i F (\<lambda>n. n + 1) [OS_DisconnectEx i]) i" using l1 F r by (intro linked_touch) auto
  moreover have "Session_Disconnect E w i = Session_RegisterDisconnect E ?w1 i"
    using D st set by (auto simp: Session_Disconnect_def GetState_sstate SessionManager_SetState_def)
  ultimately show ?thesis
    using reg F with_set_states [OF m] K
    by (intro exI [of _ "touch ?w1 i F (\<lambda>n. n + 1) [OS_DisconnectEx i]"] exI) (auto simp: sessions_K_def)
qed

lemma Disconnect_again:
  assumes "linked w i" and "sstate w i = 3"
  shows "Session_Disconnect E w i = Inr (w, True)"
  using linkedD [OF assms(1)] assms(2) by (simp add: Session_Disconnect_def GetState_sstate)

lemma Disconnect_idle:
  assumes "linked w i" and "sstate w i = 0"
  shows "Session_Disconnect E w i = Inr (w, False)"
  using linkedD [OF assms(1)] assms(2) by (simp add: Session_Disconnect_def GetState_sstate)

fun disconnect_times :: "'db env \<Rightarrow> nat \<Rightarrow> 'db world \<Rightarrow> nat \<Rightarrow> 'db world res" where
  "disconnect_times E 0 w i = Inr w"
| "disconnect_times E (Suc n) w i =
     andThen (Session_Disconnect E w i) (\<lambda>(w1, _). disconnect_times E n w1 i)"

lemma disconnect_times_again:
  "linked w i \<Longrightarrow> sstate w i = 3 \<Longrightarrow> disconnect_times E n w i = Inr w"
  by (induction n) (simp_all add: Disconnect_again)


lemma sample_sessions_K [simp]: "sessions_K (sample_world n st b m db)"
  by (simp add: sessions_K_def sample_world_def sample_set_def)


subsection \<open>The welcome text\<close>

lemma decimal_digits_nonzero: "b \<in> set (decimal_digits n) \<Longrightarrow> b \<noteq> 0"
proof (induction n rule: decimal_digits.induct)
  case (1 n)
  have nz: "(of_nat (48 + d) :: u8) \<noteq> 0" if "d < 10" for d
  proof
    assume "(of_nat (48 + d) :: u8) = 0"
    then have "unat (of_nat (48 + d) :: u8) = 0" by (simp only: unsigned_0)
    then have "(48 + d) mod 2 ^ LENGTH(8) = 0" by (simp only: unat_of_nat)
    then show False using that by simp
  qed
  show ?case
  proof (cases "n < 10")
    case True
    then have "decimal_digits n = [of_nat (48 + n)]" by (subst decimal_digits.simps) simp
    then show ?thesis using "1.prems" nz [OF True] by simp
  next
    case False
    then have "decimal_digits n = decimal_digits (n div 10) @ [of_nat (48 + n mod 10)]"
      by (subst decimal_digits.simps) simp
    then show ?thesis using "1.prems" "1.IH" [OF False] nz [of "n mod 10"] by auto
  qed
qed

lemma length_decimal_digits: "n < 10 ^ Suc k \<Longrightarrow> length (decimal_digits n) \<le> Suc k"
proof (induction k arbitrary: n)
  case 0
  then show ?case by (subst decimal_digits.simps) simp
next
  case (Suc k)
  show ?case
  proof (cases "n < 10")
    case True
    then show ?thesis by (subst decimal_digits.simps) simp
  next
    case False
    have "n div 10 < 10 ^ Suc k" using Suc.prems by (simp add: less_mult_imp_div_less)
    then show ?thesis using Suc.IH [of "n div 10"] False by (subst decimal_digits.simps) simp
  qed
qed

lemma print_lld_text: "\<forall>b \<in> set (print_lld h). b \<noteq> 0" "length (print_lld h) \<le> 20"
proof -
  show "\<forall>b \<in> set (print_lld h). b \<noteq> 0"
    using decimal_digits_nonzero by (auto simp: print_lld_def)
  have "- (2 ^ 63) \<le> sint h" "sint h < 2 ^ 63" using sint_greater_eq [of h] sint_less [of h] by simp_all
  then have "nat (- sint h) < 10 ^ Suc 18" "nat (sint h) < 10 ^ Suc 18" by (auto simp: nat_less_iff)
  then show "length (print_lld h) \<le> 20"
    using length_decimal_digits [of "nat (- sint h)" 18] length_decimal_digits [of "nat (sint h)" 18]
    by (auto simp: print_lld_def)
qed

lemma until_nul_text: "\<forall>b \<in> set t. b \<noteq> 0 \<Longrightarrow> until_nul (t @ 0 # r) = t"
  by (induction t) (simp_all add: until_nul_def)

text \<open>The packet that \<open>Connect\<close> sends, from the old contents of its block.\<close>

definition welcome_bytes :: "bytes \<Rightarrow> u64 \<Rightarrow> bytes" where
  "welcome_bytes blk h =
     set_header_size (write_bytes (set_header_id blk PKT_kChat) 12 (print_lld h @ [0])) (4 + length (print_lld h) + 1)"

lemma slice_fun_prefix: "n \<le> m \<Longrightarrow> slice_fun f a m = slice_fun f a n @ slice_fun f (a + n) (m - n)"
  using slice_fun_add [of f a n "m - n"] by simp

lemma welcome_block_eq: "welcome_block blk h = Inr (welcome_bytes blk h)"
proof -
  let ?t = "print_lld h" and ?m = "write_bytes (set_header_id blk PKT_kChat) 12 (print_lld h @ [0])"
  note T = print_lld_text [of h]
  have "slice_fun ?m 12 (length (?t @ [0])) = ?t @ [0]" by (rule slice_write_same)
  then have "slice_fun ?m 12 1012 = ?t @ 0 # slice_fun ?m (12 + Suc (length ?t)) (1012 - Suc (length ?t))"
    using slice_fun_prefix [of "Suc (length ?t)" 1012 ?m 12] T(2) by simp
  then have "block_strlen ?m 12 = Inr (length ?t)"
    using T until_nul_text by (simp add: block_strlen_def kMaxPacketSize_def Let_def)
  then show ?thesis
    using T by (simp add: welcome_block_def block_write_def kMaxPacketSize_def Let_def welcome_bytes_def add.commute)
qed

lemma welcome_bytes_fields:
  "header_size (welcome_bytes blk h) 0 = 4 + length (print_lld h) + 1"
  "header_id (welcome_bytes blk h) 0 = packet_code PKT_kChat"
proof -
  have "4 + length (print_lld h) + 1 < 65536" using print_lld_text(2) [of h] by simp
  then show "header_size (welcome_bytes blk h) 0 = 4 + length (print_lld h) + 1" by (simp add: welcome_bytes_def)
  have "header_id (write_bytes m 12 bs) 0 = header_id m 0" for m bs
    by (simp add: header_at_0 get_write_field_other)
  then show "header_id (welcome_bytes blk h) 0 = packet_code PKT_kChat" by (simp add: welcome_bytes_def)
qed

text \<open>
  What of it goes over the wire: the eight bytes of \<open>sessionHandle\<close> are not counted in the
  size, so they are sent as the block had them, and the text loses its last eight bytes.
\<close>

lemma welcome_wire:
  "slice_fun (welcome_bytes blk h) 4 (header_size (welcome_bytes blk h) 0 - 4) =
     take (length (print_lld h) + 1) (slice_fun blk 4 8 @ print_lld h @ [0])"
proof -
  let ?t = "print_lld h" and ?w = "welcome_bytes blk h"
  let ?m = "write_bytes (set_header_id blk PKT_kChat) 12 (?t @ [0])"
  have "slice_fun ?w 4 (8 + length (?t @ [0])) = slice_fun ?w 4 8 @ slice_fun ?w 12 (length (?t @ [0]))"
    using slice_fun_add [of ?w 4 8 "length (?t @ [0])"] by simp
  moreover have "slice_fun ?w 12 (length (?t @ [0])) = ?t @ [0]"
    using slice_write_same [of "set_header_id blk PKT_kChat" 12 "?t @ [0]"]
    by (simp add: welcome_bytes_def header_setters put_field_def slice_write_other)
  moreover have "slice_fun ?w 4 8 = slice_fun blk 4 8"
    by (simp add: welcome_bytes_def header_setters put_field_def slice_write_other)
  ultimately have "slice_fun ?w 4 (8 + length (?t @ [0])) = slice_fun blk 4 8 @ ?t @ [0]" by simp
  then show ?thesis
    using take_slice_fun [of "length ?t + 1" "8 + length (?t @ [0])" ?w 4] by (simp add: welcome_bytes_fields)
qed

subsection \<open>Connect\<close>

text \<open>A pending session whose accept has completed: both directions are empty and free.\<close>

definition accepted :: "'db world \<Rightarrow> nat \<Rightarrow> bool" where
  "accepted w i \<longleftrightarrow> send_ok w i \<and> \<not> se_isSending (sess w i) \<and> se_packetHandler (sess w i) \<and>
     25 \<le> ov_room (se_sendOv (sess w i)) \<and> refs w i + 6 < 2 ^ 64 \<and>
     (let ov = se_recvOv (sess w i) in
      ov_inv ov \<and> 4 \<le> rb_size (ov_buffer ov) \<and> ov_sendPos ov = ov_recvPos ov \<and> \<not> sptr_pool (ov_sessionPtr ov))"

lemma send_ok_other [simp]: "send_ok (w\<lparr> w_ppool := p \<rparr>) i = send_ok w i"
  by (simp add: send_ok_def)

lemma send_ok_with_set:
  "send_ok w i \<Longrightarrow> moved_to (sp_set (w_spool w)) ss j st \<Longrightarrow> send_ok (with_set w ss) i"
  using with_set_linked [of w i ss j st] by (auto simp: send_ok_def Let_def)

lemma Connect_not_pending:
  assumes "linked w i" and "sstate w i \<noteq> 1"
  shows "Session_Connect E w i = Inr (w, False)"
  using linkedD [OF assms(1)] assms(2) by (simp add: Session_Connect_def GetState_sstate)

lemma Connect_starts:
  assumes a: "accepted w i" and st: "sstate w i = 1" and K: "sessions_K w"
    and ok: "packets_ok (w_ppool w)" and free: "0 < free_packets (w_ppool w)"
    and os: "\<forall>tr a k. posted_ok (e_os E tr (OS_WSASend i a k)) \<and> posted_ok (e_os E tr (OS_WSARecv i a k))"
  shows "\<exists>w' j. Session_Connect E w i = Inr (w', True) \<and> sstate w' i = 2 \<and>
    (\<forall>k. k \<noteq> i \<longrightarrow> sstate w' k = sstate w k \<and> sess w' k = sess w k) \<and> listening w' i \<and> send_ok w' i \<and>
    se_isSending (sess w' i) \<and>
    send_pending w' i = slice_fun (welcome_bytes (ps_obj (slot_of (w_ppool w) j)) (se_handle (sess w i))) 0
       (5 + length (print_lld (se_handle (sess w i)))) \<and>
    ppool_ext (w_ppool w) (w_ppool w') \<and> free_packets (w_ppool w') = free_packets (w_ppool w) \<and>
    refs w' i = refs w i + 2 \<and> (\<forall>k. k \<noteq> i \<longrightarrow> refs w' k = refs w k) \<and> w_sessionPtrs w' = w_sessionPtrs w \<and>
    w_pendingAccepts w' = w_pendingAccepts w \<and> pool_N (w_spool w') = pool_N (w_spool w) \<and>
    w_trace w' = w_trace w @ [OS_WSASend i (ov_recvPos (se_sendOv (sess w i))) (5 + length (print_lld (se_handle (sess w i)))),
      OS_WSARecv i (ov_sendPos (se_recvOv (sess w i))) (rb_size (ov_buffer (se_recvOv (sess w i))))]"
proof -
  have so: "send_ok w i" and ns: "\<not> se_isSending (sess w i)" and ph: "se_packetHandler (sess w i)"
    and room: "25 \<le> ov_room (se_sendOv (sess w i))" and r: "refs w i + 6 < 2 ^ 64"
    and rv: "ov_inv (se_recvOv (sess w i))" "4 \<le> rb_size (ov_buffer (se_recvOv (sess w i)))"
      "ov_sendPos (se_recvOv (sess w i)) = ov_recvPos (se_recvOv (sess w i))"
      "\<not> sptr_pool (ov_sessionPtr (se_recvOv (sess w i)))"
    using a by (auto simp: accepted_def Let_def)
  note S = send_okD [OF so]
  note D = linkedD [OF S(1)]
  let ?h = "se_handle (sess w i)"
  let ?n = "5 + length (print_lld ?h)"
  obtain ss where m: "moved_to (sp_set (w_spool w)) ss i 2"
    and set: "SparsePool_MoveToState (session_host E) w ?h 2 = Inr (with_set w ss)"
    using state_change_eq [of w i ?h 2 E] D K by auto
  let ?w1 = "with_set w ss"
  have wf1: "swf ?w1 i" by (rule with_set_swf [OF D(1) m])
  obtain j p where acq: "PacketHandler_AcquirePacket ?w1 =
      Inr (?w1\<lparr> w_ppool := p \<rparr>, \<lparr> sptr_pool = True, sptr_handle = pool_handle (w_ppool w) j \<rparr>)"
    and t: "taken (w_ppool w) p j (ps_obj (slot_of (w_ppool w) j))"
    using AcquirePacket_taken [of ?w1] ok free by auto
  note T = takenD [OF t]
  let ?blk = "welcome_bytes (ps_obj (slot_of (w_ppool w) j)) ?h"
  let ?p3 = "upd_slot p j (\<lambda>s. s\<lparr> ps_obj := ?blk \<rparr>)"
  let ?w3 = "?w1\<lparr> w_ppool := ?p3 \<rparr>"
  have t3: "taken (w_ppool w) ?p3 j ?blk" by (rule taken_store [OF t])
  note T3 = takenD [OF t3]
  have so3: "send_ok ?w3 i" using send_ok_with_set [OF so m] by simp
  have sz: "header_size ?blk 0 = ?n" "?n \<le> 25" using print_lld_text(2) [of ?h] by (simp_all add: welcome_bytes_fields)
  have snd3: "Session_SendPacket E ?w3 i ?blk = Inr (touch ?w3 i
      (\<lambda>s. s\<lparr> se_isSending := True, se_sendOv := send_block (se_handle s) True (send_more (slice_fun ?blk 0 ?n) (se_sendOv s)) \<rparr>)
      (\<lambda>n. n + 1) [OS_WSASend i (ov_recvPos (se_sendOv (sess w i))) ?n], True)" (is "_ = Inr (?w4, True)")
    using SendPacket_starts [OF so3, of ?blk E] sz room ns os by (auto simp: kMaxPacketSize_def)
  have l3: "linked ?w3 i" by (rule send_okD(1) [OF so3])
  have l4: "linked ?w4 i" using l3 r D by (intro linked_touch) auto
  have "ov_sendPos (se_recvOv (sess ?w4 i)) < ov_recvPos (se_recvOv (sess ?w4 i)) + rb_size (ov_buffer (se_recvOv (sess ?w4 i)))"
    using rv by simp
  then have rcv: "Session_RegisterRecv E ?w4 i = Inr (touch ?w4 i
      (\<lambda>s. s\<lparr> se_recvOv := recv_block (se_handle s) True (se_recvOv s) \<rparr>) (\<lambda>n. n + 1)
      [OS_WSARecv i (ov_sendPos (se_recvOv (sess w i))) (rb_size (ov_buffer (se_recvOv (sess w i))))], True)" (is "_ = Inr (?w5, True)")
    using RegisterRecv_eq [OF l4, of _ True E] rv os by (simp add: recv_len_eq)
  have p5: "w_ppool ?w5 = ?p3" by simp
  have p5': "packets_ok (w_ppool ?w5)" "j < pool_N (w_ppool ?w5)" "pool_state (w_ppool ?w5) j \<noteq> 0"
    "ps_refCount (slot_of (w_ppool ?w5) j) = 1" unfolding p5 using T3 by simp_all
  obtain q where del: "SharedPoolPtr_delete packet_host ?w5 \<lparr> sptr_pool = True, sptr_handle = pool_handle (w_ppool w) j \<rparr> =
      Inr (?w5\<lparr> w_ppool := q \<rparr>)" and ret: "returned ?p3 q j"
    using packet_delete [OF p5' T(7)] p5 by auto
  let ?w' = "?w5\<lparr> w_ppool := q \<rparr>"
  have conn: "Session_Connect E w i = Inr (?w', True)"
  proof -
    have "SessionManager_ConnectSession E w ?h = Inr ?w1"
      using set by (simp add: SessionManager_ConnectSession_def)
    moreover have "packet_data (?w1\<lparr> w_ppool := p \<rparr>) \<lparr> sptr_pool = True, sptr_handle = pool_handle (w_ppool w) j \<rparr> =
        Inr (ps_obj (slot_of (w_ppool w) j))"
      using T by (subst packet_access(1) [where j = j]) simp_all
    moreover have "packet_store (?w1\<lparr> w_ppool := p \<rparr>) \<lparr> sptr_pool = True, sptr_handle = pool_handle (w_ppool w) j \<rparr> ?blk = Inr ?w3"
      using T by (subst packet_access(2) [where j = j]) simp_all
    ultimately show ?thesis
      using D st ph acq welcome_block_eq snd3 rcv del
      by (simp add: Session_Connect_def GetState_sstate del: touch_touch touch_other)
  qed
  have inv4: "ov_inv (send_more (slice_fun ?blk 0 ?n) (se_sendOv (sess w i)))"
    and pend4: "ov_pending (send_more (slice_fun ?blk 0 ?n) (se_sendOv (sess w i))) = slice_fun ?blk 0 ?n"
    using send_more_facts [OF S(3), of "slice_fun ?blk 0 ?n"] sz room S(10) [OF ns] by (simp_all add: ov_pending_def)
  have l': "linked ?w' i" using l3 D r by (simp add: linked_def)
  have li: "listening ?w' i"
    using l' ph rv r D by (auto simp: listening_def Let_def recv_block_def ov_room_def ov_inv_def)
  have so': "send_ok ?w' i" "send_pending ?w' i = ov_pending (send_more (slice_fun ?blk 0 ?n) (se_sendOv (sess w i)))"
    by (rule send_ok_posted [OF l' _ _ inv4]; use D r S(10) [OF ns] in simp)+
  have ext: "ppool_ext (w_ppool w) q" by (rule taken_returned_ext [OF t3 ppool_ext_refl [OF T3(4)] ret])
  have fr: "free_packets q = free_packets (w_ppool w)" using returned_free [OF ret] T3(8) by simp
  show ?thesis
    using conn li so' ext fr pend4 with_set_states(1) [OF m] moved_toD(2) [OF m]
    by (intro exI [of _ ?w'] exI [of _ j]) (simp add: sstate_def)
qed


text \<open>A pending session 0 of a server whose session 1 exists as well.\<close>

definition sample_accepted :: "unit world" where
  "sample_accepted = touch (sample_world 2 1 4096 1 ()) 0
     (\<lambda>s. s\<lparr> se_recvOv := OverlappedEx_new 4096 \<rparr>) (\<lambda>n. n) []"

lemma sample_accepted_facts:
  "accepted sample_accepted 0" "sessions_K sample_accepted" "packets_ok (w_ppool sample_accepted)"
  "free_packets (w_ppool sample_accepted) = 1" "sstate sample_accepted 0 = 1"
proof -
  have "send_ok (sample_world 2 1 4096 1 ()) 0" by (simp add: sample_send_ok)
  then show "accepted sample_accepted 0"
    by (auto simp: sample_accepted_def accepted_def send_ok_def linked_def Let_def OverlappedEx_new_def ov_room_def ov_inv_def)
  show "sessions_K sample_accepted" using sample_sessions_K [of 2 1 4096 1 "()"] by (simp add: sample_accepted_def sessions_K_def)
  show "packets_ok (w_ppool sample_accepted)" "free_packets (w_ppool sample_accepted) = 1" "sstate sample_accepted 0 = 1"
    by (simp_all add: sample_accepted_def)
qed


end
