(* ===== verification/Accept_Complete.thy ===== *)
theory Accept_Complete
  imports Accept_Props Lifecycle
begin

section \<open>An accept completes\<close>

text \<open>
  The worker thread, the listener, the session manager, the session and the packet pool together: the
  completion of an \<open>AcceptEx\<close> first posts new accepts, then connects the session. \<open>awaiting\<close>: a posted
  session that is ready for its connection as soon as its receive block lets go of it.
\<close>

definition awaiting :: "'db world \<Rightarrow> nat \<Rightarrow> bool" where
  "awaiting w i \<longleftrightarrow> posted w i \<and> accepted (touch w i (ov_unlink RecvOv) (\<lambda>n. n) []) i"

definition takes_connections :: "'db env \<Rightarrow> bool" where
  "takes_connections E \<longleftrightarrow> (\<forall>tr i. fst (e_os E tr (OS_SetAcceptContext i)) \<noteq> SOCKET_ERROR \<and>
     fst (e_os E tr (OS_SetNoDelay i)) \<noteq> SOCKET_ERROR)"

lemma accept_ready_touch: "accept_ready w \<Longrightarrow> swf w i \<Longrightarrow> sstate w i \<noteq> 0 \<Longrightarrow> accept_ready (touch w i F R cs)"
  using swf_touch [of w i i F R cs] by (auto simp: accept_ready_def swf_def in_state_def sstate_def)

lemma accepted_cong:
  assumes "accepted v i" and "sess w i = sess v i" and "w_sessionPtrs w i = w_sessionPtrs v i"
    and "swf w i" and "1 < refs w i" and "refs w i + 6 < 2 ^ 64"
  shows "accepted w i"
  using assms by (simp add: accepted_def send_ok_def linked_def Let_def)

lemma Decrement_refills:
  assumes "accept_ready w" and "takes_accepts E" and "0 < w_pendingAccepts w" and "w_pendingAccepts w \<le> kMaxAccept"
  shows "\<exists>w' is. Listener_DecrementPendingAccepts E w = Inr w' \<and>
    accepts_posted (w\<lparr> w_pendingAccepts := w_pendingAccepts w - 1 \<rparr>) w' is \<and> accept_ready w' \<and>
    pool_N (w_spool w') = pool_N (w_spool w) \<and>
    length is = min (Suc kMaxAccept - w_pendingAccepts w) (card (in_state (sp_set (w_spool w)) 0))"
proof -
  let ?v = "w\<lparr> w_pendingAccepts := w_pendingAccepts w - 1 \<rparr>"
  have "accept_ready ?v" using assms(1) by (simp add: accept_ready_def sess_def)
  moreover have "w_pendingAccepts ?v \<le> kMaxAccept" using assms(4) by simp
  ultimately obtain w' "is" where w': "PostAccept_loop E ?v = Some (Inr (w', w_pendingAccepts w' = kMaxAccept))"
    "accepts_posted ?v w' is" "accept_ready w'" "pool_N (w_spool w') = pool_N (w_spool ?v)"
    "length is = min (kMaxAccept - w_pendingAccepts ?v) (card (in_state (sp_set (w_spool ?v)) 0))"
    using PostAccept_loop_posts [of ?v E] assms(2) by blast
  have "sub64 (w_pendingAccepts w) 1 = w_pendingAccepts w - 1"
    using assms(3,4) by (intro sub64_id) (simp_all add: kMaxAccept_def)
  then have "Listener_DecrementPendingAccepts E w = Inr w'"
    using w'(1) by (simp add: Listener_DecrementPendingAccepts_def Listener_PostAccept_def loop_result_def)
  moreover have "kMaxAccept - w_pendingAccepts ?v = Suc kMaxAccept - w_pendingAccepts w" using assms(3,4) by simp
  ultimately show ?thesis using w' by auto
qed

lemma HandleAccept_connects:
  assumes wf: "swf w i" and os: "takes_connections E"
    and con: "Session_Connect E (touch w i (\<lambda>s. s) (\<lambda>n. n) [OS_SetAcceptContext i, OS_SetNoDelay i]) i = Inr (w', True)"
  shows "Listener_HandleAccept E w i = Inr (w', True)"
  using assms by (simp add: Listener_HandleAccept_def Let_def os_do_touch [where i = i] takes_connections_def)

lemma connected_touch:
  assumes "listening w i" and "send_ok w i" and "1 < R (refs w i)" and "R (refs w i) \<le> refs w i"
  shows "listening (touch w i (\<lambda>s. s) R cs) i" and "send_ok (touch w i (\<lambda>s. s) R cs) i"
  using assms by (auto simp: listening_def send_ok_def linked_def Let_def)

lemma unlink_copy:
  assumes wf: "swf w i" and p: "ov_sessionPtr (get_ov f (sess w i)) = \<lparr> sptr_pool = True, sptr_handle = h \<rparr>"
    and h: "who_of h = i" and r: "0 < refs w i" "refs w i + 2 < 2 ^ 64"
  shows "ov_ptr_Reset E (touch w i (\<lambda>s. s) (\<lambda>n. n + 1) []) i f = Inr (touch w i (ov_unlink f) (\<lambda>n. n) [])"
  using assms by (subst ov_ptr_Reset_keep) (auto intro!: touch_cong)

text \<open>The calls of a connection: both options, the welcome packet, the first receive.\<close>

definition connect_calls :: "'db world \<Rightarrow> nat \<Rightarrow> os_call list" where
  "connect_calls w i =
     [OS_SetAcceptContext i, OS_SetNoDelay i,
      OS_WSASend i (ov_recvPos (se_sendOv (sess w i))) (5 + length (print_lld (se_handle (sess w i)))),
      OS_WSARecv i (ov_sendPos (se_recvOv (sess w i))) (rb_size (ov_buffer (se_recvOv (sess w i))))]"

lemma DispatchAccept_connects:
  assumes a: "accepted w i" and st: "sstate w i = 1" and ls: "se_listener (sess w i)" and K: "sessions_K w"
    and ok: "packets_ok (w_ppool w)" "0 < free_packets (w_ppool w)" and os: "takes_connections E"
    and io: "\<forall>tr a k. posted_ok (e_os E tr (OS_WSASend i a k)) \<and> posted_ok (e_os E tr (OS_WSARecv i a k))"
    and h: "who_of h = i" and r: "1 < refs w i"
  shows "\<exists>w'. IocpCore_DispatchAccept E w \<lparr> sptr_pool = True, sptr_handle = h \<rparr> = Inr w' \<and> sstate w' i = 2 \<and>
    (\<forall>k. k \<noteq> i \<longrightarrow> sstate w' k = sstate w k \<and> sess w' k = sess w k \<and> refs w' k = refs w k) \<and> listening w' i \<and> send_ok w' i \<and>
    se_isSending (sess w' i) \<and> refs w' i = refs w i + 2 \<and> w_sessionPtrs w' = w_sessionPtrs w \<and>
    w_pendingAccepts w' = w_pendingAccepts w \<and> pool_N (w_spool w') = pool_N (w_spool w) \<and>
    free_packets (w_ppool w') = free_packets (w_ppool w) \<and> w_trace w' = w_trace w @ connect_calls w i"
proof -
  let ?u = "touch w i (\<lambda>s. s) (\<lambda>n. n) [OS_SetAcceptContext i, OS_SetNoDelay i]"
  have wf: "swf w i" using a send_okD(1) linkedD(1) by (auto simp: accepted_def)
  have "refs w i + 6 < 2 ^ 64" using a by (simp add: accepted_def)
  then have u: "accepted ?u i" "sstate ?u i = 1" "sessions_K ?u" "packets_ok (w_ppool ?u)" "0 < free_packets (w_ppool ?u)"
    using accepted_cong [OF a, of ?u] wf r st K ok by (simp_all add: sessions_K_def)
  from Connect_starts [OF u io] obtain w' where
    w': "Session_Connect E ?u i = Inr (w', True)" "sstate w' i = 2"
      "\<forall>k. k \<noteq> i \<longrightarrow> sstate w' k = sstate ?u k \<and> sess w' k = sess ?u k" "listening w' i" "send_ok w' i"
      "se_isSending (sess w' i)" "free_packets (w_ppool w') = free_packets (w_ppool ?u)" "refs w' i = refs ?u i + 2"
      "\<forall>k. k \<noteq> i \<longrightarrow> refs w' k = refs ?u k" "w_sessionPtrs w' = w_sessionPtrs ?u" "w_pendingAccepts w' = w_pendingAccepts ?u"
      "pool_N (w_spool w') = pool_N (w_spool ?u)"
    and tr: "w_trace w' = w_trace ?u @ [OS_WSASend i (ov_recvPos (se_sendOv (sess ?u i))) (5 + length (print_lld (se_handle (sess ?u i)))),
      OS_WSARecv i (ov_sendPos (se_recvOv (sess ?u i))) (rb_size (ov_buffer (se_recvOv (sess ?u i))))]"
    by blast
  have "Listener_HandleAccept E w i = Inr (w', True)" by (rule HandleAccept_connects [OF wf os w'(1)])
  then have "IocpCore_DispatchAccept E w \<lparr> sptr_pool = True, sptr_handle = h \<rparr> = Inr w'"
    using wf ls via_eq [OF wf h, of E] by (simp add: IocpCore_DispatchAccept_def)
  moreover have "w_trace w' = w_trace w @ connect_calls w i" using tr by (simp add: connect_calls_def)
  ultimately show ?thesis using w' by (intro exI [of _ w']) simp
qed

subsection \<open>The round of the worker thread\<close>

lemma awaitingD:
  assumes "awaiting w i"
  shows "swf w i" and "sstate w i = 1" and "refs w i = 2" and "se_listener (sess w i)"
    and "ov_ioType (se_recvOv (sess w i)) = IO_kAccept" and "who_of (se_handle (sess w i)) = i"
    and "ov_sessionPtr (se_recvOv (sess w i)) = \<lparr> sptr_pool = True, sptr_handle = se_handle (sess w i) \<rparr>"
    and "accepted (touch w i (ov_unlink RecvOv) (\<lambda>n. n) []) i"
  using assms by (simp_all add: awaiting_def posted_def linked_def)

text \<open>What the new accepts leave of a session that is not idle.\<close>

lemma accepts_posted_keep:
  assumes "accepts_posted v w' is" and "sstate v i \<noteq> 0" and "swf v i"
  shows "i \<notin> set is" and "sess w' i = sess v i" and "refs w' i = refs v i" and "sstate w' i = sstate v i"
    and "w_sessionPtrs w' i = w_sessionPtrs v i"
proof -
  show i: "i \<notin> set is" using assms by (auto simp: accepts_posted_def in_state_def sstate_def)
  show "sess w' i = sess v i" "refs w' i = refs v i" "sstate w' i = sstate v i" "w_sessionPtrs w' i = w_sessionPtrs v i"
    using assms(1) i by (simp_all add: accepts_posted_def)
qed

lemma Dispatch_accept_connects:
  assumes a: "awaiting v i" and s: "sess w i = sess v i" "w_sessionPtrs w i = w_sessionPtrs v i" "sstate w i = 1" "refs w i = 3"
    and wf: "swf w i" and K: "sessions_K w" and ok: "packets_ok (w_ppool w)" "0 < free_packets (w_ppool w)"
    and os: "takes_connections E"
    and io: "\<forall>tr a k. posted_ok (e_os E tr (OS_WSASend i a k)) \<and> posted_ok (e_os E tr (OS_WSARecv i a k))"
  shows "\<exists>w'. IocpCore_Dispatch E w i RecvOv n = Inr w' \<and> sstate w' i = 2 \<and>
    (\<forall>k. k \<noteq> i \<longrightarrow> sstate w' k = sstate w k \<and> sess w' k = sess w k \<and> refs w' k = refs w k) \<and> listening w' i \<and> send_ok w' i \<and>
    se_isSending (sess w' i) \<and> refs w' i = 4 \<and> w_sessionPtrs w' = w_sessionPtrs w \<and>
    w_pendingAccepts w' = w_pendingAccepts w \<and> pool_N (w_spool w') = pool_N (w_spool w) \<and>
    free_packets (w_ppool w') = free_packets (w_ppool w) \<and> w_trace w' = w_trace w @ connect_calls v i"
proof -
  note A = awaitingD [OF a]
  let ?h = "se_handle (sess v i)" and ?w2 = "touch w i (ov_unlink RecvOv) (\<lambda>n. n) []"
  let ?p = "\<lparr> sptr_pool = True, sptr_handle = ?h \<rparr>"
  have pre: "ov_ptr_copy E w i RecvOv = Inr (touch w i (\<lambda>s. s) (\<lambda>n. n + 1) [], ?p)"
    "ov_ptr_Reset E (touch w i (\<lambda>s. s) (\<lambda>n. n + 1) []) i RecvOv = Inr ?w2"
    using A s wf unlink_copy [of w i RecvOv ?h E] by (simp_all add: ov_ptr_copy_eq)
  have "accepted ?w2 i" using accepted_cong [OF A(8), of ?w2] s wf by simp
  from DispatchAccept_connects [OF this _ _ _ _ _ os io A(6)] obtain w1 where
    w1: "IocpCore_DispatchAccept E ?w2 ?p = Inr w1" "sstate w1 i = 2"
      "\<forall>k. k \<noteq> i \<longrightarrow> sstate w1 k = sstate ?w2 k \<and> sess w1 k = sess ?w2 k \<and> refs w1 k = refs ?w2 k" "listening w1 i"
      "send_ok w1 i" "se_isSending (sess w1 i)" "refs w1 i = refs ?w2 i + 2" "w_sessionPtrs w1 = w_sessionPtrs ?w2"
      "w_pendingAccepts w1 = w_pendingAccepts ?w2" "pool_N (w_spool w1) = pool_N (w_spool ?w2)"
      "free_packets (w_ppool w1) = free_packets (w_ppool ?w2)" "w_trace w1 = w_trace ?w2 @ connect_calls ?w2 i"
    using s A(4) K ok by (auto simp: sessions_K_def)
  have swf1: "swf w1 i" by (rule linkedD(1) [OF send_okD(1) [OF w1(5)]])
  let ?w' = "touch w1 i (\<lambda>s. s) (\<lambda>n. n - 1) []"
  have "SharedPoolPtr_delete (session_host E) w1 ?p = Inr ?w'"
    using ptr_delete_keep [OF swf1 A(6)] w1(7) s(4) by simp
  then have "IocpCore_Dispatch E w i RecvOv n = Inr ?w'"
    using pre w1(1) wf A(5) s(1) by (simp add: IocpCore_Dispatch_def)
  moreover have "listening ?w' i" "send_ok ?w' i" using connected_touch [OF w1(4,5)] w1(7) s(4) by simp_all
  moreover have "connect_calls ?w2 i = connect_calls v i" using s(1) by (simp add: connect_calls_def)
  ultimately show ?thesis using w1 s by (intro exI [of _ ?w']) simp
qed

text \<open>C10: When the accept of a session completes, one round of the worker thread returns and goes on. It first
  posts new accepts, on as many idle sessions as there are or until \<open>kMaxAccept\<close> are pending, then connects the
  session: it is in the connected state with its welcome packet being sent and its first receive posted, held by
  its manager and by these two operations. The Windows calls are made in this order; no other session
  changes, and no packet is lost.\<close>

theorem WorkerThread_accept_completes:
  assumes "awaiting w i" and "accept_ready w" and "0 < w_pendingAccepts w" and "w_pendingAccepts w \<le> kMaxAccept"
    and "sessions_K w" and "packets_ok (w_ppool w)" and "0 < free_packets (w_ppool w)"
    and "takes_accepts E" and "takes_connections E"
    and "\<forall>tr a k. posted_ok (e_os E tr (OS_WSASend i a k)) \<and> posted_ok (e_os E tr (OS_WSARecv i a k))"
    and "co_ok c" and "co_target c = Some (i, RecvOv)"
  shows "\<exists>w' is. IocpCore_WorkerThread_round E sd w c = Inr (w', True) \<and>
    sstate w' i = 2 \<and> listening w' i \<and> send_ok w' i \<and> se_isSending (sess w' i) \<and> refs w' i = 3 \<and>
    distinct is \<and> set is \<subseteq> in_state (sp_set (w_spool w)) 0 \<and> (\<forall>k \<in> set is. posted w' k) \<and>
    length is = min (Suc kMaxAccept - w_pendingAccepts w) (card (in_state (sp_set (w_spool w)) 0)) \<and>
    w_pendingAccepts w' + 1 = w_pendingAccepts w + length is \<and>
    (\<forall>k. k \<noteq> i \<and> k \<notin> set is \<longrightarrow> sess w' k = sess w k \<and> refs w' k = refs w k \<and> sstate w' k = sstate w k) \<and>
    free_packets (w_ppool w') = free_packets (w_ppool w) \<and>
    w_trace w' = w_trace w @ map OS_AcceptEx is @ connect_calls w i"
proof -
  note A = awaitingD [OF assms(1)]
  let ?h = "se_handle (sess w i)" and ?w1 = "touch w i (\<lambda>s. s) (\<lambda>n. n + 1) []"
  let ?p = "\<lparr> sptr_pool = True, sptr_handle = ?h \<rparr>" and ?v = "?w1\<lparr> w_pendingAccepts := w_pendingAccepts w - 1 \<rparr>"
  have copy: "ov_ptr_copy E w i RecvOv = Inr (?w1, ?p)" using A by (simp add: ov_ptr_copy_eq)
  have "accept_ready ?w1" using assms(2) A(1,2) by (simp add: accept_ready_touch)
  from Decrement_refills [OF this assms(8)] assms(3,4) obtain w2 "is" where
    w2: "Listener_DecrementPendingAccepts E ?w1 = Inr w2" "accepts_posted ?v w2 is" "accept_ready w2"
      "pool_N (w_spool w2) = pool_N (w_spool w)"
      "length is = min (Suc kMaxAccept - w_pendingAccepts w) (card (in_state (sp_set (w_spool w)) 0))"
    by (auto simp: touch_def)
  have v: "sess ?v k = sess w k" "refs ?v k = (if k = i then 3 else refs w k)" "sstate ?v k = sstate w k" for k
    using A(3) by (auto simp: touch_def sess_def refs_def sstate_def)
  have "swf ?v i" using A(1) by (simp add: swf_def touch_def)
  note keep = accepts_posted_keep [OF w2(2) _ this]
  have i: "i \<notin> set is" "sess w2 i = sess w i" "refs w2 i = 3" "sstate w2 i = 1" "w_sessionPtrs w2 i = w_sessionPtrs w i"
    using keep v A(2) by simp_all
  have wf2: "swf w2 i" using w2(3,4) A(1) by (simp add: swf_def accept_ready_def)
  have "sessions_K w2" "packets_ok (w_ppool w2)" "0 < free_packets (w_ppool w2)"
    using w2(2) assms(5-7) by (simp_all add: accepts_posted_def sessions_K_def)
  from Dispatch_accept_connects [OF assms(1) i(2,5,4,3) wf2 this assms(9,10)] obtain w3 where
    w3: "IocpCore_Dispatch E w2 i RecvOv (co_bytes c) = Inr w3" "sstate w3 i = 2"
      "\<forall>k. k \<noteq> i \<longrightarrow> sstate w3 k = sstate w2 k \<and> sess w3 k = sess w2 k \<and> refs w3 k = refs w2 k" "listening w3 i"
      "send_ok w3 i" "se_isSending (sess w3 i)" "refs w3 i = 4" "w_sessionPtrs w3 = w_sessionPtrs w2"
      "w_pendingAccepts w3 = w_pendingAccepts w2" "pool_N (w_spool w3) = pool_N (w_spool w2)"
      "free_packets (w_ppool w3) = free_packets (w_ppool w2)" "w_trace w3 = w_trace w2 @ connect_calls w i"
    by blast
  have swf3: "swf w3 i" by (rule linkedD(1) [OF send_okD(1) [OF w3(5)]])
  let ?w' = "touch w3 i (\<lambda>s. s) (\<lambda>n. n - 1) []"
  have "SharedPoolPtr_delete (session_host E) w3 ?p = Inr ?w'" using ptr_delete_keep [OF swf3 A(6)] w3(7) by simp
  then have "IocpCore_WorkerThread_round E sd w c = Inr (?w', True)"
    using copy A w2(1) w3(1) assms(11,12) via_eq [of ?w1 i ?h E] by (simp add: IocpCore_WorkerThread_round_def)
  moreover have "listening ?w' i" "send_ok ?w' i" using connected_touch [OF w3(4,5)] w3(7) by simp_all
  moreover have "posted ?w' k" if "k \<in> set is" for k
  proof -
    have "posted w2 k" "k \<noteq> i" using w2(2) that i(1) by (auto simp: accepts_posted_def)
    moreover have "swf ?w' k" using \<open>posted w2 k\<close> w3(10) swf3 by (auto simp: posted_def linked_def swf_def touch_def)
    ultimately show ?thesis using w3(3,8) by (simp add: posted_def linked_def)
  qed
  ultimately show ?thesis
    using w2(2,5) w3 v i(1) assms(3) by (intro exI [of _ ?w'] exI [of _ "is"]) (simp add: accepts_posted_def)
qed

text \<open>The sessions that \<open>PostAccept\<close> posts are of this kind, when the buffers have room for the welcome packet.\<close>

lemma posted_awaiting:
  assumes "posted w i" and "fresh_accept s (sess w i)"
    and "25 \<le> rb_size (ov_buffer (se_sendOv s))" "rb_size (ov_buffer (se_sendOv s)) < 2 ^ 32"
    and "4 \<le> rb_size (ov_buffer (se_recvOv s))" "rb_size (ov_buffer (se_recvOv s)) < 2 ^ 32"
  shows "awaiting w i"
  using assms
  by (simp add: awaiting_def accepted_def send_ok_def linked_touch posted_def fresh_accept_def accept_block_def ov_renewed_def
      ov_clear_def ov_inv_def ov_room_def ring_Reset_def Let_def)

lemma new_world_accepts:
  assumes "n < 2 ^ 32" and "25 \<le> b" and "b < 2 ^ 32"
  shows "\<exists>w is. Listener_PostAccept sample_env ((world_new n m b ())\<lparr> w_managerInit := True \<rparr>) = Inr (w, w_pendingAccepts w = kMaxAccept) \<and>
    accept_ready w \<and> length is = min kMaxAccept n \<and> w_pendingAccepts w = length is \<and> (\<forall>i \<in> set is. awaiting w i) \<and>
    in_state (sp_set (w_spool w)) 0 = {..<n} - set is \<and> set is \<subseteq> {..<n} \<and> distinct is \<and> sessions_K w \<and>
    w_ppool w = SparsePool_new (\<lambda>_. 0) m 2"
proof -
  let ?w = "(world_new n m b ())\<lparr> w_managerInit := True \<rparr>"
  have idle: "in_state (sp_set (w_spool ?w)) 0 = {..<n}"
    by (auto simp: in_state_def world_new_def SparsePool_new_def SparseSet_init_def)
  have wf: "pool_wf (w_spool ?w)" using pool_okD(1) [OF pool_ok_new [of 4 n]] assms by (simp add: world_new_def)
  have K: "sessions_K ?w" by (simp add: sessions_K_def world_new_def SparsePool_new_def SparseSet_init_def)
  have new: "sess ?w i = Session_new b" "\<not> sptr_pool (w_sessionPtrs ?w i)" if "i < n" for i
    using that by (simp_all add: sess_def world_new_def Slot_new_def)
  then have "accept_ready ?w" using wf unfolding accept_ready_def idle
    by (simp add: null_session_def Session_new_def OverlappedEx_new_def)
  moreover have "takes_accepts sample_env" by (simp add: takes_accepts_def)
  moreover have "w_pendingAccepts ?w \<le> kMaxAccept" by (simp add: world_new_def)
  ultimately obtain w "is" where r: "PostAccept_loop sample_env ?w = Some (Inr (w, w_pendingAccepts w = kMaxAccept))"
    "accepts_posted ?w w is" "accept_ready w" "length is = min (kMaxAccept - w_pendingAccepts ?w) (card (in_state (sp_set (w_spool ?w)) 0))"
    using PostAccept_loop_posts by blast
  have "length is = min kMaxAccept n" using r(4) unfolding idle by (simp add: world_new_def)
  moreover have "set is \<subseteq> {..<n}" using r(2) unfolding accepts_posted_def idle by blast
  moreover have "awaiting w i" if "i \<in> set is" for i
  proof (rule posted_awaiting)
    have i: "i < n" using that \<open>set is \<subseteq> {..<n}\<close> by blast
    show "posted w i" "fresh_accept (Session_new b) (sess w i)"
      using r(2) that new(1) [OF i] by (auto simp: accepts_posted_def)
  qed (use assms in \<open>simp_all add: Session_new_def OverlappedEx_new_def\<close>)
  ultimately show ?thesis
    using r K unfolding accepts_posted_def idle
    by (intro exI [of _ w] exI [of _ "is"]) (simp add: Listener_PostAccept_def loop_result_def sessions_K_def world_new_def)
qed

text \<open>A new server with one session more than \<open>kMaxAccept\<close>: all but one wait for connections. One connects, and
  the last session takes its place.\<close>

theorem WorkerThread_accept_completes_witness:
  "\<exists>w i j w'. Listener_PostAccept sample_env ((world_new 1001 2 4096 ())\<lparr> w_managerInit := True \<rparr>) = Inr (w, True) \<and>
     IocpCore_WorkerThread_round sample_env False w \<lparr> co_ok = True, co_bytes = 0, co_error = 0, co_target = Some (i, RecvOv) \<rparr> =
       Inr (w', True) \<and> sstate w i = 1 \<and> sstate w' i = 2 \<and> listening w' i \<and> sstate w j = 0 \<and> posted w' j \<and>
     w_pendingAccepts w' = 1000 \<and> w_trace w' = w_trace w @ OS_AcceptEx j # connect_calls w i"
proof -
  obtain w "is" where w: "Listener_PostAccept sample_env ((world_new 1001 2 4096 ())\<lparr> w_managerInit := True \<rparr>) = Inr (w, w_pendingAccepts w = kMaxAccept)"
    "accept_ready w" "length is = min kMaxAccept 1001" "w_pendingAccepts w = length is" "\<forall>i \<in> set is. awaiting w i"
    "in_state (sp_set (w_spool w)) 0 = {..<1001} - set is" "set is \<subseteq> {..<1001}" "distinct is" "sessions_K w"
    "w_ppool w = SparsePool_new (\<lambda>_. 0) 2 2"
    using new_world_accepts [of 1001 4096 2] by auto
  have n: "length is = 1000" "w_pendingAccepts w = 1000" using w(3,4) by (simp_all add: kMaxAccept_def)
  then have i: "awaiting w (hd is)" using w(5) by (cases "is") auto
  have "card ({..<1001} - set is) = 1" using n w(7) distinct_card [OF w(8)] by (simp add: card_Diff_subset)
  then have idle: "card (in_state (sp_set (w_spool w)) 0) = 1" using w(6) by simp
  let ?c = "\<lparr> co_ok = True, co_bytes = 0, co_error = 0, co_target = Some (hd is, RecvOv) \<rparr>"
  obtain w' js where c: "IocpCore_WorkerThread_round sample_env False w ?c = Inr (w', True)" "sstate w' (hd is) = 2"
    "listening w' (hd is)" "set js \<subseteq> in_state (sp_set (w_spool w)) 0" "\<forall>k \<in> set js. posted w' k" "length js = 1"
    "w_pendingAccepts w' + 1 = w_pendingAccepts w + length js" "w_trace w' = w_trace w @ map OS_AcceptEx js @ connect_calls w (hd is)"
    using WorkerThread_accept_completes [of w "hd is" sample_env ?c False] i w(2,9,10) n idle
    by (auto simp: kMaxAccept_def takes_accepts_def takes_connections_def SOCKET_ERROR_def)
  obtain j where j: "js = [j]" using c(6) by (auto simp: length_Suc_conv)
  then have "sstate w j = 0" using c(4) by (simp add: in_state_def sstate_def)
  moreover have "sstate w (hd is) = 1" using awaitingD(2) [OF i] .
  ultimately show ?thesis using w(1) n c j
    by (intro exI [of _ w] exI [of _ "hd is"] exI [of _ j] exI [of _ w']) (simp add: kMaxAccept_def)
qed

end
