(* ===== verification/Broadcast_Props.thy ===== *)
theory Broadcast_Props
  imports Lifecycle
begin

section \<open>Broadcast: who gets a packet, and what the chat handler sends\<close>

subsection \<open>One receiver\<close>

text \<open>
  \<open>live w k\<close>: slot \<open>k\<close> holds a session that its manager and its own handle agree on, ready to
  queue packets.
\<close>

definition live :: "'db world \<Rightarrow> nat \<Rightarrow> bool" where
  "live w k \<longleftrightarrow> send_ok w k \<and> se_handle (sess w k) = pool_handle (w_spool w) k \<and>
     refs w k + (if se_isSending (sess w k) then 0 else 1) + 7 < 2 ^ 64"

lemma live_linked: "live w k \<Longrightarrow> linked w k"
  using send_okD(1) by (auto simp: live_def)

lemma live_other [simp]: "live (w\<lparr> w_ppool := p \<rparr>) k = live w k"
  by (simp add: live_def)

lemma live_only_other:
  assumes "live w j" and o: "only_session k w w'" and ne: "j \<noteq> k"
  shows "live w' j"
  using assms(1) only_sessionD(1,2) [OF o ne] only_sessionD(4-6) [OF o]
  by (auto simp: live_def send_ok_def linked_def Let_def)

text \<open>A reference more or less does not matter while enough remain.\<close>

lemma send_ok_refs:
  assumes "send_ok w k" and "0 < R (refs w k)" and "se_isSending (sess w k) \<Longrightarrow> 1 < R (refs w k)" and "R (refs w k) + 4 < 2 ^ 64"
  shows "send_ok (touch w k (\<lambda>s. s) R []) k"
  using assms by (auto simp: send_ok_def linked_def Let_def)

lemma SendToSession_ok:
  assumes lv: "live w k" and h: "who_of h = k"
    and sz: "0 < header_size blk 0" "header_size blk 0 \<le> kMaxPacketSize"
    and os: "\<forall>tr i a n. posted_ok (e_os E tr (OS_WSASend i a n))"
  shows "\<exists>w1. PacketHandler_SendToSession E w h blk = Inr w1 \<and> live w1 k \<and> only_session k w w1 \<and>
    send_pending w1 k = send_pending w k @
      (if header_size blk 0 \<le> ov_room (se_sendOv (sess w k)) then slice_fun blk 0 (header_size blk 0) else [])"
proof -
  have so: "send_ok w k" and cur: "se_handle (sess w k) = pool_handle (w_spool w) k"
    and r: "refs w k + (if se_isSending (sess w k) then 0 else 1) + 7 < 2 ^ 64"
    using lv by (auto simp: live_def)
  note D = linkedD [OF send_okD(1) [OF so]]
  have r1: "se_isSending (sess w k) \<Longrightarrow> 1 < refs w k" by (rule send_okD(4) [OF so])
  let ?p = "\<lparr> sptr_pool = True, sptr_handle = se_handle (sess w k) \<rparr>"
  let ?w0 = "touch w k (\<lambda>s. s) (\<lambda>n. n + 1) []"
  have get: "SessionManager_GetSession E w h = Inr (?w0, ?p)"
    by (rule GetSession_linked [OF send_okD(1) [OF so] h])
  have valid: "SharedPoolPtr_IsValid (session_host E) ?w0 ?p"
    using D(2,7) cur by (simp add: SharedPoolPtr_IsValid_def SparsePool_IsValid_def IsValid_iff_cur_handle)
  have so0: "send_ok ?w0 k" using so D(5) r r1 by (intro send_ok_refs) (auto split: if_splits)
  have "\<forall>tr a n. posted_ok (e_os E tr (OS_WSASend k a n))" and "refs ?w0 k + 5 < 2 ^ 64" using os r by auto
  then obtain w1 b where snd1: "Session_SendPacket E ?w0 k blk = Inr (w1, b)" "send_ok w1 k"
    "b = (header_size blk 0 \<le> ov_room (se_sendOv (sess ?w0 k)))"
    "send_pending w1 k = send_pending ?w0 k @ (if b then slice_fun blk 0 (header_size blk 0) else [])"
    "only_session k ?w0 w1"
    "refs w1 k + (if se_isSending (sess w1 k) then 0 else 1) = refs ?w0 k + (if se_isSending (sess ?w0 k) then 0 else 1)"
    using send_request_ok [OF so0 sz] by blast
  have wf1: "swf w1 k" using linkedD(1) [OF send_okD(1) [OF snd1(2)]] .
  have rc: "1 < refs w1 k" "refs w1 k < 2 ^ 64" "0 < refs w1 k - 1" "se_isSending (sess w1 k) \<Longrightarrow> 1 < refs w1 k - 1"
    using snd1(6) D(5) r r1 by (auto split: if_splits)
  have del: "SharedPoolPtr_delete (session_host E) w1 ?p = Inr (touch w1 k (\<lambda>s. s) (\<lambda>n. n - 1) [])"
    using wf1 D(2) rc by (intro ptr_delete_keep) auto
  have "only_session k w (touch w1 k (\<lambda>s. s) (\<lambda>n. n - 1) [])"
    using only_session_trans [OF only_session_trans [OF only_session_touch snd1(5)] only_session_touch] by simp
  moreover have "live (touch w1 k (\<lambda>s. s) (\<lambda>n. n - 1) []) k"
    using send_ok_refs [OF snd1(2), of "\<lambda>n. n - 1"] rc snd1(6) r only_sessionD(3,4) [OF snd1(5)] cur
    by (auto simp: live_def split: if_splits)
  ultimately show ?thesis
    using get valid snd1(1,3,4) del D(2)
    by (intro exI [of _ "touch w1 k (\<lambda>s. s) (\<lambda>n. n - 1) []"]) (simp add: PacketHandler_SendToSession_def)
qed

subsection \<open>All receivers\<close>

text \<open>What session \<open>k\<close> has waiting after a packet was offered to it or not.\<close>

definition offered :: "'db world \<Rightarrow> u8 list \<Rightarrow> nat \<Rightarrow> u8 list" where
  "offered w bs k = send_pending w k @ (if length bs \<le> ov_room (se_sendOv (sess w k)) then bs else [])"

abbreviation packet_bytes :: "bytes \<Rightarrow> u8 list" where
  "packet_bytes blk \<equiv> slice_fun blk 0 (header_size blk 0)"

text \<open>The rest of the world, which no send changes.\<close>

definition same_rest :: "'db world \<Rightarrow> 'db world \<Rightarrow> bool" where
  "same_rest w w' \<longleftrightarrow> sp_set (w_spool w') = sp_set (w_spool w) \<and> w_sessionPtrs w' = w_sessionPtrs w \<and>
     w_ppool w' = w_ppool w \<and> w_tasks w' = w_tasks w \<and> w_db w' = w_db w"

lemma broadcast_to_ok:
  assumes "distinct hs" and "\<forall>h \<in> set hs. live w (who_of h) \<and> h = pool_handle (w_spool w) (who_of h)"
    and "0 < header_size blk 0" "header_size blk 0 \<le> kMaxPacketSize"
    and "\<forall>tr i a n. posted_ok (e_os E tr (OS_WSASend i a n))"
  shows "\<exists>w'. broadcast_to E w sender blk hs = Inr w' \<and> same_rest w w' \<and>
    (\<forall>k. live w k \<longrightarrow> live w' k) \<and>
    (\<forall>k. if k \<in> who_of ` {h \<in> set hs. h \<noteq> sender} then send_pending w' k = offered w (packet_bytes blk) k else sess w' k = sess w k)"
  using assms
proof (induction hs arbitrary: w)
  case Nil
  then show ?case by (simp add: same_rest_def)
next
  case (Cons h hs)
  let ?k = "who_of h"
  have inj: "who_of g \<noteq> ?k" if "g \<in> set hs" for g
    using that Cons.prems(1,2) by (metis distinct.simps(2) list.set_intros(1,2))
  show ?case
  proof (cases "h = sender")
    case True
    have "{g \<in> set (h # hs). g \<noteq> sender} = {g \<in> set hs. g \<noteq> sender}" using True by auto
    then show ?thesis using Cons.IH [of w] Cons.prems True by simp
  next
    case False
    obtain w1 where w1: "PacketHandler_SendToSession E w h blk = Inr w1" "live w1 ?k" "only_session ?k w w1"
      "send_pending w1 ?k = offered w (packet_bytes blk) ?k"
      using SendToSession_ok [OF _ refl Cons.prems(3-5), of w h] Cons.prems(2) by (auto simp: offered_def)
    note O = only_sessionD [OF w1(3)]
    have "\<forall>g \<in> set hs. live w1 (who_of g) \<and> g = pool_handle (w_spool w1) (who_of g)"
      using Cons.prems(2) inj live_only_other [OF _ w1(3)] O(4) by auto
    then obtain w' where w': "broadcast_to E w1 sender blk hs = Inr w'" "same_rest w1 w'"
      "\<forall>k. live w1 k \<longrightarrow> live w' k"
      "\<forall>k. if k \<in> who_of ` {g \<in> set hs. g \<noteq> sender} then send_pending w' k = offered w1 (packet_bytes blk) k else sess w' k = sess w1 k"
      using Cons.IH [of w1] Cons.prems by auto
    have "same_rest w w'" using w'(2) O by (simp add: same_rest_def)
    moreover have "live w' k" if "live w k" for k
      using that w'(3) w1(2) live_only_other [OF that w1(3)] by (cases "k = ?k") auto
    moreover have "if k \<in> who_of ` {g \<in> set (h # hs). g \<noteq> sender} then send_pending w' k = offered w (packet_bytes blk) k
        else sess w' k = sess w k" for k
    proof (cases "k = ?k")
      case True
      have "k \<notin> who_of ` {g \<in> set hs. g \<noteq> sender}" using inj True by blast
      then have "sess w' k = sess w1 k" using w'(4) by simp
      then have "send_pending w' k = offered w (packet_bytes blk) k" using True w1(4) by simp
      moreover have "k \<in> who_of ` {g \<in> set (h # hs). g \<noteq> sender}"
        unfolding True by (rule imageI) (simp add: False)
      ultimately show ?thesis by (simp only: if_True)
    next
      case ne: False
      have "k \<in> who_of ` {g \<in> set (h # hs). g \<noteq> sender} \<longleftrightarrow> k \<in> who_of ` {g \<in> set hs. g \<noteq> sender}"
        using ne by auto
      moreover have "offered w1 (packet_bytes blk) k = offered w (packet_bytes blk) k" using O(1) [OF ne] by (simp add: offered_def)
      ultimately show ?thesis using w'(4) O(1) [OF ne] by simp
    qed
    ultimately show ?thesis using w1(1) w'(1) False by (intro exI [of _ w']) simp
  qed
qed

lemma Broadcast_ok:
  assumes wf: "pool_wf (w_spool w)" and K: "sessions_K w"
    and lv: "\<forall>k < pool_N (w_spool w). sstate w k = 2 \<longrightarrow> live w k"
    and sz: "0 < header_size blk 0" "header_size blk 0 \<le> kMaxPacketSize"
    and os: "\<forall>tr i a n. posted_ok (e_os E tr (OS_WSASend i a n))"
  shows "\<exists>w'. PacketHandler_Broadcast E w sender blk = Inr w' \<and> same_rest w w' \<and> (\<forall>k. live w k \<longrightarrow> live w' k) \<and>
    (\<forall>k. if k < pool_N (w_spool w) \<and> sstate w k = 2 \<and> pool_handle (w_spool w) k \<noteq> sender
         then send_pending w' k = offered w (packet_bytes blk) k else sess w' k = sess w k)"
proof -
  let ?ss = "sp_set (w_spool w)"
  have inv: "sset_inv ?ss" and N: "\<And>k. k < pool_N (w_spool w) \<Longrightarrow> k < 2 ^ 32"
    using pool_wfD(1,5) [OF wf] by auto
  obtain hs where hs: "SparseSet_GetIndicesInState ?ss 2 = Inr hs" "distinct hs" "set hs = cur_handle ?ss ` in_state ?ss 2"
    using GetIndicesInState_set [OF inv, of 2] K by (auto simp: sessions_K_def elim!: returnsE)
  have st: "in_state ?ss 2 = {k. k < pool_N (w_spool w) \<and> sstate w k = 2}"
    by (auto simp: in_state_def sstate_def)
  have "\<forall>h \<in> set hs. live w (who_of h) \<and> h = pool_handle (w_spool w) (who_of h)"
    using lv N by (auto simp: hs(3) st)
  from broadcast_to_ok [OF hs(2) this sz os, of sender]
  obtain w' where w': "broadcast_to E w sender blk hs = Inr w'" "same_rest w w'" "\<forall>k. live w k \<longrightarrow> live w' k"
    "\<forall>k. if k \<in> who_of ` {h \<in> set hs. h \<noteq> sender} then send_pending w' k = offered w (packet_bytes blk) k else sess w' k = sess w k"
    by blast
  have "k \<in> who_of ` {h \<in> set hs. h \<noteq> sender} \<longleftrightarrow>
      k < pool_N (w_spool w) \<and> sstate w k = 2 \<and> pool_handle (w_spool w) k \<noteq> sender" for k
    using N by (force simp: hs(3) st)
  then show ?thesis
    using hs(1) w' by (intro exI [of _ w']) (simp add: PacketHandler_Broadcast_def SessionManager_GetSessionsInState_def)
qed

text \<open>\<open>broadcasted w sender bs w'\<close>: every connected session but the sender was offered \<open>bs\<close>,
  and nothing else of the sessions changed.\<close>

definition broadcasted :: "'db world \<Rightarrow> u64 \<Rightarrow> u8 list \<Rightarrow> 'db world \<Rightarrow> bool" where
  "broadcasted w sender bs w' \<longleftrightarrow>
     sp_set (w_spool w') = sp_set (w_spool w) \<and> w_sessionPtrs w' = w_sessionPtrs w \<and>
     w_tasks w' = w_tasks w \<and> w_db w' = w_db w \<and> (\<forall>k. live w k \<longrightarrow> live w' k) \<and>
     (\<forall>k. if k < pool_N (w_spool w) \<and> sstate w k = 2 \<and> pool_handle (w_spool w) k \<noteq> sender
          then send_pending w' k = offered w bs k else sess w' k = sess w k)"

lemma broadcasted_ppool [simp]:
  "broadcasted w h bs (w'\<lparr> w_ppool := p \<rparr>) = broadcasted w h bs w'"
  "broadcasted (w\<lparr> w_ppool := p \<rparr>) h bs w' = broadcasted w h bs w'"
  by (simp_all add: broadcasted_def offered_def)

text \<open>What the sessions of a world must satisfy for a broadcast to work.\<close>

definition sessions_ready :: "'db world \<Rightarrow> bool" where
  "sessions_ready w \<longleftrightarrow> pool_wf (w_spool w) \<and> sessions_K w \<and>
     (\<forall>k < pool_N (w_spool w). sstate w k = 2 \<longrightarrow> live w k)"

lemma sessions_ready_ppool [simp]: "sessions_ready (w\<lparr> w_ppool := p \<rparr>) = sessions_ready w"
  by (simp add: sessions_ready_def sessions_K_def)

lemma Broadcast_broadcasts:
  assumes "sessions_ready w" and "0 < header_size blk 0" "header_size blk 0 \<le> kMaxPacketSize"
    and "\<forall>tr i a n. posted_ok (e_os E tr (OS_WSASend i a n))"
  shows "\<exists>w'. PacketHandler_Broadcast E w sender blk = Inr w' \<and> w_ppool w' = w_ppool w \<and>
    broadcasted w sender (packet_bytes blk) w'"
  using Broadcast_ok [of w blk E sender] assms
  unfolding sessions_ready_def broadcasted_def same_rest_def by blast

text \<open>C5: a broadcast reaches exactly the other connected sessions. When every connected session
  is sound and sends can be posted, \<open>Broadcast\<close> returns; each connected session whose handle is
  not the sender's has the packet appended to what it has to send, if it fits, and every other
  session, the packet pool and the task queue are unchanged.\<close>

theorem PacketHandler_Broadcast_exact:
  assumes "sessions_ready w" and "0 < header_size blk 0" and "header_size blk 0 \<le> kMaxPacketSize"
    and "\<forall>tr i a n. posted_ok (e_os E tr (OS_WSASend i a n))"
  shows "\<exists>w'. PacketHandler_Broadcast E w sender blk = Inr w' \<and> w_ppool w' = w_ppool w \<and> w_tasks w' = w_tasks w \<and>
    (\<forall>k. if k < pool_N (w_spool w) \<and> sstate w k = 2 \<and> pool_handle (w_spool w) k \<noteq> sender
         then send_pending w' k = send_pending w k @
           (if header_size blk 0 \<le> ov_room (se_sendOv (sess w k)) then slice_fun blk 0 (header_size blk 0) else [])
         else sess w' k = sess w k)"
  using Broadcast_broadcasts [OF assms, of sender] by (auto simp: broadcasted_def offered_def)

lemma sample_live [simp]:
  assumes "st < 4" "n < 2 ^ 32" "i < n" "0 < b" "b < 2 ^ 32"
  shows "live (sample_world n st b m db) i"
proof -
  have "pool_handle (w_spool (sample_world n st b m db)) i = mk_handle 0 i"
    by (simp add: sample_world_def sample_set_def cur_handle_def)
  then show ?thesis using assms sample_send_ok [of st n i b m db] by (simp add: live_def)
qed

lemma sample_sessions_ready [simp]:
  "st < 4 \<Longrightarrow> n < 2 ^ 32 \<Longrightarrow> 0 < b \<Longrightarrow> b < 2 ^ 32 \<Longrightarrow> sessions_ready (sample_world n st b m db)"
  by (simp add: sessions_ready_def)

text \<open>Three connected sessions; session 1 sends 5 bytes.\<close>

theorem PacketHandler_Broadcast_exact_witness:
  "\<exists>w'. PacketHandler_Broadcast sample_env (sample_world 3 2 4096 1 ()) 1 (set_header_size (\<lambda>_. 7) 5) = Inr w' \<and>
     w_ppool w' = w_ppool (sample_world 3 2 4096 1 ()) \<and> w_tasks w' = w_tasks (sample_world 3 2 4096 1 ()) \<and>
    (\<forall>k. if k < pool_N (w_spool (sample_world 3 2 4096 1 ())) \<and> sstate (sample_world 3 2 4096 1 ()) k = 2 \<and>
            pool_handle (w_spool (sample_world 3 2 4096 1 ())) k \<noteq> 1
         then send_pending w' k = send_pending (sample_world 3 2 4096 1 ()) k @
           (if header_size (set_header_size (\<lambda>_. 7) 5) 0 \<le> ov_room (se_sendOv (sess (sample_world 3 2 4096 1 ()) k))
            then slice_fun (set_header_size (\<lambda>_. 7) 5) 0 (header_size (set_header_size (\<lambda>_. 7) 5) 0) else [])
         else sess w' k = sess (sample_world 3 2 4096 1 ()) k)"
  by (rule PacketHandler_Broadcast_exact) (simp_all add: kMaxPacketSize_def)

end
