(* ===== verification/Handler_Props.thy ===== *)
theory Handler_Props
  imports Broadcast_Props
begin

section \<open>The packet worker: from a queued task to the sessions\<close>

subsection \<open>Running a queued task\<close>

lemma slice_header:
  assumes "slice_fun blk 0 (length bs) = bs" and "4 \<le> length bs"
  shows "header_size blk 0 = size_field bs" and "header_id blk 0 = le_value (take 2 (drop 2 bs))"
proof -
  have "slice_fun blk 0 2 = take 2 bs" using assms take_slice_fun [of 2 "length bs" blk 0] by simp
  then show "header_size blk 0 = size_field bs" by (simp add: header_at_0 get_field_def size_field_def)
  have "drop 2 (slice_fun blk 0 (length bs)) = slice_fun blk 2 (length bs - 2)"
    using drop_slice_fun [of 2 "length bs" blk 0] assms(2) by (simp only: add_0)
  moreover have "take 2 (slice_fun blk 2 (length bs - 2)) = slice_fun blk 2 2"
    using take_slice_fun [of 2 "length bs - 2" blk 2] assms(2) by simp
  ultimately have "slice_fun blk 2 2 = take 2 (drop 2 bs)" using assms(1) by simp
  then show "header_id blk 0 = le_value (take 2 (drop 2 bs))" by (simp add: header_at_0 get_field_def)
qed

lemma handlers_bound: "PacketHandler_handlers E n = Some H \<Longrightarrow> n < packet_code PKT_kCnt"
  by (auto simp: PacketHandler_handlers_def split: if_splits)

text \<open>
  A task with a well-formed packet whose handler \<open>H\<close> leaves the packets in use alone: the
  handler runs once, on a copy of the packet, and both packets are free again afterwards.
\<close>

text \<open>A queued task is not touched when another packet is returned.\<close>

abbreviation task_slot :: "task \<Rightarrow> nat" where
  "task_slot t \<equiv> who_of (sptr_handle (task_packet t))"

lemma queued_returned:
  "queued p i t bs \<Longrightarrow> returned p p' j \<Longrightarrow> task_slot t \<noteq> j \<Longrightarrow> queued p' i t bs"
  by (simp add: queued_def returned_def Let_def)

definition others_queued :: "task \<Rightarrow> bytes sparse_pool \<Rightarrow> bytes sparse_pool \<Rightarrow> bool" where
  "others_queued t p p' \<longleftrightarrow> (\<forall>i' t' bs'. queued p i' t' bs' \<longrightarrow> task_slot t' \<noteq> task_slot t \<longrightarrow> queued p' i' t' bs')"

lemma run_task_with:
  assumes q: "queued (w_ppool w) i t bs" and ok: "packets_ok (w_ppool w)" and free: "0 < free_packets (w_ppool w)"
    and bs: "4 \<le> length bs" "size_field bs = length bs" "length bs \<le> kMaxPacketSize"
    and H: "PacketHandler_handlers E (le_value (take 2 (drop 2 bs))) = Some H"
    and Q: "\<And>v p. Q (v\<lparr> w_ppool := p \<rparr>) = Q v"
    and run: "\<And>p b. packets_ok p \<Longrightarrow> free_packets p + 1 = free_packets (w_ppool w) \<Longrightarrow> slice_fun b 0 (length bs) = bs \<Longrightarrow>
      \<exists>w2. H (w\<lparr> w_ppool := p \<rparr>) i b = Inr w2 \<and> Q w2 \<and> ppool_ext p (w_ppool w2) \<and> free_packets (w_ppool w2) = free_packets p"
  shows "\<exists>w2. run_task E w t = Inr w2 \<and> Q w2 \<and> packets_ok (w_ppool w2) \<and>
    free_packets (w_ppool w2) = free_packets (w_ppool w) + 1 \<and> others_queued t (w_ppool w) (w_ppool w2)"
proof -
  let ?p = "w_ppool w" and ?h = "sptr_handle (task_packet t)"
  let ?j = "who_of ?h"
  let ?hdr = "ps_obj (slot_of ?p ?j)"
  have T0: "task_this t = i" "task_packet t = \<lparr> sptr_pool = True, sptr_handle = ?h \<rparr>" "?j < pool_N ?p"
    "pool_state ?p ?j \<noteq> 0" "ps_refCount (slot_of ?p ?j) = 1" "slice_fun ?hdr 0 (length bs) = bs"
    using q by (auto simp: queued_def Let_def)
  note hd = slice_header [OF T0(6) bs(1)]
  let ?body = "\<lambda>w1 packet blk. andThen (block_read ?hdr 0 (header_size ?hdr 0)) (\<lambda>bs.
      andThen (block_write blk 0 bs) (\<lambda>blk'. andThen (packet_store w1 packet blk') (\<lambda>w2. H w2 i blk')))"
  have "\<exists>w2 p'. with_packet w ?body = Inr (w2\<lparr> w_ppool := p' \<rparr>) \<and> Q w2 \<and> ppool_ext ?p p' \<and>
      free_packets p' = free_packets ?p"
  proof (rule with_packet_ok [OF ok free])
    fix p k assume t: "taken ?p p k (ps_obj (slot_of ?p k))"
    note T = takenD [OF t]
    let ?b = "write_bytes (ps_obj (slot_of ?p k)) 0 bs"
    let ?p2 = "upd_slot p k (\<lambda>s. s\<lparr> ps_obj := ?b \<rparr>)"
    have t2: "taken ?p ?p2 k ?b" by (rule taken_store [OF t])
    obtain w2 where r: "H (w\<lparr> w_ppool := ?p2 \<rparr>) i ?b = Inr w2" "Q w2" "ppool_ext ?p2 (w_ppool w2)"
      "free_packets (w_ppool w2) = free_packets ?p2"
      using run [OF takenD(4) [OF t2] takenD(8) [OF t2] slice_write_same] by blast
    have rd: "block_read ?hdr 0 (header_size ?hdr 0) = Inr bs" using bs hd(1) T0(6) by (simp add: block_read_def)
    have wr: "block_write (ps_obj (slot_of ?p k)) 0 bs = Inr ?b" using bs(3) by (simp add: block_write_def)
    have st: "packet_store (w\<lparr> w_ppool := p \<rparr>) \<lparr> sptr_pool = True, sptr_handle = pool_handle ?p k \<rparr> ?b =
        Inr (w\<lparr> w_ppool := ?p2 \<rparr>)"
      using T by (subst packet_access(2) [where j = k]) simp_all
    show "\<exists>w2 p2 blk. ?body (w\<lparr> w_ppool := p \<rparr>) \<lparr> sptr_pool = True, sptr_handle = pool_handle ?p k \<rparr>
          (ps_obj (slot_of ?p k)) = Inr w2 \<and>
        taken ?p p2 k blk \<and> ppool_ext p2 (w_ppool w2) \<and> free_packets (w_ppool w2) = free_packets p2 \<and> Q w2"
      by (intro exI [of _ w2] exI [of _ ?p2] exI [of _ ?b] conjI r(2-4) t2) (simp only: rd andThen_simps wr st r(1))
  qed
  then obtain w2 p' where w2: "with_packet w ?body = Inr (w2\<lparr> w_ppool := p' \<rparr>)" "Q w2"
    "ppool_ext ?p p'" "free_packets p' = free_packets ?p" by blast
  have ex: "PacketHandler_Execute E w i ?hdr = Inr (w2\<lparr> w_ppool := p' \<rparr>)"
    using w2(1) H handlers_bound [OF H] hd(2) by (simp add: PacketHandler_Execute_def)
  have P': "packets_ok p'" "?j < pool_N p'" "pool_state p' ?j \<noteq> 0" "ps_refCount (slot_of p' ?j) = 1"
    using w2(3) T0(3-5) by (simp_all add: ppool_ext_def)
  obtain q where del: "SharedPoolPtr_delete packet_host (w2\<lparr> w_ppool := p' \<rparr>) \<lparr> sptr_pool = True, sptr_handle = ?h \<rparr> =
      Inr ((w2\<lparr> w_ppool := p' \<rparr>)\<lparr> w_ppool := q \<rparr>)" and ret: "returned p' q ?j"
    using packet_delete [of "w2\<lparr> w_ppool := p' \<rparr>" ?j ?h] P' by auto
  have dat: "packet_data w (task_packet t) = Inr ?hdr"
    by (subst T0(2)) (use ok T0(3) in \<open>auto intro!: packet_access(1) simp: packets_ok_def\<close>)
  have "run_task E w t = Inr ((w2\<lparr> w_ppool := p' \<rparr>)\<lparr> w_ppool := q \<rparr>)"
    unfolding run_task_def dat andThen_simps T0(1) ex using del T0(2) [symmetric] by simp
  moreover have "packets_ok q" using ret by (simp add: returned_def)
  moreover have "others_queued t ?p q"
    using queued_ext [OF _ w2(3)] queued_returned [OF _ ret] by (simp add: others_queued_def)
  ultimately show ?thesis using Q w2(2,4) returned_free [OF ret] by simp
qed

subsection \<open>The chat handler\<close>

text \<open>The bytes of the packet a chat message is broadcast as.\<close>

definition chat_packet :: "u64 \<Rightarrow> u8 list \<Rightarrow> u8 list" where
  "chat_packet h text = le_bytes 2 (12 + length text) @ le_bytes 2 (packet_code PKT_kChat) @ le_bytes 8 (unat h) @ text"

lemma slice_write_at: "n = length bs \<Longrightarrow> slice_fun (write_bytes m a bs) a n = bs"
  using slice_write_same by simp

lemma chat_block_ok:
  assumes sz: "4 \<le> header_size header 0" "header_size header 0 \<le> 1016"
  shows "\<exists>b. chat_block blk header h = Inr b \<and> header_size b 0 = header_size header 0 + 8 \<and>
    packet_bytes b = chat_packet h (slice_fun header 4 (header_size header 0 - 4))"
proof -
  let ?sz = "header_size header 0"
  let ?msg = "slice_fun header 4 (?sz - 4)"
  let ?b1 = "set_header_size (set_header_id blk PKT_kChat) (?sz + 8)"
  let ?b = "write_bytes (put_field ?b1 4 8 (unat h)) 12 ?msg"
  have n: "sub64 ?sz 4 = ?sz - 4" using sz by (intro sub64_id) auto
  have lim: "?sz - 4 \<le> 1020" "?sz - 4 \<le> 1012" using sz by auto
  have c: "chat_block blk header h = Inr ?b"
    using lim by (simp add: chat_block_def Let_def n block_read_def block_write_def kMaxPacketSize_def)
  have s0: "slice_fun ?b 0 2 = le_bytes 2 (?sz + 8)"
    by (simp add: header_setters put_field_def slice_write_other slice_write_at)
  have s2: "slice_fun ?b 2 2 = le_bytes 2 (packet_code PKT_kChat)"
    by (simp add: header_setters put_field_def slice_write_other slice_write_at)
  have s4: "slice_fun ?b 4 8 = le_bytes 8 (unat h)"
    by (simp add: header_setters put_field_def slice_write_other slice_write_at)
  have s12: "slice_fun ?b 12 (?sz - 4) = ?msg" by (simp add: slice_write_at)
  have hs: "header_size ?b 0 = ?sz + 8"
    using s0 sz by (simp add: header_at_0 get_field_def le_value_le_bytes)
  have "slice_fun ?b 0 (((2 + 2) + 8) + (?sz - 4)) =
      slice_fun ?b 0 2 @ slice_fun ?b (0 + 2) 2 @ slice_fun ?b (0 + (2 + 2)) 8 @ slice_fun ?b (0 + (2 + 2 + 8)) (?sz - 4)"
    by (simp only: slice_fun_add append_assoc)
  moreover have "0 + 2 = (2::nat)" "0 + (2 + 2) = (4::nat)" "0 + (2 + 2 + 8) = (12::nat)"
    "((2 + 2) + 8) + (?sz - 4) = ?sz + 8" "12 + (?sz - 4) = ?sz + 8" using sz by auto
  ultimately have "packet_bytes ?b = chat_packet h ?msg"
    by (simp only: hs s0 s2 s4 s12 chat_packet_def length_slice_fun)
  then show ?thesis using c hs by blast
qed

lemma HandleChat_ok:
  assumes ok: "packets_ok (w_ppool w)" and free: "0 < free_packets (w_ppool w)" and wf: "swf w i"
    and rdy: "sessions_ready w" and sz: "4 \<le> header_size header 0" "header_size header 0 \<le> 1016"
    and os: "\<forall>tr i a n. posted_ok (e_os E tr (OS_WSASend i a n))"
  shows "\<exists>w2 q. PacketHandler_HandleChat E w i header = Inr (w2\<lparr> w_ppool := q \<rparr>) \<and>
    broadcasted w (se_handle (sess w i)) (chat_packet (se_handle (sess w i)) (slice_fun header 4 (header_size header 0 - 4))) w2 \<and>
    ppool_ext (w_ppool w) q \<and> free_packets q = free_packets (w_ppool w)"
  unfolding PacketHandler_HandleChat_def
proof (rule with_packet_ok [OF ok free])
  let ?h = "se_handle (sess w i)"
  let ?bs = "chat_packet ?h (slice_fun header 4 (header_size header 0 - 4))"
  fix p j assume t: "taken (w_ppool w) p j (ps_obj (slot_of (w_ppool w) j))"
  note T = takenD [OF t]
  let ?blk = "ps_obj (slot_of (w_ppool w) j)" and ?sp = "\<lparr> sptr_pool = True, sptr_handle = pool_handle (w_ppool w) j \<rparr>"
  obtain b where b: "chat_block ?blk header ?h = Inr b" "header_size b 0 = header_size header 0 + 8" "packet_bytes b = ?bs"
    using chat_block_ok [OF sz, of ?blk ?h] by blast
  let ?p2 = "upd_slot p j (\<lambda>s. s\<lparr> ps_obj := b \<rparr>)"
  have st: "packet_store (w\<lparr> w_ppool := p \<rparr>) ?sp b = Inr (w\<lparr> w_ppool := ?p2 \<rparr>)"
    using T by (subst packet_access(2) [where j = j]) simp_all
  have t2: "taken (w_ppool w) ?p2 j b" by (rule taken_store [OF t])
  have szb: "0 < header_size b 0" "header_size b 0 \<le> kMaxPacketSize" using b(2) sz by (simp_all add: kMaxPacketSize_def)
  obtain w' where w': "PacketHandler_Broadcast E (w\<lparr> w_ppool := ?p2 \<rparr>) ?h b = Inr w'" "w_ppool w' = ?p2"
    "broadcasted w ?h (packet_bytes b) w'"
    using Broadcast_broadcasts [of "w\<lparr> w_ppool := ?p2 \<rparr>" b E ?h] rdy szb os by auto
  show "\<exists>w2 p2 blk. andThen (session_handle E (w\<lparr> w_ppool := p \<rparr>) i) (\<lambda>h. andThen (chat_block ?blk header h) (\<lambda>blk'.
        andThen (packet_store (w\<lparr> w_ppool := p \<rparr>) ?sp blk') (\<lambda>w2. PacketHandler_Broadcast E w2 h blk'))) = Inr w2 \<and>
      taken (w_ppool w) p2 j blk \<and> ppool_ext p2 (w_ppool w2) \<and> free_packets (w_ppool w2) = free_packets p2 \<and>
      broadcasted w ?h ?bs w2"
    using wf b st w' t2 ppool_ext_refl [OF takenD(4) [OF t2]]
    by (intro exI [of _ w'] exI [of _ ?p2] exI [of _ b]) (simp add: session_handle_def)
qed

lemma run_task_chat:
  assumes "queued (w_ppool w) i t bs" and "packets_ok (w_ppool w)" and "2 \<le> free_packets (w_ppool w)"
    and "4 \<le> length bs" and "length bs \<le> 1016" and "size_field bs = length bs"
    and "le_value (take 2 (drop 2 bs)) = packet_code PKT_kChat"
    and "swf w i" and "sessions_ready w" and "\<forall>tr i a n. posted_ok (e_os E tr (OS_WSASend i a n))"
  shows "\<exists>w'. run_task E w t = Inr w' \<and>
    broadcasted w (se_handle (sess w i)) (chat_packet (se_handle (sess w i)) (drop 4 bs)) w' \<and>
    packets_ok (w_ppool w') \<and> free_packets (w_ppool w') = free_packets (w_ppool w) + 1 \<and>
    others_queued t (w_ppool w) (w_ppool w')"
proof (rule run_task_with [OF assms(1,2) _ assms(4,6)])
  show "0 < free_packets (w_ppool w)" "length bs \<le> kMaxPacketSize"
    using assms(3,5) by (simp_all add: kMaxPacketSize_def)
  show "PacketHandler_handlers E (le_value (take 2 (drop 2 bs))) = Some (PacketHandler_HandleChat E)"
    by (simp add: assms(7) PacketHandler_handlers_def)
  fix p b assume p: "packets_ok p" "free_packets p + 1 = free_packets (w_ppool w)" and b: "slice_fun b 0 (length bs) = bs"
  have sz: "header_size b 0 = length bs" using slice_header(1) [OF b assms(4)] assms(6) by simp
  have "drop 4 (slice_fun b 0 (length bs)) = slice_fun b 4 (length bs - 4)"
    using drop_slice_fun [of 4 "length bs" b 0] assms(4) by (simp only: add_0)
  then have d: "slice_fun b 4 (length bs - 4) = drop 4 bs" using b by simp
  show "\<exists>w2. PacketHandler_HandleChat E (w\<lparr> w_ppool := p \<rparr>) i b = Inr w2 \<and>
      broadcasted w (se_handle (sess w i)) (chat_packet (se_handle (sess w i)) (drop 4 bs)) w2 \<and>
      ppool_ext p (w_ppool w2) \<and> free_packets (w_ppool w2) = free_packets p"
    using HandleChat_ok [of "w\<lparr> w_ppool := p \<rparr>" i b E] p assms sz d by auto
qed simp

text \<open>C4: Running the task of a received chat message (a packet with id \<open>kChat\<close> whose size field is its
  length, at most 1016) offers every connected session but the sender the message with the
  sender's handle in front of the text, and leaves all other sessions as they were; the packet
  that carried the message is free again.\<close>

theorem run_task_chat_broadcasts:
  assumes "queued (w_ppool w) i t bs" and "packets_ok (w_ppool w)" and "2 \<le> free_packets (w_ppool w)"
    and "4 \<le> length bs" and "length bs \<le> 1016" and "size_field bs = length bs"
    and "le_value (take 2 (drop 2 bs)) = packet_code PKT_kChat"
    and "swf w i" and "sessions_ready w" and "\<forall>tr i a n. posted_ok (e_os E tr (OS_WSASend i a n))"
  shows "\<exists>w'. run_task E w t = Inr w' \<and>
    broadcasted w (se_handle (sess w i)) (chat_packet (se_handle (sess w i)) (drop 4 bs)) w' \<and>
    packets_ok (w_ppool w') \<and> free_packets (w_ppool w') = free_packets (w_ppool w) + 1"
  using run_task_chat [OF assms] by blast

text \<open>Three connected sessions; session 1 says "hi".\<close>

lemma sample_queued:
  assumes "length bs \<le> kMaxPacketSize" "0 < m" "m < 2 ^ 32"
  shows "\<exists>p t. queued p i t bs \<and> packets_ok p \<and> free_packets p + 1 = m"
proof -
  let ?w = "world_new 1 m 1 ()"
  have "packets_ok (w_ppool ?w)" "free_packets (w_ppool ?w) = m" using assms by (simp_all add: world_new_def)
  then obtain j p blk where t: "taken (w_ppool ?w) p j blk" "slice_fun blk 0 (length bs) = bs"
    using AcquirePacket_copy_taken [of ?w bs] assms by auto
  show ?thesis
    using queued_taken [OF t] takenD(4,8) [OF t(1)] \<open>free_packets (w_ppool ?w) = m\<close> by auto
qed

theorem run_task_chat_broadcasts_witness:
  "\<exists>w t w'. run_task sample_env w t = Inr w' \<and> w_spool w = w_spool (sample_world 3 2 4096 4 ()) \<and>
    broadcasted w (se_handle (sess w 1)) (chat_packet (se_handle (sess w 1)) (drop 4 [6, 0, 2, 0, 104, 105])) w' \<and>
    packets_ok (w_ppool w') \<and> free_packets (w_ppool w') = free_packets (w_ppool w) + 1"
proof -
  obtain p t where q: "queued p 1 t [6, 0, 2, 0, 104, 105]" "packets_ok p" "free_packets p + 1 = 4"
    using sample_queued [of "[6, 0, 2, 0, 104, 105]" 4 1] by (auto simp: kMaxPacketSize_def)
  let ?w = "(sample_world 3 2 4096 4 ())\<lparr> w_ppool := p \<rparr>"
  have "\<exists>w'. run_task sample_env ?w t = Inr w' \<and>
      broadcasted ?w (se_handle (sess ?w 1)) (chat_packet (se_handle (sess ?w 1)) (drop 4 [6, 0, 2, 0, 104, 105])) w' \<and>
      packets_ok (w_ppool w') \<and> free_packets (w_ppool w') = free_packets (w_ppool ?w) + 1"
    by (rule run_task_chat_broadcasts) (use q in \<open>simp_all add: size_field_def\<close>)
  moreover have "w_spool ?w = w_spool (sample_world 3 2 4096 4 ())" by simp
  ultimately show ?thesis by blast
qed

end
