(* ===== verification/Handler_Errors.thy ===== *)
theory Handler_Errors
  imports Handler_Props
begin

section \<open>The packet worker: messages that leave the defined behaviour\<close>

lemma with_packet_fault:
  assumes ok: "packets_ok (w_ppool w)" and free: "0 < free_packets (w_ppool w)"
    and body: "\<And>p j. taken (w_ppool w) p j (ps_obj (slot_of (w_ppool w) j)) \<Longrightarrow>
      f (w\<lparr> w_ppool := p \<rparr>) \<lparr> sptr_pool = True, sptr_handle = pool_handle (w_ppool w) j \<rparr> (ps_obj (slot_of (w_ppool w) j)) = Inl e"
  shows "with_packet w f = Inl e"
proof -
  obtain j p where a: "PacketHandler_AcquirePacket w =
      Inr (w\<lparr> w_ppool := p \<rparr>, \<lparr> sptr_pool = True, sptr_handle = pool_handle (w_ppool w) j \<rparr>)"
    and t: "taken (w_ppool w) p j (ps_obj (slot_of (w_ppool w) j))"
    using AcquirePacket_taken [OF ok free] by blast
  show ?thesis using a body [OF t] takenD [OF t] by (simp add: with_packet_def packet_access [where j = j])
qed

lemma with_packet_none:
  assumes ok: "packets_ok (w_ppool w)" and free: "free_packets (w_ppool w) = 0"
  shows "with_packet w f = Inl NullPointer"
proof -
  have e: "in_state (sp_set (w_ppool w)) 0 = {}" using free by (simp add: free_packets_def in_state_def)
  have "PacketHandler_AcquirePacket w = Inr (w, nullSharedPtr)"
    unfolding PacketHandler_AcquirePacket_def
    using ok e by (intro ppool.Acquire_none) (simp_all add: packets_ok_def)
  then show ?thesis by (simp add: with_packet_def packet_data_def SharedPoolPtr_Get_def nullSharedPtr_def)
qed

text \<open>Running a task whose handler is not left normally.\<close>

lemma run_task_queued:
  assumes q: "queued (w_ppool w) i t bs" and ok: "packets_ok (w_ppool w)"
    and bs: "4 \<le> length bs" "size_field bs = length bs" "length bs \<le> kMaxPacketSize"
    and H: "PacketHandler_handlers E (le_value (take 2 (drop 2 bs))) = Some H"
  shows "\<exists>hdr. slice_fun hdr 0 (length bs) = bs \<and>
    run_task E w t = andThen (with_packet w (\<lambda>w1 packet blk. andThen (block_write blk 0 bs) (\<lambda>blk'.
      andThen (packet_store w1 packet blk') (\<lambda>w2. H w2 i blk')))) (\<lambda>w1. SharedPoolPtr_delete packet_host w1 (task_packet t))"
proof -
  let ?p = "w_ppool w" and ?h = "sptr_handle (task_packet t)"
  let ?hdr = "ps_obj (slot_of ?p (who_of ?h))"
  have T0: "task_this t = i" "task_packet t = \<lparr> sptr_pool = True, sptr_handle = ?h \<rparr>" "who_of ?h < pool_N ?p"
    "slice_fun ?hdr 0 (length bs) = bs"
    using q by (auto simp: queued_def Let_def)
  note hd = slice_header [OF T0(4) bs(1)]
  have rd: "block_read ?hdr 0 (header_size ?hdr 0) = Inr bs" using bs hd(1) T0(4) by (simp add: block_read_def)
  have dat: "packet_data w (task_packet t) = Inr ?hdr"
    by (subst T0(2)) (use ok T0(3) in \<open>auto intro!: packet_access(1) simp: packets_ok_def\<close>)
  have "PacketHandler_Execute E w i ?hdr = with_packet w (\<lambda>w1 packet blk. andThen (block_write blk 0 bs) (\<lambda>blk'.
      andThen (packet_store w1 packet blk') (\<lambda>w2. H w2 i blk')))"
    using H handlers_bound [OF H] hd(2) rd by (simp add: PacketHandler_Execute_def)
  then show ?thesis using T0(1,4) dat by (intro exI [of _ ?hdr]) (simp add: run_task_def)
qed

lemma chat_block_overflow:
  assumes sz: "1016 < header_size header 0" "header_size header 0 \<le> 1024"
  shows "chat_block blk header h = Inl OutOfBounds"
proof -
  have n: "sub64 (header_size header 0) 4 = header_size header 0 - 4" using sz by (intro sub64_id) auto
  have "header_size header 0 - 4 \<le> 1020" "\<not> header_size header 0 - 4 \<le> 1012" using sz by auto
  then show ?thesis by (simp add: chat_block_def Let_def n block_read_def block_write_def kMaxPacketSize_def)
qed

text \<open>C23: A chat message of 1017 to 1024 bytes makes the handler write behind the end of its 1024-byte block,
  since the broadcast form is 8 bytes longer; and a task that runs when no packet is free dereferences
  the null pointer \<open>AcquirePacket\<close> returns.\<close>

theorem run_task_chat_faults:
  assumes "queued (w_ppool w) i t bs" and "packets_ok (w_ppool w)" and "4 \<le> length bs" and "length bs \<le> 1024"
    and "size_field bs = length bs" and "le_value (take 2 (drop 2 bs)) = packet_code PKT_kChat" and "swf w i"
  shows "(1016 < length bs \<and> 2 \<le> free_packets (w_ppool w) \<longrightarrow> run_task E w t = Inl OutOfBounds) \<and>
    (free_packets (w_ppool w) = 0 \<longrightarrow> run_task E w t = Inl NullPointer)"
proof -
  have H: "PacketHandler_handlers E (le_value (take 2 (drop 2 bs))) = Some (PacketHandler_HandleChat E)"
    by (simp add: assms(6) PacketHandler_handlers_def)
  have len: "length bs \<le> kMaxPacketSize" using assms(4) by (simp add: kMaxPacketSize_def)
  note run = run_task_queued [OF assms(1,2,3,5) len H]
  have "run_task E w t = Inl OutOfBounds" if big: "1016 < length bs" and free: "2 \<le> free_packets (w_ppool w)"
  proof -
    have chat: "PacketHandler_HandleChat E (w\<lparr> w_ppool := p \<rparr>) i b = Inl OutOfBounds"
      if p: "packets_ok p" "0 < free_packets p" and b: "slice_fun b 0 (length bs) = bs" for p b
      unfolding PacketHandler_HandleChat_def
    proof (rule with_packet_fault)
      have "header_size b 0 = length bs" using slice_header(1) [OF b assms(3)] assms(5) by simp
      then show "andThen (session_handle E (w\<lparr> w_ppool := p, w_ppool := p' \<rparr>) i) (\<lambda>h. andThen (chat_block blk b h) (\<lambda>blk'.
          andThen (packet_store (w\<lparr> w_ppool := p, w_ppool := p' \<rparr>) sp blk') (\<lambda>w2. PacketHandler_Broadcast E w2 h blk'))) = Inl OutOfBounds" for p' sp blk
        using chat_block_overflow [of b] big assms(4,7) by (simp add: session_handle_def)
    qed (use p in simp_all)
    have "with_packet w (\<lambda>w1 packet blk. andThen (block_write blk 0 bs) (\<lambda>blk'.
      andThen (packet_store w1 packet blk') (\<lambda>w2. PacketHandler_HandleChat E w2 i blk'))) = Inl OutOfBounds"
    proof (rule with_packet_fault [OF assms(2)])
      fix p j assume t: "taken (w_ppool w) p j (ps_obj (slot_of (w_ppool w) j))"
      note T = takenD [OF t]
      let ?b = "write_bytes (ps_obj (slot_of (w_ppool w) j)) 0 bs"
      note T2 = takenD [OF taken_store [OF t, of ?b]]
      have st: "packet_store (w\<lparr> w_ppool := p \<rparr>) \<lparr> sptr_pool = True, sptr_handle = pool_handle (w_ppool w) j \<rparr> ?b =
          Inr (w\<lparr> w_ppool := upd_slot p j (\<lambda>s. s\<lparr> ps_obj := ?b \<rparr>) \<rparr>)"
        using T by (subst packet_access(2) [where j = j]) simp_all
      show "andThen (block_write (ps_obj (slot_of (w_ppool w) j)) 0 bs) (\<lambda>blk'. andThen (packet_store (w\<lparr> w_ppool := p \<rparr>)
          \<lparr> sptr_pool = True, sptr_handle = pool_handle (w_ppool w) j \<rparr> blk') (\<lambda>w2. PacketHandler_HandleChat E w2 i blk')) = Inl OutOfBounds"
        using st len chat [OF T2(4) _ slice_write_same] T2(8) free by (simp add: block_write_def)
    qed (use free in simp)
    then show ?thesis using run by auto
  qed
  moreover have "run_task E w t = Inl NullPointer" if "free_packets (w_ppool w) = 0"
    using run with_packet_none [OF assms(2) that] by auto
  ultimately show ?thesis by blast
qed

theorem run_task_chat_faults_witness:
  "\<exists>w t w1 t1. run_task sample_env w t = Inl OutOfBounds \<and> run_task sample_env w1 t1 = Inl NullPointer \<and>
    w_spool w = w_spool (sample_world 3 2 4096 4 ()) \<and> w_spool w1 = w_spool w"
proof -
  let ?bs = "le_bytes 2 1024 @ le_bytes 2 2 @ replicate 1020 0"
  have len: "length ?bs = 1024" by simp
  obtain p t where q: "queued p 1 t ?bs" "packets_ok p" "free_packets p + 1 = 4"
    using sample_queued [of ?bs 4 1] len by (auto simp: kMaxPacketSize_def)
  obtain p1 t1 where q1: "queued p1 1 t1 ?bs" "packets_ok p1" "free_packets p1 + 1 = 1"
    using sample_queued [of ?bs 1 1] len by (auto simp: kMaxPacketSize_def)
  let ?w = "\<lambda>p. (sample_world 3 2 4096 4 ())\<lparr> w_ppool := p \<rparr>"
  have sz: "size_field ?bs = length ?bs" "le_value (take 2 (drop 2 ?bs)) = packet_code PKT_kChat"
    by (simp_all add: size_field_def le_value_le_bytes del: le_bytes.simps) 
  have "run_task sample_env (?w p) t = Inl OutOfBounds"
    using run_task_chat_faults [of "?w p" 1 t ?bs sample_env] q sz len by simp
  moreover have "run_task sample_env (?w p1) t1 = Inl NullPointer"
    using run_task_chat_faults [of "?w p1" 1 t1 ?bs sample_env] q1 sz len by simp
  moreover have "w_spool (?w p) = w_spool (sample_world 3 2 4096 4 ())" "w_spool (?w p1) = w_spool (?w p)" by simp_all
  ultimately show ?thesis by blast
qed

end
