(* ===== verification/Worker_Props.thy ===== *)
theory Worker_Props
  imports Handler_Errors
begin

section \<open>The packet worker: a queue of chat messages is worked off\<close>

text \<open>
  \<open>chat_task\<close>: a queued task with a well-formed chat message of a live session. \<open>chat_run w cs w'\<close>:
  \<open>w'\<close> is reached from \<open>w\<close> by broadcasting the messages \<open>cs\<close>, pairs of sender and packet, in order.
\<close>

definition chat_task :: "'db world \<Rightarrow> task \<times> u8 list \<Rightarrow> bool" where
  "chat_task w tb \<longleftrightarrow> queued (w_ppool w) (task_this (fst tb)) (fst tb) (snd tb) \<and> 4 \<le> length (snd tb) \<and>
     length (snd tb) \<le> 1016 \<and> size_field (snd tb) = length (snd tb) \<and>
     le_value (take 2 (drop 2 (snd tb))) = packet_code PKT_kChat \<and> live w (task_this (fst tb))"

fun chat_run :: "'db world \<Rightarrow> (nat \<times> u8 list) list \<Rightarrow> 'db world \<Rightarrow> bool" where
  "chat_run w [] w' \<longleftrightarrow> w_spool w' = w_spool w \<and> w_sessionPtrs w' = w_sessionPtrs w \<and> w_db w' = w_db w"
| "chat_run w ((i, bs) # cs) w' \<longleftrightarrow>
     (\<exists>v. broadcasted w (se_handle (sess w i)) (chat_packet (se_handle (sess w i)) (drop 4 bs)) (v\<lparr> w_tasks := w_tasks w \<rparr>) \<and>
      chat_run v cs w')"

lemma live_tasks [simp]: "live (w\<lparr> w_tasks := q \<rparr>) k = live w k"
  by (simp add: live_def send_ok_def linked_def)

lemma offered_tasks [simp]: "offered (w\<lparr> w_tasks := q \<rparr>) bs k = offered w bs k"
  by (simp add: offered_def)

lemma broadcasted_tasks:
  "broadcasted (w\<lparr> w_tasks := q \<rparr>) h bs v \<Longrightarrow> broadcasted w h bs (v\<lparr> w_tasks := w_tasks w \<rparr>) \<and> w_tasks v = q"
  by (simp add: broadcasted_def)

lemma sessions_ready_tasks [simp]: "sessions_ready (w\<lparr> w_tasks := q \<rparr>) = sessions_ready w"
  by (simp add: sessions_ready_def sessions_K_def)

lemma chat_run_tasks: "chat_run (w\<lparr> w_tasks := q \<rparr>) cs w' = chat_run w cs w'"
proof (cases cs)
  case Nil
  then show ?thesis by simp
next
  case (Cons c cs')
  have "broadcasted (w\<lparr> w_tasks := q \<rparr>) h bs (v\<lparr> w_tasks := q \<rparr>) = broadcasted w h bs (v\<lparr> w_tasks := w_tasks w \<rparr>)" for h bs and v :: "'a world"
    by (simp add: broadcasted_def)
  then show ?thesis using Cons by (cases c) simp
qed

lemma broadcasted_ready:
  assumes b: "broadcasted w h bs v" and r: "sessions_ready w" and l: "live w i"
  shows "sessions_ready v" and "live v i"
proof -
  show "live v i" using b l by (simp add: broadcasted_def)
  then have "pool_wf (w_spool v)" using linkedD(8) live_linked by blast
  moreover have "sp_set (w_spool v) = sp_set (w_spool w)" "\<forall>k. live w k \<longrightarrow> live v k" using b by (simp_all add: broadcasted_def)
  ultimately show "sessions_ready v" using r by (simp add: sessions_ready_def sessions_K_def sstate_def)
qed

lemma worker_drains:
  assumes "tq_tasks (w_tasks w) = map fst tbs" and "\<not> tq_shuttingDown (w_tasks w)"
    and "\<forall>tb \<in> set tbs. chat_task w tb" and "distinct (map (\<lambda>tb. task_slot (fst tb)) tbs)"
    and "packets_ok (w_ppool w)" and "2 \<le> free_packets (w_ppool w)" and "sessions_ready w"
    and os: "\<forall>tr i a n. posted_ok (e_os E tr (OS_WSASend i a n))"
  shows "\<exists>w'. PacketHandler_WorkerThreadFunc E w = Some (Inr (w', False)) \<and> tq_tasks (w_tasks w') = [] \<and>
    free_packets (w_ppool w') = free_packets (w_ppool w) + length tbs \<and>
    chat_run w (map (\<lambda>tb. (task_this (fst tb), snd tb)) tbs) w'"
  using assms(1-7)
proof (induction tbs arbitrary: w)
  case Nil
  then show ?case
    by (subst PacketHandler_WorkerThreadFunc.simps) (simp add: TaskQueue_Pop_def pop_ready_def)
next
  case (Cons tb tbs)
  obtain t bs where tb: "tb = (t, bs)" by (cases tb)
  let ?q = "(w_tasks w)\<lparr> tq_tasks := map fst tbs \<rparr>" and ?i = "task_this t"
  have pop: "TaskQueue_Pop (w_tasks w) = Some (?q, Some t)"
    using Cons.prems(1,2) tb by (simp add: TaskQueue_Pop_def pop_ready_def)
  have ct: "chat_task w (t, bs)" using Cons.prems(3) tb by simp
  then have "live w ?i" by (simp add: chat_task_def)
  then have "swf w ?i" using live_linked linkedD(1) by blast
  let ?w = "w\<lparr> w_tasks := ?q \<rparr>" and ?h = "se_handle (sess w ?i)"
  have "queued (w_ppool ?w) ?i t bs" "4 \<le> length bs" "length bs \<le> 1016" "size_field bs = length bs"
    "le_value (take 2 (drop 2 bs)) = packet_code PKT_kChat" "swf ?w ?i" "sessions_ready ?w" "packets_ok (w_ppool ?w)"
    "2 \<le> free_packets (w_ppool ?w)"
    using ct \<open>swf w ?i\<close> Cons.prems(5-7) by (simp_all add: chat_task_def)
  from run_task_chat [OF this(1) this(8) this(9) this(2-7) os]
  obtain w1 where "run_task E ?w t = Inr w1 \<and> broadcasted ?w (se_handle (sess ?w ?i)) (chat_packet (se_handle (sess ?w ?i)) (drop 4 bs)) w1 \<and>
      packets_ok (w_ppool w1) \<and> free_packets (w_ppool w1) = free_packets (w_ppool ?w) + 1 \<and>
      others_queued t (w_ppool ?w) (w_ppool w1)" ..
  then have w1: "run_task E ?w t = Inr w1" "broadcasted ?w ?h (chat_packet ?h (drop 4 bs)) w1"
      "packets_ok (w_ppool w1)" "free_packets (w_ppool w1) = free_packets (w_ppool w) + 1"
      "others_queued t (w_ppool w) (w_ppool w1)"
    by simp_all
  note b = broadcasted_tasks [OF w1(2)]
  have r1: "sessions_ready w1" using broadcasted_ready(1) [OF w1(2)] Cons.prems(7) \<open>live w ?i\<close> by simp
  have l1: "live w1 k" if "live w k" for k using broadcasted_ready(2) [OF w1(2)] Cons.prems(7) that by simp
  have c1: "\<forall>tb \<in> set tbs. chat_task w1 tb"
  proof
    fix u assume u: "u \<in> set tbs"
    then have c: "chat_task w u" using Cons.prems(3) by simp
    have "task_slot (fst u) \<noteq> task_slot t"
      using Cons.prems(4) u tb by (force simp only: list.map distinct.simps set_map image_iff fst_conv)
    then have "queued (w_ppool w1) (task_this (fst u)) (fst u) (snd u)"
      using w1(5) c unfolding others_queued_def chat_task_def by blast
    then show "chat_task w1 u" using c l1 by (simp add: chat_task_def)
  qed
  obtain w' where w': "PacketHandler_WorkerThreadFunc E w1 = Some (Inr (w', False))" "tq_tasks (w_tasks w') = []"
      "free_packets (w_ppool w') = free_packets (w_ppool w1) + length tbs"
      "chat_run w1 (map (\<lambda>tb. (task_this (fst tb), snd tb)) tbs) w'"
    using Cons.IH [of w1] b Cons.prems(2,4,6) w1(3,4) r1 c1 by auto
  have "PacketHandler_WorkerThreadFunc E w = PacketHandler_WorkerThreadFunc E w1"
    by (subst PacketHandler_WorkerThreadFunc.simps) (simp add: pop w1(1))
  moreover have "chat_run w (map (\<lambda>tb. (task_this (fst tb), snd tb)) (tb # tbs)) w'"
    using b w'(4) tb by auto
  ultimately show ?case using w' w1(4) by auto
qed

text \<open>C22: The packet worker makes progress: given any queue of chat messages from live sessions, it runs until
  the queue is empty and then waits for the next task; it has broadcast the messages in the order of the
  queue, and their packets are free again.\<close>

theorem WorkerThreadFunc_drains:
  assumes "tq_tasks (w_tasks w) = map fst tbs" and "\<not> tq_shuttingDown (w_tasks w)"
    and "\<forall>tb \<in> set tbs. chat_task w tb" and "distinct (map (\<lambda>tb. task_slot (fst tb)) tbs)"
    and "packets_ok (w_ppool w)" and "2 \<le> free_packets (w_ppool w)" and "sessions_ready w"
    and "\<forall>tr i a n. posted_ok (e_os E tr (OS_WSASend i a n))"
  shows "\<exists>w'. PacketHandler_WorkerThreadFunc E w = Some (Inr (w', False)) \<and> tq_tasks (w_tasks w') = [] \<and>
    free_packets (w_ppool w') = free_packets (w_ppool w) + length tbs \<and>
    chat_run w (map (\<lambda>tb. (task_this (fst tb), snd tb)) tbs) w'"
  using worker_drains [OF assms] .

text \<open>One message "hi" of session 1 in the queue.\<close>

theorem WorkerThreadFunc_drains_witness:
  "\<exists>w t w'. tq_tasks (w_tasks w) = [t] \<and> PacketHandler_WorkerThreadFunc sample_env w = Some (Inr (w', False)) \<and>
    tq_tasks (w_tasks w') = [] \<and> free_packets (w_ppool w') = free_packets (w_ppool w) + 1 \<and>
    chat_run w [(1, [6, 0, 2, 0, 104, 105])] w'"
proof -
  let ?bs = "[6, 0, 2, 0, 104, 105] :: u8 list"
  obtain p t where q: "queued p 1 t ?bs" "packets_ok p" "free_packets p + 1 = 4"
    using sample_queued [of ?bs 4 1] by (auto simp: kMaxPacketSize_def)
  let ?w = "(sample_world 3 2 4096 4 ())\<lparr> w_ppool := p, w_tasks := \<lparr> tq_tasks = [t], tq_shuttingDown = False \<rparr> \<rparr>"
  have t: "task_this t = 1" using q(1) by (simp add: queued_def)
  have "chat_task ?w (t, ?bs)" using q(1) t by (simp add: chat_task_def size_field_def)
  then have "\<exists>w'. PacketHandler_WorkerThreadFunc sample_env ?w = Some (Inr (w', False)) \<and> tq_tasks (w_tasks w') = [] \<and>
    free_packets (w_ppool w') = free_packets (w_ppool ?w) + length [(t, ?bs)] \<and>
    chat_run ?w (map (\<lambda>tb. (task_this (fst tb), snd tb)) [(t, ?bs)]) w'"
    using q(2,3) by (intro WorkerThreadFunc_drains) simp_all
  then obtain w' where w': "PacketHandler_WorkerThreadFunc sample_env ?w = Some (Inr (w', False))" "tq_tasks (w_tasks w') = []"
    "free_packets (w_ppool w') = free_packets (w_ppool ?w) + length [(t, ?bs)]"
    "chat_run ?w (map (\<lambda>tb. (task_this (fst tb), snd tb)) [(t, ?bs)]) w'" by blast
  show ?thesis by (intro exI [of _ ?w] exI [of _ t] exI [of _ w'] conjI) (use w' t in simp_all)
qed

end
