(* ===== verification/Account_Props.thy ===== *)
theory Account_Props
  imports AccountManager
begin

section \<open>Accounts: registration and authentication against a reference\<close>

text \<open>
  The reference is a map from user names to passwords. Whatever the library does inside, as
  long as the three statements behave as documented, every sequence of registrations and
  logins gets the answers of the reference. A small in-memory table satisfies the documented
  behaviour.
\<close>

datatype account_op = OpRegister account | OpLogin account

text \<open>The answers of the program: \<open>RegisterAccount\<close>, and whether \<open>Authenticate\<close> found an id.\<close>

fun account_run :: "'db sqlite \<Rightarrow> 'db \<Rightarrow> account_op list \<Rightarrow> bool list res" where
  "account_run S db [] = Inr []"
| "account_run S db (OpRegister a # ops) =
     (let (db1, ok) = RegisterAccount S db a in
      andThen (account_run S db1 ops) (\<lambda>bs. Inr (ok # bs)))"
| "account_run S db (OpLogin a # ops) =
     andThen (Authenticate S db a) (\<lambda>(db1, result).
     andThen (account_run S db1 ops) (\<lambda>bs. Inr ((result \<noteq> 0) # bs)))"

fun reference_run :: "(cstr \<rightharpoonup> cstr) \<Rightarrow> account_op list \<Rightarrow> bool list" where
  "reference_run m [] = []"
| "reference_run m (OpRegister a # ops) =
     (let u = until_nul (ac_userId a) in
      if m u = None then True # reference_run (m(u \<mapsto> until_nul (ac_password a))) ops
      else False # reference_run m ops)"
| "reference_run m (OpLogin a # ops) =
     (m (until_nul (ac_userId a)) = Some (until_nul (ac_password a))) # reference_run m ops"

definition passwords :: "accounts \<Rightarrow> cstr \<rightharpoonup> cstr" where
  "passwords t = (\<lambda>u. map_option snd (t u))"

definition ids_positive :: "accounts \<Rightarrow> bool" where
  "ids_positive t \<longleftrightarrow> (\<forall>u i p. t u = Some (i, p) \<longrightarrow> 0 < i)"

lemma account_run_refines:
  assumes S: "sqlite_accounts S tbl"
  shows "tbl db = Some t \<Longrightarrow> ids_positive t \<Longrightarrow> account_run S db ops = Inr (reference_run (passwords t) ops)"
proof (induction ops arbitrary: db t)
  case Nil
  then show ?case by simp
next
  case (Cons e ops)
  show ?case
  proof (cases e)
    case (OpRegister a)
    let ?u = "until_nul (ac_userId a)" and ?p = "until_nul (ac_password a)"
    obtain db1 ok where r: "RegisterAccount S db a = (db1, ok)" by (cases "RegisterAccount S db a")
    obtain i where i: "0 < i" "ok = (t ?u = None)"
      "tbl db1 = Some (if t ?u = None then t(?u \<mapsto> (i, ?p)) else t)"
      using RegisterAccount_spec [OF S Cons.prems(1), of a] r by auto
    have pos: "ids_positive (if t ?u = None then t(?u \<mapsto> (i, ?p)) else t)"
      using i(1) Cons.prems(2) by (auto simp: ids_positive_def)
    have "passwords (t(?u \<mapsto> (i, ?p))) = (passwords t)(?u \<mapsto> ?p)" by (auto simp: passwords_def)
    then show ?thesis
      using OpRegister r i(2) Cons.IH [OF i(3) pos] by (auto simp: passwords_def)
  next
    case (OpLogin a)
    let ?u = "until_nul (ac_userId a)" and ?p = "until_nul (ac_password a)"
    obtain db1 v where a: "Authenticate S db a = Inr (db1, v)" "tbl db1 = Some t"
      "v = (case account_id t ?u ?p of None \<Rightarrow> 0 | Some i \<Rightarrow> i)"
      using Authenticate_spec [OF S Cons.prems(1), of a] by (auto elim!: returnsE)
    have "(v \<noteq> 0) = (passwords t ?u = Some ?p)"
      using a(3) Cons.prems(2) by (fastforce simp: account_id_def passwords_def ids_positive_def split: option.splits)
    then show ?thesis using OpLogin a Cons.IH [OF a(2) Cons.prems(2)] by simp
  qed
qed


subsection \<open>A table in memory\<close>

type_synonym mem_db = "accounts option \<times> nat"

fun mem_step :: "mem_db \<Rightarrow> sql_stmt \<Rightarrow> int \<times> mem_db" where
  "mem_step (None, n) st =
     (if st_query st = create_query then (SQLITE_DONE, (Some Map.empty, n)) else (1, (None, n)))"
| "mem_step (Some t, n) st =
     (if st_query st = insert_query then
        (case st_binds st of
           [(_, SqlText u), (_, SqlText p)] \<Rightarrow>
             if t u = None then (SQLITE_DONE, (Some (t(u \<mapsto> (int n + 1, p))), n + 1))
             else (SQLITE_CONSTRAINT, (Some t, n))
         | _ \<Rightarrow> (1, (Some t, n)))
      else if st_query st = select_query then
        (case st_binds st of
           [(_, SqlText u), (_, SqlText p)] \<Rightarrow>
             (if account_id t u p \<noteq> None \<and> st_steps st = 0 then SQLITE_ROW else SQLITE_DONE, (Some t, n))
         | _ \<Rightarrow> (1, (Some t, n)))
      else (SQLITE_DONE, (Some t, n)))"

fun mem_column :: "mem_db \<Rightarrow> sql_stmt \<Rightarrow> nat \<Rightarrow> int" where
  "mem_column (Some t, n) st k =
     (case st_binds st of
        [(_, SqlText u), (_, SqlText p)] \<Rightarrow> (case account_id t u p of Some i \<Rightarrow> i | None \<Rightarrow> 0)
      | _ \<Rightarrow> 0)"
| "mem_column (None, n) st k = 0"

definition mem_sqlite :: "mem_db sqlite" where
  "mem_sqlite = \<lparr> sq_open = SQLITE_OK,
     sq_prepare = (\<lambda>(t, n) q. if t = None \<and> q \<noteq> create_query then 1 else SQLITE_OK),
     sq_step = mem_step, sq_column_int64 = mem_column \<rparr>"

lemma queries_differ [simp]:
  "create_query \<noteq> insert_query" "create_query \<noteq> select_query" "insert_query \<noteq> select_query"
  by (simp_all add: create_query_def insert_query_def select_query_def)

lemma mem_sqlite_accounts: "sqlite_accounts mem_sqlite fst"
proof -
  have "sql_creates mem_sqlite fst"
  proof -
    have "fst (snd (mem_step db \<lparr> st_query = create_query, st_binds = binds, st_steps = n \<rparr>)) =
        Some (case fst db of None \<Rightarrow> Map.empty | Some t \<Rightarrow> t)" for db binds n
      by (cases db; cases "fst db") simp_all
    then show ?thesis by (simp add: sql_creates_def mem_sqlite_def split_beta)
  qed
  moreover have "sql_compiles mem_sqlite fst" by (auto simp: sql_compiles_def mem_sqlite_def)
  moreover have "\<exists>i > 0. t(u \<mapsto> (int n + 1, p)) = t(u \<mapsto> (i, p))" for t :: accounts and u p n
    by (rule exI [of _ "int n + 1"]) simp
  then have "sql_inserts mem_sqlite fst"
    by (auto simp: sql_inserts_def mem_sqlite_def insert_stmt_def split: option.splits)
  moreover have "sql_selects mem_sqlite fst"
    by (auto simp: sql_selects_def mem_sqlite_def select_stmt_def queries_differ(3) [symmetric] split: option.splits)
  ultimately show ?thesis by (simp add: sqlite_accounts_def)
qed


end
