(* ===== verification/Startup.thy ===== *)
theory Startup
  imports IocpCore "HOL-Library.Multiset"
begin

section \<open>ServerService: construction, start and destruction of the server\<close>

text \<open>
  Constructors and destructors acquire and release what belongs to the system: the socket library,
  sockets, the completion port, threads and the database handle. A procedure runs against a
  \<open>system\<close>, which answers each call given the calls before it, and yields an exception or a value
  and the calls so far. \<open>construct\<close> is the rule of C++ for members: when a later member or the rest
  of the construction throws, the members already built are destroyed, in reverse order; the
  destructor of the object under construction itself does not run. An exception that leaves a
  thread object joinable behind ends the program.
\<close>

subsection \<open>Calls and procedures\<close>

datatype thread_body = IocpWorker | PacketWorker

datatype sys_call =
    Sys_WSAStartup | Sys_WSACleanup | Sys_WSASocket | Sys_closesocket int
  | Sys_GetAcceptEx int | Sys_GetDisconnectEx int
  | Sys_CreateIocp | Sys_CloseHandle int | Sys_PostQueued int | Sys_Associate int int
  | Sys_SetReuseAddr int | Sys_bind int nat | Sys_listen int
  | Sys_thread thread_body | Sys_join int | Sys_notify_all
  | Sys_sqlite3_open | Sys_sqlite3_close | Sys_CreateAccounts | Sys_ReadEnter

type_synonym system = "sys_call list \<Rightarrow> sys_call \<Rightarrow> int"

datatype exn = Runtime_error | System_error | Terminate | Fault fault

type_synonym 'a proc = "system \<Rightarrow> sys_call list \<Rightarrow> (exn + 'a) \<times> sys_call list"

definition syscall :: "sys_call \<Rightarrow> int proc" where
  "syscall c S tr = (Inr (S tr c), tr @ [c])"

definition yields :: "'a \<Rightarrow> 'a proc" where
  "yields x S tr = (Inr x, tr)"

definition throw :: "exn \<Rightarrow> 'a proc" where
  "throw e S tr = (Inl e, tr)"

definition thenDo :: "'a proc \<Rightarrow> ('a \<Rightarrow> 'b proc) \<Rightarrow> 'b proc" where
  "thenDo m f S tr = (case m S tr of (Inl e, tr1) \<Rightarrow> (Inl e, tr1) | (Inr x, tr1) \<Rightarrow> f x S tr1)"

definition on_throw :: "'a proc \<Rightarrow> unit proc \<Rightarrow> 'a proc" where
  "on_throw m cleanup S tr =
     (case m S tr of
        (Inl e, tr1) \<Rightarrow>
          if e = Terminate then (Inl e, tr1)
          else (case cleanup S tr1 of (Inl e', tr2) \<Rightarrow> (Inl e', tr2) | (Inr _, tr2) \<Rightarrow> (Inl e, tr2))
      | (Inr x, tr1) \<Rightarrow> (Inr x, tr1))"

definition construct :: "'a proc \<Rightarrow> ('a \<Rightarrow> unit proc) \<Rightarrow> ('a \<Rightarrow> 'b proc) \<Rightarrow> 'b proc" where
  "construct ctor dtor rest = thenDo ctor (\<lambda>x. on_throw (rest x) (dtor x))"

fun for_each :: "('a \<Rightarrow> unit proc) \<Rightarrow> 'a list \<Rightarrow> unit proc" where
  "for_each f [] = yields ()"
| "for_each f (x # xs) = thenDo (f x) (\<lambda>_. for_each f xs)"

definition INVALID_SOCKET :: int where "INVALID_SOCKET = - 1"

subsection \<open>The members\<close>

definition WSAManager_new :: "unit proc" where
  "WSAManager_new = thenDo (syscall Sys_WSAStartup) (\<lambda>r. if r \<noteq> 0 then throw Runtime_error else yields ())"

definition WSAManager_delete :: "unit proc" where
  "WSAManager_delete = thenDo (syscall Sys_WSACleanup) (\<lambda>_. yields ())"

text \<open>\<open>NetFuncs\<close> loads \<open>AcceptEx\<close> and \<open>DisconnectEx\<close> through a socket of its own.\<close>

definition NetFuncs_new :: "unit proc" where
  "NetFuncs_new =
     thenDo (syscall Sys_WSASocket) (\<lambda>dummySocket.
     if dummySocket = INVALID_SOCKET then throw Runtime_error
     else thenDo (syscall (Sys_GetAcceptEx dummySocket)) (\<lambda>result.
     if result = SOCKET_ERROR then throw Runtime_error
     else thenDo (syscall (Sys_GetDisconnectEx dummySocket)) (\<lambda>result.
     if result = SOCKET_ERROR then throw Runtime_error
     else thenDo (syscall (Sys_closesocket dummySocket)) (\<lambda>_. yields ()))))"

text \<open>The socket of a session; a session without one is only logged.\<close>

definition Session_socket_new :: "int proc" where
  "Session_socket_new = syscall Sys_WSASocket"

definition close_socket :: "int \<Rightarrow> unit proc" where
  "close_socket s = (if s \<noteq> INVALID_SOCKET then thenDo (syscall (Sys_closesocket s)) (\<lambda>_. yields ()) else yields ())"

definition Session_socket_delete :: "int \<Rightarrow> unit proc" where
  "Session_socket_delete s = close_socket s"

text \<open>The session pool builds its objects in the order of their indices and destroys them in the same order.\<close>

fun SessionManager_sockets :: "nat \<Rightarrow> int list proc" where
  "SessionManager_sockets 0 = yields []"
| "SessionManager_sockets (Suc n) =
     thenDo Session_socket_new (\<lambda>s. thenDo (SessionManager_sockets n) (\<lambda>ss. yields (s # ss)))"

definition SessionManager_delete :: "int list \<Rightarrow> unit proc" where
  "SessionManager_delete ss = for_each Session_socket_delete ss"

text \<open>A thread is its id; \<open>joinable()\<close> says that it is not zero. \<open>std::thread\<close> throws when it cannot start one.\<close>

definition joinable :: "int \<Rightarrow> bool" where
  "joinable t \<longleftrightarrow> t \<noteq> 0"

definition thread_new :: "thread_body \<Rightarrow> int proc" where
  "thread_new f = thenDo (syscall (Sys_thread f)) (\<lambda>t. if t < 0 then throw System_error else yields t)"

definition join_thread :: "int \<Rightarrow> unit proc" where
  "join_thread t = (if joinable t then thenDo (syscall (Sys_join t)) (\<lambda>_. yields ()) else yields ())"

text \<open>Destroying a vector of threads.\<close>

definition threads_delete :: "int list \<Rightarrow> unit proc" where
  "threads_delete ts = (if \<exists>t \<in> set ts. joinable t then throw Terminate else yields ())"

fun PacketHandler_workers :: "nat \<Rightarrow> int list \<Rightarrow> int list proc" where
  "PacketHandler_workers 0 workerThreads = yields workerThreads"
| "PacketHandler_workers (Suc n) workerThreads =
     thenDo (on_throw (thread_new PacketWorker) (threads_delete workerThreads)) (\<lambda>t.
     PacketHandler_workers n (workerThreads @ [t]))"

definition PacketHandler_new :: "int list proc" where
  "PacketHandler_new = PacketHandler_workers kWorkerThreadCount []"

definition PacketHandler_delete :: "int list \<Rightarrow> unit proc" where
  "PacketHandler_delete workerThreads =
     thenDo (syscall Sys_notify_all) (\<lambda>_. for_each join_thread workerThreads)"

definition IocpCore_new :: "int proc" where
  "IocpCore_new = thenDo (syscall Sys_CreateIocp) (\<lambda>h. if h = 0 then throw Runtime_error else yields h)"

definition IocpCore_delete :: "int \<Rightarrow> int list \<Rightarrow> unit proc" where
  "IocpCore_delete hIocp threads =
     thenDo (for_each (\<lambda>_. thenDo (syscall (Sys_PostQueued hIocp)) (\<lambda>_. yields ())) threads) (\<lambda>_.
     thenDo (for_each join_thread threads) (\<lambda>_.
     thenDo (syscall (Sys_CloseHandle hIocp)) (\<lambda>_. yields ())))"

text \<open>The log of the failure throws, so the loop behind it, which would wake the workers, is not reached.\<close>

fun IocpCore_Start_loop :: "nat \<Rightarrow> int list \<Rightarrow> (int list \<times> bool) proc" where
  "IocpCore_Start_loop 0 threads = yields (threads, True)"
| "IocpCore_Start_loop (Suc n) threads =
     thenDo (thread_new IocpWorker) (\<lambda>t.
     if \<not> joinable t then throw Runtime_error
     else IocpCore_Start_loop n (threads @ [t]))"

definition IocpCore_Start :: "nat \<Rightarrow> (int list \<times> bool) proc" where
  "IocpCore_Start threadCount = IocpCore_Start_loop threadCount []"

definition Listener_new :: "int \<Rightarrow> nat \<Rightarrow> int proc" where
  "Listener_new hIocp port =
     thenDo (syscall Sys_WSASocket) (\<lambda>s.
     if s = INVALID_SOCKET then throw Runtime_error
     else thenDo (syscall (Sys_SetReuseAddr s)) (\<lambda>_.
     thenDo (syscall (Sys_Associate s hIocp)) (\<lambda>r.
     if r = 0 then throw Runtime_error
     else thenDo (syscall (Sys_bind s port)) (\<lambda>r.
     if r = SOCKET_ERROR then throw Runtime_error
     else thenDo (syscall (Sys_listen s)) (\<lambda>r.
     if r = SOCKET_ERROR then throw Runtime_error else yields s)))))"

definition Listener_delete :: "int \<Rightarrow> unit proc" where
  "Listener_delete s = close_socket s"

definition DBManager_construct :: "unit proc" where
  "DBManager_construct = thenDo (syscall Sys_sqlite3_open) (\<lambda>r. if r \<noteq> 0 then throw Runtime_error else yields ())"

definition DBManager_delete :: "unit proc" where
  "DBManager_delete = thenDo (syscall Sys_sqlite3_close) (\<lambda>_. yields ())"

subsection \<open>The service\<close>

record server =
  sv_sessions :: "int list"
  sv_workers :: "int list"
  sv_iocp :: int
  sv_threads :: "int list"
  sv_listener :: int

definition ServerService_new :: "nat \<Rightarrow> server proc" where
  "ServerService_new nSession =
     construct WSAManager_new (\<lambda>_. WSAManager_delete) (\<lambda>_.
     construct NetFuncs_new (\<lambda>_. yields ()) (\<lambda>_.
     construct (SessionManager_sockets nSession) SessionManager_delete (\<lambda>sessions.
     construct PacketHandler_new PacketHandler_delete (\<lambda>workers.
     construct IocpCore_new (\<lambda>h. IocpCore_delete h []) (\<lambda>h.
     construct (Listener_new h kPort) Listener_delete (\<lambda>l.
     construct DBManager_construct (\<lambda>_. DBManager_delete) (\<lambda>_.
     thenDo (syscall Sys_CreateAccounts) (\<lambda>_.
     yields \<lparr> sv_sessions = sessions, sv_workers = workers, sv_iocp = h, sv_threads = [], sv_listener = l \<rparr>))))))))"

definition ServerService_delete :: "server \<Rightarrow> unit proc" where
  "ServerService_delete sv =
     thenDo DBManager_delete (\<lambda>_.
     thenDo (Listener_delete (sv_listener sv)) (\<lambda>_.
     thenDo (IocpCore_delete (sv_iocp sv) (sv_threads sv)) (\<lambda>_.
     thenDo (PacketHandler_delete (sv_workers sv)) (\<lambda>_.
     thenDo (SessionManager_delete (sv_sessions sv)) (\<lambda>_.
     WSAManager_delete)))))"

text \<open>
  \<open>Start\<close> works on the world of the other theories as well: it registers the sessions, starts the
  threads of the completion port and posts the first accepts. The result of \<open>Init\<close> is ignored.
\<close>

definition lift_res :: "'a res \<Rightarrow> 'a proc" where
  "lift_res r = (case r of Inl f \<Rightarrow> throw (Fault f) | Inr x \<Rightarrow> yields x)"

definition ServerService_Start :: "'db env \<Rightarrow> nat \<Rightarrow> 'db world \<Rightarrow> server \<Rightarrow> ('db world \<times> server \<times> bool) proc" where
  "ServerService_Start E numThreads w sv =
     thenDo (lift_res (SessionManager_Init E w)) (\<lambda>(w1, _).
     thenDo (IocpCore_Start numThreads) (\<lambda>(threads, started).
     if \<not> started then throw Runtime_error
     else thenDo (lift_res (Listener_PostAccept E w1)) (\<lambda>(w2, posted).
     yields (w2, sv\<lparr> sv_threads := threads \<rparr>, posted))))"

text \<open>An exception that leaves \<open>main\<close> ends the program; the result of \<open>Start\<close> is ignored.\<close>

definition uncaught :: "'a proc \<Rightarrow> 'a proc" where
  "uncaught m S tr = (case m S tr of (Inl e, tr1) \<Rightarrow> (Inl Terminate, tr1) | (Inr x, tr1) \<Rightarrow> (Inr x, tr1))"

definition server_main :: "'db env \<Rightarrow> nat \<Rightarrow> 'db world \<Rightarrow> int proc" where
  "server_main E hardware_concurrency w =
     uncaught (thenDo (ServerService_new kMaxSession) (\<lambda>sv.
     thenDo (ServerService_Start E hardware_concurrency w sv) (\<lambda>(_, sv, _).
     thenDo (syscall Sys_ReadEnter) (\<lambda>_.
     thenDo (ServerService_delete sv) (\<lambda>_. yields 0)))))"

end
