(* ===== verification/Startup_Props.thy ===== *)
theory Startup_Props
  imports Startup
begin

section \<open>What the server holds of the system between its construction and its end\<close>

text \<open>
  \<open>held S tr\<close> are the resources acquired and not yet released by the calls \<open>tr\<close>. A judgement
  \<open>runs m P\<close> says what a procedure does to them: every run of \<open>m\<close> that ends with the value \<open>x\<close> changes
  them from \<open>H\<close> to \<open>G x H\<close>.
\<close>

datatype resource = Wsa | Socket int | Port int | Thread int | Database

fun acquires :: "sys_call \<Rightarrow> int \<Rightarrow> resource multiset" where
  "acquires Sys_WSAStartup r = (if r = 0 then {#Wsa#} else {#})"
| "acquires Sys_WSASocket r = (if r = INVALID_SOCKET then {#} else {#Socket r#})"
| "acquires Sys_CreateIocp r = (if r = 0 then {#} else {#Port r#})"
| "acquires (Sys_thread f) r = (if r > 0 then {#Thread r#} else {#})"
| "acquires Sys_sqlite3_open r = (if r = 7 then {#} else {#Database#})"
| "acquires _ r = {#}"

fun releases :: "sys_call \<Rightarrow> resource multiset" where
  "releases Sys_WSACleanup = {#Wsa#}"
| "releases (Sys_closesocket s) = {#Socket s#}"
| "releases (Sys_CloseHandle h) = {#Port h#}"
| "releases (Sys_join t) = {#Thread t#}"
| "releases Sys_sqlite3_close = {#Database#}"
| "releases _ = {#}"

fun held_rev :: "system \<Rightarrow> sys_call list \<Rightarrow> resource multiset" where
  "held_rev S [] = {#}"
| "held_rev S (c # tr) = held_rev S tr + acquires c (S (rev tr) c) - releases c"

definition held :: "system \<Rightarrow> sys_call list \<Rightarrow> resource multiset" where
  "held S tr = held_rev S (rev tr)"

lemma held_Nil [simp]: "held S [] = {#}"
  by (simp add: held_def)

lemma held_snoc [simp]: "held S (tr @ [c]) = held S tr + acquires c (S tr c) - releases c"
  by (simp add: held_def)

lemma held_more [simp]:
  "held S (tr @ [b, c]) = held S (tr @ [b]) + acquires c (S (tr @ [b]) c) - releases c"
  "held S (tr @ [a, b, c]) = held S (tr @ [a, b]) + acquires c (S (tr @ [a, b]) c) - releases c"
  "held S (tr @ [x, a, b, c]) = held S (tr @ [x, a, b]) + acquires c (S (tr @ [x, a, b]) c) - releases c"
  "held S (tr @ [y, x, a, b, c]) = held S (tr @ [y, x, a, b]) + acquires c (S (tr @ [y, x, a, b]) c) - releases c"
  using held_snoc [of S "tr @ [b]" c] held_snoc [of S "tr @ [a, b]" c] held_snoc [of S "tr @ [x, a, b]" c]
    held_snoc [of S "tr @ [y, x, a, b]" c] by simp_all

subsection \<open>Runs\<close>

lemma thenDo_simps [simp]:
  "m S tr = (Inr x, tr1) \<Longrightarrow> thenDo m f S tr = f x S tr1"
  "m S tr = (Inl e, tr1) \<Longrightarrow> thenDo m f S tr = (Inl e, tr1)"
  by (simp_all add: thenDo_def)

lemmas proc_simps = thenDo_def syscall_def yields_def throw_def

text \<open>\<open>keeps\<close>: a procedure that throws nothing and gives back the resources \<open>R\<close>.\<close>

definition gives_back :: "unit proc \<Rightarrow> resource multiset \<Rightarrow> bool" where
  "gives_back m R \<longleftrightarrow> (\<forall>S tr. \<exists>tr1. m S tr = (Inr (), tr1) \<and> held S tr1 = held S tr - R)"

definition owned :: "int list \<Rightarrow> resource multiset" where
  "owned ss = mset (map Socket (filter (\<lambda>s. s \<noteq> INVALID_SOCKET) ss))"

definition running :: "int list \<Rightarrow> resource multiset" where
  "running ts = mset (map Thread (filter joinable ts))"

lemma gives_back_yields: "gives_back (yields ()) {#}"
  by (simp add: gives_back_def yields_def)

lemma gives_back_call: "acquires c = (\<lambda>_. {#}) \<Longrightarrow> gives_back (thenDo (syscall c) (\<lambda>_. yields ())) (releases c)"
  by (simp add: gives_back_def proc_simps)

lemma gives_back_then:
  assumes "gives_back m R" and "gives_back n R'"
  shows "gives_back (thenDo m (\<lambda>_. n)) (R + R')"
  unfolding gives_back_def
proof (intro allI)
  fix S tr
  obtain tr1 where 1: "m S tr = (Inr (), tr1)" "held S tr1 = held S tr - R"
    using assms(1) unfolding gives_back_def by metis
  obtain tr2 where 2: "n S tr1 = (Inr (), tr2)" "held S tr2 = held S tr1 - R'"
    using assms(2) unfolding gives_back_def by metis
  show "\<exists>tr2. thenDo m (\<lambda>_. n) S tr = (Inr (), tr2) \<and> held S tr2 = held S tr - (R + R')"
    by (intro exI [of _ tr2]) (simp add: thenDo_def 1 2)
qed

lemma gives_back_for_each:
  assumes "\<And>x. gives_back (f x) (R x)"
  shows "gives_back (for_each f xs) (\<Sum>\<^sub># (mset (map R xs)))"
  by (induction xs) (auto intro: gives_back_yields gives_back_then assms)

lemma gives_back_unit: "gives_back m R \<Longrightarrow> gives_back (thenDo m (\<lambda>_. yields ())) R"
  using gives_back_then [of m R "yields ()" "{#}"] gives_back_yields by simp

lemma close_socket_back: "gives_back (close_socket s) (owned [s])"
  using gives_back_call [of "Sys_closesocket s"] gives_back_yields
  by (simp add: close_socket_def owned_def fun_eq_iff)

lemma join_thread_back: "gives_back (join_thread t) (running [t])"
  using gives_back_call [of "Sys_join t"] gives_back_yields
  by (simp add: join_thread_def running_def fun_eq_iff)

lemma sum_owned: "\<Sum>\<^sub># (mset (map (\<lambda>s. owned [s]) ss)) = owned ss"
  by (induction ss) (auto simp: owned_def)

lemma sum_running: "\<Sum>\<^sub># (mset (map (\<lambda>s. running [s]) ss)) = running ss"
  by (induction ss) (auto simp: running_def)

lemma SessionManager_delete_back: "gives_back (SessionManager_delete ss) (owned ss)"
  unfolding SessionManager_delete_def Session_socket_delete_def
  using gives_back_for_each [of close_socket "\<lambda>s. owned [s]" ss, OF close_socket_back] by (simp only: sum_owned)

lemma join_all_back: "gives_back (for_each join_thread ts) (running ts)"
  using gives_back_for_each [of join_thread "\<lambda>s. running [s]" ts, OF join_thread_back] by (simp only: sum_running)

lemma PacketHandler_delete_back: "gives_back (PacketHandler_delete ts) (running ts)"
proof -
  have "gives_back (thenDo (thenDo (syscall Sys_notify_all) (\<lambda>_. yields ())) (\<lambda>_. for_each join_thread ts)) ({#} + running ts)"
    by (rule gives_back_then [OF _ join_all_back])
      (use gives_back_call [of Sys_notify_all] in \<open>simp add: fun_eq_iff\<close>)
  then show ?thesis by (simp add: PacketHandler_delete_def gives_back_def proc_simps)
qed

lemma IocpCore_delete_back: "gives_back (IocpCore_delete h ts) (running ts + {#Port h#})"
proof -
  have "gives_back (for_each (\<lambda>_. thenDo (syscall (Sys_PostQueued h)) (\<lambda>_. yields ())) ts) {#}"
    using gives_back_for_each [of "\<lambda>_. thenDo (syscall (Sys_PostQueued h)) (\<lambda>_. yields ())" "\<lambda>_. {#}" ts]
      gives_back_call [of "Sys_PostQueued h"] by (simp add: fun_eq_iff)
  moreover have "gives_back (thenDo (syscall (Sys_CloseHandle h)) (\<lambda>_. yields ())) {#Port h#}"
    using gives_back_call [of "Sys_CloseHandle h"] by (simp add: fun_eq_iff)
  ultimately show ?thesis unfolding IocpCore_delete_def
    using gives_back_then join_all_back by (metis add_0)
qed

lemma Listener_delete_back: "gives_back (Listener_delete s) (owned [s])"
  unfolding Listener_delete_def by (rule close_socket_back)

lemma DBManager_delete_back: "gives_back DBManager_delete {#Database#}"
  using gives_back_call [of Sys_sqlite3_close] by (simp add: DBManager_delete_def fun_eq_iff)

lemma WSAManager_delete_back: "gives_back WSAManager_delete {#Wsa#}"
  using gives_back_call [of Sys_WSACleanup] by (simp add: WSAManager_delete_def fun_eq_iff)

definition server_resources :: "server \<Rightarrow> resource multiset" where
  "server_resources sv =
     {#Database#} + (owned [sv_listener sv] + ((running (sv_threads sv) + {#Port (sv_iocp sv)#}) +
       (running (sv_workers sv) + (owned (sv_sessions sv) + {#Wsa#}))))"

lemma ServerService_delete_back: "gives_back (ServerService_delete sv) (server_resources sv)"
  unfolding ServerService_delete_def server_resources_def
  by (intro gives_back_then DBManager_delete_back Listener_delete_back IocpCore_delete_back
      PacketHandler_delete_back SessionManager_delete_back WSAManager_delete_back)

text \<open>
  \<open>builds m R L\<close>: a run of \<open>m\<close> that ends with \<open>x\<close> adds resources that \<open>R x\<close> admits; one that throws and is
  not the end of the program adds resources that \<open>L\<close> admits.
\<close>

definition builds :: "'a proc \<Rightarrow> ('a \<Rightarrow> resource multiset \<Rightarrow> bool) \<Rightarrow> (resource multiset \<Rightarrow> bool) \<Rightarrow> bool" where
  "builds m R L \<longleftrightarrow> (\<forall>S tr.
     case m S tr of
       (Inr x, tr1) \<Rightarrow> (\<exists>a. R x a \<and> held S tr1 = held S tr + a)
     | (Inl e, tr1) \<Rightarrow> e = Terminate \<or> (\<exists>l. L l \<and> held S tr1 = held S tr + l))"

definition one_leak :: "resource multiset \<Rightarrow> bool" where
  "one_leak l \<longleftrightarrow> l = {#} \<or> l = {#Database#} \<or> (\<exists>s. l = {#Socket s#})"

lemma buildsI:
  assumes "\<And>S tr x tr1. m S tr = (Inr x, tr1) \<Longrightarrow> \<exists>a. R x a \<and> held S tr1 = held S tr + a"
    and "\<And>S tr e tr1. m S tr = (Inl e, tr1) \<Longrightarrow> e \<noteq> Terminate \<Longrightarrow> \<exists>l. L l \<and> held S tr1 = held S tr + l"
  shows "builds m R L"
  unfolding builds_def using assms by (simp split: prod.split sum.split) blast

lemma buildsD:
  assumes "builds m R L"
  shows "m S tr = (Inr x, tr1) \<Longrightarrow> \<exists>a. R x a \<and> held S tr1 = held S tr + a"
    and "m S tr = (Inl e, tr1) \<Longrightarrow> e \<noteq> Terminate \<Longrightarrow> \<exists>l. L l \<and> held S tr1 = held S tr + l"
  using assms [unfolded builds_def, rule_format, of S tr] by simp_all

lemma builds_yields: "R x {#} \<Longrightarrow> builds (yields x) R L"
  by (rule buildsI) (auto simp: yields_def)

lemma thenDo_cases:
  assumes "thenDo m f S tr = r"
  obtains e tr1 where "m S tr = (Inl e, tr1)" "r = (Inl e, tr1)"
    | x tr1 where "m S tr = (Inr x, tr1)" "r = f x S tr1"
  using assms by (cases "m S tr"; cases "fst (m S tr)") (auto simp: thenDo_def)

lemma thenDo_Inr:
  assumes "thenDo m f S tr = (Inr y, tr2)"
  obtains x tr1 where "m S tr = (Inr x, tr1)" "f x S tr1 = (Inr y, tr2)"
  using assms by (auto simp: thenDo_def split: prod.splits sum.splits)

lemma builds_then:
  assumes m: "builds m (\<lambda>x a. a = R x) L" and f: "\<And>x. builds (f x) (\<lambda>y b. Q y (R x + b)) (\<lambda>l. L (R x + l))"
  shows "builds (thenDo m f) Q L"
proof (rule buildsI)
  fix S tr y tr2 assume "thenDo m f S tr = (Inr y, tr2)"
  then obtain x tr1 where 1: "m S tr = (Inr x, tr1)" "f x S tr1 = (Inr y, tr2)"
    by (rule thenDo_Inr)
  have "held S tr1 = held S tr + R x" using buildsD(1) [OF m 1(1)] by simp
  then show "\<exists>a. Q y a \<and> held S tr2 = held S tr + a" using buildsD(1) [OF f 1(2)] by (metis add.assoc)
next
  fix S tr e tr2 assume r: "thenDo m f S tr = (Inl e, tr2)" "e \<noteq> Terminate"
  from r(1) show "\<exists>l. L l \<and> held S tr2 = held S tr + l"
  proof (cases rule: thenDo_cases)
    case (1 e' tr1)
    then show ?thesis using buildsD(2) [OF m] r(2) by simp
  next
    case (2 x tr1)
    have "held S tr1 = held S tr + R x" using buildsD(1) [OF m 2(1)] by simp
    then show ?thesis using buildsD(2) [OF f 2(2) [symmetric] r(2)] by (metis add.assoc)
  qed
qed

text \<open>The rule for members: what is built goes back when the rest throws.\<close>

lemma builds_construct:
  assumes m: "builds ctor (\<lambda>x a. a = R x) L" and d: "\<And>x. gives_back (dtor x) (R x)"
    and f: "\<And>x. builds (rest x) (\<lambda>y b. Q y (R x + b)) L"
  shows "builds (construct ctor dtor rest) Q L"
proof (rule buildsI)
  fix S tr y tr2 assume "construct ctor dtor rest S tr = (Inr y, tr2)"
  then obtain x tr1 where 1: "ctor S tr = (Inr x, tr1)" "on_throw (rest x) (dtor x) S tr1 = (Inr y, tr2)"
    unfolding construct_def by (rule thenDo_Inr)
  have "rest x S tr1 = (Inr y, tr2)" using 1(2) by (auto simp: on_throw_def split: prod.splits sum.splits if_splits)
  moreover have "held S tr1 = held S tr + R x" using buildsD(1) [OF m 1(1)] by simp
  ultimately show "\<exists>a. Q y a \<and> held S tr2 = held S tr + a" using buildsD(1) [OF f] by (metis add.assoc)
next
  fix S tr e tr2 assume r: "construct ctor dtor rest S tr = (Inl e, tr2)" "e \<noteq> Terminate"
  from r(1) show "\<exists>l. L l \<and> held S tr2 = held S tr + l" unfolding construct_def
  proof (cases rule: thenDo_cases)
    case (1 e' tr1)
    then show ?thesis using buildsD(2) [OF m] r(2) by simp
  next
    case (2 x tr1)
    obtain e1 tr3 where 3: "rest x S tr1 = (Inl e1, tr3)"
      using 2(2) by (auto simp: on_throw_def split: prod.splits sum.splits)
    obtain tr4 where 4: "dtor x S tr3 = (Inr (), tr4)" "held S tr4 = held S tr3 - R x"
      using d unfolding gives_back_def by metis
    have "e1 = e" "e1 \<noteq> Terminate" "tr2 = tr4"
      using 2(2) 3 4(1) r(2) by (auto simp: on_throw_def split: if_splits)
    moreover have "held S tr1 = held S tr + R x" using buildsD(1) [OF m 2(1)] by simp
    ultimately show ?thesis using buildsD(2) [OF f 3] 4(2) by force
  qed
qed

subsection \<open>The constructors\<close>

lemma builds_call: "(\<And>r. acquires c r = R r) \<Longrightarrow> releases c = {#} \<Longrightarrow> builds (syscall c) (\<lambda>x a. a = R x) L"
  by (rule buildsI) (auto simp: syscall_def)

lemma WSAManager_new_builds: "builds WSAManager_new (\<lambda>_ a. a = {#Wsa#}) one_leak"
  by (rule buildsI) (auto simp: WSAManager_new_def proc_simps one_leak_def split: if_splits)

lemma NetFuncs_new_builds: "builds NetFuncs_new (\<lambda>_ a. a = {#}) one_leak"
  by (rule buildsI) (auto simp: NetFuncs_new_def proc_simps one_leak_def split: if_splits)

lemma SessionManager_sockets_returns: "\<exists>ss tr1. SessionManager_sockets n S tr = (Inr ss, tr1)"
proof (induction n arbitrary: tr)
  case 0
  then show ?case by (simp add: yields_def)
next
  case (Suc n)
  obtain ss tr1 where "SessionManager_sockets n S (tr @ [Sys_WSASocket]) = (Inr ss, tr1)" using Suc by blast
  then show ?case by (simp add: Session_socket_new_def proc_simps)
qed

lemma SessionManager_sockets_builds: "builds (SessionManager_sockets n) (\<lambda>ss a. a = owned ss) L"
proof (rule buildsI)
  show "SessionManager_sockets n S tr = (Inr ss, tr1) \<Longrightarrow> \<exists>a. a = owned ss \<and> held S tr1 = held S tr + a" for S tr ss tr1
  proof (induction n arbitrary: tr ss)
    case 0
    then show ?case by (simp add: yields_def owned_def)
  next
    case (Suc n)
    let ?s = "S tr Sys_WSASocket"
    obtain ss' where 1: "SessionManager_sockets n S (tr @ [Sys_WSASocket]) = (Inr ss', tr1)" "ss = ?s # ss'"
      using Suc.prems by (auto simp: Session_socket_new_def proc_simps split: prod.splits sum.splits)
    show ?case using Suc.IH [OF 1(1)] 1(2) by (auto simp: owned_def)
  qed
  show "SessionManager_sockets n S tr = (Inl e, tr1) \<Longrightarrow> \<exists>l. L l \<and> held S tr1 = held S tr + l" for S tr e tr1
    using SessionManager_sockets_returns [of n S tr] by auto
qed

lemma PacketHandler_workers_builds:
  "PacketHandler_workers n ts S tr = (Inr us, tr1) \<Longrightarrow> held S tr1 + running ts = held S tr + running us"
proof (induction n arbitrary: ts tr)
  case 0
  then show ?case by (simp add: yields_def)
next
  case (Suc n)
  let ?t = "S tr (Sys_thread PacketWorker)" and ?tr = "tr @ [Sys_thread PacketWorker]"
  have 1: "?t \<ge> 0" "PacketHandler_workers n (ts @ [?t]) S ?tr = (Inr us, tr1)"
    using Suc.prems by (auto simp: thread_new_def on_throw_def threads_delete_def proc_simps split: prod.splits sum.splits if_splits)
  show ?case using Suc.IH [OF 1(2)] 1(1)
    by (cases "?t = 0") (auto simp: running_def joinable_def)
qed

lemma PacketHandler_workers_throws:
  "PacketHandler_workers n ts S tr = (Inl e, tr1) \<Longrightarrow> e \<noteq> Terminate \<Longrightarrow>
   held S tr1 = held S tr \<and> (\<forall>t \<in> set ts. \<not> joinable t)"
proof (induction n arbitrary: ts tr)
  case 0
  then show ?case by (simp add: yields_def)
next
  case (Suc n)
  let ?t = "S tr (Sys_thread PacketWorker)" and ?tr = "tr @ [Sys_thread PacketWorker]"
  show ?case
  proof (cases "?t < 0")
    case True
    then show ?thesis using Suc.prems
      by (auto simp: thread_new_def on_throw_def threads_delete_def proc_simps split: if_splits)
  next
    case False
    then have "PacketHandler_workers n (ts @ [?t]) S ?tr = (Inl e, tr1)"
      using Suc.prems(1) by (simp add: thread_new_def on_throw_def proc_simps)
    from Suc.IH [OF this Suc.prems(2)] show ?thesis by (auto simp: joinable_def)
  qed
qed

lemma PacketHandler_new_builds: "builds PacketHandler_new (\<lambda>ts a. a = running ts) one_leak"
proof (rule buildsI)
  show "\<exists>a. a = running ts \<and> held S tr1 = held S tr + a" if "PacketHandler_new S tr = (Inr ts, tr1)" for S tr ts tr1
    using PacketHandler_workers_builds [OF that [unfolded PacketHandler_new_def]] by (simp add: running_def)
  show "\<exists>l. one_leak l \<and> held S tr1 = held S tr + l" if "PacketHandler_new S tr = (Inl e, tr1)" "e \<noteq> Terminate" for S tr e tr1
    using PacketHandler_workers_throws [OF that(1) [unfolded PacketHandler_new_def] that(2)] by (simp add: one_leak_def)
qed

lemma IocpCore_new_builds: "builds IocpCore_new (\<lambda>h a. a = {#Port h#}) one_leak"
  by (rule buildsI) (auto simp: IocpCore_new_def proc_simps one_leak_def split: if_splits)

lemma Listener_new_builds: "builds (Listener_new h p) (\<lambda>s a. a = owned [s]) one_leak"
  by (rule buildsI) (auto simp: Listener_new_def proc_simps one_leak_def owned_def split: if_splits)

lemma DBManager_construct_builds: "builds DBManager_construct (\<lambda>_ a. a = {#Database#}) one_leak"
  by (rule buildsI) (auto simp: DBManager_construct_def proc_simps one_leak_def split: if_splits)

lemma ServerService_new_builds:
  "builds (ServerService_new n) (\<lambda>sv a. server_resources sv = a \<and> sv_threads sv = []) one_leak"
proof -
  have final: "builds (thenDo (syscall Sys_CreateAccounts) (\<lambda>_. yields x)) R one_leak" if "R x {#}" for R and x :: server
    by (rule buildsI) (use that in \<open>auto simp: proc_simps\<close>)
  have port: "gives_back (IocpCore_delete h []) {#Port h#}" for h
    using IocpCore_delete_back [of h "[]"] by (simp add: running_def)
  show ?thesis unfolding ServerService_new_def
    by (intro builds_construct [OF WSAManager_new_builds] builds_construct [OF NetFuncs_new_builds]
        builds_construct [OF SessionManager_sockets_builds] builds_construct [OF PacketHandler_new_builds]
        builds_construct [OF IocpCore_new_builds] builds_construct [OF Listener_new_builds]
        builds_construct [OF DBManager_construct_builds] WSAManager_delete_back gives_back_yields
        SessionManager_delete_back PacketHandler_delete_back port Listener_delete_back DBManager_delete_back final)
      (simp add: server_resources_def running_def ac_simps)
qed

lemma IocpCore_Start_loop_builds:
  "IocpCore_Start_loop n ts S tr = (Inr (us, ok), tr1) \<Longrightarrow> ok \<and> held S tr1 + running ts = held S tr + running us"
proof (induction n arbitrary: ts tr)
  case 0
  then show ?case by (simp add: yields_def)
next
  case (Suc n)
  let ?t = "S tr (Sys_thread IocpWorker)" and ?tr = "tr @ [Sys_thread IocpWorker]"
  have 1: "?t > 0" "IocpCore_Start_loop n (ts @ [?t]) S ?tr = (Inr (us, ok), tr1)"
    using Suc.prems by (auto simp: thread_new_def joinable_def proc_simps split: prod.splits sum.splits if_splits)
  show ?case using Suc.IH [OF 1(2)] 1(1) by (auto simp: running_def joinable_def)
qed


text \<open>A system in which everything works, and one whose \<open>bind\<close> fails: the listening socket stays open.\<close>

definition sample_system :: "int \<Rightarrow> system" where
  "sample_system bound tr c =
     (case c of Sys_WSASocket \<Rightarrow> int (length tr) + 1 | Sys_CreateIocp \<Rightarrow> 100 | Sys_thread f \<Rightarrow> int (length tr) + 1
      | Sys_Associate s h \<Rightarrow> 1 | Sys_bind s p \<Rightarrow> bound | _ \<Rightarrow> 0)"

lemmas startup_eval = ServerService_new_def WSAManager_new_def NetFuncs_new_def Session_socket_new_def PacketHandler_new_def
  IocpCore_new_def Listener_new_def DBManager_construct_def construct_def on_throw_def proc_simps sample_system_def
  INVALID_SOCKET_def SOCKET_ERROR_def kWorkerThreadCount_def thread_new_def threads_delete_def joinable_def

lemmas shutdown_eval = ServerService_delete_def DBManager_delete_def Listener_delete_def IocpCore_delete_def
  PacketHandler_delete_def SessionManager_delete_def WSAManager_delete_def close_socket_def join_thread_def
  Session_socket_delete_def

lemma sample_new:
  "\<exists>sv tr us ok tr1. ServerService_new 1 (sample_system 0) [] = (Inr sv, tr) \<and>
     IocpCore_Start 1 (sample_system 0) tr = (Inr (us, ok), tr1)"
  by (auto simp add: startup_eval IocpCore_Start_def)

lemma sample_new_fails:
  "\<exists>tr. ServerService_new 1 (sample_system (- 1)) [] = (Inl Runtime_error, tr) \<and>
     held (sample_system (- 1)) tr = {#Socket 9#}"
  by (simp add: startup_eval shutdown_eval held_def)


subsection \<open>The order of the destruction\<close>

definition appends :: "unit proc \<Rightarrow> sys_call list \<Rightarrow> bool" where
  "appends m cs \<longleftrightarrow> (\<forall>S tr. m S tr = (Inr (), tr @ cs))"

lemma appends_call: "appends (thenDo (syscall c) (\<lambda>_. yields ())) [c]"
  by (simp add: appends_def proc_simps)

lemma appends_yields: "appends (yields ()) []"
  by (simp add: appends_def yields_def)

lemma appends_then: "appends m as \<Longrightarrow> appends n bs \<Longrightarrow> appends (thenDo m (\<lambda>_. n)) (as @ bs)"
  by (simp add: appends_def thenDo_def)

lemma appends_for_each: "(\<And>x. appends (f x) (g x)) \<Longrightarrow> appends (for_each f xs) (concat (map g xs))"
  by (induction xs) (simp_all add: appends_yields appends_then)

lemma appends_if: "appends m cs \<Longrightarrow> appends (if b then m else yields ()) (if b then cs else [])"
  by (simp add: appends_yields)

lemma concat_filter: "concat (map (\<lambda>x. if P x then [f x] else []) xs) = map f (filter P xs)"
  by (induction xs) auto

lemma concat_single: "concat (map (\<lambda>_. [c]) xs) = replicate (length xs) c"
  by (induction xs) auto

lemma appends_notify: "appends (thenDo (syscall Sys_notify_all) (\<lambda>_. m)) (Sys_notify_all # cs)" if "appends m cs"
  using that by (simp add: appends_def proc_simps)


end
