(* ===== verification/Accounting.thy ===== *)
theory Accounting
  imports IocpLemmas SparsePool_Props
begin

section \<open>The pointers of the server and the counts in its pools\<close>

text \<open>
  The smart pointers of the server lie in the manager's array, in the three overlapped blocks of each
  session, in the queued tasks and on the stacks of the threads. \<open>refs_ok n w L\<close>: each session slot counts
  the pointers to it, where \<open>L\<close> are those on the stack; all of them carry its current handle, and a slot
  without pointers is idle. \<open>packets_held m w D\<close>: the same for packets, each of which has one owner.
  The rules below say what each operation on pointers does to these two; they are stated with \<open>ensures\<close>,
  so they hold for whatever the environment answers.
\<close>

subsection \<open>The invariant\<close>

definition slot_ptrs :: "'db world \<Rightarrow> nat \<Rightarrow> shared_ptr list" where
  "slot_ptrs w i = [w_sessionPtrs w i, ov_sessionPtr (se_recvOv (sess w i)),
     ov_sessionPtr (se_sendOv (sess w i)), ov_sessionPtr (se_disconnectOv (sess w i))]"

definition session_fields :: "nat \<Rightarrow> nat \<Rightarrow> session \<Rightarrow> bool" where
  "session_fields n i s \<longleftrightarrow> (who_of (se_handle s) < n \<longrightarrow> who_of (se_handle s) = i) \<and>
     (\<not> se_isSending s \<longrightarrow> \<not> sptr_pool (ov_sessionPtr (se_sendOv s))) \<and>
     ov_ioType (se_recvOv s) \<in> {IO_kNone, IO_kRecv, IO_kAccept} \<and>
     ov_ioType (se_sendOv s) \<in> {IO_kNone, IO_kSend} \<and>
     ov_ioType (se_disconnectOv s) \<in> {IO_kNone, IO_kDisconnect}"

definition own_ptrs :: "'db world \<Rightarrow> nat \<Rightarrow> bool" where
  "own_ptrs w i \<longleftrightarrow> (\<forall>p \<in> set (slot_ptrs w i). sptr_pool p \<longrightarrow> sptr_handle p = pool_handle (w_spool w) i)"

definition slot_count :: "'db world \<Rightarrow> shared_ptr list \<Rightarrow> nat \<Rightarrow> nat" where
  "slot_count w L i = length (filter sptr_pool (slot_ptrs w i)) + ptr_count L i"

definition refs_ok :: "nat \<Rightarrow> 'db world \<Rightarrow> shared_ptr list \<Rightarrow> bool" where
  "refs_ok n w L \<longleftrightarrow> pool_N (w_spool w) = n \<and> pool_ok (w_spool w) (slot_count w L) \<and> ss_K (sp_set (w_spool w)) = 4 \<and>
     (\<forall>i < pool_N (w_spool w). own_ptrs w i \<and> session_fields (pool_N (w_spool w)) i (sess w i)) \<and>
     (\<forall>p \<in> set L. ptr_fresh (w_spool w) p)"

definition packets_held :: "nat \<Rightarrow> 'db world \<Rightarrow> shared_ptr list \<Rightarrow> bool" where
  "packets_held m w D \<longleftrightarrow>
     (let vs = map task_packet (tq_tasks (w_tasks w)) @ D in
      vars_ok m (w_ppool w) vs \<and> ss_K (sp_set (w_ppool w)) = 2 \<and> (\<forall>j. ptr_count vs j \<le> 1))"

datatype sizes = Sizes (of_sessions: nat) (of_packets: nat)

definition acc :: "sizes \<Rightarrow> 'db world \<Rightarrow> shared_ptr list \<Rightarrow> shared_ptr list \<Rightarrow> bool" where
  "acc z w L D \<longleftrightarrow> refs_ok (of_sessions z) w L \<and> packets_held (of_packets z) w D"

text \<open>What the callback of the session pool has to keep.\<close>

definition post_ok :: "'db env \<Rightarrow> bool" where
  "post_ok E \<longleftrightarrow> (\<forall>z w L D. acc z w L D \<and> length L \<le> 8 \<longrightarrow> ensures (e_post E w) (\<lambda>w'. acc z w' L D))"

lemma slot_ptrs_cong:
  "sess w' i = sess w i \<Longrightarrow> w_sessionPtrs w' i = w_sessionPtrs w i \<Longrightarrow> slot_ptrs w' i = slot_ptrs w i"
  by (simp add: slot_ptrs_def)

lemma refs_okD:
  assumes "refs_ok n w L"
  shows "pool_ok (w_spool w) (slot_count w L)" and "pool_wf (w_spool w)" and "ss_K (sp_set (w_spool w)) = 4"
    and "swf w i \<Longrightarrow> own_ptrs w i" and "swf w i \<Longrightarrow> session_fields (pool_N (w_spool w)) i (sess w i)"
    and "p \<in> set L \<Longrightarrow> ptr_fresh (w_spool w) p"
    and "swf w i \<Longrightarrow> refs w i = slot_count w L i" and "swf w i \<Longrightarrow> slot_count w L i = 0 \<longleftrightarrow> sstate w i = 0"
    and "pool_N (w_spool w) = n"
  using assms pool_okD [of "w_spool w" "slot_count w L"] by (auto simp: refs_ok_def refs_def sstate_def swf_def)

lemma accD:
  assumes "acc z w L D"
  shows "refs_ok (of_sessions z) w L" and "packets_held (of_packets z) w D" and "pool_wf (w_spool w)" and "pool_wf (w_ppool w)"
  using assms refs_okD(2) [of "of_sessions z" w L] by (auto simp: acc_def packets_held_def vars_ok_def Let_def dest: pool_okD(1))

lemma swf_index: "acc z w L D \<Longrightarrow> i < pool_N (w_spool w) \<Longrightarrow> swf w i"
  using accD(3) by (simp add: swf_def)

text \<open>Fields that neither part looks at.\<close>

lemma refs_ok_cong:
  assumes "w_spool w' = w_spool w" and "w_sessionPtrs w' = w_sessionPtrs w"
  shows "refs_ok n w' L = refs_ok n w L"
proof -
  have "slot_ptrs w' = slot_ptrs w" using assms by (simp add: fun_eq_iff slot_ptrs_def sess_def)
  then show ?thesis using assms by (simp add: refs_ok_def slot_count_def [abs_def] own_ptrs_def sess_def)
qed

lemma packets_held_cong:
  "w_ppool w' = w_ppool w \<Longrightarrow> w_tasks w' = w_tasks w \<Longrightarrow> packets_held m w' D = packets_held m w D"
  by (simp add: packets_held_def)

lemma acc_cong:
  "w_spool w' = w_spool w \<Longrightarrow> w_sessionPtrs w' = w_sessionPtrs w \<Longrightarrow> w_ppool w' = w_ppool w \<Longrightarrow> w_tasks w' = w_tasks w \<Longrightarrow>
   acc z w' L D = acc z w L D"
  unfolding acc_def by (metis refs_ok_cong packets_held_cong)

lemma acc_other [simp]:
  "acc z (w\<lparr> w_trace := t \<rparr>) L D = acc z w L D" "acc z (w\<lparr> w_pendingAccepts := a \<rparr>) L D = acc z w L D"
  "acc z (w\<lparr> w_db := d \<rparr>) L D = acc z w L D" "acc z (w\<lparr> w_managerInit := b \<rparr>) L D = acc z w L D"
  by (rule acc_cong; simp)+

lemma refs_ok_ppool [simp]:
  "refs_ok n (w\<lparr> w_ppool := p \<rparr>) L = refs_ok n w L" "refs_ok n (w\<lparr> w_tasks := q \<rparr>) L = refs_ok n w L"
  by (rule refs_ok_cong; simp)+

subsection \<open>Changes of one session\<close>

text \<open>A step on session \<open>i\<close>: its object, its count and the manager's pointer to it.\<close>

definition retouch :: "'db world \<Rightarrow> nat \<Rightarrow> shared_ptr \<Rightarrow> (session \<Rightarrow> session) \<Rightarrow> (nat \<Rightarrow> nat) \<Rightarrow> os_call list \<Rightarrow> 'db world" where
  "retouch w i p F R cs = (touch w i F R cs)\<lparr> w_sessionPtrs := (w_sessionPtrs w)(i := p) \<rparr>"

lemma retouch_views [simp]:
  "sess (retouch w i p F R cs) j = (if j = i then F (sess w i) else sess w j)"
  "refs (retouch w i p F R cs) j = (if j = i then R (refs w i) else refs w j)"
  "w_sessionPtrs (retouch w i p F R cs) = (w_sessionPtrs w)(i := p)"
  "w_ppool (retouch w i p F R cs) = w_ppool w" "w_tasks (retouch w i p F R cs) = w_tasks w"
  "sp_set (w_spool (retouch w i p F R cs)) = sp_set (w_spool w)"
  "op_N (sp_pool (w_spool (retouch w i p F R cs))) = op_N (sp_pool (w_spool w))"
  by (simp_all add: retouch_def sess_def refs_def touch_def)

lemma touch_retouch: "touch w i F R cs = retouch w i (w_sessionPtrs w i) F R cs"
  by (simp add: retouch_def touch_def)

lemma refs_ok_retouch:
  assumes ok: "refs_ok n w L" and wf: "swf w i"
    and f: "session_fields (pool_N (w_spool w)) i (F (sess w i))" and own: "own_ptrs (retouch w i p F R cs) i"
    and n: "R (refs w i) = slot_count (retouch w i p F R cs) L' i" and pos: "0 < refs w i \<longleftrightarrow> 0 < R (refs w i)"
    and L: "\<And>j. j \<noteq> i \<Longrightarrow> ptr_count L' j = ptr_count L j" "\<And>q. q \<in> set L' \<Longrightarrow> ptr_fresh (w_spool w) q"
  shows "refs_ok n (retouch w i p F R cs) L'"
proof -
  let ?w = "retouch w i p F R cs"
  note D = refs_okD [OF ok]
  have same: "slot_ptrs ?w j = slot_ptrs w j" if "j \<noteq> i" for j using that by (simp add: slot_ptrs_def)
  have cnt: "slot_count ?w L' j = (if j = i then R (refs w i) else slot_count w L j)" for j
    using n same L(1) by (simp add: slot_count_def)
  have "pool_wf (w_spool ?w)" using D(2) by (simp add: retouch_def touch_def)
  moreover have "ps_refCount (slot_of (w_spool ?w) j) = slot_count ?w L' j \<and> (slot_count ?w L' j = 0 \<longleftrightarrow> pool_state (w_spool ?w) j = 0)"
    if "j < pool_N (w_spool ?w)" for j
  proof -
    have j: "swf w j" using that D(2) by (simp add: swf_def)
    have "ps_refCount (slot_of (w_spool ?w) j) = refs ?w j" by (simp add: refs_def)
    then show ?thesis using D(7,8) [OF j] D(7) [OF wf] cnt pos by (auto simp: sstate_def)
  qed
  moreover have "own_ptrs ?w j \<and> session_fields (pool_N (w_spool ?w)) j (sess ?w j)" if "j < pool_N (w_spool ?w)" for j
  proof (cases "j = i")
    case False
    have "swf w j" using that D(2) by (simp add: swf_def)
    then show ?thesis using D(4,5) False same by (simp add: own_ptrs_def)
  qed (use f own in simp)
  ultimately show ?thesis using D(3,9) L(2) by (simp add: refs_ok_def pool_ok_def ptr_fresh_def)
qed

text \<open>Changes that leave the pointers alone.\<close>

definition same_ptrs :: "session \<Rightarrow> session \<Rightarrow> bool" where
  "same_ptrs s t \<longleftrightarrow> ov_sessionPtr (se_recvOv t) = ov_sessionPtr (se_recvOv s) \<and>
     ov_sessionPtr (se_sendOv t) = ov_sessionPtr (se_sendOv s) \<and> ov_sessionPtr (se_disconnectOv t) = ov_sessionPtr (se_disconnectOv s)"

lemma slot_ptrs_touch: "same_ptrs (sess w i) (F (sess w i)) \<Longrightarrow> slot_ptrs (touch w i F R cs) j = slot_ptrs w j"
  by (auto simp: slot_ptrs_def same_ptrs_def)

lemma acc_touch:
  assumes a: "acc z w L D" and wf: "swf w i" and s: "same_ptrs (sess w i) (F (sess w i))"
    and f: "session_fields (pool_N (w_spool w)) i (F (sess w i))"
  shows "acc z (touch w i F (\<lambda>n. n) cs) L D"
proof -
  have same: "slot_ptrs (retouch w i (w_sessionPtrs w i) F (\<lambda>n. n) cs) i = slot_ptrs w i"
    using s by (auto simp: slot_ptrs_def same_ptrs_def)
  note R = refs_okD [OF accD(1) [OF a]]
  have "refs_ok (of_sessions z) (retouch w i (w_sessionPtrs w i) F (\<lambda>n. n) cs) L"
    using R(4,7) [OF wf] R(6) wf f same
    by (intro refs_ok_retouch [OF accD(1) [OF a]]) (simp_all add: own_ptrs_def slot_count_def)
  then show ?thesis using accD(2) [OF a] by (simp add: acc_def touch_retouch packets_held_def)
qed

lemma sess_at_bind:
  assumes "pool_wf (w_spool w)" and "swf w i \<Longrightarrow> ensures (f (sess w i)) P"
  shows "ensures (andThen (sess_at E w i) f) P"
proof (cases "swf w i")
  case False
  then have "sess_at E w i = Inl OutOfBounds"
    using assms(1) pool_wfD(4) [OF assms(1)] by (simp add: swf_def sess_at_def slot_at_def ObjectPool_Get_def)
  then show ?thesis by simp
qed (use assms in simp)

lemma require_bind: "(b \<Longrightarrow> ensures (f ()) P) \<Longrightarrow> ensures (andThen (require b e) f) P"
  by (cases b) simp_all

lemma sess_upd_bind:
  assumes a: "acc z w L D" and "swf w i \<Longrightarrow> same_ptrs (sess w i) (F (sess w i))"
    and "swf w i \<Longrightarrow> session_fields (pool_N (w_spool w)) i (F (sess w i))"
    and f: "\<And>w1. swf w i \<Longrightarrow> acc z w1 L D \<Longrightarrow> swf w1 i \<Longrightarrow> sess w1 i = F (sess w i) \<Longrightarrow> refs w1 i = refs w i \<Longrightarrow>
      w_sessionPtrs w1 = w_sessionPtrs w \<Longrightarrow> pool_N (w_spool w1) = pool_N (w_spool w) \<Longrightarrow> ensures (f w1) P"
  shows "ensures (andThen (sess_upd E w i F) f) P"
proof (cases "swf w i")
  case True
  have "acc z (touch w i F (\<lambda>n. n) []) L D" using assms(2,3) True by (intro acc_touch a) simp_all
  then show ?thesis using f [of "touch w i F (\<lambda>n. n) []"] True by simp
next
  case False
  then have "sess_upd E w i F = Inl OutOfBounds"
    using accD(3) [OF a] pool_wfD(4) [OF accD(3) [OF a]] by (simp add: swf_def sess_upd_def spool.slot_upd_bad)
  then show ?thesis by simp
qed

lemma sess_upd_rule:
  assumes "acc z w L D" and "swf w i \<Longrightarrow> same_ptrs (sess w i) (F (sess w i))"
    and "swf w i \<Longrightarrow> session_fields (pool_N (w_spool w)) i (F (sess w i))"
  shows "ensures (sess_upd E w i F) (\<lambda>w'. acc z w' L D)"
  using sess_upd_bind [of z w L D i F Inr "\<lambda>w'. acc z w' L D" E] assms by simp

subsection \<open>Pointers on the stack\<close>

lemma refs_le: "acc z w L D \<Longrightarrow> swf w i \<Longrightarrow> refs w i \<le> 4 + length L"
  using refs_okD(7) [OF accD(1), of z w L D i] ptr_count_le [of L i]
    length_filter_le [of sptr_pool "slot_ptrs w i"] by (simp add: slot_count_def slot_ptrs_def)

lemma field_in_slot: "ov_sessionPtr (get_ov f (sess w i)) \<in> set (slot_ptrs w i)"
  by (cases f) (simp_all add: slot_ptrs_def)

lemma stored_ptr:
  assumes a: "acc z w L D" and wf: "swf w i" and p: "p \<in> set (slot_ptrs w i)" "sptr_pool p"
  shows "sptr_handle p = pool_handle (w_spool w) i" and "who_of (sptr_handle p) = i" and "ptr_fresh (w_spool w) p" and "0 < refs w i"
proof -
  have i: "i < pool_N (w_spool w)" "i < 2 ^ 32" using wf pool_wfD(5) [of "w_spool w"] by (auto simp: swf_def)
  show h: "sptr_handle p = pool_handle (w_spool w) i"
    using refs_okD(4) [OF accD(1) [OF a] wf] p by (simp add: own_ptrs_def)
  then show "who_of (sptr_handle p) = i" using i by simp
  then show "ptr_fresh (w_spool w) p" using h i by (simp add: ptr_fresh_def)
  have "p \<in> set (filter sptr_pool (slot_ptrs w i))" using p by simp
  then have "0 < length (filter sptr_pool (slot_ptrs w i))" by (rule length_pos_if_in_set)
  then show "0 < refs w i" using refs_okD(7) [OF accD(1) [OF a] wf] by (simp add: slot_count_def)
qed

definition bump :: "'db world \<Rightarrow> shared_ptr \<Rightarrow> 'db world" where
  "bump w p = (if sptr_pool p then touch w (who_of (sptr_handle p)) (\<lambda>s. s) (\<lambda>n. n + 1) [] else w)"

lemma bump_views [simp]:
  "sess (bump w p) i = sess w i" "w_sessionPtrs (bump w p) = w_sessionPtrs w" "w_managerInit (bump w p) = w_managerInit w"
  "sp_set (w_spool (bump w p)) = sp_set (w_spool w)" "w_tasks (bump w p) = w_tasks w" "w_ppool (bump w p) = w_ppool w"
  "swf w i \<Longrightarrow> swf (bump w p) i" "sstate (bump w p) i = sstate w i" "w_db (bump w p) = w_db w"
  by (simp_all add: bump_def)

lemma acc_null: "\<not> sptr_pool p \<Longrightarrow> acc z w (p # L) D = acc z w L D"
  by (simp add: acc_def refs_ok_def slot_count_def [abs_def] ptr_fresh_def points_to_def)

lemma copy_rule:
  assumes a: "acc z w L D" and fr: "ptr_fresh (w_spool w) p" and pos: "sptr_pool p \<Longrightarrow> 0 < refs w (who_of (sptr_handle p))"
    and len: "length L \<le> 20"
  shows "SharedPoolPtr_copy (session_host E) w p = Inr (bump w p, p)" and "acc z (bump w p) (p # L) D"
proof -
  let ?i = "who_of (sptr_handle p)"
  note R = refs_okD [OF accD(1) [OF a]]
  have both: "SharedPoolPtr_copy (session_host E) w p = Inr (bump w p, p) \<and> acc z (bump w p) (p # L) D"
  proof (cases "sptr_pool p")
    case True
    then have wf: "swf w ?i" using fr R(2) by (simp add: ptr_fresh_def swf_def)
    have r: "refs w ?i + 1 < 2 ^ 64" using refs_le [OF a wf] len by simp
    have p: "p = \<lparr> sptr_pool = True, sptr_handle = sptr_handle p \<rparr>" using True by simp
    have "SharedPoolPtr_copy (session_host E) w p = Inr (bump w p, p)"
      using ptr_copy_eq [OF wf refl r, of E] True p by (simp add: bump_def)
    moreover have "bump w p = retouch w ?i (w_sessionPtrs w ?i) (\<lambda>s. s) (\<lambda>n. n + 1) []"
      using True by (simp add: bump_def touch_retouch)
    moreover have "refs_ok (of_sessions z) (retouch w ?i (w_sessionPtrs w ?i) (\<lambda>s. s) (\<lambda>n. n + 1) []) (p # L)"
    proof (rule refs_ok_retouch [OF accD(1) [OF a] wf])
      have same: "slot_ptrs (retouch w ?i (w_sessionPtrs w ?i) (\<lambda>s. s) (\<lambda>n. n + 1) []) ?i = slot_ptrs w ?i"
        by (simp add: slot_ptrs_def)
      show "own_ptrs (retouch w ?i (w_sessionPtrs w ?i) (\<lambda>s. s) (\<lambda>n. n + 1) []) ?i"
        using R(4) [OF wf] same by (simp add: own_ptrs_def)
      show "refs w ?i + 1 = slot_count (retouch w ?i (w_sessionPtrs w ?i) (\<lambda>s. s) (\<lambda>n. n + 1) []) (p # L) ?i"
        using R(7) [OF wf] True same by (simp add: slot_count_def points_to_def)
    qed (use R(5) [OF wf] R(6) pos True fr in \<open>auto simp: points_to_def\<close>)
    ultimately show ?thesis using accD(2) [OF a] by (simp add: acc_def packets_held_def)
  next
    case False
    then show ?thesis using a by (simp add: SharedPoolPtr_copy_def bump_def acc_null)
  qed
  then show "SharedPoolPtr_copy (session_host E) w p = Inr (bump w p, p)" "acc z (bump w p) (p # L) D" by simp_all
qed

lemma delete_keep:
  assumes a: "acc z w (p # L) D" and p: "sptr_pool p" and r: "refs w (who_of (sptr_handle p)) \<noteq> 1" and len: "length L \<le> 20"
  shows "SharedPoolPtr_delete (session_host E) w p = Inr (touch w (who_of (sptr_handle p)) (\<lambda>s. s) (\<lambda>n. n - 1) [])"
    and "acc z (touch w (who_of (sptr_handle p)) (\<lambda>s. s) (\<lambda>n. n - 1) []) L D"
proof -
  let ?i = "who_of (sptr_handle p)"
  note R = refs_okD [OF accD(1) [OF a]]
  have wf: "swf w ?i" using R(2) R(6) [of p] p by (simp add: ptr_fresh_def swf_def)
  have n: "refs w ?i = Suc (slot_count w L ?i)" using R(7) [OF wf] p by (simp add: slot_count_def points_to_def)
  then have r1: "1 < refs w ?i" using r by simp
  have pp: "p = \<lparr> sptr_pool = True, sptr_handle = sptr_handle p \<rparr>" using p by simp
  have "refs w ?i < 2 ^ 64" using refs_le [OF a wf] len by simp
  from ptr_delete_keep [OF wf refl r1 this, of E] pp
  show "SharedPoolPtr_delete (session_host E) w p = Inr (touch w ?i (\<lambda>s. s) (\<lambda>n. n - 1) [])" by simp
  let ?w = "retouch w ?i (w_sessionPtrs w ?i) (\<lambda>s. s) (\<lambda>n. n - 1) []"
  have same: "slot_ptrs ?w ?i = slot_ptrs w ?i" by (simp add: slot_ptrs_def)
  have "refs_ok (of_sessions z) ?w L"
  proof (rule refs_ok_retouch [OF accD(1) [OF a] wf])
    show "own_ptrs ?w ?i" using R(4) [OF wf] same by (simp add: own_ptrs_def)
    show "refs w ?i - 1 = slot_count ?w L ?i" using n same by (simp add: slot_count_def)
  qed (use R(5) [OF wf] R(6) r1 in \<open>auto simp: points_to_def\<close>)
  then show "acc z (touch w ?i (\<lambda>s. s) (\<lambda>n. n - 1) []) L D"
    using accD(2) [OF a] by (simp add: acc_def touch_retouch packets_held_def)
qed

lemma acc_released:
  assumes a: "acc z w (p # L) D" and p: "sptr_pool p" and r: "refs w (who_of (sptr_handle p)) = 1"
    and pu: "pushed (sp_set (w_spool w)) ss (who_of (sptr_handle p))"
  shows "acc z (w\<lparr> w_spool := (upd_slot (w_spool w) (who_of (sptr_handle p))
      (\<lambda>s. s\<lparr> ps_refCount := sub64 (ps_refCount s) 1 \<rparr>))\<lparr> sp_set := ss \<rparr> \<rparr>) L D"
proof -
  let ?i = "who_of (sptr_handle p)"
  let ?w = "w\<lparr> w_spool := (upd_slot (w_spool w) ?i (\<lambda>s. s\<lparr> ps_refCount := sub64 (ps_refCount s) 1 \<rparr>))\<lparr> sp_set := ss \<rparr> \<rparr>"
  note R = refs_okD [OF accD(1) [OF a]] and P = pushedD [OF pu]
  have wf: "swf w ?i" and iN: "?i < pool_N (w_spool w)" using R(2) R(6) [of p] p by (simp_all add: ptr_fresh_def swf_def)
  have one: "slot_count w (p # L) ?i = 1" using R(7) [OF wf] r by simp
  then have L0: "ptr_count L ?i = 0" and none: "filter sptr_pool (slot_ptrs w ?i) = []"
    using p by (simp_all add: slot_count_def points_to_def)
  have sess: "sess ?w j = sess w j" for j by (simp add: sess_def)
  have same: "slot_ptrs ?w j = slot_ptrs w j" for j unfolding slot_ptrs_def sess by simp
  have "(slot_count w (p # L))(?i := 0) = slot_count ?w L"
    using L0 none p same by (auto simp: fun_eq_iff slot_count_def points_to_def)
  with pool_ok_free [OF R(1) iN one pu] have "pool_ok (w_spool ?w) (slot_count ?w L)" by simp
  moreover have "own_ptrs ?w j \<and> session_fields (pool_N (w_spool ?w)) j (sess ?w j)" if "j < pool_N (w_spool ?w)" for j
  proof -
    have j: "swf w j" using that R(2) P(2) by (simp add: swf_def)
    show ?thesis
    proof (cases "j = ?i")
      case True
      have "\<forall>q \<in> set (slot_ptrs w ?i). \<not> sptr_pool q" using none by (simp add: filter_empty_conv)
      then show ?thesis using True R(5) [OF j] P(2) same sess by (simp add: own_ptrs_def)
    next
      case False
      then have "cur_handle ss j = pool_handle (w_spool w) j" using P(4) [of j] by (simp add: cur_handle_def)
      then show ?thesis using R(4,5) [OF j] P(2) same sess by (simp add: own_ptrs_def)
    qed
  qed
  moreover have "ptr_fresh (w_spool ?w) q" if q: "q \<in> set L" for q
  proof (cases "sptr_pool q")
    case True
    have "\<not> points_to q ?i" using L0 q by (auto simp: ptr_count_def filter_empty_conv)
    then have ne: "who_of (sptr_handle q) \<noteq> ?i" using True by (simp add: points_to_def)
    then have "cur_handle ss (who_of (sptr_handle q)) = pool_handle (w_spool w) (who_of (sptr_handle q))"
      using P(4) [of "who_of (sptr_handle q)"] by (simp add: cur_handle_def)
    then show ?thesis using R(6) [of q] q P(2) True by (simp add: ptr_fresh_def)
  qed (simp add: ptr_fresh_def)
  ultimately have "refs_ok (of_sessions z) ?w L" using R(3,9) P(2,3) by (simp add: refs_ok_def)
  then show ?thesis using accD(2) [OF a] by (simp add: acc_def packets_held_def)
qed

lemma delete_rule:
  assumes a: "acc z w (p # L) D" and E: "post_ok E" and len: "length L \<le> 8"
  shows "ensures (SharedPoolPtr_delete (session_host E) w p) (\<lambda>w'. acc z w' L D)"
proof (cases "sptr_pool p")
  case False
  then show ?thesis using a by (simp add: SharedPoolPtr_delete_def acc_null)
next
  case True
  let ?i = "who_of (sptr_handle p)"
  note R = refs_okD [OF accD(1) [OF a]]
  have i: "?i < pool_N (w_spool w)" using R(6) [of p] True by (simp add: ptr_fresh_def)
  show ?thesis
  proof (cases "refs w ?i = 1")
    case False
    then show ?thesis using delete_keep [OF a True False] len by simp
  next
    case one: True
    obtain ss where pu: "pushed (sp_set (w_spool w)) ss ?i"
      and r: "SparsePool_ReleaseRef (session_host E) w (sptr_handle p) = e_post E (w\<lparr> w_spool := (upd_slot (w_spool w) ?i
        (\<lambda>s. s\<lparr> ps_refCount := sub64 (ps_refCount s) 1 \<rparr>))\<lparr> sp_set := ss \<rparr> \<rparr>)"
      using spool.ReleaseRef_last [where w = w and h = "sptr_handle p" and E = E] R(2) i one by (auto simp: refs_def)
    then show ?thesis using True E len acc_released [OF a True one pu] by (simp add: SharedPoolPtr_delete_def post_ok_def)
  qed
qed

end
