(* ===== verification/Accounting_Ops.thy ===== *)
theory Accounting_Ops
  imports Accounting
begin

section \<open>The operations of a session keep the counts\<close>

text \<open>
  One rule per method of \<open>Session\<close>. The rules for the pointer in an overlapped block need that giving up its
  old value does not give up the last reference: either the block is free, or there is another pointer.
\<close>

subsection \<open>The pointer in an overlapped block\<close>

definition ov_ptr_of :: "ov_field \<Rightarrow> session \<Rightarrow> shared_ptr" where
  "ov_ptr_of f s = ov_sessionPtr (get_ov f s)"

abbreviation ov_store :: "ov_field \<Rightarrow> shared_ptr \<Rightarrow> session \<Rightarrow> session" where
  "ov_store f p \<equiv> upd_ov f (\<lambda>ov. ov\<lparr> ov_sessionPtr := p \<rparr>)"

lemma ov_ptr_of_in: "ov_ptr_of f (sess w i) \<in> set (slot_ptrs w i)"
  by (simp add: ov_ptr_of_def field_in_slot)

lemma ov_store_fields:
  "session_fields n i s \<Longrightarrow> f = SendOv \<longrightarrow> se_isSending s \<or> \<not> sptr_pool p \<Longrightarrow> session_fields n i (ov_store f p s)"
  by (cases f) (auto simp: session_fields_def)

text \<open>Storing \<open>p\<close> in a block, where \<open>p\<close> is null or points to the session.\<close>

lemma ov_store_acc:
  assumes a: "acc z w L D" and wf: "swf w i" and f: "f = SendOv \<longrightarrow> se_isSending (sess w i) \<or> \<not> sptr_pool p"
    and p: "sptr_pool p \<Longrightarrow> sptr_handle p = pool_handle (w_spool w) i"
    and R: "R (refs w i) + of_bool (sptr_pool (ov_ptr_of f (sess w i))) + ptr_count L i =
      refs w i + of_bool (sptr_pool p) + ptr_count L' i" and pos: "0 < refs w i \<longleftrightarrow> 0 < R (refs w i)"
    and L: "\<And>j. j \<noteq> i \<Longrightarrow> ptr_count L' j = ptr_count L j" "\<And>q. q \<in> set L' \<Longrightarrow> ptr_fresh (w_spool w) q"
  shows "acc z (touch w i (ov_store f p) R cs) L' D"
proof -
  note D = refs_okD [OF accD(1) [OF a]]
  let ?w = "retouch w i (w_sessionPtrs w i) (ov_store f p) R cs"
  have cnt: "length (filter sptr_pool (slot_ptrs ?w i)) + of_bool (sptr_pool (ov_ptr_of f (sess w i))) =
      length (filter sptr_pool (slot_ptrs w i)) + of_bool (sptr_pool p)"
    by (cases f) (simp_all add: slot_ptrs_def ov_ptr_of_def)
  have "refs_ok (of_sessions z) ?w L'"
  proof (rule refs_ok_retouch [OF accD(1) [OF a] wf])
    show "session_fields (pool_N (w_spool w)) i (ov_store f p (sess w i))" by (rule ov_store_fields [OF D(5) [OF wf] f])
    show "own_ptrs ?w i" using D(4) [OF wf] p by (cases f) (simp_all add: own_ptrs_def slot_ptrs_def)
    show "R (refs w i) = slot_count ?w L' i" using D(7) [OF wf] cnt R by (simp add: slot_count_def)
  qed (use pos L in simp_all)
  then show ?thesis using accD(2) [OF a] by (simp add: acc_def touch_retouch packets_held_def)
qed

lemma ov_ptr_Reset_rule:
  assumes a: "acc z w L D" and wf: "swf w i" and r: "sptr_pool (ov_ptr_of f (sess w i)) \<Longrightarrow> 1 < refs w i" and len: "length L \<le> 20"
  shows "\<exists>R. ov_ptr_Reset E w i f = Inr (touch w i (ov_unlink f) R []) \<and> acc z (touch w i (ov_unlink f) R []) L D"
proof (cases "sptr_pool (ov_ptr_of f (sess w i))")
  case True
  have "ov_ptr_Reset E w i f = Inr (touch w i (ov_unlink f) (\<lambda>n. n - 1) [])"
    using stored_ptr(2) [OF a wf ov_ptr_of_in True] True r refs_le [OF a wf] len
    by (intro ov_ptr_Reset_keep [OF wf]) (simp_all add: ov_ptr_of_def)
  moreover have "acc z (touch w i (ov_unlink f) (\<lambda>n. n - 1) []) L D"
    using True r refs_okD(6) [OF accD(1) [OF a]] by (intro ov_store_acc [OF a wf]) simp_all
  ultimately show ?thesis by blast
next
  case False
  have null: "ov_ptr_Reset E w i f = Inr (touch w i (ov_unlink f) (\<lambda>n. n) [])"
    using False by (intro ov_ptr_Reset_null [OF wf]) (simp add: ov_ptr_of_def)
  have "acc z (touch w i (ov_unlink f) (\<lambda>n. n) []) L D"
    using False refs_okD(6) [OF accD(1) [OF a]] by (intro ov_store_acc [OF a wf]) simp_all
  then show ?thesis using null by blast
qed

lemma two_stored:
  assumes a: "acc z w L D" and wf: "swf w i" and p: "sptr_pool (ov_ptr_of f (sess w i))" and m: "sptr_pool (w_sessionPtrs w i)"
  shows "1 < refs w i"
proof -
  have "2 \<le> length (filter sptr_pool (slot_ptrs w i))" using p m by (cases f) (simp_all add: slot_ptrs_def ov_ptr_of_def)
  then show ?thesis using refs_okD(7) [OF accD(1) [OF a] wf] by (simp add: slot_count_def)
qed

lemma held_local:
  assumes a: "acc z w L D" and wf: "swf w i" and p: "p \<in> set L" "points_to p i"
  shows "0 < refs w i" and "sptr_pool (ov_ptr_of f (sess w i)) \<Longrightarrow> 1 < refs w i" and "sptr_pool (w_sessionPtrs w i) \<Longrightarrow> 1 < refs w i"
proof -
  have L: "0 < ptr_count L i" using p ptr_count_pos [of _ L i] by (auto simp: in_set_conv_nth)
  then show "0 < refs w i" using refs_okD(7) [OF accD(1) [OF a] wf] by (simp add: slot_count_def)
  have "q \<in> set (slot_ptrs w i) \<Longrightarrow> sptr_pool q \<Longrightarrow> 1 < refs w i" for q
  proof -
    assume "q \<in> set (slot_ptrs w i)" "sptr_pool q"
    then have "q \<in> set (filter sptr_pool (slot_ptrs w i))" by simp
    then have "0 < length (filter sptr_pool (slot_ptrs w i))" by (rule length_pos_if_in_set)
    moreover have "refs w i = length (filter sptr_pool (slot_ptrs w i)) + ptr_count L i"
      using refs_okD(7) [OF accD(1) [OF a] wf] by (simp add: slot_count_def)
    ultimately show "1 < refs w i" using L by linarith
  qed
  then show "sptr_pool (ov_ptr_of f (sess w i)) \<Longrightarrow> 1 < refs w i" "sptr_pool (w_sessionPtrs w i) \<Longrightarrow> 1 < refs w i"
    using ov_ptr_of_in [of f w i] by (auto simp: slot_ptrs_def)
qed

text \<open>\<open>GetSession\<close> on the session's own handle gives a copy of the manager's pointer.\<close>

lemma GetSession_own:
  assumes a: "acc z w L D" and wf: "swf w i" and len: "length L \<le> 20"
    and f: "acc z (bump w (w_sessionPtrs w i)) (w_sessionPtrs w i # L) D \<Longrightarrow> ensures (f (bump w (w_sessionPtrs w i), w_sessionPtrs w i)) P"
  shows "ensures (andThen (SessionManager_GetSession E w (se_handle (sess w i))) f) P"
proof (cases "who_of (se_handle (sess w i)) < pool_N (w_spool w)")
  case True
  then have who: "who_of (se_handle (sess w i)) = i"
    using refs_okD(5) [OF accD(1) [OF a] wf] by (simp add: session_fields_def)
  let ?m = "w_sessionPtrs w i"
  have m: "?m \<in> set (slot_ptrs w i)" by (simp add: slot_ptrs_def)
  have fr: "ptr_fresh (w_spool w) ?m" using stored_ptr(3) [OF a wf m] by (cases "sptr_pool ?m") (simp_all add: ptr_fresh_def)
  have "sptr_pool ?m \<Longrightarrow> 0 < refs w (who_of (sptr_handle ?m))" using stored_ptr(2,4) [OF a wf m] by simp
  note c = copy_rule [OF a fr this len]
  show ?thesis using True who c(1) [of E] f [OF c(2)] by (simp add: SessionManager_GetSession_def)
qed (simp add: SessionManager_GetSession_def)

lemma ov_ptr_self_rule:
  assumes a: "acc z w L D" and wf: "swf w i" and len: "length L \<le> 18" and s: "f = SendOv \<Longrightarrow> se_isSending (sess w i)"
    and old: "sptr_pool (ov_ptr_of f (sess w i)) \<Longrightarrow> 1 < refs w i"
  shows "ensures (ov_ptr_self E w i f) (\<lambda>w'. acc z w' L D \<and>
    (\<exists>R q. w' = touch w i (ov_store f q) R [] \<and> (sptr_pool q \<longrightarrow> sptr_pool (w_sessionPtrs w i))))"
  unfolding ov_ptr_self_def
proof (rule sess_at_bind [OF accD(3) [OF a]], rule require_bind, rule GetSession_own [OF a wf])
  let ?m = "w_sessionPtrs w i" and ?p = "ov_ptr_of f (sess w i)"
  let ?b = "bump w ?m"
  assume b: "acc z ?b (?m # L) D"
  have wfb: "swf ?b i" using wf by simp
  have who: "who_of (sptr_handle ?m) = i" if "sptr_pool ?m"
    using stored_ptr(2) [OF a wf _ that] by (simp add: slot_ptrs_def)
  have m: "sptr_pool ?m \<Longrightarrow> sptr_handle ?m = pool_handle (w_spool w) i"
    using stored_ptr(1) [OF a wf, of ?m] by (simp add: slot_ptrs_def)
  define R where "R = (\<lambda>n::nat. n + of_bool (sptr_pool ?m) - of_bool (sptr_pool ?p))"
  have eq: "bump w ?m = touch w i (\<lambda>s. s) (\<lambda>n. n + of_bool (sptr_pool ?m)) []"
    using who wf touch_none [OF wf] by (auto simp: bump_def)
  have "ov_ptr_take E ?b i f ?m = Inr (touch w i (ov_store f ?m) R [])"
  proof (cases "sptr_pool ?p")
    case True
    have r: "1 < refs ?b i" using old True unfolding eq by simp
    have "refs ?b i < 2 ^ 64" using refs_le [OF b wfb] len by simp
    moreover have "who_of (sptr_handle ?p) = i" using stored_ptr(2) [OF a wf ov_ptr_of_in True] .
    ultimately have "SparsePool_ReleaseRef (session_host E) ?b (sptr_handle ?p) = Inr (touch ?b i (\<lambda>s. s) (\<lambda>n. n - 1) [])"
      using ptr_delete_keep [OF wfb _ r, of "sptr_handle ?p" E] by (simp add: SharedPoolPtr_delete_def)
    then show ?thesis using True wf unfolding eq R_def
      by (simp add: ov_ptr_take_def SharedPoolPtr_move_assign_def ov_ptr_of_def)
  next
    case False
    then show ?thesis using wf unfolding eq R_def
      by (simp add: ov_ptr_take_def SharedPoolPtr_move_assign_def ov_ptr_of_def)
  qed
  moreover have "acc z (touch w i (ov_store f ?m) R []) L D"
  proof (rule ov_store_acc [OF a wf])
    have "sptr_pool ?m \<Longrightarrow> 0 < refs w i" using stored_ptr(4) [OF a wf, of ?m] by (simp add: slot_ptrs_def)
    then show "0 < refs w i \<longleftrightarrow> 0 < R (refs w i)" "R (refs w i) + of_bool (sptr_pool (ov_ptr_of f (sess w i))) + ptr_count L i =
        refs w i + of_bool (sptr_pool ?m) + ptr_count L i" using old by (auto simp: R_def)
  qed (use s m refs_okD(6) [OF accD(1) [OF a]] in auto)
  ultimately show "ensures (case (?b, ?m) of (w1, tmp) \<Rightarrow> ov_ptr_take E w1 i f tmp) (\<lambda>w'. acc z w' L D \<and>
    (\<exists>R q. w' = touch w i (ov_store f q) R [] \<and> (sptr_pool q \<longrightarrow> sptr_pool (w_sessionPtrs w i))))"
    by auto
qed (use len in simp)

subsection \<open>Receiving and sending\<close>

definition holds :: "shared_ptr list \<Rightarrow> nat \<Rightarrow> bool" where
  "holds L i \<longleftrightarrow> (\<exists>p \<in> set L. points_to p i)"

text \<open>The block can be overwritten without giving up the last reference.\<close>

definition spare :: "'db world \<Rightarrow> ov_field \<Rightarrow> nat \<Rightarrow> bool" where
  "spare w f i \<longleftrightarrow> (sptr_pool (ov_ptr_of f (sess w i)) \<longrightarrow> 1 < refs w i)"

lemma spare_holds: "acc z w L D \<Longrightarrow> swf w i \<Longrightarrow> holds L i \<Longrightarrow> spare w f i"
  using held_local(2) by (auto simp: holds_def spare_def)

lemma ensures_bind: "ensures m Q \<Longrightarrow> (\<And>x. Q x \<Longrightarrow> ensures (f x) P) \<Longrightarrow> ensures (andThen m f) P"
  by (rule ensures_andThen) auto

lemma ensures_bind_fst:
  "ensures m (\<lambda>x. Q (fst x)) \<Longrightarrow> (\<And>a b. Q a \<Longrightarrow> ensures (f a b) P) \<Longrightarrow> ensures (andThen m (\<lambda>(a, b). f a b)) P"
  by (cases m) auto

lemma ensures_bind_pair:
  "ensures m (\<lambda>x. Q (fst x) (snd x)) \<Longrightarrow> (\<And>a b. Q a b \<Longrightarrow> ensures (f a b) P) \<Longrightarrow> ensures (andThen m (\<lambda>(a, b). f a b)) P"
  by (cases m) auto

lemma fields_touch: "acc z w L D \<Longrightarrow> swf w i \<Longrightarrow> session_fields (pool_N (w_spool w)) i (sess w i)"
  using refs_okD(5) accD(1) by blast

lemma io_posted_rule:
  assumes a: "acc z w L D" and wf: "swf w i" and len: "length L \<le> 18" and m: "sptr_pool (ov_ptr_of f (sess w i)) \<longrightarrow> sptr_pool (w_sessionPtrs w i)"
  shows "ensures (io_posted E w i f r) (\<lambda>x. acc z (fst x) L D)"
  using ov_ptr_Reset_rule [OF a wf, of f E] two_stored [OF a wf, of f] m len a by (auto simp: io_posted_def)

lemma trace_views [simp]:
  "sess (w\<lparr> w_trace := t \<rparr>) i = sess w i" "swf (w\<lparr> w_trace := t \<rparr>) i = swf w i" "refs (w\<lparr> w_trace := t \<rparr>) i = refs w i"
  by (simp_all add: sess_def swf_def refs_def)

lemma self_then_rule:
  assumes a: "acc z w L D" and wf: "swf w i" and len: "length L \<le> 18" and s: "f = SendOv \<Longrightarrow> se_isSending (sess w i)" and old: "spare w f i"
  shows "ensures (andThen (ov_ptr_self E w i f) (\<lambda>w3. let (w4, r) = os_do E w3 c in io_posted E w4 i f r)) (\<lambda>x. acc z (fst x) L D)"
    and "ensures (andThen (ov_ptr_self E w i f) (\<lambda>w3. let (w4, r) = os_do E w3 c in ex_posted w4 r)) (\<lambda>x. acc z (fst x) L D)"
proof -
  have self: "ensures (ov_ptr_self E w i f) (\<lambda>w'. acc z w' L D \<and> swf w' i \<and>
      (sptr_pool (ov_ptr_of f (sess w' i)) \<longrightarrow> sptr_pool (w_sessionPtrs w' i)))"
    using wf old by (intro ensures_mono [OF ov_ptr_self_rule [OF a wf len s]]) (auto simp: ov_ptr_of_def spare_def)
  show "ensures (andThen (ov_ptr_self E w i f) (\<lambda>w3. let (w4, r) = os_do E w3 c in io_posted E w4 i f r)) (\<lambda>x. acc z (fst x) L D)"
    by (rule ensures_bind [OF self]) (use len in \<open>auto simp: os_do_def intro!: io_posted_rule\<close>)
  show "ensures (andThen (ov_ptr_self E w i f) (\<lambda>w3. let (w4, r) = os_do E w3 c in ex_posted w4 r)) (\<lambda>x. acc z (fst x) L D)"
    by (rule ensures_bind [OF self]) (simp add: os_do_def ex_posted_def)
qed

lemmas field_defs = same_ptrs_def session_fields_def

lemma RegisterRecv_rule:
  assumes a: "acc z w L D" and h: "holds L i" and len: "length L \<le> 18"
  shows "ensures (Session_RegisterRecv E w i) (\<lambda>x. acc z (fst x) L D)"
  unfolding Session_RegisterRecv_def
proof (rule sess_at_bind [OF accD(3) [OF a]], unfold Let_def [of "se_recvOv (sess w i)"] Let_def [of "recv_len (se_recvOv (sess w i))"],
    rule sess_upd_bind [OF a], goal_cases)
  case (3 w1)
  note b = 3(3)
  show ?case
  proof (split if_split, intro conjI impI, goal_cases)
    case 2
    show ?case
    proof (rule sess_upd_bind [OF b], goal_cases)
      case (3 w2)
      then show ?case by (intro self_then_rule(1) [OF 3(2) 3(3) len] spare_holds [OF 3(2,3) h]) simp
    qed (use fields_touch [OF b] in \<open>simp_all add: field_defs\<close>)
  qed (use b in simp)
qed (use fields_touch [OF a] in \<open>simp_all add: field_defs\<close>)

lemma RegisterSend_rule:
  assumes a: "acc z w L D" and old: "spare w SendOv i" and len: "length L \<le> 18"
  shows "ensures (Session_RegisterSend E w i) (\<lambda>x. acc z (fst x) L D)"
  unfolding Session_RegisterSend_def
proof (rule sess_at_bind [OF accD(3) [OF a]], rule require_bind, unfold Let_def [of "se_sendOv (sess w i)"] Let_def [of "trunc32 (ov_avail (se_sendOv (sess w i)))"],
    rule sess_upd_bind [OF a], goal_cases)
  case (3 w1)
  then show ?case using old by (intro self_then_rule(1) [OF 3(4,5) len]) (simp_all add: spare_def ov_ptr_of_def)
qed (use fields_touch [OF a] in \<open>simp_all add: field_defs\<close>)

lemma RegisterAccept_rule:
  assumes a: "acc z w L D" and h: "holds L i" and len: "length L \<le> 18"
  shows "ensures (Session_RegisterAccept E w i) (\<lambda>x. acc z (fst x) L D)"
  unfolding Session_RegisterAccept_def
proof (rule sess_upd_bind [OF a], goal_cases)
  case (3 w1)
  then show ?case by (intro self_then_rule(2) [OF 3(2,3) len] spare_holds [OF 3(2,3) h]) simp
qed (use fields_touch [OF a] in \<open>simp_all add: field_defs\<close>)

lemma RegisterDisconnect_rule:
  assumes a: "acc z w L D" and h: "holds L i" and len: "length L \<le> 18"
  shows "ensures (Session_RegisterDisconnect E w i) (\<lambda>x. acc z (fst x) L D)"
  unfolding Session_RegisterDisconnect_def
proof (rule sess_upd_bind [OF a], goal_cases)
  case (3 w1)
  then show ?case by (intro self_then_rule(2) [OF 3(2,3) len] spare_holds [OF 3(2,3) h]) simp
qed (use fields_touch [OF a] in \<open>simp_all add: field_defs\<close>)

lemma not_sending_free: "acc z w L D \<Longrightarrow> swf w i \<Longrightarrow> \<not> se_isSending (sess w i) \<Longrightarrow> \<not> sptr_pool (ov_ptr_of SendOv (sess w i))"
  using fields_touch [of z w L D i] by (auto simp: session_fields_def ov_ptr_of_def)

lemma ensures_any: "(\<And>x. ensures (f x) P) \<Longrightarrow> ensures (andThen m f) P"
  by (cases m) simp_all

lemma SendPacket_rule:
  assumes a: "acc z w L D" and len: "length L \<le> 18"
  shows "ensures (Session_SendPacket E w i blk) (\<lambda>x. acc z (fst x) L D)"
  unfolding Session_SendPacket_def
proof (rule sess_at_bind [OF accD(3) [OF a]], unfold Let_def, split if_split, intro conjI impI, goal_cases)
  case 2
  note wf = 2(1)
  show ?case
  proof (rule ensures_any, rule ensures_any, rule sess_upd_bind [OF a], goal_cases)
    case (3 bs r w1)
    note b = 3(2)
    show ?case
    proof (split if_split, intro conjI impI, goal_cases)
      case 2
      show ?case
      proof (rule sess_upd_bind [OF b], goal_cases)
        case (3 w2)
        then show ?case using not_sending_free [OF a wf 2] \<open>sess w1 i = _\<close>
          by (intro RegisterSend_rule [OF 3(2) _ len]) (simp add: spare_def ov_ptr_of_def)
      qed (use fields_touch [OF b] in \<open>simp_all add: field_defs\<close>)
    qed (use b in simp)
  qed (use fields_touch [OF a] in \<open>simp_all add: field_defs\<close>)
qed (use a in simp)

lemma ov_wrap_ptr [simp]: "ov_sessionPtr (ov_wrap ov) = ov_sessionPtr ov" "ov_ioType (ov_wrap ov) = ov_ioType ov"
  by (simp_all add: ov_wrap_def)

lemma OnSend_rule:
  assumes a: "acc z w L D" and free: "\<not> sptr_pool (ov_ptr_of SendOv (sess w i))" and len: "length L \<le> 18"
  shows "ensures (Session_OnSend E w i n) (\<lambda>x. acc z (fst x) L D)"
  unfolding Session_OnSend_def
proof (rule sess_at_bind [OF accD(3) [OF a]], rule require_bind, unfold Let_def, rule sess_upd_bind [OF a], goal_cases)
  case (3 w1)
  note b = 3(4)
  show ?case
  proof (split if_split, intro conjI impI, goal_cases)
    case 1
    show ?case using b free 3(6) by (intro sess_upd_bind [OF b]) (use fields_touch [OF b 3(5)] in \<open>simp_all add: field_defs ov_ptr_of_def\<close>)
  next
    case 2
    show ?case using free 3(6) by (intro RegisterSend_rule [OF b _ len]) (simp add: spare_def ov_ptr_of_def)
  qed
qed (use fields_touch [OF a] free in \<open>simp_all add: field_defs ov_ptr_of_def\<close>)

subsection \<open>Packets\<close>

interpretation packets: quiet_pool packet_host
  by unfold_locales simp_all

lemma packets_heldD:
  assumes "packets_held m w D"
  shows "vars_ok m (w_ppool w) (map task_packet (tq_tasks (w_tasks w)) @ D)"
    and "ss_K (sp_set (w_ppool w)) = 2" and "ptr_count (map task_packet (tq_tasks (w_tasks w)) @ D) j \<le> 1"
    and "pool_wf (w_ppool w)" and "pool_N (w_ppool w) = m"
  using assms by (auto simp: packets_held_def Let_def vars_ok_def dest: pool_okD(1))

lemma packets_held_Cons:
  "packets_held m w (p # D) \<longleftrightarrow> (let vs = p # map task_packet (tq_tasks (w_tasks w)) @ D in
     vars_ok m (w_ppool w) vs \<and> ss_K (sp_set (w_ppool w)) = 2 \<and> (\<forall>j. ptr_count vs j \<le> 1))"
  unfolding packets_held_def Let_def
  by (subst vars_ok_mset [where us = "p # map task_packet (tq_tasks (w_tasks w)) @ D"]) (auto simp: ac_simps split: if_splits)

lemma AcquirePacket_rule:
  assumes a: "acc z w L D"
  shows "ensures (PacketHandler_AcquirePacket w) (\<lambda>x. acc z (fst x) L (snd x # D))"
proof -
  let ?vs = "map task_packet (tq_tasks (w_tasks w)) @ D"
  note H = packets_heldD [OF accD(2) [OF a]]
  have "vars_ok (of_packets z) (ph_get packet_host w) ?vs" using H(1) by simp
  from packets.acquire_var [OF this, of 1] obtain p v where
    r: "SparsePool_Acquire packet_host w 1 = Inr (w\<lparr> w_ppool := p \<rparr>, v)" and ok: "vars_ok (of_packets z) p (v # ?vs)"
    and z: "sptr_pool v \<longrightarrow> ptr_count ?vs (who_of (sptr_handle v)) = 0" and K: "ss_K (sp_set p) = ss_K (sp_set (w_ppool w))" by auto
  have "ptr_count (v # ?vs) j \<le> 1" for j using z H(3) [of j] by (auto simp: points_to_def)
  moreover have "pool_N p = of_packets z" using ok by (simp add: vars_ok_def)
  ultimately have "packets_held (of_packets z) (w\<lparr> w_ppool := p \<rparr>) (v # D)" using ok K H(2) by (simp add: packets_held_Cons Let_def)
  then show ?thesis using r accD(1) [OF a] by (simp add: PacketHandler_AcquirePacket_def acc_def)
qed

lemma packet_delete_rule:
  assumes a: "acc z w L (p # D)"
  shows "ensures (SharedPoolPtr_delete packet_host w p) (\<lambda>w'. acc z w' L D)"
proof -
  let ?vs = "map task_packet (tq_tasks (w_tasks w)) @ D"
  have H: "vars_ok (of_packets z) (w_ppool w) (p # ?vs)" "ss_K (sp_set (w_ppool w)) = 2" "\<forall>j. ptr_count (p # ?vs) j \<le> 1"
    using accD(2) [OF a] by (simp_all add: packets_held_Cons Let_def)
  have one: "ptr_count ?vs j \<le> 1" for j
    using H(3) [rule_format, of j] by (simp del: ptr_count_append split: if_splits)
  show ?thesis
  proof (cases "sptr_pool p")
    case True
    have "vars_ok (of_packets z) (ph_get packet_host w) (p # ?vs)" using H(1) by simp
    moreover have "ptr_count ?vs (who_of (sptr_handle p)) + 1 < 2 ^ 64" using one [of "who_of (sptr_handle p)"] by (simp del: ptr_count_append)
    ultimately obtain q where q: "SparsePool_ReleaseRef packet_host w (sptr_handle p) = Inr (w\<lparr> w_ppool := q \<rparr>)"
      "vars_ok (of_packets z) q ?vs" "ss_K (sp_set q) = ss_K (sp_set (w_ppool w))"
      using packets.lose_var [of "of_packets z" w p ?vs] True by auto
    moreover have "pool_N q = of_packets z" using q(2) by (simp add: vars_ok_def)
    ultimately have "packets_held (of_packets z) (w\<lparr> w_ppool := q \<rparr>) D" using H(2) one by (simp add: packets_held_def Let_def del: ptr_count_append)
    then show ?thesis using q(1) True accD(1) [OF a] by (simp add: SharedPoolPtr_delete_def acc_def)
  next
    case False
    then have "packets_held (of_packets z) w D" using H one by (simp add: packets_held_def Let_def vars_ok_nonptr del: ptr_count_append)
    then show ?thesis using False accD(1) [OF a] by (simp add: SharedPoolPtr_delete_def acc_def)
  qed
qed

lemma packet_store_rule:
  assumes a: "acc z w L D"
  shows "ensures (packet_store w p blk) (\<lambda>w'. acc z w' L D)"
  unfolding packet_store_def
proof (rule require_bind)
  let ?i = "who_of (sptr_handle p)"
  note H = packets_heldD [OF accD(2) [OF a]]
  show "ensures (slot_upd packet_host w ?i (\<lambda>s. s\<lparr> ps_obj := blk \<rparr>)) (\<lambda>w'. acc z w' L D)"
  proof (cases "?i < pool_N (w_ppool w)")
    case True
    let ?q = "upd_slot (w_ppool w) ?i (\<lambda>s. s\<lparr> ps_obj := blk \<rparr>)"
    have "vars_ok n ?q vs = vars_ok n (w_ppool w) vs" for n vs
      using H(4) by (auto simp: vars_ok_def pool_ok_def ptr_fresh_def split: if_splits)
    then have "packets_held (of_packets z) (w\<lparr> w_ppool := ?q \<rparr>) D" using accD(2) [OF a] by (simp add: packets_held_def Let_def)
    then show ?thesis using ppool.slot_upd_eq [of w ?i] H(4) True accD(1) [OF a] by (simp add: acc_def)
  next
    case False
    then show ?thesis using ppool.slot_upd_bad [of w ?i] pool_wfD(4) [OF H(4)] by simp
  qed
qed

lemma packet_copy_rule:
  assumes a: "acc z w L D"
  shows "ensures (PacketHandler_AcquirePacket_copy w src) (\<lambda>x. acc z (fst x) L (snd x # D))"
  unfolding PacketHandler_AcquirePacket_copy_def
proof (rule ensures_bind [OF AcquirePacket_rule [OF a]], split prod.split, intro allI impI, rule ensures_any, rule ensures_any, goal_cases)
  case (1 x w1 p blk blk')
  then have "acc z w1 L (p # D)" by simp
  from packet_store_rule [OF this] show ?case by (rule ensures_bind) simp
qed

lemma PostTask_acc: "acc z w L (p # D) \<Longrightarrow> acc z (PacketHandler_PostTask w \<lparr> task_this = i, task_packet = p \<rparr>) L D"
  by (simp add: acc_def packets_held_def PacketHandler_PostTask_def TaskQueue_Push_def)

text \<open>A task taken off the queue is on the stack of the worker.\<close>

lemma pop_acc:
  assumes "acc z w L D" and "TaskQueue_Pop (w_tasks w) = Some (q, Some t)"
  shows "acc z (w\<lparr> w_tasks := q \<rparr>) L (task_packet t # D)"
proof -
  have "tq_tasks (w_tasks w) = t # tq_tasks q" using assms(2)
    by (auto simp: TaskQueue_Pop_def pop_ready_def split: if_splits list.splits)
  then have "packets_held (of_packets z) (w\<lparr> w_tasks := q \<rparr>) (task_packet t # D) = packets_held (of_packets z) w D"
    unfolding packets_held_Cons by (simp add: packets_held_def)
  then show ?thesis using assms(1) by (simp add: acc_def)
qed

subsection \<open>Reassembly\<close>

lemma take_packet_rule:
  assumes a: "acc z w L D"
  shows "ensures (Session_take_packet E w i hs) (\<lambda>w'. acc z w' L D)"
  unfolding Session_take_packet_def
proof (rule sess_at_bind [OF accD(3) [OF a]], rule require_bind, rule ensures_any, rule ensures_bind [OF packet_copy_rule [OF a]],
    split prod.split, intro allI impI, goal_cases)
  case (1 bs x w1 packet)
  then have b: "acc z (PacketHandler_PostTask w1 \<lparr> task_this = i, task_packet = packet \<rparr>) L D" by (intro PostTask_acc) simp
  show ?case by (rule sess_upd_rule [OF b]) (use fields_touch [OF b] in \<open>simp_all add: field_defs\<close>)
qed

lemma OnRecv_round_rule:
  assumes a: "acc z w L D"
  shows "ensures (OnRecv_round E i w) (\<lambda>x. acc z (fst x) L D)"
  unfolding OnRecv_round_def Let_def
  by (rule sess_at_bind [OF accD(3) [OF a]]) (use a in \<open>auto intro!: ensures_any ensures_bind [OF take_packet_rule [OF a]]\<close>)

lemma OnRecv_loop_rule:
  assumes a: "acc z w L D"
  shows "ensures (loop_result (OnRecv_loop E i w)) (\<lambda>x. acc z (fst x) L D)"
proof -
  have "acc z w L D \<longrightarrow> ensures m (\<lambda>x. acc z (fst x) L D)" if "OnRecv_loop E i w = Some m" for m
  proof (rule OnRecv_loop.raw_induct [of "\<lambda>E i w m. acc z w L D \<longrightarrow> ensures m (\<lambda>x. acc z (fst x) L D)", OF _ that], intro impI, goal_cases)
    case (1 loop E i w m)
    note R = OnRecv_round_rule [OF 1(3), of E i]
    show ?case
    proof (cases "OnRecv_round E i w")
      case (Inr x)
      obtain w1 c where "x = (w1, c)" by (cases x)
      then show ?thesis using 1(1) 1(2) R unfolding Inr by (cases c) auto
    next
      case (Inl e)
      then have "m = Inl e" using 1(2) by simp
      then show ?thesis by simp
    qed
  qed
  then show ?thesis using a by (cases "OnRecv_loop E i w") (simp_all add: loop_result_def)
qed

lemma OnRecv_rule:
  assumes a: "acc z w L D" and h: "holds L i" and len: "length L \<le> 18"
  shows "ensures (Session_OnRecv E w i n) (\<lambda>x. acc z (fst x) L D)"
  unfolding Session_OnRecv_def
proof (rule sess_upd_bind [OF a], goal_cases)
  case (3 w1)
  show ?case
  proof (rule ensures_bind [OF OnRecv_loop_rule [OF 3(2)]], split prod.split, intro allI impI, split if_split, intro conjI impI, goal_cases)
    case (2 x w2 c)
    then have b: "acc z w2 L D" by simp
    show ?case
    proof (rule sess_upd_bind [OF b], goal_cases)
      case (3 w3)
      show ?case by (rule RegisterRecv_rule [OF 3(2) h len])
    qed (use fields_touch [OF b] in \<open>simp_all add: field_defs\<close>)
  qed simp
qed (use fields_touch [OF a] in \<open>simp_all add: field_defs\<close>)

subsection \<open>States, connecting and disconnecting\<close>

lemma GetState_bind:
  assumes "acc z w L D" and "swf w (who_of h) \<Longrightarrow> ensures (f (sstate w (who_of h))) P"
  shows "ensures (andThen (SessionManager_GetState w h) f) P"
  unfolding SessionManager_GetState_def SparseSet_GetState_def andThen_assoc
  by (rule require_bind) (use assms accD(3) [OF assms(1)] in \<open>simp add: swf_def sstate_def\<close>)

lemma set_state_rule:
  assumes a: "acc z w L D" and wf: "swf w (who_of h)" and s: "sstate w (who_of h) \<noteq> 0" and st: "0 < st" "st < 4"
  shows "ensures (SparsePool_MoveToState (session_host E) w h st) (\<lambda>w'. acc z w' L D)"
proof -
  note R = refs_okD [OF accD(1) [OF a]]
  obtain ss where m: "moved_to (sp_set (w_spool w)) ss (who_of h) st"
    and r: "SparsePool_MoveToState (session_host E) w h st = Inr (w\<lparr> w_spool := (w_spool w)\<lparr> sp_set := ss \<rparr> \<rparr>)"
    using spool.MoveToState_eq [where w = w and h = h and s = st and E = E] wf st R(3) by (auto simp: swf_def)
  let ?w = "w\<lparr> w_spool := (w_spool w)\<lparr> sp_set := ss \<rparr> \<rparr>"
  note M = moved_toD [OF m]
  have sess: "sess ?w j = sess w j" for j by (simp add: sess_def)
  have same: "slot_ptrs ?w j = slot_ptrs w j" for j unfolding slot_ptrs_def sess by simp
  have cur: "cur_handle ss j = pool_handle (w_spool w) j" for j by (simp add: cur_handle_def M(4))
  have "pool_wf (w_spool ?w)" using R(2) M(1-3) by (simp add: pool_wf_set)
  then have "pool_ok (w_spool ?w) (slot_count ?w L)"
    using R(1) M(2,5) s st same by (auto simp: pool_ok_def slot_count_def sstate_def)
  moreover have "own_ptrs ?w j \<and> session_fields (pool_N (w_spool ?w)) j (sess ?w j)" if "j < pool_N (w_spool ?w)" for j
  proof -
    have "swf w j" using that R(2) M(2) by (simp add: swf_def)
    then show ?thesis using R(4,5) [of j] M(2) same sess cur by (simp add: own_ptrs_def)
  qed
  moreover have "ptr_fresh (w_spool ?w) q" if "q \<in> set L" for q using R(6) [OF that] M(2) cur by (simp add: ptr_fresh_def)
  ultimately have "refs_ok (of_sessions z) ?w L" using R(3,9) M(2,3) by (simp add: refs_ok_def)
  then show ?thesis using r accD(2) [OF a] by (simp add: acc_def packets_held_def)
qed

lemma Disconnect_rule:
  assumes a: "acc z w L D" and h: "holds L i" and len: "length L \<le> 18"
  shows "ensures (Session_Disconnect E w i) (\<lambda>x. acc z (fst x) L D)"
  unfolding Session_Disconnect_def
proof (rule sess_at_bind [OF accD(3) [OF a]], rule require_bind, rule GetState_bind [OF a], split if_split, intro conjI impI, goal_cases)
  case 1
  have "ensures (SessionManager_SetState E w (se_handle (sess w i)) SS_kDisconnecting) (\<lambda>w'. acc z w' L D)"
    unfolding SessionManager_SetState_def using 1 by (intro set_state_rule [OF a]) auto
  then show ?case by (rule ensures_bind) (rule RegisterDisconnect_rule [OF _ h len])
qed (use a in simp)

lemma welcome_rule:
  assumes a: "acc z w L D" and h: "holds L i" and len: "length L \<le> 18"
  shows "ensures (andThen (PacketHandler_AcquirePacket w) (\<lambda>(w2, packet).
       andThen (packet_data w2 packet) (\<lambda>blk.
       andThen (welcome_block blk sh) (\<lambda>blk'.
       andThen (packet_store w2 packet blk') (\<lambda>w3.
       andThen (Session_SendPacket E w3 i blk') (\<lambda>(w4, sent).
       andThen (if sent then Session_RegisterRecv E w4 i else Inr (w4, False)) (\<lambda>(w5, ok).
       andThen (SharedPoolPtr_delete packet_host w5 packet) (\<lambda>w6.
       Inr (w6, ok))))))))) (\<lambda>x. acc z (fst x) L D)"
proof (rule ensures_bind_pair [OF AcquirePacket_rule [OF a]], rule ensures_any, rule ensures_any, goal_cases)
  case (1 w2 packet blk blk')
  show ?case
  proof (rule ensures_bind [OF packet_store_rule [OF 1]], goal_cases)
    case (1 w3)
    show ?case
    proof (rule ensures_bind_fst [OF SendPacket_rule [OF 1 len]], goal_cases)
      case (1 w4 sent)
      have "ensures (if sent then Session_RegisterRecv E w4 i else Inr (w4, False)) (\<lambda>x. acc z (fst x) L (packet # D))"
        using 1 RegisterRecv_rule [OF 1 h len] by simp
      then show ?case
      proof (rule ensures_bind_fst, goal_cases)
        case (1 w5 ok)
        from packet_delete_rule [OF 1] show ?case by (rule ensures_bind) simp
      qed
    qed
  qed
qed

lemma Connect_rule:
  assumes a: "acc z w L D" and h: "holds L i" and len: "length L \<le> 18"
  shows "ensures (Session_Connect E w i) (\<lambda>x. acc z (fst x) L D)"
  unfolding Session_Connect_def
proof (rule sess_at_bind [OF accD(3) [OF a]], rule require_bind, rule GetState_bind [OF a], split if_split, intro conjI impI, goal_cases)
  case 2
  have "ensures (SessionManager_ConnectSession E w (se_handle (sess w i))) (\<lambda>w'. acc z w' L D)"
    unfolding SessionManager_ConnectSession_def using 2 by (intro set_state_rule [OF a]) auto
  then show ?case
  proof (rule ensures_bind, goal_cases)
    case (1 w1)
    show ?case by (rule require_bind, rule welcome_rule [OF 1 h len])
  qed
qed (use a in simp)

subsection \<open>The manager's pointer\<close>

text \<open>\<open>Reset\<close> and \<open>CreateSession\<close> change it; the session keeps another pointer, or gets one.\<close>

lemma Reset_rule:
  assumes a: "acc z w L D" and h: "holds L i" and len: "length L \<le> 18"
  shows "ensures (Session_Reset E w i) (\<lambda>x. acc z (fst x) L D)"
  unfolding Session_Reset_def
proof (rule sess_at_bind [OF accD(3) [OF a]], rule require_bind, goal_cases)
  case 1
  note wf = 1(1) and R = refs_okD [OF accD(1) [OF a]]
  let ?h = "se_handle (sess w i)" and ?m = "w_sessionPtrs w i"
  show ?case
  proof (cases "who_of ?h < pool_N (w_spool w)")
    case True
    then have who: "who_of ?h = i" using R(5) [OF wf] by (simp add: session_fields_def)
    let ?w = "retouch w i nullSharedPtr (\<lambda>s. s) (\<lambda>n. n - of_bool (sptr_pool ?m)) []"
    have r: "sptr_pool ?m \<Longrightarrow> 1 < refs w i" "0 < refs w i" using held_local [OF a wf] h by (auto simp: holds_def)
    have "SharedPoolPtr_Reset (session_host E) w ?m = Inr (touch w i (\<lambda>s. s) (\<lambda>n. n - of_bool (sptr_pool ?m)) [], nullSharedPtr)"
    proof (cases "sptr_pool ?m")
      case True
      have "who_of (sptr_handle ?m) = i" using stored_ptr(2) [OF a wf _ True] by (simp add: slot_ptrs_def)
      moreover have "refs w i < 2 ^ 64" using refs_le [OF a wf] len by simp
      ultimately show ?thesis using ptr_delete_keep [OF wf _ r(1) [OF True], of "sptr_handle ?m" E] True
        by (simp add: SharedPoolPtr_Reset_def SharedPoolPtr_delete_def)
    qed (use touch_none [OF wf] in \<open>simp add: SharedPoolPtr_Reset_def\<close>)
    then have "SessionManager_DisconnectSession E w ?h = Inr ?w"
      using True who by (simp add: SessionManager_DisconnectSession_def retouch_def)
    moreover have "refs_ok (of_sessions z) ?w L"
    proof (rule refs_ok_retouch [OF accD(1) [OF a] wf])
      show "own_ptrs ?w i" using R(4) [OF wf] by (simp add: own_ptrs_def slot_ptrs_def)
      have "length (filter sptr_pool (slot_ptrs ?w i)) + of_bool (sptr_pool ?m) = length (filter sptr_pool (slot_ptrs w i))"
        by (simp add: slot_ptrs_def)
      then show "refs w i - of_bool (sptr_pool ?m) = slot_count ?w L i" using R(7) [OF wf] by (simp add: slot_count_def)
    qed (use R(5) [OF wf] R(6) r in \<open>auto simp: of_bool_def\<close>)
    ultimately show ?thesis using accD(2) [OF a] by (simp add: acc_def packets_held_def)
  qed (simp add: SessionManager_DisconnectSession_def)
qed

end
