(* ===== verification/Accounting_Server.thy ===== *)
theory Accounting_Server
  imports Accounting_Ops Accept_Props
begin

section \<open>Every round of the server keeps the counts\<close>

text \<open>
  The rest of the server on top of the rules for one session: creating sessions and posting accepts, the
  handlers of the packet worker, the dispatch of a completion. The result is the invariant of the whole
  server: in every state that any sequence of rounds reaches, each pool counts exactly the pointers that exist.
\<close>

subsection \<open>Creating a session\<close>

lemma idle_slot:
  assumes ok: "refs_ok n w L" and i: "i \<in> in_state (sp_set (w_spool w)) 0"
  shows "swf w i" and "ptr_count L i = 0" and "q \<in> set (slot_ptrs w i) \<Longrightarrow> \<not> sptr_pool q" and "refs w i = 0"
proof -
  note R = refs_okD [OF ok]
  show wf: "swf w i" using i R(2) by (simp add: in_state_def swf_def)
  have z: "slot_count w L i = 0" using R(8) [OF wf] i by (simp add: in_state_def sstate_def)
  then show "ptr_count L i = 0" "q \<in> set (slot_ptrs w i) \<Longrightarrow> \<not> sptr_pool q" "refs w i = 0"
    using R(7) [OF wf] by (auto simp: slot_count_def filter_empty_conv)
qed

lemma Acquire_rule:
  assumes a: "acc z w L D" and len: "length L \<le> 18"
  shows "ensures (SparsePool_Acquire (session_pool E) w 1) (\<lambda>x. acc z (fst x) (snd x # L) D \<and>
    (sptr_pool (snd x) \<longrightarrow> swf (fst x) (who_of (sptr_handle (snd x))) \<and>
      sptr_handle (snd x) = pool_handle (w_spool (fst x)) (who_of (sptr_handle (snd x))) \<and>
      \<not> sptr_pool (w_sessionPtrs (fst x) (who_of (sptr_handle (snd x))))))"
proof -
  let ?H = "session_pool E" and ?q = "w_spool w"
  note R = refs_okD [OF accD(1) [OF a]]
  show ?thesis
  proof (cases "in_state (sp_set ?q) 0 = {}")
    case True
    then have "SparsePool_Acquire ?H w 1 = Inr (w, nullSharedPtr)" using apool.Acquire_none [where w = w and E = E] R(2) by simp
    then show ?thesis using a by (simp add: acc_null)
  next
    case False
    have init: "ph_init ?H v i = Inr (ph_put ?H (upd_slot (ph_get ?H v) i (\<lambda>s. s\<lparr> ps_obj := renewed (ps_obj s) \<rparr>)) v)"
      if "pool_wf (ph_get ?H v)" "i \<in> in_state (sp_set ?q) 0" "slot_of (ph_get ?H v) i = slot_of ?q i" "i < pool_N (ph_get ?H v)"
      for v :: "'a world" and i
    proof -
      have "sess v i = sess w i" using that(3) by (simp add: sess_def)
      moreover have "\<forall>q \<in> set (slot_ptrs w i). \<not> sptr_pool q" using idle_slot(3) [OF accD(1) [OF a] that(2)] by blast
      ultimately have "null_session (sess v i)" by (simp add: null_session_def slot_ptrs_def)
      then show ?thesis using that Session_Init_eq [of v i E] by (simp add: swf_def touch_def)
    qed
    have "\<exists>i ss. i \<in> in_state (sp_set ?q) 0 \<and> moved_to (sp_set ?q) ss i 1 \<and> SparsePool_Acquire ?H w 1 =
       Inr (ph_put ?H (upd_slot (?q\<lparr> sp_set := ss \<rparr>) i
              (\<lambda>s. \<lparr> ps_obj = renewed (ps_obj s), ps_handle = pool_handle ?q i, ps_refCount = 1 \<rparr>)) w,
            \<lparr> sptr_pool = True, sptr_handle = pool_handle ?q i \<rparr>)"
    proof (rule apool.Acquire_some, goal_cases)
      case (4 v i)
      then show ?case by (intro init)
    qed (use R(2,3) False in simp_all)
    then obtain i ss where i: "i \<in> in_state (sp_set ?q) 0" and m: "moved_to (sp_set ?q) ss i 1"
      and acq: "SparsePool_Acquire ?H w 1 = Inr (w\<lparr> w_spool := upd_slot (?q\<lparr> sp_set := ss \<rparr>) i
              (\<lambda>s. \<lparr> ps_obj = renewed (ps_obj s), ps_handle = pool_handle ?q i, ps_refCount = 1 \<rparr>) \<rparr>,
            \<lparr> sptr_pool = True, sptr_handle = pool_handle ?q i \<rparr>)"
      unfolding session_pool_simps by blast
    let ?w = "w\<lparr> w_spool := upd_slot (?q\<lparr> sp_set := ss \<rparr>) i
              (\<lambda>s. \<lparr> ps_obj = renewed (ps_obj s), ps_handle = pool_handle ?q i, ps_refCount = 1 \<rparr>) \<rparr>"
    let ?p = "\<lparr> sptr_pool = True, sptr_handle = pool_handle ?q i \<rparr>"
    note M = moved_toD [OF m] and I = idle_slot [OF accD(1) [OF a] i]
    have iN: "i < pool_N ?q" "i < 2 ^ 32" using i pool_wfD(5) [OF R(2)] by (auto simp: in_state_def)
    have who: "who_of (pool_handle ?q i) = i" using iN by simp
    have cur: "cur_handle ss j = pool_handle ?q j" for j by (simp add: cur_handle_def M(4))
    have sess: "sess ?w j = (if j = i then renewed (sess w i) else sess w j)" for j by (simp add: sess_def)
    have same: "slot_ptrs ?w j = slot_ptrs w j" if "j \<noteq> i" for j using that unfolding slot_ptrs_def sess by simp
    have m0: "\<not> sptr_pool (w_sessionPtrs w i)" by (rule I(3)) (simp add: slot_ptrs_def)
    then have none: "\<forall>q \<in> set (slot_ptrs ?w i). \<not> sptr_pool q"
      unfolding slot_ptrs_def sess by (simp add: renewed_def ov_renewed_def)
    then have f0: "filter sptr_pool (slot_ptrs ?w i) = []" by (simp add: filter_empty_conv)
    have cnt: "slot_count ?w (?p # L) j = (if j = i then 1 else slot_count w L j)" for j
      using f0 I(2) same who by (auto simp: slot_count_def points_to_def)
    have wf: "pool_wf (w_spool ?w)" using R(2) M(1-3) by (simp add: pool_wf_set)
    then have "pool_ok (w_spool ?w) (slot_count ?w (?p # L))" using R(1) M(2,5) cnt by (auto simp: pool_ok_def)
    moreover have "own_ptrs ?w j \<and> session_fields (pool_N (w_spool ?w)) j (sess ?w j)" if "j < pool_N (w_spool ?w)" for j
    proof (cases "j = i")
      case True
      have "\<not> who_of kInvalidHandle < pool_N (w_spool ?w)" using pool_wfD(5) [OF R(2)] M(2) by (simp add: who_of_kInvalidHandle)
      then have "session_fields (pool_N (w_spool ?w)) i (renewed (sess w i))"
        by (simp add: session_fields_def renewed_def ov_renewed_def ov_clear_def)
      moreover have "own_ptrs ?w i" using none unfolding own_ptrs_def by blast
      ultimately show ?thesis using True sess [of i] by simp
    next
      case False
      have "swf w j" using that R(2) M(2) by (simp add: swf_def)
      then show ?thesis using False R(4,5) [of j] M(2) same sess cur by (simp add: own_ptrs_def)
    qed
    moreover have "ptr_fresh (w_spool ?w) q" if "q \<in> set (?p # L)" for q using R(6) [of q] that M(2) cur iN by (auto simp: ptr_fresh_def)
    ultimately have "refs_ok (of_sessions z) ?w (?p # L)" using R(3,9) M(2,3) by (simp add: refs_ok_def)
    then have "acc z ?w (?p # L) D" using accD(2) [OF a] by (simp add: acc_def packets_held_def)
    moreover have "swf ?w i" using wf iN M(2) by (simp add: swf_def)
    ultimately show ?thesis using acq who cur m0 by simp
  qed
qed

lemma CreateSession_rule:
  assumes a: "acc z w L D" and E: "post_ok E" and len: "length L \<le> 8"
  shows "ensures (SessionManager_CreateSession E w) (\<lambda>x. acc z (fst x) (snd x # L) D)"
proof -
  have "length L \<le> 18" using len by simp
  note q = Acquire_rule [OF a this, of E]
  show ?thesis unfolding SessionManager_CreateSession_def state_code.simps
  proof (rule ensures_bind_pair [OF q], split if_split, intro conjI impI, goal_cases)
    case (1 w1 p)
    then have "ensures (SharedPoolPtr_delete (session_host E) w1 p) (\<lambda>w'. acc z w' L D)" by (intro delete_rule E len) simp
    then show ?case by (rule ensures_bind) (simp add: acc_null)
  next
    case (2 w1 p)
    let ?i = "who_of (sptr_handle p)"
    have p: "sptr_pool p" using 2(2) by (simp add: SharedPoolPtr_IsValid_def)
    have b: "acc z w1 (p # L) D" and wf: "swf w1 ?i" and m: "\<not> sptr_pool (w_sessionPtrs w1 ?i)" using 2(1) p by simp_all
    show ?case unfolding Let_def
    proof (rule sess_upd_bind [OF b], goal_cases)
      case (3 w2)
      note c = 3(2) and R = refs_okD [OF accD(1) [OF 3(2)]]
      let ?w = "retouch w2 ?i p (\<lambda>s. s) (\<lambda>n. n) []"
      have h: "sptr_handle p = pool_handle (w_spool w2) ?i" using R(6) [of p] p by (simp add: ptr_fresh_def)
      have m2: "\<not> sptr_pool (w_sessionPtrs w2 ?i)" using m 3(6) by simp
      have cnt: "length (filter sptr_pool (slot_ptrs ?w ?i)) = Suc (length (filter sptr_pool (slot_ptrs w2 ?i)))"
        using p m2 by (simp add: slot_ptrs_def)
      have "refs_ok (of_sessions z) ?w L"
      proof (rule refs_ok_retouch [OF accD(1) [OF c] 3(3)])
        show "own_ptrs ?w ?i" using R(4) [OF 3(3)] h by (simp add: own_ptrs_def slot_ptrs_def)
        show "refs w2 ?i = slot_count ?w L ?i" using R(7) [OF 3(3)] cnt p by (simp add: slot_count_def points_to_def)
      qed (use R(5) [OF 3(3)] R(6) in \<open>auto simp: points_to_def\<close>)
      then have d: "acc z ?w L D" using accD(2) [OF c] by (simp add: acc_def packets_held_def)
      have wfw: "swf ?w ?i" using 3(3) swf_touch [OF 3(3)] by (simp add: retouch_def swf_def)
      have pw: "w_sessionPtrs ?w ?i = p" by simp
      have st: "p \<in> set (slot_ptrs ?w ?i)" by (simp add: slot_ptrs_def)
      have "length L \<le> 20" using len by simp
      note cp = copy_rule [OF d stored_ptr(3) [OF d wfw st p] stored_ptr(4) [OF d wfw st p] this]
      have "w2\<lparr> w_sessionPtrs := (w_sessionPtrs w2)(?i := p) \<rparr> = ?w" using touch_none [OF 3(3)] by (simp add: retouch_def)
      then show ?case using m2 cp 3(3) by (auto simp: SharedPoolPtr_move_assign_def intro!: require_bind)
    qed (use fields_touch [OF b wf] in \<open>simp_all add: field_defs\<close>)
  qed
qed

subsection \<open>Posting accepts\<close>

lemma PostAccept_round_rule:
  assumes a: "acc z w L D" and E: "post_ok E" and len: "length L \<le> 8"
  shows "ensures (PostAccept_round E w) (\<lambda>x. acc z (fst x) L D)"
  unfolding PostAccept_round_def
proof (split if_split, intro conjI impI, goal_cases)
  case 2
  have b: "acc z (w\<lparr> w_pendingAccepts := trunc64 (w_pendingAccepts w + 1) \<rparr>) L D" using a by simp
  show ?case
  proof (rule ensures_bind_pair [OF CreateSession_rule [OF b E len]], split if_split, intro conjI impI, goal_cases)
    case (1 w1 p)
    have "ensures (SharedPoolPtr_delete (session_host E) (w1\<lparr> w_pendingAccepts := sub64 (w_pendingAccepts w1) 1 \<rparr>) p) (\<lambda>w'. acc z w' L D)"
      using 1 by (intro delete_rule E len) simp
    then show ?case by (rule ensures_bind) simp
  next
    case (2 w1 p)
    let ?i = "who_of (sptr_handle p)"
    have h: "holds (p # L) ?i" using 2(2) by (simp add: holds_def points_to_def SharedPoolPtr_IsValid_def)
    have l: "length (p # L) \<le> 18" using len by simp
    show ?case unfolding Let_def
    proof (rule ensures_bind_fst [OF RegisterAccept_rule [OF 2(1) h l]], split if_split, intro conjI impI, goal_cases)
      case (1 w2 ok)
      have "acc z (w2\<lparr> w_pendingAccepts := sub64 (w_pendingAccepts w2) 1 \<rparr>) (p # L) D" using 1 by simp
      from Disconnect_rule [OF this h l] show ?case
      proof (rule ensures_bind_fst, goal_cases)
        case (1 w3 b)
        from delete_rule [OF 1 E len] show ?case by (rule ensures_bind) simp
      qed
    next
      case (2 w2 ok)
      show ?case
      proof (rule sess_upd_bind [OF 2(1)], goal_cases)
        case (3 w3)
        from delete_rule [OF 3(2) E len] show ?case by (rule ensures_bind) simp
      qed (use fields_touch [OF 2(1)] in \<open>simp_all add: field_defs\<close>)
    qed
  qed
qed (use a in simp)

lemma PostAccept_rule:
  assumes a: "acc z w L D" and E: "post_ok E" and len: "length L \<le> 8"
  shows "ensures (Listener_PostAccept E w) (\<lambda>x. acc z (fst x) L D)"
proof -
  have "E' = E \<longrightarrow> acc z w L D \<longrightarrow> ensures m (\<lambda>x. acc z (fst x) L D)" if "PostAccept_loop E' w = Some m" for E' m
  proof (rule PostAccept_loop.raw_induct [of "\<lambda>E' w m. E' = E \<longrightarrow> acc z w L D \<longrightarrow> ensures m (\<lambda>x. acc z (fst x) L D)", OF _ that], intro impI, goal_cases)
    case (1 loop E' w m)
    note R = PostAccept_round_rule [OF 1(4) E len]
    show ?case
    proof (cases "PostAccept_round E w")
      case (Inr x)
      obtain w1 c where "x = (w1, c)" by (cases x)
      then show ?thesis using 1(1) 1(2) R unfolding 1(3) Inr by (cases c) auto
    next
      case (Inl e)
      then have "m = Inl e" using 1(2,3) by simp
      then show ?thesis by simp
    qed
  qed
  then show ?thesis using a by (cases "PostAccept_loop E w") (simp_all add: Listener_PostAccept_def loop_result_def)
qed

lemma server_post_ok: "post_ok (server_env os sql d)"
proof (induction d)
  case (Suc d)
  show ?case unfolding post_ok_def
  proof (intro allI impI, goal_cases)
    case (1 z w L D)
    have "ensures (Listener_PostAccept (server_env os sql d) w) (\<lambda>x. acc z (fst x) L D)"
      using 1 by (intro PostAccept_rule Suc.IH) simp_all
    then have "ensures (andThen (Listener_PostAccept (server_env os sql d) w) (\<lambda>(w1, _). Inr w1)) (\<lambda>w'. acc z w' L D)"
      by (rule ensures_bind_fst) simp
    then show ?case by simp
  qed
qed (simp add: post_ok_def)

lemma Decrement_rule:
  assumes a: "acc z w L D" and E: "post_ok E" and len: "length L \<le> 8"
  shows "ensures (Listener_DecrementPendingAccepts E w) (\<lambda>w'. acc z w' L D)"
  unfolding Listener_DecrementPendingAccepts_def
  by (rule ensures_bind_fst [OF PostAccept_rule [OF _ E len]]) (use a in simp_all)

end
