(* ===== verification/Server_Invariant.thy ===== *)
theory Server_Invariant
  imports Accounting_Server
begin

section \<open>The invariant of the whole server\<close>

text \<open>
  The handlers and the dispatch of completions keep the counts; the step relation of the server, whose
  steps are the rounds of its two kinds of threads; and the invariant of its reachable states.
\<close>

subsection \<open>The packet worker\<close>

lemma GetSession_bind:
  assumes a: "acc z w L D" and len: "length L \<le> 20" and f: "\<And>w1 p. acc z w1 (p # L) D \<Longrightarrow> ensures (f w1 p) P"
  shows "ensures (andThen (SessionManager_GetSession E w h) (\<lambda>(w1, p). f w1 p)) P"
proof (cases "who_of h < pool_N (w_spool w)")
  case True
  let ?m = "w_sessionPtrs w (who_of h)"
  have wf: "swf w (who_of h)" using True accD(3) [OF a] by (simp add: swf_def)
  have m: "?m \<in> set (slot_ptrs w (who_of h))" by (simp add: slot_ptrs_def)
  have fr: "ptr_fresh (w_spool w) ?m" using stored_ptr(3) [OF a wf m] by (cases "sptr_pool ?m") (simp_all add: ptr_fresh_def)
  have "sptr_pool ?m \<Longrightarrow> 0 < refs w (who_of (sptr_handle ?m))" using stored_ptr(2,4) [OF a wf m] by simp
  note c = copy_rule [OF a fr this len]
  show ?thesis using True c(1) [of E] f [OF c(2)] by (simp add: SessionManager_GetSession_def Let_def)
qed (simp add: SessionManager_GetSession_def Let_def)

lemma SendToSession_rule:
  assumes a: "acc z w L D" and E: "post_ok E" and len: "length L \<le> 8"
  shows "ensures (PacketHandler_SendToSession E w h blk) (\<lambda>w'. acc z w' L D)"
  unfolding PacketHandler_SendToSession_def
proof (rule GetSession_bind [OF a], goal_cases)
  case (2 w1 p)
  have "ensures (andThen (Session_SendPacket E w1 (who_of (sptr_handle p)) blk) (\<lambda>(w2, _). Inr w2)) (\<lambda>w'. acc z w' (p # L) D)"
    using len by (intro ensures_bind_fst [OF SendPacket_rule [OF 2]]) simp_all
  then have "ensures (if SharedPoolPtr_IsValid (session_host E) w1 p
      then andThen (Session_SendPacket E w1 (who_of (sptr_handle p)) blk) (\<lambda>(w2, _). Inr w2) else Inr w1) (\<lambda>w'. acc z w' (p # L) D)"
    using 2 by simp
  then show ?case by (rule ensures_bind) (rule delete_rule [OF _ E len])
qed (use len in simp)

lemma broadcast_rule:
  assumes "acc z w L D" and E: "post_ok E" and len: "length L \<le> 8"
  shows "ensures (broadcast_to E w sh blk hs) (\<lambda>w'. acc z w' L D)"
  using assms(1)
proof (induction hs arbitrary: w)
  case (Cons h hs)
  have "ensures (if h \<noteq> sh then PacketHandler_SendToSession E w h blk else Inr w) (\<lambda>w'. acc z w' L D)"
    using SendToSession_rule [OF Cons.prems E len] Cons.prems by simp
  from ensures_bind [OF this Cons.IH] show ?case by simp
qed simp

lemma Broadcast_rule:
  "acc z w L D \<Longrightarrow> post_ok E \<Longrightarrow> length L \<le> 8 \<Longrightarrow> ensures (PacketHandler_Broadcast E w sh blk) (\<lambda>w'. acc z w' L D)"
  unfolding PacketHandler_Broadcast_def by (rule ensures_any, rule broadcast_rule)

lemma with_packet_rule:
  assumes a: "acc z w L D" and f: "\<And>w1 p blk. acc z w1 L (p # D) \<Longrightarrow> ensures (f w1 p blk) (\<lambda>w2. acc z w2 L (p # D))"
  shows "ensures (with_packet w f) (\<lambda>w'. acc z w' L D)"
  unfolding with_packet_def
proof (rule ensures_bind_pair [OF AcquirePacket_rule [OF a]], rule ensures_any, goal_cases)
  case (1 w1 p blk)
  from f [OF 1] show ?case by (rule ensures_bind) (rule packet_delete_rule)
qed

lemma store_broadcast_rule:
  assumes a: "acc z w L D" and E: "post_ok E" and len: "length L \<le> 8"
  shows "ensures (andThen (packet_store w p blk) (\<lambda>w2. PacketHandler_Broadcast E w2 h blk)) (\<lambda>w'. acc z w' L D)"
  by (rule ensures_bind [OF packet_store_rule [OF a]], rule Broadcast_rule [OF _ E len])

lemma store_send_rule:
  assumes a: "acc z w L D" and len: "length L \<le> 8"
  shows "ensures (andThen (packet_store w p blk) (\<lambda>w2. andThen (Session_SendPacket E w2 i blk) (\<lambda>(w3, _). Inr w3))) (\<lambda>w'. acc z w' L D)"
proof (rule ensures_bind [OF packet_store_rule [OF a]], goal_cases)
  case (1 w2)
  show ?case by (rule ensures_bind_fst [OF SendPacket_rule [OF 1]]) (use len in simp_all)
qed

lemma HandleMove_rule: "acc z w L D \<Longrightarrow> post_ok E \<Longrightarrow> length L \<le> 8 \<Longrightarrow> ensures (PacketHandler_HandleMove E w i hdr) (\<lambda>w'. acc z w' L D)"
  unfolding PacketHandler_HandleMove_def
  by (rule with_packet_rule, assumption, rule ensures_any, rule ensures_any, rule store_broadcast_rule)

lemma HandleChat_rule: "acc z w L D \<Longrightarrow> post_ok E \<Longrightarrow> length L \<le> 8 \<Longrightarrow> ensures (PacketHandler_HandleChat E w i hdr) (\<lambda>w'. acc z w' L D)"
  unfolding PacketHandler_HandleChat_def
  by (rule with_packet_rule, assumption, rule ensures_any, rule ensures_any, rule store_broadcast_rule)

lemma HandleRegister_rule: "acc z w L D \<Longrightarrow> length L \<le> 8 \<Longrightarrow> ensures (PacketHandler_HandleRegister E w i hdr) (\<lambda>w'. acc z w' L D)"
  unfolding PacketHandler_HandleRegister_def
  by (rule ensures_any) (auto split: prod.splits intro!: with_packet_rule ensures_any [OF store_send_rule])

lemma set_accountId_rule:
  assumes a: "acc z w L D"
  shows "ensures (set_accountId E w h v) (\<lambda>w'. acc z w' L D)"
  unfolding set_accountId_def Let_def
  by (rule require_bind, rule require_bind, rule sess_upd_rule [OF a]) (use fields_touch [OF a] in \<open>simp_all add: field_defs\<close>)

lemma LogIn_rule:
  assumes a: "acc z w L D"
  shows "ensures (SessionManager_LogInSession E w h ac) (\<lambda>x. acc z (fst x) L D)"
  unfolding SessionManager_LogInSession_def
proof (rule require_bind, rule ensures_any, split prod.split, intro allI impI, goal_cases)
  case (1 x db result)
  have "acc z (w\<lparr> w_db := db \<rparr>) L D" using a by simp
  from set_accountId_rule [OF this] show ?case by (rule ensures_bind) simp
qed

lemma HandleLogin_rule: "acc z w L D \<Longrightarrow> length L \<le> 8 \<Longrightarrow> ensures (PacketHandler_HandleLogin E w i hdr) (\<lambda>w'. acc z w' L D)"
  unfolding PacketHandler_HandleLogin_def
proof (rule ensures_any, rule with_packet_rule, assumption, rule ensures_any, goal_cases)
  case (1 a w1 p blk h)
  show ?case by (rule ensures_bind_fst [OF LogIn_rule [OF 1(3)]], rule ensures_any, rule store_send_rule [OF _ 1(2)])
qed

lemma HandleLogout_rule: "acc z w L D \<Longrightarrow> length L \<le> 8 \<Longrightarrow> ensures (PacketHandler_HandleLogout E w i hdr) (\<lambda>w'. acc z w' L D)"
  unfolding PacketHandler_HandleLogout_def
proof (rule with_packet_rule, assumption, rule ensures_any, goal_cases)
  case (1 w1 p blk blk')
  show ?case
  proof (rule ensures_bind [OF packet_store_rule [OF 1(3)]], goal_cases)
    case (1 w2)
    have "length L \<le> 18" using \<open>length L \<le> 8\<close> by simp
    show ?case
      by (rule ensures_bind_fst [OF SendPacket_rule [OF 1 \<open>length L \<le> 18\<close>]], rule ensures_any)
        (simp add: SessionManager_LogOutSession_def set_accountId_rule)
  qed
qed

lemma handlers_rule:
  assumes "acc z w L D" and "post_ok E" and "length L \<le> 8" and "PacketHandler_handlers E k = Some f"
  shows "ensures (f w i hdr) (\<lambda>w'. acc z w' L D)"
  using assms HandleMove_rule HandleChat_rule HandleRegister_rule HandleLogin_rule HandleLogout_rule
  by (fastforce simp: PacketHandler_handlers_def split: if_splits)

lemma Execute_rule:
  assumes a: "acc z w L D" and E: "post_ok E" and len: "length L \<le> 8"
  shows "ensures (PacketHandler_Execute E w i hdr) (\<lambda>w'. acc z w' L D)"
proof -
  have "ensures (with_packet w (\<lambda>w1 packet blk. andThen (block_read hdr 0 (header_size hdr 0)) (\<lambda>bs.
          andThen (block_write blk 0 bs) (\<lambda>blk'. andThen (packet_store w1 packet blk') (\<lambda>w2. f w2 i blk'))))) (\<lambda>w'. acc z w' L D)"
    if f: "PacketHandler_handlers E k = Some f" for f k
  proof (rule with_packet_rule [OF a], rule ensures_any, rule ensures_any, goal_cases)
    case (1 w1 p blk bs blk')
    show ?case by (rule ensures_bind [OF packet_store_rule [OF 1]], rule handlers_rule [OF _ E len f])
  qed
  then show ?thesis using a by (auto simp: PacketHandler_Execute_def split: option.split)
qed

lemma run_task_rule:
  assumes a: "acc z w L (task_packet t # D)" and E: "post_ok E" and len: "length L \<le> 8"
  shows "ensures (run_task E w t) (\<lambda>w'. acc z w' L D)"
  unfolding run_task_def
  by (rule ensures_any, rule ensures_bind [OF Execute_rule [OF a E len]], rule packet_delete_rule)

subsection \<open>The dispatch of completions\<close>

lemma via_bind:
  "(sptr_pool p \<Longrightarrow> ensures (f (who_of (sptr_handle p))) P) \<Longrightarrow> ensures (andThen (via E w p) f) P"
  unfolding via_def SharedPoolPtr_Get_def andThen_assoc
  by (rule require_bind, rule ensures_any) simp

lemma holds_ptr: "sptr_pool p \<Longrightarrow> p \<in> set L \<Longrightarrow> holds L (who_of (sptr_handle p))"
  by (auto simp: holds_def points_to_def)

lemma disconnect_via_rule:
  assumes a: "acc z w L D" and p: "p \<in> set L" and len: "length L \<le> 18"
  shows "ensures (disconnect_via E w p) (\<lambda>w'. acc z w' L D)"
  unfolding disconnect_via_def
proof (rule via_bind, goal_cases)
  case 1
  show ?case by (rule ensures_bind_fst [OF Disconnect_rule [OF a holds_ptr [OF 1 p] len]]) simp
qed

lemma reset_via_rule:
  assumes a: "acc z w L D" and p: "p \<in> set L" and len: "length L \<le> 18"
  shows "ensures (reset_via E w p) (\<lambda>w'. acc z w' L D)"
  unfolding reset_via_def
proof (rule via_bind, goal_cases)
  case 1
  show ?case by (rule ensures_bind_fst [OF Reset_rule [OF a holds_ptr [OF 1 p] len]]) simp
qed

text \<open>The local copy of the pointer in a block.\<close>

lemma ov_ptr_copy_bind:
  assumes a: "acc z w L D" and len: "length L \<le> 20"
    and f: "\<And>w1 p. acc z w1 (p # L) D \<Longrightarrow> swf w1 i \<Longrightarrow> p = ov_ptr_of f (sess w1 i) \<Longrightarrow> (sptr_pool p \<Longrightarrow> who_of (sptr_handle p) = i) \<Longrightarrow>
      ensures (g w1 p) P"
  shows "ensures (andThen (ov_ptr_copy E w i f) (\<lambda>(w1, p). g w1 p)) P"
  unfolding ov_ptr_copy_def andThen_assoc
proof (rule sess_at_bind [OF accD(3) [OF a]], goal_cases)
  case 1
  let ?p = "ov_ptr_of f (sess w i)"
  have p: "?p \<in> set (slot_ptrs w i)" by (rule ov_ptr_of_in)
  have fr: "ptr_fresh (w_spool w) ?p" using stored_ptr(3) [OF a 1 p] by (cases "sptr_pool ?p") (simp_all add: ptr_fresh_def)
  have "sptr_pool ?p \<Longrightarrow> 0 < refs w (who_of (sptr_handle ?p))" using stored_ptr(2,4) [OF a 1 p] by simp
  note c = copy_rule [OF a fr this len]
  have "ensures (g (bump w ?p) ?p) P"
    using 1 stored_ptr(2) [OF a 1 p] by (intro f c(2)) simp_all
  then show ?case using c(1) [of E] by (simp add: ov_ptr_of_def)
qed

text \<open>Giving back the pointer of a block while a local copy exists.\<close>

lemma unlink_bind:
  assumes a: "acc z w L D" and wf: "swf w i" and h: "sptr_pool (ov_ptr_of f (sess w i)) \<Longrightarrow> holds L i" and len: "length L \<le> 20"
    and g: "\<And>w1. acc z w1 L D \<Longrightarrow> swf w1 i \<Longrightarrow> \<not> sptr_pool (ov_ptr_of f (sess w1 i)) \<Longrightarrow> ensures (g w1) P"
  shows "ensures (andThen (ov_ptr_Reset E w i f) g) P"
proof -
  have "1 < refs w i" if "sptr_pool (ov_ptr_of f (sess w i))"
    using spare_holds [OF a wf h [OF that], of f] that by (simp add: spare_def)
  from ov_ptr_Reset_rule [OF a wf this len, where E = E] obtain R where
    r: "ov_ptr_Reset E w i f = Inr (touch w i (ov_unlink f) R [])" "acc z (touch w i (ov_unlink f) R []) L D" by blast
  have "ensures (g (touch w i (ov_unlink f) R [])) P" using r(2) wf by (intro g) (simp_all add: ov_ptr_of_def)
  then show ?thesis using r(1) by simp
qed

lemma HandleError_rule:
  assumes a: "acc z w L D" and E: "post_ok E" and len: "length L \<le> 8"
  shows "ensures (IocpCore_HandleError E w i f) (\<lambda>w'. acc z w' L D)"
  unfolding IocpCore_HandleError_def
proof (rule ov_ptr_copy_bind [OF a], goal_cases)
  case (2 w1 p)
  note b = 2(1)
  show ?case
  proof (rule sess_at_bind [OF accD(3) [OF b]], goal_cases)
    case 1
    have l: "length (p # L) \<le> 18" using len by simp
    have "ensures (andThen (ov_ptr_Reset E w1 i f) (\<lambda>w2. disconnect_via E w2 p)) (\<lambda>w'. acc z w' (p # L) D)"
    proof (rule unlink_bind [OF b 1], goal_cases)
      case (3 w2)
      show ?case by (rule disconnect_via_rule [OF 3(1) _ l]) simp
    qed (use 2 holds_ptr [of p "p # L"] len in auto)
    then have "ensures (if ov_ioType (get_ov f (sess w1 i)) = IO_kDisconnect then reset_via E w1 p
        else andThen (ov_ptr_Reset E w1 i f) (\<lambda>w2. disconnect_via E w2 p)) (\<lambda>w'. acc z w' (p # L) D)"
      using reset_via_rule [OF b _ l, of p E] by simp
    then show ?case by (rule ensures_bind) (rule delete_rule [OF _ E len])
  qed
qed (use len in simp)

lemma DispatchAccept_rule:
  assumes a: "acc z w L D" and p: "p \<in> set L" and len: "length L \<le> 18"
  shows "ensures (IocpCore_DispatchAccept E w p) (\<lambda>w'. acc z w' L D)"
  unfolding IocpCore_DispatchAccept_def
proof (rule via_bind, rule ensures_any, rule require_bind, goal_cases)
  case (1 s)
  let ?j = "who_of (sptr_handle p)"
  have "ensures (Listener_HandleAccept E w ?j) (\<lambda>x. acc z (fst x) L D)"
    unfolding Listener_HandleAccept_def Let_def os_do_def
  proof (rule ensures_any, clarsimp simp: a, goal_cases)
    case 1
    have "acc z (w\<lparr> w_trace := w_trace w @ [OS_SetAcceptContext ?j, OS_SetNoDelay ?j] \<rparr>) L D" using a by simp
    from Connect_rule [OF this holds_ptr [OF \<open>sptr_pool p\<close> p] len] show ?case .
  qed
  then show ?case
  proof (rule ensures_bind_fst, goal_cases)
    case (1 w1 ok)
    then show ?case using disconnect_via_rule [OF 1 p len] by simp
  qed
qed

lemma DispatchRecvSend_rule:
  assumes a: "acc z w L D" and p: "p \<in> set L" and len: "length L \<le> 18" and own: "sptr_pool p \<Longrightarrow> who_of (sptr_handle p) = i"
    and free: "\<not> sptr_pool (ov_ptr_of f (sess w i))"
  shows "ensures (IocpCore_DispatchRecvSend E w p i f n) (\<lambda>w'. acc z w' L D)"
  unfolding IocpCore_DispatchRecvSend_def
proof (split if_split, intro conjI impI, goal_cases)
  case 2
  show ?case
  proof (rule via_bind, goal_cases)
    case 1
    then have i: "who_of (sptr_handle p) = i" and h: "holds L i" using own holds_ptr [OF _ p] by auto
    have "ensures (Session_HandleIO E w i i f n) (\<lambda>x. acc z (fst x) L D)"
      unfolding Session_HandleIO_def
    proof (rule sess_at_bind [OF accD(3) [OF a]], goal_cases)
      case 1
      have "ensures (Session_OnSend E w i n) (\<lambda>x. acc z (fst x) L D)" if "ov_ioType (get_ov f (sess w i)) = IO_kSend"
      proof -
        have "f = SendOv" using that fields_touch [OF a 1] by (cases f) (auto simp: session_fields_def)
        then show ?thesis using free OnSend_rule [OF a _ len] by simp
      qed
      then show ?case using OnRecv_rule [OF a h len] a by (auto split: io_type.split)
    qed
    then show ?case unfolding i
    proof (rule ensures_bind_fst, goal_cases)
      case (1 w1 ok)
      then show ?case using disconnect_via_rule [OF 1 p len] by simp
    qed
  qed
qed (rule disconnect_via_rule [OF a p len])

lemma Dispatch_rule:
  assumes a: "acc z w L D" and E: "post_ok E" and len: "length L \<le> 8"
  shows "ensures (IocpCore_Dispatch E w i f n) (\<lambda>w'. acc z w' L D)"
  unfolding IocpCore_Dispatch_def
proof (rule ov_ptr_copy_bind [OF a], goal_cases)
  case (2 w1 p)
  have l: "length (p # L) \<le> 18" using len by simp
  show ?case
  proof (rule unlink_bind [OF 2(1,2)], goal_cases)
    case (3 w2)
    note c = 3(1)
    show ?case
    proof (rule sess_at_bind [OF accD(3) [OF c]], goal_cases)
      case 1
      have "ensures (case ov_ioType (get_ov f (sess w2 i)) of
                IO_kAccept \<Rightarrow> IocpCore_DispatchAccept E w2 p
              | IO_kDisconnect \<Rightarrow> IocpCore_DispatchDisconnect E w2 p
              | IO_kRecv \<Rightarrow> IocpCore_DispatchRecvSend E w2 p i f n
              | IO_kSend \<Rightarrow> IocpCore_DispatchRecvSend E w2 p i f n
              | _ \<Rightarrow> disconnect_via E w2 p) (\<lambda>w'. acc z w' (p # L) D)"
        using DispatchAccept_rule [OF c _ l, of p E] reset_via_rule [OF c _ l, of p E] disconnect_via_rule [OF c _ l, of p E]
          DispatchRecvSend_rule [OF c _ l 2(4) 3(3), of E n]
        by (auto simp: IocpCore_DispatchDisconnect_def split: io_type.split)
      then show ?case by (rule ensures_bind) (rule delete_rule [OF _ E len])
    qed
  qed (use 2 holds_ptr [of p "p # L"] len in auto)
qed (use len in simp)

lemma WorkerThread_round_rule:
  assumes a: "acc z w L D" and E: "post_ok E" and len: "length L \<le> 7"
  shows "ensures (IocpCore_WorkerThread_round E sd w c) (\<lambda>x. acc z (fst x) L D)"
proof (cases "co_target c")
  case None
  then show ?thesis using a by (simp add: IocpCore_WorkerThread_round_def)
next
  case (Some t)
  obtain i f where t: "t = (i, f)" by (cases t)
  show ?thesis unfolding IocpCore_WorkerThread_round_def Some t option.case prod.case
  proof (rule ov_ptr_copy_bind [OF a], goal_cases)
    case (2 w1 p)
    note b = 2(1)
    have l: "length (p # L) \<le> 8" using len by simp
    show ?case
    proof (rule sess_at_bind [OF accD(3) [OF b]], goal_cases)
      case 1
      have "ensures (andThen (via E w1 p) (\<lambda>j. andThen (sess_at E w1 j) (\<lambda>t. andThen (require (se_listener t) NullPointer) (\<lambda>_.
          Listener_DecrementPendingAccepts E w1)))) (\<lambda>w'. acc z w' (p # L) D)"
        by (rule via_bind, rule ensures_any, rule require_bind, rule Decrement_rule [OF b E l])
      then have "ensures (if ov_ioType (get_ov f (sess w1 i)) = IO_kAccept then
          andThen (via E w1 p) (\<lambda>j. andThen (sess_at E w1 j) (\<lambda>t. andThen (require (se_listener t) NullPointer) (\<lambda>_.
          Listener_DecrementPendingAccepts E w1))) else Inr w1) (\<lambda>w'. acc z w' (p # L) D)" using b by simp
      then show ?case
      proof (rule ensures_bind, goal_cases)
        case (1 w2)
        have "ensures (if co_ok c then IocpCore_Dispatch E w2 i f (co_bytes c) else IocpCore_HandleError E w2 i f) (\<lambda>w'. acc z w' (p # L) D)"
          using Dispatch_rule [OF 1 E l] HandleError_rule [OF 1 E l] by simp
        then show ?case
        proof (rule ensures_bind, goal_cases)
          case (1 w3)
          have "length L \<le> 8" using len by simp
          from delete_rule [OF 1 E this] show ?case by (rule ensures_bind) simp
        qed
      qed
    qed
  qed (use len in simp)
qed

subsection \<open>The reachable states\<close>

text \<open>
  \<open>server_reach E w0 w\<close>: the server starts in \<open>w0\<close> with \<open>SessionManager::Init\<close>, and reaches \<open>w\<close> by rounds of the
  I/O thread on whatever completions arrive, rounds of the packet worker, calls of \<open>PostAccept\<close> and the
  shutdown of the queue, in any order. A round is taken as one step.
\<close>

inductive server_reach :: "'db env \<Rightarrow> 'db world \<Rightarrow> 'db world \<Rightarrow> bool" for E w0 where
  start: "SessionManager_Init E w0 = Inr (w, ok) \<Longrightarrow> server_reach E w0 w"
| accepts: "server_reach E w0 w \<Longrightarrow> Listener_PostAccept E w = Inr (w', b) \<Longrightarrow> server_reach E w0 w'"
| completion: "server_reach E w0 w \<Longrightarrow> IocpCore_WorkerThread_round E sd w c = Inr (w', goOn) \<Longrightarrow> server_reach E w0 w'"
| worker: "server_reach E w0 w \<Longrightarrow> TaskQueue_Pop (w_tasks w) = Some (q, Some t) \<Longrightarrow>
    run_task E (w\<lparr> w_tasks := q \<rparr>) t = Inr w' \<Longrightarrow> server_reach E w0 w'"
| shutdown: "server_reach E w0 w \<Longrightarrow> server_reach E w0 (w\<lparr> w_tasks := TaskQueue_Shutdown (w_tasks w) \<rparr>)"

lemma register_all_rule: "acc z w L D \<Longrightarrow> ensures (register_all E w hs) (\<lambda>x. acc z (fst x) L D)"
proof (induction hs arbitrary: w)
  case (Cons h hs)
  have "ensures (SessionManager_RegisterSession E w h) (\<lambda>x. acc z (fst x) L D)"
    unfolding SessionManager_RegisterSession_def
    by (rule ensures_any, rule require_bind) (simp add: IocpCore_Register_def os_do_def Cons.prems)
  then show ?case unfolding register_all.simps
    by (rule ensures_bind_fst) (simp add: Cons.IH)
qed simp

lemma SparsePool_new_sizes:
  "pool_N (SparsePool_new x k c) = k" "ss_K (sp_set (SparsePool_new x k c)) = c"
  by (simp_all add: SparsePool_new_def SparseSet_init_def)

lemma new_world_acc:
  assumes "n < 2 ^ 32" and "m < 2 ^ 32"
  shows "acc (Sizes n m) (world_new n m b db) [] []"
proof -
  let ?w = "world_new n m b db"
  have sess: "sess ?w i = Session_new b" if "i < n" for i using that by (simp add: sess_def world_new_def Slot_new_def)
  have sp: "w_spool ?w = SparsePool_new (Session_new b) n 4" "w_ppool ?w = SparsePool_new (\<lambda>_. 0) m 2" "w_sessionPtrs ?w = (\<lambda>_. nullSharedPtr)"
    "tq_tasks (w_tasks ?w) = []" by (simp_all add: world_new_def TaskQueue_new_def)
  note N = SparsePool_new_sizes
  have ptrs: "filter sptr_pool (slot_ptrs ?w i) = []" if "i < n" for i
    using sess [OF that] sp(3) by (simp add: slot_ptrs_def Session_new_def OverlappedEx_new_def)
  have cnt: "0 = slot_count ?w [] i" if "i < n" for i using ptrs [OF that] by (simp add: slot_count_def)
  have "pool_ok (w_spool ?w) (slot_count ?w [])"
    unfolding sp(1)
  proof (rule pool_ok_cong [OF pool_ok_new])
    fix i assume "i < pool_N (SparsePool_new (Session_new b) n 4)"
    then have "i < n" by (simp add: SparsePool_new_def SparseSet_init_def)
    then show "0 = slot_count ?w [] i" by (rule cnt)
  qed (use assms(1) in simp_all)
  moreover have "own_ptrs ?w i \<and> session_fields n i (sess ?w i)" if "i < n" for i
    using ptrs [OF that] sess [OF that] assms(1)
    by (simp add: own_ptrs_def filter_empty_conv session_fields_def Session_new_def OverlappedEx_new_def who_of_kInvalidHandle)
  ultimately have "refs_ok n ?w []" using sp(1) by (simp add: refs_ok_def N)
  moreover have "pool_ok (SparsePool_new (\<lambda>_. 0 :: u8) m 2) (ptr_count [])" using pool_ok_new [of 2 m] assms(2) by (simp add: ptr_count_simps(1) [abs_def])
  then have "packets_held m ?w []" using sp by (simp add: packets_held_def vars_ok_def N)
  ultimately show ?thesis by (simp add: acc_def)
qed

lemma server_reach_acc:
  assumes "server_reach E w0 w" and E: "post_ok E" and "acc z w0 [] []"
  shows "acc z w [] []"
  using assms(1)
proof (induction rule: server_reach.induct)
  case (start w ok)
  have "ensures (SessionManager_Init E w0) (\<lambda>x. acc z (fst x) [] [])"
    unfolding SessionManager_Init_def Let_def
    by (rule ensures_any, rule register_all_rule) (simp add: assms(3))
  then show ?case using start by simp
next
  case (accepts w w' b)
  then show ?case using PostAccept_rule [OF accepts.IH E] by simp
next
  case (completion w sd c w' goOn)
  then show ?case using WorkerThread_round_rule [OF completion.IH E, of sd c] by simp
next
  case (worker w q t w')
  then show ?case using run_task_rule [OF pop_acc [OF worker.IH worker.hyps(2)] E] by simp
next
  case (shutdown w)
  then show ?case by (simp add: acc_def packets_held_def TaskQueue_Shutdown_def)
qed


text \<open>A server with three sessions that has posted its accepts: two pointers to each session, one of them in the
  block of the pending accept.\<close>

lemma register_all_returns:
  assumes "w_managerInit w" and "pool_wf (w_spool w)" and "\<forall>h \<in> set hs. who_of h < pool_N (w_spool w)"
  shows "\<exists>t ok. register_all E w hs = Inr (w\<lparr> w_trace := t \<rparr>, ok)"
  using assms
proof (induction hs arbitrary: w)
  case Nil
  show ?case by (intro exI [of _ "w_trace w"] exI [of _ True]) simp
next
  case (Cons h hs)
  let ?w = "w\<lparr> w_trace := w_trace w @ [OS_RegisterIocp (who_of h) h] \<rparr>"
  have "swf w (who_of h)" using Cons.prems by (simp add: swf_def)
  moreover have "\<exists>t ok. register_all E ?w hs = Inr (?w\<lparr> w_trace := t \<rparr>, ok)" using Cons.prems by (intro Cons.IH) simp_all
  moreover have "register_all E w hs' = Inr (w, True)" if "hs' = []" for hs' using that by simp
  moreover have "w = w\<lparr> w_trace := t \<rparr>" if "t = w_trace w" for t using that by simp
  ultimately show ?case using Cons.prems(1)
    by (auto simp: SessionManager_RegisterSession_def IocpCore_Register_def os_do_def)
qed

lemma sample_server_posts:
  obtains w where "server_reach sample_env (world_new 3 2 64 ()) w" and "\<forall>i < 3. posted w i"
proof -
  let ?new = "world_new 3 2 64 ()"
  let ?w = "?new\<lparr> w_managerInit := True \<rparr>"
  let ?ss = "sp_set (w_spool ?w)"
  have wf: "pool_wf (w_spool ?w)" using pool_okD(1) [OF pool_ok_new [of 4 3]] by (simp add: world_new_def)
  have N: "pool_N (w_spool ?w) = 3" "ss_K ?ss = 4" by (simp_all add: world_new_def SparsePool_new_def SparseSet_init_def)
  have idle: "in_state ?ss 0 = {..<3}" by (auto simp: in_state_def world_new_def SparsePool_new_def SparseSet_init_def)
  have inv: "sset_inv ?ss" using wf by (simp add: pool_wf_def)
  obtain hs where hs: "SessionManager_GetSessionsInState ?w SS_kIdle = Inr hs" "set hs = cur_handle ?ss ` {..<3}"
    using GetIndicesInState_set [OF inv, of 0] N(2) idle
    by (auto simp: SessionManager_GetSessionsInState_def elim!: returnsE)
  have "\<forall>h \<in> set hs. who_of h < pool_N (w_spool ?w)" using hs(2) N(1) by auto
  from register_all_returns [OF _ wf this, of sample_env] obtain t ok
    where init: "SessionManager_Init sample_env ?new = Inr (?w\<lparr> w_trace := t \<rparr>, ok)"
    using hs(1) by (auto simp: SessionManager_Init_def)
  let ?init = "?w\<lparr> w_trace := t \<rparr>"
  have "null_session (sess ?init i) \<and> \<not> sptr_pool (w_sessionPtrs ?init i)" if "i < 3" for i
    using that by (simp add: sess_def world_new_def Slot_new_def Session_new_def null_session_def OverlappedEx_new_def)
  then have "accept_ready ?init" using wf idle by (simp add: accept_ready_def)
  moreover have "takes_accepts sample_env" by (simp add: takes_accepts_def)
  moreover have "w_pendingAccepts ?init \<le> kMaxAccept" by (simp add: world_new_def)
  ultimately obtain w "is" where r: "PostAccept_loop sample_env ?init = Some (Inr (w, w_pendingAccepts w = kMaxAccept))"
    "accepts_posted ?init w is" "length is = min (kMaxAccept - w_pendingAccepts ?init) (card (in_state (sp_set (w_spool ?init)) 0))"
    using PostAccept_loop_posts by blast
  have "length is = 3" using r(3) idle by (simp add: world_new_def kMaxAccept_def)
  then have "set is = {..<3}" using r(2) idle by (intro card_subset_eq) (auto simp: accepts_posted_def distinct_card)
  then have "\<forall>i < 3. posted w i" using r(2) by (simp add: accepts_posted_def)
  moreover have "server_reach sample_env ?new w"
    using r(1) by (intro server_reach.accepts [OF server_reach.start [OF init]]) (simp add: Listener_PostAccept_def loop_result_def)
  ultimately show ?thesis using that by blast
qed


end
