(* ===== verification/Disconnect_Complete.thy ===== *)
theory Disconnect_Complete
  imports Accept_Complete
begin

section \<open>A disconnect completes\<close>

text \<open>
  The end of a session: the completion of \<open>DisconnectEx\<close> takes the last pointers to the session, its slot
  goes back to the pool, and the release posts new accepts. \<open>parting\<close>: a session that waits for this
  completion, with its receive and its send finished, held by its manager and by its disconnect block.
\<close>

abbreviation own_ptr :: "'db world \<Rightarrow> nat \<Rightarrow> shared_ptr" where
  "own_ptr w i \<equiv> \<lparr> sptr_pool = True, sptr_handle = pool_handle (w_spool w) i \<rparr>"

definition parting :: "'db world \<Rightarrow> nat \<Rightarrow> bool" where
  "parting w i \<longleftrightarrow> swf w i \<and> sstate w i = state_code SS_kDisconnecting \<and> refs w i = 2 \<and> se_sessionManager (sess w i) \<and>
     se_handle (sess w i) = pool_handle (w_spool w) i \<and> w_sessionPtrs w i = own_ptr w i \<and>
     ov_ioType (se_disconnectOv (sess w i)) = IO_kDisconnect \<and> ov_sessionPtr (se_disconnectOv (sess w i)) = own_ptr w i \<and>
     \<not> sptr_pool (ov_sessionPtr (se_recvOv (sess w i))) \<and> \<not> sptr_pool (ov_sessionPtr (se_sendOv (sess w i)))"

lemma partingD:
  assumes "parting w i"
  shows "swf w i" and "sstate w i = 3" and "refs w i = 2" and "se_sessionManager (sess w i)"
    and "se_handle (sess w i) = pool_handle (w_spool w) i" and "w_sessionPtrs w i = own_ptr w i"
    and "ov_ioType (se_disconnectOv (sess w i)) = IO_kDisconnect"
    and "ov_sessionPtr (se_disconnectOv (sess w i)) = own_ptr w i"
    and "\<not> sptr_pool (ov_sessionPtr (se_recvOv (sess w i)))" and "\<not> sptr_pool (ov_sessionPtr (se_sendOv (sess w i)))"
    and "who_of (pool_handle (w_spool w) i) = i"
  using assms pool_wfD(5) [of "w_spool w"] by (auto simp: parting_def swf_def)

lemma generations_touch [simp]: "generations (touch w i F R cs) = generations w"
  by (simp add: generations_def fun_eq_iff)

lemma with_sessionPtrs [simp]:
  "sess (w\<lparr> w_sessionPtrs := p \<rparr>) = sess w" "refs (w\<lparr> w_sessionPtrs := p \<rparr>) = refs w"
  "sstate (w\<lparr> w_sessionPtrs := p \<rparr>) = sstate w" "generations (w\<lparr> w_sessionPtrs := p \<rparr>) = generations w"
  "swf (w\<lparr> w_sessionPtrs := p \<rparr>) i = swf w i"
  by (simp_all add: sess_def refs_def sstate_def generations_def swf_def fun_eq_iff)

text \<open>\<open>Session::Reset\<close> gives back the pointer of the manager.\<close>

lemma reset_via_keep:
  assumes wf: "swf w i" and m: "se_sessionManager (sess w i)" and h: "who_of h = i" "who_of (se_handle (sess w i)) = i"
    and p: "w_sessionPtrs w i = \<lparr> sptr_pool = True, sptr_handle = h' \<rparr>" "who_of h' = i" and r: "1 < refs w i" "refs w i < 2 ^ 64"
  shows "reset_via E w \<lparr> sptr_pool = True, sptr_handle = h \<rparr> =
    Inr ((touch w i (\<lambda>s. s) (\<lambda>n. n - 1) [])\<lparr> w_sessionPtrs := (w_sessionPtrs w)(i := nullSharedPtr) \<rparr>)"
proof -
  have "SharedPoolPtr_Reset (session_host E) w (w_sessionPtrs w i) = Inr (touch w i (\<lambda>s. s) (\<lambda>n. n - 1) [], nullSharedPtr)"
    using ptr_delete_keep [OF wf p(2) r, of E] p(1) by (simp add: SharedPoolPtr_Reset_def SharedPoolPtr_delete_def)
  moreover have "i < pool_N (w_spool w)" using wf by (simp add: swf_def)
  ultimately show ?thesis
    using wf m h by (simp add: reset_via_def via_eq Session_Reset_def SessionManager_DisconnectSession_def)
qed

text \<open>The world once the session is back in the pool.\<close>

definition parted :: "'db world \<Rightarrow> nat \<Rightarrow> 'db world \<Rightarrow> bool" where
  "parted w i v \<longleftrightarrow> pool_wf (w_spool v) \<and> pool_N (w_spool v) = pool_N (w_spool w) \<and>
     sess v i = ov_unlink DisconnectOv (sess w i) \<and> refs v i = 0 \<and> sstate v i = 0 \<and> \<not> sptr_pool (w_sessionPtrs v i) \<and>
     generations v = (generations w)(i := generations w i + 1) \<and>
     (\<forall>k. k \<noteq> i \<longrightarrow> sess v k = sess w k \<and> refs v k = refs w k \<and> sstate v k = sstate w k \<and> w_sessionPtrs v k = w_sessionPtrs w k) \<and>
     w_managerInit v = w_managerInit w \<and> w_pendingAccepts v = w_pendingAccepts w \<and> w_trace v = w_trace w \<and> w_ppool v = w_ppool w"

lemma delete_last:
  assumes wf: "swf w i" and h: "who_of h = i" and r: "refs w i = 1"
  shows "\<exists>v. SharedPoolPtr_delete (session_host E) w \<lparr> sptr_pool = True, sptr_handle = h \<rparr> = e_post E v \<and>
    pool_wf (w_spool v) \<and> pool_N (w_spool v) = pool_N (w_spool w) \<and> sess v = sess w \<and> refs v = (refs w)(i := 0) \<and>
    sstate v = (sstate w)(i := 0) \<and> generations v = (generations w)(i := generations w i + 1) \<and> w_sessionPtrs v = w_sessionPtrs w \<and>
    w_managerInit v = w_managerInit w \<and> w_pendingAccepts v = w_pendingAccepts w \<and> w_trace v = w_trace w \<and> w_ppool v = w_ppool w"
proof -
  obtain ss where pu: "pushed (sp_set (w_spool w)) ss i"
    and rel: "SparsePool_ReleaseRef (session_host E) w h = e_post E (w\<lparr> w_spool := (upd_slot (w_spool w) i
        (\<lambda>s. s\<lparr> ps_refCount := sub64 (ps_refCount s) 1 \<rparr>))\<lparr> sp_set := ss \<rparr> \<rparr>)"
    using spool.ReleaseRef_last [of E w h] wf h r by (auto simp: swf_def refs_def)
  let ?v = "w\<lparr> w_spool := (upd_slot (w_spool w) i (\<lambda>s. s\<lparr> ps_refCount := sub64 (ps_refCount s) 1 \<rparr>))\<lparr> sp_set := ss \<rparr> \<rparr>"
  have "pool_wf (w_spool ?v)" using wf pushedD(1-3) [OF pu] by (auto simp: swf_def intro!: pool_wf_set)
  moreover have "sub64 1 1 = 0" by (simp add: sub64_id)
  then have "refs ?v = (refs w)(i := 0)" using r by (simp add: refs_def fun_eq_iff)
  ultimately show ?thesis
    using rel pushedD(2) [OF pu] pushedD(4,5) [OF pu]
    by (intro exI [of _ ?v]) (simp add: SharedPoolPtr_delete_def sess_def sstate_def generations_def fun_eq_iff)
qed

text \<open>The completion up to the release.\<close>

lemma disconnect_completed:
  assumes p: "parting w i" and c: "co_target c = Some (i, DisconnectOv)" "co_ok c"
  shows "\<exists>v. parted w i v \<and> IocpCore_WorkerThread_round E sd w c = andThen (e_post E v) (\<lambda>w4. Inr (w4, True))"
proof -
  note P = partingD [OF p]
  let ?p = "own_ptr w i" and ?h = "pool_handle (w_spool w) i"
  let ?w1 = "touch w i (\<lambda>s. s) (\<lambda>n. n + 1) []"
  let ?w2 = "touch ?w1 i (ov_unlink DisconnectOv) (\<lambda>n. n) []"
  let ?w3 = "(touch ?w2 i (\<lambda>s. s) (\<lambda>n. n - 1) [])\<lparr> w_sessionPtrs := (w_sessionPtrs w)(i := nullSharedPtr) \<rparr>"
  have copy: "ov_ptr_copy E w i DisconnectOv = Inr (?w1, ?p)" using P by (simp add: ov_ptr_copy_eq)
  have pre: "ov_ptr_copy E ?w1 i DisconnectOv = Inr (touch ?w1 i (\<lambda>s. s) (\<lambda>n. n + 1) [], ?p)"
    "ov_ptr_Reset E (touch ?w1 i (\<lambda>s. s) (\<lambda>n. n + 1) []) i DisconnectOv = Inr ?w2"
    using P unlink_copy [of ?w1 i DisconnectOv ?h E] by (simp_all add: ov_ptr_copy_eq del: touch_touch)
  have reset: "reset_via E ?w2 ?p = Inr ?w3" using P by (subst reset_via_keep [where i = i]) simp_all
  have wf3: "swf ?w3 i" using P(1) by simp
  have r3: "refs ?w3 i = 2" using P(3) by simp
  have "SharedPoolPtr_delete (session_host E) ?w3 ?p = Inr (touch ?w3 i (\<lambda>s. s) (\<lambda>n. n - 1) [])" (is "_ = Inr ?w4")
    using ptr_delete_keep [OF wf3 P(11)] r3 by simp
  then have disp: "IocpCore_Dispatch E ?w1 i DisconnectOv n = Inr ?w4" for n
    using pre reset P(1,7) by (simp add: IocpCore_Dispatch_def IocpCore_DispatchDisconnect_def del: touch_touch)
  have w4: "swf ?w4 i" "refs ?w4 i = 1" using wf3 r3 by simp_all
  obtain v where v: "SharedPoolPtr_delete (session_host E) ?w4 ?p = e_post E v" "pool_wf (w_spool v)"
    "pool_N (w_spool v) = pool_N (w_spool ?w4)" "sess v = sess ?w4" "refs v = (refs ?w4)(i := 0)" "sstate v = (sstate ?w4)(i := 0)"
    "generations v = (generations ?w4)(i := generations ?w4 i + 1)" "w_sessionPtrs v = w_sessionPtrs ?w4"
    "w_managerInit v = w_managerInit ?w4" "w_pendingAccepts v = w_pendingAccepts ?w4" "w_trace v = w_trace ?w4" "w_ppool v = w_ppool ?w4"
    using delete_last [OF w4(1) P(11) w4(2), of E] by blast
  have "IocpCore_WorkerThread_round E sd w c = andThen (e_post E v) (\<lambda>w4. Inr (w4, True))"
    using c copy disp v(1) P(1,7) by (simp add: IocpCore_WorkerThread_round_def)
  moreover have "parted w i v"
    using v(2-12) P(3) by (simp add: parted_def)
  ultimately show ?thesis by blast
qed

text \<open>A failed completion: \<open>HandleError\<close> resets the session too, but leaves the pointer in the disconnect block.\<close>

lemma disconnect_failed:
  assumes p: "parting w i" and c: "co_target c = Some (i, DisconnectOv)" "\<not> co_ok c"
  shows "IocpCore_WorkerThread_round E sd w c =
    Inr ((touch w i (\<lambda>s. s) (\<lambda>n. n - 1) [])\<lparr> w_sessionPtrs := (w_sessionPtrs w)(i := nullSharedPtr) \<rparr>, True)"
proof -
  note P = partingD [OF p]
  let ?p = "own_ptr w i" and ?h = "pool_handle (w_spool w) i"
  let ?w1 = "touch w i (\<lambda>s. s) (\<lambda>n. n + 1) []"
  let ?w2 = "touch ?w1 i (\<lambda>s. s) (\<lambda>n. n + 1) []"
  let ?w3 = "(touch ?w2 i (\<lambda>s. s) (\<lambda>n. n - 1) [])\<lparr> w_sessionPtrs := (w_sessionPtrs w)(i := nullSharedPtr) \<rparr>"
  have copy: "ov_ptr_copy E w i DisconnectOv = Inr (?w1, ?p)" "ov_ptr_copy E ?w1 i DisconnectOv = Inr (?w2, ?p)"
    using P by (simp_all add: ov_ptr_copy_eq del: touch_touch)
  have reset: "reset_via E ?w2 ?p = Inr ?w3" using P by (subst reset_via_keep [where i = i]) simp_all
  have wf3: "swf ?w3 i" and r3: "refs ?w3 i = 3" using P(1,3) by simp_all
  have "SharedPoolPtr_delete (session_host E) ?w3 ?p = Inr (touch ?w3 i (\<lambda>s. s) (\<lambda>n. n - 1) [])" (is "_ = Inr ?w4")
    using ptr_delete_keep [OF wf3 P(11)] r3 by simp
  then have err: "IocpCore_HandleError E ?w1 i DisconnectOv = Inr ?w4"
    using copy(2) reset P(1,7) by (simp add: IocpCore_HandleError_def del: touch_touch)
  have w4: "swf ?w4 i" "refs ?w4 i = 2" using wf3 r3 by simp_all
  have "SharedPoolPtr_delete (session_host E) ?w4 ?p = Inr (touch ?w4 i (\<lambda>s. s) (\<lambda>n. n - 1) [])" (is "_ = Inr ?w5")
    using ptr_delete_keep [OF w4(1) P(11)] w4(2) by simp
  then have "IocpCore_WorkerThread_round E sd w c = Inr (?w5, True)"
    using c copy(1) err P(1,7) by (simp add: IocpCore_WorkerThread_round_def del: touch_touch)
  moreover have "?w5 = (touch w i (\<lambda>s. s) (\<lambda>n. n - 1) [])\<lparr> w_sessionPtrs := (w_sessionPtrs w)(i := nullSharedPtr) \<rparr>"
    by (simp add: touch_def upd_slot_twice)
  ultimately show ?thesis by simp
qed

subsection \<open>The release posts new accepts\<close>

lemma parted_ready:
  assumes v: "parted w i v" and p: "parting w i" and a: "accept_ready w"
  shows "accept_ready v" and "in_state (sp_set (w_spool v)) 0 = insert i (in_state (sp_set (w_spool w)) 0)"
    and "card (in_state (sp_set (w_spool v)) 0) = Suc (card (in_state (sp_set (w_spool w)) 0))"
proof -
  note P = partingD [OF p]
  have V: "pool_wf (w_spool v)" "pool_N (w_spool v) = pool_N (w_spool w)" "sstate v i = 0" "w_managerInit v = w_managerInit w"
    "sess v i = ov_unlink DisconnectOv (sess w i)" "\<not> sptr_pool (w_sessionPtrs v i)"
    and keep: "\<And>k. k \<noteq> i \<Longrightarrow> sess v k = sess w k \<and> sstate v k = sstate w k \<and> w_sessionPtrs v k = w_sessionPtrs w k"
    using v by (simp_all add: parted_def)
  have "in_state (sp_set (w_spool u)) 0 = {k. k < pool_N (w_spool u) \<and> sstate u k = 0}" for u :: "'a world"
    by (auto simp: in_state_def sstate_def)
  note st = this [of v] this [of w]
  have iN: "i < pool_N (w_spool w)" using P(1) by (simp add: swf_def)
  show idle: "in_state (sp_set (w_spool v)) 0 = insert i (in_state (sp_set (w_spool w)) 0)"
    unfolding st using V(2,3) keep iN by (auto split: if_splits) (metis keep)+
  have "i \<notin> in_state (sp_set (w_spool w)) 0" unfolding st using P(2) by simp
  moreover have "finite (in_state (sp_set (w_spool w)) 0)" unfolding st by simp
  ultimately show "card (in_state (sp_set (w_spool v)) 0) = Suc (card (in_state (sp_set (w_spool w)) 0))" unfolding idle by simp
  have "null_session (sess v k) \<and> \<not> sptr_pool (w_sessionPtrs v k)" if "k \<in> in_state (sp_set (w_spool v)) 0" for k
    using that V(5,6) P(9,10) keep [of k] a unfolding idle by (cases "k = i") (auto simp: accept_ready_def null_session_def)
  then show "accept_ready v" using a V(1,4) by (simp add: accept_ready_def)
qed

lemma stale_after:
  assumes "generations v i \<noteq> generations w i" and "i < 2 ^ 32"
  shows "\<not> SharedPoolPtr_IsValid (session_host E) v (own_ptr w i)"
  using assms by (auto simp: SharedPoolPtr_IsValid_def SparsePool_IsValid_def IsValid_iff_cur_handle cur_handle_def generations_def
      dest: arg_cong [where f = gen_of])

text \<open>C11: The completion of the disconnect of a session whose other operations have ended. One round of the worker
  thread gives its slot back: the handle of the session becomes invalid, and the release posts accepts, on as
  many idle sessions as there are, the released one among them, or until \<open>kMaxAccept\<close> are pending; if it is not
  used again it is idle and holds no pointer. No other session changes. When the completion reports a failure,
  the manager drops the session, but the disconnect block keeps its pointer, so the session stays in the
  disconnecting state with one reference, which nothing will give back.\<close>

theorem WorkerThread_disconnect_completes:
  assumes "parting w i" and "accept_ready w" and "w_pendingAccepts w \<le> kMaxAccept" and "takes_accepts (server_env os sql d)"
    and "co_target c = Some (i, DisconnectOv)"
  shows "(co_ok c \<longrightarrow> (\<exists>w' is. IocpCore_WorkerThread_round (server_env os sql (Suc d)) sd w c = Inr (w', True) \<and>
      \<not> SharedPoolPtr_IsValid (session_host (server_env os sql (Suc d))) w' (w_sessionPtrs w i) \<and>
      distinct is \<and> set is \<subseteq> insert i (in_state (sp_set (w_spool w)) 0) \<and> (\<forall>k \<in> set is. posted w' k) \<and>
      length is = min (kMaxAccept - w_pendingAccepts w) (Suc (card (in_state (sp_set (w_spool w)) 0))) \<and>
      w_pendingAccepts w' = w_pendingAccepts w + length is \<and> w_trace w' = w_trace w @ map OS_AcceptEx is \<and>
      (i \<notin> set is \<longrightarrow> sstate w' i = 0 \<and> refs w' i = 0 \<and> null_session (sess w' i) \<and> \<not> sptr_pool (w_sessionPtrs w' i)) \<and>
      (\<forall>k. k \<noteq> i \<and> k \<notin> set is \<longrightarrow> sess w' k = sess w k \<and> refs w' k = refs w k \<and> sstate w' k = sstate w k))) \<and>
    (\<not> co_ok c \<longrightarrow> (\<exists>w'. IocpCore_WorkerThread_round (server_env os sql (Suc d)) sd w c = Inr (w', True) \<and>
      sstate w' i = state_code SS_kDisconnecting \<and> refs w' i = 1 \<and> \<not> sptr_pool (w_sessionPtrs w' i) \<and>
      ov_sessionPtr (se_disconnectOv (sess w' i)) = w_sessionPtrs w i \<and> w_trace w' = w_trace w \<and>
      (\<forall>k. k \<noteq> i \<longrightarrow> sess w' k = sess w k \<and> refs w' k = refs w k \<and> sstate w' k = sstate w k)))"
proof (cases "co_ok c")
  case True
  note P = partingD [OF assms(1)]
  let ?E = "server_env os sql (Suc d)"
  obtain v where v: "parted w i v" and r: "IocpCore_WorkerThread_round ?E sd w c = andThen (e_post ?E v) (\<lambda>w4. Inr (w4, True))"
    using disconnect_completed [OF assms(1,5) True, of ?E sd] by blast
  note R = parted_ready [OF v assms(1,2)]
  have V: "w_pendingAccepts v = w_pendingAccepts w" "w_trace v = w_trace w" using v by (simp_all add: parted_def)
  obtain w' "is" where w': "PostAccept_loop (server_env os sql d) v = Some (Inr (w', w_pendingAccepts w' = kMaxAccept))"
    "accepts_posted v w' is" "length is = min (kMaxAccept - w_pendingAccepts v) (card (in_state (sp_set (w_spool v)) 0))"
    using PostAccept_loop_posts [OF R(1) assms(4)] assms(3) V(1) by auto
  have "IocpCore_WorkerThread_round ?E sd w c = Inr (w', True)"
    using r w'(1) by (simp add: Listener_PostAccept_def loop_result_def)
  moreover have "generations w' i = generations w i + 1" using w'(2) v by (simp add: accepts_posted_def parted_def)
  then have "\<not> SharedPoolPtr_IsValid (session_host ?E) w' (w_sessionPtrs w i)"
    unfolding P(6) using P(1) pool_wfD(5) [of "w_spool w"] by (intro stale_after) (auto simp: swf_def)
  moreover have "distinct is" "set is \<subseteq> insert i (in_state (sp_set (w_spool w)) 0)" "\<forall>k \<in> set is. posted w' k"
    "w_pendingAccepts w' = w_pendingAccepts w + length is" "w_trace w' = w_trace w @ map OS_AcceptEx is"
    using w'(2) R(2) V by (simp_all add: accepts_posted_def)
  moreover have "length is = min (kMaxAccept - w_pendingAccepts w) (Suc (card (in_state (sp_set (w_spool w)) 0)))"
    using w'(3) V(1) R(3) by simp
  moreover have "sstate w' i = 0 \<and> refs w' i = 0 \<and> null_session (sess w' i) \<and> \<not> sptr_pool (w_sessionPtrs w' i)" if "i \<notin> set is"
    using that w'(2) v P(9,10) by (simp add: accepts_posted_def parted_def null_session_def)
  moreover have "sess w' k = sess w k \<and> refs w' k = refs w k \<and> sstate w' k = sstate w k" if "k \<noteq> i \<and> k \<notin> set is" for k
    using that w'(2) v by (simp add: accepts_posted_def parted_def)
  ultimately show ?thesis using True by blast
next
  case False
  show ?thesis using False disconnect_failed [OF assms(1,5) False] partingD [OF assms(1)] by simp
qed

text \<open>A server of two sessions, all disconnecting: session 0 is released and waits for the next connection, or is lost.\<close>

definition sample_parting :: "unit world" where
  "sample_parting = touch (sample_world 2 3 4096 2 ()) 0
     (\<lambda>s. s\<lparr> se_recvOv := OverlappedEx_new 4096, se_disconnectOv := (OverlappedEx_new 4096)\<lparr> ov_ioType := IO_kDisconnect,
        ov_sessionPtr := \<lparr> sptr_pool = True, sptr_handle = mk_handle 0 0 \<rparr> \<rparr> \<rparr>) (\<lambda>n. n) []"

lemma sample_parting_facts:
  "parting sample_parting 0" "accept_ready sample_parting" "w_pendingAccepts sample_parting = 0"
  "in_state (sp_set (w_spool sample_parting)) 0 = {}"
proof -
  have set: "sp_set (w_spool sample_parting) = sample_set 2 3" by (simp add: sample_parting_def) (simp add: sample_world_def)
  show idle: "in_state (sp_set (w_spool sample_parting)) 0 = {}" unfolding set by (auto simp: in_state_def sample_set_def)
  have wf: "swf sample_parting 0" by (simp add: sample_parting_def)
  then show "accept_ready sample_parting" unfolding accept_ready_def idle by (simp add: swf_def) (simp add: sample_parting_def)
  show "w_pendingAccepts sample_parting = 0" by (simp add: sample_parting_def) (simp add: sample_world_def world_new_def)
  have "pool_handle (w_spool sample_parting) 0 = mk_handle 0 0" unfolding set by (simp add: cur_handle_def sample_set_def)
  then show "parting sample_parting 0" using wf unfolding parting_def
    by (simp add: sample_parting_def OverlappedEx_new_def)
qed

theorem WorkerThread_disconnect_completes_witness:
  "\<exists>w1 w2. IocpCore_WorkerThread_round (server_env (\<lambda>_ _. (0, 0)) offline_sqlite 1) False sample_parting
       \<lparr> co_ok = True, co_bytes = 0, co_error = 0, co_target = Some (0, DisconnectOv) \<rparr> = Inr (w1, True) \<and>
     posted w1 0 \<and> w_trace w1 = w_trace sample_parting @ [OS_AcceptEx 0] \<and>
     \<not> SharedPoolPtr_IsValid (session_host sample_env) w1 (w_sessionPtrs sample_parting 0) \<and>
     IocpCore_WorkerThread_round (server_env (\<lambda>_ _. (0, 0)) offline_sqlite 1) False sample_parting
       \<lparr> co_ok = False, co_bytes = 0, co_error = 64, co_target = Some (0, DisconnectOv) \<rparr> = Inr (w2, True) \<and>
     sstate w2 0 = 3 \<and> refs w2 0 = 1"
proof -
  note F = sample_parting_facts
  let ?c = "\<lparr> co_ok = True, co_bytes = 0, co_error = 0, co_target = Some (0, DisconnectOv) \<rparr>"
  let ?d = "\<lparr> co_ok = False, co_bytes = 0, co_error = 64, co_target = Some (0, DisconnectOv) \<rparr>"
  have os: "takes_accepts (server_env (\<lambda>_ _. (0, 0)) offline_sqlite 0 :: unit env)"
    using sample_env_os by (simp add: takes_accepts_def sample_env_def [symmetric])
  have pend: "w_pendingAccepts sample_parting \<le> kMaxAccept" using F(3) by simp
  obtain w1 "is" where w1: "IocpCore_WorkerThread_round (server_env (\<lambda>_ _. (0, 0)) offline_sqlite (Suc 0)) False sample_parting ?c = Inr (w1, True)"
    "\<not> SharedPoolPtr_IsValid (session_host (server_env (\<lambda>_ _. (0, 0)) offline_sqlite (Suc 0))) w1 (w_sessionPtrs sample_parting 0)"
    "set is \<subseteq> insert 0 {}" "\<forall>k \<in> set is. posted w1 k" "length is = min (kMaxAccept - 0) (Suc (card ({} :: nat set)))"
    "w_trace w1 = w_trace sample_parting @ map OS_AcceptEx is"
    using WorkerThread_disconnect_completes [OF F(1,2) pend os, of ?c False] F(3,4) by auto
  have "length is = 1" using w1(5) by (simp add: kMaxAccept_def)
  then have "is = [0]" using w1(3) by (auto simp: length_Suc_conv)
  moreover obtain w2 where "IocpCore_WorkerThread_round (server_env (\<lambda>_ _. (0, 0)) offline_sqlite (Suc 0)) False sample_parting ?d = Inr (w2, True)"
    "sstate w2 0 = 3" "refs w2 0 = 1"
    using WorkerThread_disconnect_completes [OF F(1,2) pend os, of ?d False] by auto
  ultimately show ?thesis using w1 by (simp add: SharedPoolPtr_IsValid_def SparsePool_IsValid_def)
qed

end
