(* ===== verification/WordBits.thy ===== *)
theory WordBits
  imports Prelude
begin

section \<open>Words bit by bit\<close>

text \<open>
  Routines that shuffle bits are compared with their references position by position: the rules
  below split an equality of words into one equality per bit, each of which simplifies to the
  bits of the inputs.
\<close>

lemma upt_8: "[0..<8] = [0, 1, 2, 3, 4, 5, 6, 7]"
  by (simp add: upt_rec)

lemma word8_eqI:
  assumes "list_all (\<lambda>n. bit (x :: u8) n = bit y n) [0, 1, 2, 3, 4, 5, 6, 7]"
  shows "x = y"
  using assms unfolding upt_8 [symmetric] by (intro bit_word_eqI) (simp add: list_all_iff)

lemma upt_16: "[0..<16] = [0, 1, 2, 3, 4, 5, 6, 7, 8, 9, 10, 11, 12, 13, 14, 15]"
  by (simp add: upt_rec)

lemma word16_eqI:
  assumes "list_all (\<lambda>n. bit (x :: u16) n = bit y n) [0, 1, 2, 3, 4, 5, 6, 7, 8, 9, 10, 11, 12, 13, 14, 15]"
  shows "x = y"
  using assms unfolding upt_16 [symmetric] by (intro bit_word_eqI) (simp add: list_all_iff)

lemma upt_32: "[0..<32] = [0, 1, 2, 3, 4, 5, 6, 7, 8, 9, 10, 11, 12, 13, 14, 15, 16, 17, 18, 19, 20, 21, 22, 23, 24, 25, 26, 27, 28, 29, 30, 31]"
  by (simp add: upt_rec)

lemma word32_eqI:
  assumes "list_all (\<lambda>n. bit (x :: u32) n = bit y n) [0, 1, 2, 3, 4, 5, 6, 7, 8, 9, 10, 11, 12, 13, 14, 15, 16, 17, 18, 19, 20, 21, 22, 23, 24, 25, 26, 27, 28, 29, 30, 31]"
  shows "x = y"
  using assms unfolding upt_32 [symmetric] by (intro bit_word_eqI) (simp add: list_all_iff)

lemma upt_64: "[0..<64] = [0, 1, 2, 3, 4, 5, 6, 7, 8, 9, 10, 11, 12, 13, 14, 15, 16, 17, 18, 19, 20, 21, 22, 23, 24, 25, 26, 27, 28, 29, 30, 31, 32, 33, 34, 35, 36, 37, 38, 39, 40, 41, 42, 43, 44, 45, 46, 47, 48, 49, 50, 51, 52, 53, 54, 55, 56, 57, 58, 59, 60, 61, 62, 63]"
  by (simp add: upt_rec)

lemma word64_eqI:
  assumes "list_all (\<lambda>n. bit (x :: u64) n = bit y n) [0, 1, 2, 3, 4, 5, 6, 7, 8, 9, 10, 11, 12, 13, 14, 15, 16, 17, 18, 19, 20, 21, 22, 23, 24, 25, 26, 27, 28, 29, 30, 31, 32, 33, 34, 35, 36, 37, 38, 39, 40, 41, 42, 43, 44, 45, 46, 47, 48, 49, 50, 51, 52, 53, 54, 55, 56, 57, 58, 59, 60, 61, 62, 63]"
  shows "x = y"
  using assms unfolding upt_64 [symmetric] by (intro bit_word_eqI) (simp add: list_all_iff)

lemma word_bit_beyond [simp]:
  "8 \<le> n \<Longrightarrow> \<not> bit (b :: u8) n" "16 \<le> n \<Longrightarrow> \<not> bit (h :: u16) n"
  "32 \<le> n \<Longrightarrow> \<not> bit (x :: u32) n" "64 \<le> n \<Longrightarrow> \<not> bit (v :: u64) n"
  by (auto dest: bit_imp_le_length)

text \<open>Tests of a single bit and of a range of bits.\<close>

lemma and_0x80_eq_0: "(b :: 'a::len word) AND 0x80 = 0 \<longleftrightarrow> \<not> bit b 7"
  using and_exp_eq_0_iff_not_bit [of b 7] by simp

lemma unat_drop_bit: "unat (drop_bit n (v :: 'a::len word)) = unat v div 2 ^ n"
  by (simp only: unat_drop_bit_eq drop_bit_nat_def)

lemma drop_bit_eq_0: "drop_bit n (v :: 'a::len word) = 0 \<longleftrightarrow> unat v < 2 ^ n"
proof -
  have "drop_bit n v = 0 \<longleftrightarrow> unat v div 2 ^ n = 0" by (simp only: unat_drop_bit [symmetric] unat_eq_zero)
  then show ?thesis by (simp add: div_eq_0_iff)
qed

lemma u8_less_0x80: "(b :: u8) < 0x80 \<longleftrightarrow> \<not> bit b 7"
  using drop_bit_eq_zero_iff_not_bit_last [of b] by (simp add: drop_bit_eq_0 word_less_nat_alt)

lemma u64_and_max_u32: "(v :: u64) AND 0xffffffff = v \<longleftrightarrow> v \<le> 0xffffffff"
proof -
  have "0xffffffff = (mask 32 :: u64)" by (simp add: mask_eq_exp_minus_1)
  then have "v AND 0xffffffff = v \<longleftrightarrow> take_bit 32 v = v" by (simp add: take_bit_eq_mask)
  then show ?thesis
    by (simp add: take_bit_eq_self_iff_drop_bit_eq_0 drop_bit_eq_0 word_le_nat_alt) arith
qed

lemma sint_u8_nonneg: "0 \<le> sint (b :: u8) \<longleftrightarrow> \<not> bit b 7"
  by (simp add: sint_uint bit_uint_iff signed_take_bit_nonnegative_iff)

text \<open>Constants as masks.\<close>

lemma byte_masks:
  "(0x7f :: 'a::len word) = mask 7" "(0x3f :: 'a word) = mask 6" "(0x1f :: 'a word) = mask 5"
  "(0xf :: 'a word) = mask 4" "(0xff :: 'a word) = mask 8" "(0xff00 :: 'a word) = push_bit 8 (mask 8)"
  by (simp_all add: mask_eq_exp_minus_1)

end
