(* ===== verification/SqliteBytes.thy ===== *)
theory SqliteBytes
  imports Protocol WordBits
begin

section \<open>Common/sqlite/sqlite3.c: four-byte integers\<close>

text \<open>
  Big endian integers of the database file. With Microsoft's compiler the code loads or stores a
  little endian \<open>u32\<close> with \<open>memcpy\<close> and swaps it with \<open>_byteswap_ulong\<close>; elsewhere it shifts.
\<close>

definition load_u32 :: "bytes \<Rightarrow> u32" where
  "load_u32 p = ucast (p 0) OR push_bit 8 (ucast (p 1)) OR push_bit 16 (ucast (p 2)) OR push_bit 24 (ucast (p 3))"

definition store_u32 :: "bytes \<Rightarrow> u32 \<Rightarrow> bytes" where
  "store_u32 p x = p(0 := ucast x, 1 := ucast (drop_bit 8 x), 2 := ucast (drop_bit 16 x), 3 := ucast (drop_bit 24 x))"

definition byteswap_ulong :: "u32 \<Rightarrow> u32" where
  "byteswap_ulong x = push_bit 24 (x AND 0xff) OR push_bit 8 (x AND 0xff00) OR
     (drop_bit 8 x AND 0xff00) OR drop_bit 24 x"

definition sqlite3Get4byte :: "bytes \<Rightarrow> u32" where
  "sqlite3Get4byte p = (let x = load_u32 p in byteswap_ulong x)"

definition Get4byte_portable :: "bytes \<Rightarrow> u32" where
  "Get4byte_portable p = push_bit 24 (ucast (p 0)) OR push_bit 16 (ucast (p 1)) OR push_bit 8 (ucast (p 2)) OR ucast (p 3)"

definition sqlite3Put4byte :: "bytes \<Rightarrow> u32 \<Rightarrow> bytes" where
  "sqlite3Put4byte p v = (let x = byteswap_ulong v in store_u32 p x)"

definition Put4byte_portable :: "bytes \<Rightarrow> u32 \<Rightarrow> bytes" where
  "Put4byte_portable p v = p(0 := ucast (drop_bit 24 v), 1 := ucast (drop_bit 16 v), 2 := ucast (drop_bit 8 v), 3 := ucast v)"

lemma Get4byte_eq: "sqlite3Get4byte p = Get4byte_portable p"
  by (rule word32_eqI, simp only: list.pred_inject)
    (simp add: sqlite3Get4byte_def Get4byte_portable_def load_u32_def byteswap_ulong_def byte_masks bit_simps)

lemma Put4byte_eq: "sqlite3Put4byte p v = Put4byte_portable p v"
proof -
  have b: "(ucast (byteswap_ulong v) :: u8) = ucast (drop_bit 24 v)"
    "(ucast (drop_bit 8 (byteswap_ulong v)) :: u8) = ucast (drop_bit 16 v)"
    "(ucast (drop_bit 16 (byteswap_ulong v)) :: u8) = ucast (drop_bit 8 v)"
    "(ucast (drop_bit 24 (byteswap_ulong v)) :: u8) = ucast v"
    by (rule word8_eqI, simp only: list.pred_inject, simp add: byteswap_ulong_def byte_masks bit_simps)+
  show ?thesis unfolding sqlite3Put4byte_def Put4byte_portable_def Let_def store_u32_def b ..
qed

text \<open>The byte-swapping and the shifting form of \<open>sqlite3Get4byte\<close> and of
  \<open>sqlite3Put4byte\<close> are the same functions, and reading gives back every value written.\<close>

lemma sqlite3_4byte_equivalent:
  "sqlite3Get4byte p = Get4byte_portable p \<and> sqlite3Put4byte p v = Put4byte_portable p v \<and>
   sqlite3Get4byte (sqlite3Put4byte p v) = v"
proof -
  have "Get4byte_portable (Put4byte_portable p v) = v"
    by (rule word32_eqI, simp only: list.pred_inject) (simp add: Get4byte_portable_def Put4byte_portable_def bit_simps)
  then show ?thesis by (simp add: Get4byte_eq Put4byte_eq)
qed

end
