(* ===== verification/SqliteVarint.thy ===== *)
theory SqliteVarint
  imports SqliteBytes
begin

section \<open>Common/sqlite/sqlite3.c: variable length integers\<close>

text \<open>
  The integers of a database file: \<open>sqlite3PutVarint\<close>, \<open>sqlite3GetVarint\<close>,
  \<open>sqlite3GetVarint32\<close> and \<open>sqlite3VarintLen\<close> of the amalgamation, and the four-byte big
  endian integers. \<open>p\<close> is the memory at the pointer argument; a routine that writes returns
  the memory and the number of bytes, one that reads returns the value and the number of bytes.
\<close>

subsection \<open>Writing\<close>

text \<open>The loop that stores \<open>p[7]\<close> down to \<open>p[0]\<close>, here \<open>p[i - 1]\<close> down to \<open>p[0]\<close>.\<close>

fun put_high :: "nat \<Rightarrow> bytes \<Rightarrow> u64 \<Rightarrow> bytes" where
  "put_high 0 p v = p"
| "put_high (Suc i) p v = put_high i (p(i := ucast ((v AND 0x7f) OR 0x80))) (drop_bit 7 v)"

text \<open>The \<open>do\<close> loop that fills \<open>buf\<close>, least significant group first.\<close>

lemma unat_drop_bit_7: "(v :: u64) \<noteq> 0 \<Longrightarrow> unat (drop_bit 7 v) < unat v"
  by (simp only: unat_drop_bit) (simp add: unat_gt_0)

function varint_buf :: "u64 \<Rightarrow> u8 list" where
  "varint_buf v = ucast ((v AND 0x7f) OR 0x80) # (if drop_bit 7 v \<noteq> 0 then varint_buf (drop_bit 7 v) else [])"
  by auto
termination
  by (relation "measure unat") (auto intro!: unat_drop_bit_7)

definition putVarint64 :: "bytes \<Rightarrow> u64 \<Rightarrow> bytes \<times> nat" where
  "putVarint64 p v =
     (if v AND push_bit 32 0xff000000 \<noteq> 0
      then (put_high 8 (p(8 := ucast v)) (drop_bit 8 v), 9)
      else let buf = varint_buf v; n = length buf; buf = buf[0 := buf ! 0 AND 0x7f] in
        (write_bytes p 0 (rev buf), n))"

definition sqlite3PutVarint :: "bytes \<Rightarrow> u64 \<Rightarrow> bytes \<times> nat" where
  "sqlite3PutVarint p v =
     (if v \<le> 0x7f then (p(0 := ucast (v AND 0x7f)), 1)
      else if v \<le> 0x3fff then
        (p(0 := ucast ((drop_bit 7 v AND 0x7f) OR 0x80), 1 := ucast (v AND 0x7f)), 2)
      else putVarint64 p v)"

subsection \<open>Reading\<close>

definition SLOT_2_0 :: u32 where "SLOT_2_0 = 0x001fc07f"
definition SLOT_4_2_0 :: u32 where "SLOT_4_2_0 = 0xf01fc07f"

definition sqlite3GetVarint :: "bytes \<Rightarrow> u64 \<times> nat" where
  "sqlite3GetVarint p =
     (if sint (p 0) \<ge> 0 then (ucast (p 0), 1)
      else if sint (p 1) \<ge> 0 then (ucast (push_bit 7 (ucast (p 0 AND 0x7f) :: u32) OR ucast (p 1)), 2)
      else let a = push_bit 14 (ucast (p 0) :: u32); b = ucast (p 1) :: u32; a = a OR ucast (p 2) in
      if a AND 0x80 = 0
      then let a = a AND SLOT_2_0; b = b AND 0x7f; b = push_bit 7 b; a = a OR b in (ucast a, 3)
      else let a = a AND SLOT_2_0; b = push_bit 14 b; b = b OR ucast (p 3) in
      if b AND 0x80 = 0
      then let b = b AND SLOT_2_0; a = push_bit 7 a; a = a OR b in (ucast a, 4)
      else let b = b AND SLOT_2_0; s = a; a = push_bit 14 a; a = a OR ucast (p 4) in
      if a AND 0x80 = 0
      then let b = push_bit 7 b; a = a OR b; s = drop_bit 18 s in (push_bit 32 (ucast s) OR ucast a, 5)
      else let s = push_bit 7 s; s = s OR b; b = push_bit 14 b; b = b OR ucast (p 5) in
      if b AND 0x80 = 0
      then let a = a AND SLOT_2_0; a = push_bit 7 a; a = a OR b; s = drop_bit 18 s in
        (push_bit 32 (ucast s) OR ucast a, 6)
      else let a = push_bit 14 a; a = a OR ucast (p 6) in
      if a AND 0x80 = 0
      then let a = a AND SLOT_4_2_0; b = b AND SLOT_2_0; b = push_bit 7 b; a = a OR b; s = drop_bit 11 s in
        (push_bit 32 (ucast s) OR ucast a, 7)
      else let a = a AND SLOT_2_0; b = push_bit 14 b; b = b OR ucast (p 7) in
      if b AND 0x80 = 0
      then let b = b AND SLOT_4_2_0; a = push_bit 7 a; a = a OR b; s = drop_bit 4 s in
        (push_bit 32 (ucast s) OR ucast a, 8)
      else let a = push_bit 15 a; a = a OR ucast (p 8); b = b AND SLOT_2_0; b = push_bit 8 b; a = a OR b;
          s = push_bit 4 s; b = ucast (p 4); b = b AND 0x7f; b = drop_bit 3 b; s = s OR b in
        (push_bit 32 (ucast s) OR ucast a, 9))"

text \<open>The two-byte and three-byte cases are read without the general routine.\<close>

definition sqlite3GetVarint32 :: "bytes \<Rightarrow> u32 \<times> nat" where
  "sqlite3GetVarint32 p =
     (if p 1 AND 0x80 = 0 then (push_bit 7 (ucast (p 0 AND 0x7f)) OR ucast (p 1), 2)
      else if p 2 AND 0x80 = 0
      then (push_bit 14 (ucast (p 0 AND 0x7f)) OR push_bit 7 (ucast (p 1 AND 0x7f)) OR ucast (p 2), 3)
      else let (v64, n) = sqlite3GetVarint p in
        if v64 AND 0xffffffff \<noteq> v64 then (0xffffffff, n) else (ucast v64, n))"

definition getVarint32 :: "bytes \<Rightarrow> u32 \<times> nat" where
  "getVarint32 p = (if p 0 < 0x80 then (ucast (p 0), 1) else sqlite3GetVarint32 p)"

definition putVarint32 :: "bytes \<Rightarrow> u32 \<Rightarrow> bytes \<times> nat" where
  "putVarint32 p v = (if v < 0x80 then (p(0 := ucast v), 1) else sqlite3PutVarint p (ucast v))"

function sqlite3VarintLen :: "u64 \<Rightarrow> nat" where
  "sqlite3VarintLen v = (let v = drop_bit 7 v in if v \<noteq> 0 then sqlite3VarintLen v + 1 else 1)"
  by auto
termination
  by (relation "measure unat") (auto intro!: unat_drop_bit_7)

subsection \<open>Reading as seven-bit groups\<close>

text \<open>The reference: the seven-bit groups of the bytes, most significant first.\<close>

definition be7 :: "u8 list \<Rightarrow> u64" where
  "be7 bs = foldl (\<lambda>v b. push_bit 7 v OR ucast (b AND 0x7f)) 0 bs"

lemma slot_masks:
  "SLOT_2_0 = push_bit 14 (mask 7) OR mask 7"
  "SLOT_4_2_0 = push_bit 28 (mask 4) OR push_bit 14 (mask 7) OR mask 7"
  "(0x7f :: 'a::len word) = mask 7"
  by (simp_all add: SLOT_2_0_def SLOT_4_2_0_def mask_eq_exp_minus_1)

lemmas varint_read = sqlite3GetVarint_def be7_def sint_u8_nonneg and_0x80_eq_0 Let_def bit_simps slot_masks

lemma get_varint_1:
  assumes  "\<not> bit (p 0) 7"
  shows "sqlite3GetVarint p = (be7 [p 0], 1)"
  using assms by (simp add: varint_read) (rule word64_eqI, simp only: list.pred_inject, simp add: bit_simps)

lemma get_varint_2:
  assumes "bit (p 0) 7" "\<not> bit (p 1) 7"
  shows "sqlite3GetVarint p = (be7 [p 0, p 1], 2)"
  using assms by (simp add: varint_read) (rule word64_eqI, simp only: list.pred_inject, simp add: bit_simps)

lemma get_varint_3:
  assumes "bit (p 0) 7" "bit (p 1) 7" "\<not> bit (p 2) 7"
  shows "sqlite3GetVarint p = (be7 [p 0, p 1, p 2], 3)"
  using assms by (simp add: varint_read) (rule word64_eqI, simp only: list.pred_inject, simp add: bit_simps)

lemma get_varint_4:
  assumes "bit (p 0) 7" "bit (p 1) 7" "bit (p 2) 7" "\<not> bit (p 3) 7"
  shows "sqlite3GetVarint p = (be7 [p 0, p 1, p 2, p 3], 4)"
  using assms by (simp add: varint_read) (rule word64_eqI, simp only: list.pred_inject, simp add: bit_simps)

lemma get_varint_5:
  assumes "bit (p 0) 7" "bit (p 1) 7" "bit (p 2) 7" "bit (p 3) 7" "\<not> bit (p 4) 7"
  shows "sqlite3GetVarint p = (be7 [p 0, p 1, p 2, p 3, p 4], 5)"
  using assms by (simp add: varint_read) (rule word64_eqI, simp only: list.pred_inject, simp add: bit_simps)

lemma get_varint_6:
  assumes "bit (p 0) 7" "bit (p 1) 7" "bit (p 2) 7" "bit (p 3) 7" "bit (p 4) 7" "\<not> bit (p 5) 7"
  shows "sqlite3GetVarint p = (be7 [p 0, p 1, p 2, p 3, p 4, p 5], 6)"
  using assms by (simp add: varint_read) (rule word64_eqI, simp only: list.pred_inject, simp add: bit_simps)

lemma get_varint_7:
  assumes "bit (p 0) 7" "bit (p 1) 7" "bit (p 2) 7" "bit (p 3) 7" "bit (p 4) 7" "bit (p 5) 7" "\<not> bit (p 6) 7"
  shows "sqlite3GetVarint p = (be7 [p 0, p 1, p 2, p 3, p 4, p 5, p 6], 7)"
  using assms by (simp add: varint_read) (rule word64_eqI, simp only: list.pred_inject, simp add: bit_simps)

lemma get_varint_8:
  assumes "bit (p 0) 7" "bit (p 1) 7" "bit (p 2) 7" "bit (p 3) 7" "bit (p 4) 7" "bit (p 5) 7" "bit (p 6) 7" "\<not> bit (p 7) 7"
  shows "sqlite3GetVarint p = (be7 [p 0, p 1, p 2, p 3, p 4, p 5, p 6, p 7], 8)"
  using assms by (simp add: varint_read) (rule word64_eqI, simp only: list.pred_inject, simp add: bit_simps)

lemma get_varint_9:
  assumes "bit (p 0) 7" "bit (p 1) 7" "bit (p 2) 7" "bit (p 3) 7" "bit (p 4) 7" "bit (p 5) 7" "bit (p 6) 7" "bit (p 7) 7"
  shows "sqlite3GetVarint p = (push_bit 8 (be7 [p 0, p 1, p 2, p 3, p 4, p 5, p 6, p 7]) OR ucast (p 8), 9)"
  using assms by (simp add: varint_read) (rule word64_eqI, simp only: list.pred_inject, simp add: bit_simps)

subsection \<open>Reading what was written\<close>

lemma be7_snoc: "be7 (bs @ [b]) = push_bit 7 (be7 bs) OR ucast (b AND 0x7f)"
  by (simp add: be7_def)

declare varint_buf.simps [simp del] sqlite3VarintLen.simps [simp del]

lemma varint_buf_ne [simp]: "varint_buf v \<noteq> []"
  by (subst varint_buf.simps) simp

lemma varint_buf_length: "length (varint_buf v) = sqlite3VarintLen v"
  by (induction v rule: varint_buf.induct) (subst varint_buf.simps, subst sqlite3VarintLen.simps, simp add: Let_def)

lemma varint_buf_flag: "b \<in> set (varint_buf v) \<Longrightarrow> bit b 7"
proof (induction v rule: varint_buf.induct)
  case (1 v)
  have "b = ucast ((v AND 0x7f) OR 0x80) \<or> drop_bit 7 v \<noteq> 0 \<and> b \<in> set (varint_buf (drop_bit 7 v))"
    using 1(2) varint_buf.simps [of v] by (auto split: if_splits)
  then show ?case using 1(1) by (auto simp: bit_simps)
qed

lemma group_u64: "push_bit 7 (drop_bit 7 v) OR ucast (ucast ((v AND 0x7f) OR 0x80) AND (0x7f :: u8)) = (v :: u64)"
  by (rule word64_eqI, simp only: list.pred_inject, simp add: bit_simps)

lemma be7_varint_buf: "be7 (rev (varint_buf v)) = v"
proof (induction v rule: varint_buf.induct)
  case (1 v)
  show ?case
  proof (cases "drop_bit 7 v = 0")
    case True
    then show ?thesis using group_u64 [of v] by (subst varint_buf.simps) (simp add: be7_def)
  next
    case False
    then show ?thesis using 1 group_u64 [of v] by (subst varint_buf.simps) (simp add: be7_snoc)
  qed
qed

text \<open>The two clear-flag forms of the last byte.\<close>

lemma be7_last: "be7 (bs @ [b AND 0x7f]) = be7 (bs @ [b])"
  by (simp add: be7_snoc and.assoc)

text \<open>Reading the bytes of a list whose last byte alone has a clear flag.\<close>

definition varint_bytes :: "u8 list \<Rightarrow> bool" where
  "varint_bytes bs \<longleftrightarrow> bs \<noteq> [] \<and> length bs \<le> 8 \<and> (\<forall>i < length bs - 1. bit (bs ! i) 7) \<and> \<not> bit (last bs) 7"

lemma get_varint_bytes:
  assumes bs: "varint_bytes bs" and p: "\<forall>i < length bs. p i = bs ! i"
  shows "sqlite3GetVarint p = (be7 bs, length bs)"
proof -
  let ?n = "length bs"
  have "0 < ?n" "?n \<le> 8" using bs by (auto simp: varint_bytes_def)
  then have n: "?n = 1 \<or> ?n = 2 \<or> ?n = 3 \<or> ?n = 4 \<or> ?n = 5 \<or> ?n = 6 \<or> ?n = 7 \<or> ?n = 8" by arith
  have eq: "bs = map p [0..<?n]" by (rule nth_equalityI) (use p in simp_all)
  have b: "\<And>i. i < ?n - 1 \<Longrightarrow> bit (p i) 7" "\<not> bit (p (?n - 1)) 7"
    using bs p by (auto simp: varint_bytes_def last_conv_nth)
  have c1: ?thesis if n1: "?n = 1"
  proof -
    have "map p [0..<?n] = [p 0]" unfolding n1 by (simp add: upt_rec eval_nat_numeral)
    from trans [OF eq this] have l: "bs = [p 0]" .
    have "sqlite3GetVarint p = (be7 [p 0], 1)"
      by (rule get_varint_1) (use  b(2) n1 in simp_all)
    then show ?thesis by (simp add: l)
  qed
  have c2: ?thesis if n2: "?n = 2"
  proof -
    have "map p [0..<?n] = [p 0, p 1]" unfolding n2 by (simp add: upt_rec eval_nat_numeral)
    from trans [OF eq this] have l: "bs = [p 0, p 1]" .
    have "sqlite3GetVarint p = (be7 [p 0, p 1], 2)"
      by (rule get_varint_2) (use b(1) [of 0] b(2) n2 in simp_all)
    then show ?thesis by (simp add: l)
  qed
  have c3: ?thesis if n3: "?n = 3"
  proof -
    have "map p [0..<?n] = [p 0, p 1, p 2]" unfolding n3 by (simp add: upt_rec eval_nat_numeral)
    from trans [OF eq this] have l: "bs = [p 0, p 1, p 2]" .
    have "sqlite3GetVarint p = (be7 [p 0, p 1, p 2], 3)"
      by (rule get_varint_3) (use b(1) [of 0] b(1) [of 1] b(2) n3 in simp_all)
    then show ?thesis by (simp add: l)
  qed
  have c4: ?thesis if n4: "?n = 4"
  proof -
    have "map p [0..<?n] = [p 0, p 1, p 2, p 3]" unfolding n4 by (simp add: upt_rec eval_nat_numeral)
    from trans [OF eq this] have l: "bs = [p 0, p 1, p 2, p 3]" .
    have "sqlite3GetVarint p = (be7 [p 0, p 1, p 2, p 3], 4)"
      by (rule get_varint_4) (use b(1) [of 0] b(1) [of 1] b(1) [of 2] b(2) n4 in simp_all)
    then show ?thesis by (simp add: l)
  qed
  have c5: ?thesis if n5: "?n = 5"
  proof -
    have "map p [0..<?n] = [p 0, p 1, p 2, p 3, p 4]" unfolding n5 by (simp add: upt_rec eval_nat_numeral)
    from trans [OF eq this] have l: "bs = [p 0, p 1, p 2, p 3, p 4]" .
    have "sqlite3GetVarint p = (be7 [p 0, p 1, p 2, p 3, p 4], 5)"
      by (rule get_varint_5) (use b(1) [of 0] b(1) [of 1] b(1) [of 2] b(1) [of 3] b(2) n5 in simp_all)
    then show ?thesis by (simp add: l)
  qed
  have c6: ?thesis if n6: "?n = 6"
  proof -
    have "map p [0..<?n] = [p 0, p 1, p 2, p 3, p 4, p 5]" unfolding n6 by (simp add: upt_rec eval_nat_numeral)
    from trans [OF eq this] have l: "bs = [p 0, p 1, p 2, p 3, p 4, p 5]" .
    have "sqlite3GetVarint p = (be7 [p 0, p 1, p 2, p 3, p 4, p 5], 6)"
      by (rule get_varint_6) (use b(1) [of 0] b(1) [of 1] b(1) [of 2] b(1) [of 3] b(1) [of 4] b(2) n6 in simp_all)
    then show ?thesis by (simp add: l)
  qed
  have c7: ?thesis if n7: "?n = 7"
  proof -
    have "map p [0..<?n] = [p 0, p 1, p 2, p 3, p 4, p 5, p 6]" unfolding n7 by (simp add: upt_rec eval_nat_numeral)
    from trans [OF eq this] have l: "bs = [p 0, p 1, p 2, p 3, p 4, p 5, p 6]" .
    have "sqlite3GetVarint p = (be7 [p 0, p 1, p 2, p 3, p 4, p 5, p 6], 7)"
      by (rule get_varint_7) (use b(1) [of 0] b(1) [of 1] b(1) [of 2] b(1) [of 3] b(1) [of 4] b(1) [of 5] b(2) n7 in simp_all)
    then show ?thesis by (simp add: l)
  qed
  have c8: ?thesis if n8: "?n = 8"
  proof -
    have "map p [0..<?n] = [p 0, p 1, p 2, p 3, p 4, p 5, p 6, p 7]" unfolding n8 by (simp add: upt_rec eval_nat_numeral)
    from trans [OF eq this] have l: "bs = [p 0, p 1, p 2, p 3, p 4, p 5, p 6, p 7]" .
    have "sqlite3GetVarint p = (be7 [p 0, p 1, p 2, p 3, p 4, p 5, p 6, p 7], 8)"
      by (rule get_varint_8) (use b(1) [of 0] b(1) [of 1] b(1) [of 2] b(1) [of 3] b(1) [of 4] b(1) [of 5] b(1) [of 6] b(2) n8 in simp_all)
    then show ?thesis by (simp add: l)
  qed
  show ?thesis using n c1 c2 c3 c4 c5 c6 c7 c8 by blast
qed

lemma VarintLen_simps:
  "drop_bit 7 v = 0 \<Longrightarrow> sqlite3VarintLen v = 1"
  "drop_bit 7 v \<noteq> 0 \<Longrightarrow> sqlite3VarintLen v = sqlite3VarintLen (drop_bit 7 v) + 1"
  by (subst sqlite3VarintLen.simps, simp add: Let_def)+

lemma VarintLen_le: "unat v < 2 ^ (7 * k) \<Longrightarrow> 0 < k \<Longrightarrow> sqlite3VarintLen v \<le> k"
proof (induction k arbitrary: v)
  case 0
  then show ?case by simp
next
  case (Suc k)
  show ?case
  proof (cases "drop_bit 7 v = 0")
    case True
    then show ?thesis by (subst sqlite3VarintLen.simps) simp
  next
    case False
    have d: "unat (drop_bit 7 v) < 2 ^ (7 * k)" using Suc.prems(1) unfolding unat_drop_bit by (simp add: power_add less_mult_imp_div_less)
    moreover have "0 < k" using d False by (cases k) (simp_all add: unat_eq_zero)
    ultimately have "sqlite3VarintLen (drop_bit 7 v) \<le> k" using Suc.IH by blast
    then show ?thesis using False by (subst sqlite3VarintLen.simps) (simp add: Let_def)
  qed
qed

text \<open>The bytes \<open>sqlite3PutVarint\<close> stores for a value below \<open>2\<^sup>5\<^sup>6\<close>.\<close>

definition varint_list :: "u64 \<Rightarrow> u8 list" where
  "varint_list v = rev ((varint_buf v)[0 := varint_buf v ! 0 AND 0x7f])"

lemma length_varint_list [simp]: "length (varint_list v) = sqlite3VarintLen v"
  by (simp add: varint_list_def varint_buf_length)

lemma varint_list_eq: "varint_list v = rev (tl (varint_buf v)) @ [hd (varint_buf v) AND 0x7f]"
  by (cases "varint_buf v") (simp_all add: varint_list_def)

lemma be7_varint_list: "be7 (varint_list v) = v"
  using be7_varint_buf [of v] by (cases "varint_buf v") (simp_all add: varint_list_eq be7_last)

lemma varint_list_ok:
  assumes "unat v < 2 ^ 56"
  shows "varint_bytes (varint_list v)"
proof -
  have "sqlite3VarintLen v \<le> 8" using VarintLen_le [of v 8] assms by simp
  moreover have "bit (varint_list v ! i) 7" if "i < length (varint_list v) - 1" for i
  proof -
    have "varint_list v ! i \<in> set (rev (tl (varint_buf v)))"
      using that by (simp add: varint_list_eq nth_append del: set_rev)
    then show ?thesis using varint_buf_flag list.set_sel(2) [OF varint_buf_ne] by auto
  qed
  moreover have "\<not> bit (last (varint_list v)) 7" by (simp add: varint_list_eq bit_simps slot_masks(3))
  moreover have "varint_list v \<noteq> []" by (simp add: varint_list_eq)
  ultimately show ?thesis by (simp add: varint_bytes_def)
qed

lemma top_byte: "v AND push_bit 32 0xff000000 = (0 :: u64) \<longleftrightarrow> unat v < 2 ^ 56"
proof -
  have m: "push_bit 32 0xff000000 = push_bit 56 (mask 8 :: u64)" by (simp add: mask_eq_exp_minus_1)
  have "v AND push_bit 56 (mask 8) = push_bit 56 (drop_bit 56 v)"
    by (rule bit_word_eqI) (auto simp: bit_simps)
  moreover have "drop_bit 56 v = drop_bit 56 (v AND push_bit 56 (mask 8))"
    by (rule bit_word_eqI) (auto simp: bit_simps dest: bit_imp_le_length)
  ultimately have "v AND push_bit 56 (mask 8) = 0 \<longleftrightarrow> drop_bit 56 v = 0" by (metis push_bit_of_0 drop_bit_of_0)
  also have "\<dots> \<longleftrightarrow> unat v < 2 ^ 56" by (rule drop_bit_eq_0)
  finally show ?thesis unfolding m .
qed

lemma VarintLen_gt: "2 ^ (7 * k) \<le> unat v \<Longrightarrow> k < sqlite3VarintLen v"
proof (induction k arbitrary: v)
  case 0
  then show ?case by (subst sqlite3VarintLen.simps) (simp add: Let_def)
next
  case (Suc k)
  have "128 * 2 ^ (7 * k) \<le> unat v" using Suc.prems by (simp add: power_add)
  then have d: "2 ^ (7 * k) \<le> unat (drop_bit 7 v)" unfolding unat_drop_bit by (simp add: less_eq_div_iff_mult_less_eq)
  then have "drop_bit 7 v \<noteq> 0" by (metis unat_0 le_zero_eq power_not_zero zero_neq_numeral)
  then show ?case using Suc.IH [OF d] by (simp add: VarintLen_simps)
qed

lemma drop_bit_7_zero: "drop_bit 7 v = (0 :: u64) \<longleftrightarrow> v \<le> 0x7f"
  by (simp add: drop_bit_eq_0 word_le_nat_alt) arith

lemma PutVarint_short:
  assumes "unat v < 2 ^ 56"
  shows "sqlite3PutVarint p v = (write_bytes p 0 (varint_list v), sqlite3VarintLen v)"
proof -
  have w1: "write_bytes p 0 [a] = p(0 := a)" for a by (auto simp: write_bytes_def)
  have w2: "write_bytes p 0 [a, b] = p(0 := a, 1 := b)" for a b
    by (rule ext) (auto simp: write_bytes_def nth_Cons')
  have m: "ucast ((v AND 0x7f) OR 0x80) AND (0x7f :: u8) = ucast (v AND 0x7f)" for v :: u64
    by (rule bit_word_eqI) (auto simp: bit_simps slot_masks(3) less_Suc_eq numeral_eq_Suc)
  consider "v \<le> 0x7f" | "0x7f < v" "v \<le> 0x3fff" | "0x3fff < v" by fastforce
  then show ?thesis
  proof cases
    case 1
    then have "drop_bit 7 v = 0" by (simp add: drop_bit_7_zero)
    then show ?thesis using 1
      by (simp add: sqlite3PutVarint_def varint_list_def varint_buf.simps VarintLen_simps w1 m)
  next
    case 2
    have "drop_bit 7 (drop_bit 7 v) = 0" using 2 by (simp add: drop_bit_eq_0 word_le_nat_alt)
    moreover have "drop_bit 7 v \<noteq> 0" using 2 by (auto simp: drop_bit_7_zero)
    ultimately
    show ?thesis using 2
      by (subst varint_list_def, subst (1 2) varint_buf.simps, subst (1 2) varint_buf.simps)
        (simp add: sqlite3PutVarint_def VarintLen_simps w2 m)
  next
    case 3
    then have "\<not> v \<le> 0x7f" "\<not> v \<le> 0x3fff" by (auto simp: word_le_nat_alt word_less_nat_alt)
    then show ?thesis using assms top_byte [of v]
      by (simp add: sqlite3PutVarint_def putVarint64_def varint_list_def varint_buf_length Let_def)
  qed
qed

lemma put_high_eq:
  "put_high n p v i = (if i < n then ucast ((drop_bit (7 * (n - 1 - i)) v AND 0x7f) OR 0x80) else p i)"
proof (induction n arbitrary: p v)
  case 0
  then show ?case by simp
next
  case (Suc n)
  have "7 * (n - i) = 7 * (n - 1 - i) + 7" if "i < n" using that by simp
  then show ?case unfolding put_high.simps Suc.IH by (auto simp del: fun_upd_apply simp: less_Suc_eq) simp_all
qed

lemma PutVarint_long:
  assumes "\<not> unat v < 2 ^ 56"
  shows "sqlite3PutVarint p v = (put_high 8 (p(8 := ucast v)) (drop_bit 8 v), 9)"
  using assms top_byte [of v] by (auto simp: sqlite3PutVarint_def putVarint64_def word_le_nat_alt)

lemma PutVarint_long_read:
  "sqlite3GetVarint (put_high 8 (p(8 := ucast v)) (drop_bit 8 v)) = (v, 9)"
proof -
  let ?p = "put_high 8 (p(8 := ucast v)) (drop_bit 8 v)"
  have "sqlite3GetVarint ?p = (push_bit 8 (be7 [?p 0, ?p 1, ?p 2, ?p 3, ?p 4, ?p 5, ?p 6, ?p 7]) OR ucast (?p 8), 9)"
    by (rule get_varint_9) (simp_all add: put_high_eq bit_simps)
  also have "push_bit 8 (be7 [?p 0, ?p 1, ?p 2, ?p 3, ?p 4, ?p 5, ?p 6, ?p 7]) OR ucast (?p 8) = v"
    by (rule word64_eqI, simp only: list.pred_inject, simp add: put_high_eq be7_def bit_simps slot_masks(3))
  finally show ?thesis .
qed

text \<open>C26: \<open>sqlite3GetVarint\<close> reads back every 64-bit value \<open>sqlite3PutVarint\<close> writes and the same
  number of bytes, between 1 and 9, and the bytes behind them are untouched; except for values
  of \<open>2\<^sup>6\<^sup>3\<close> and more, \<open>sqlite3VarintLen\<close> gives that number.\<close>

theorem sqlite3_varint_roundtrip:
  "\<exists>p' n. sqlite3PutVarint p v = (p', n) \<and> sqlite3GetVarint p' = (v, n) \<and> 1 \<le> n \<and> n \<le> 9 \<and>
     (\<forall>i \<ge> n. p' i = p i) \<and> (unat v < 2 ^ 63 \<longrightarrow> n = sqlite3VarintLen v)"
proof (cases "unat v < 2 ^ 56")
  case True
  let ?p = "write_bytes p 0 (varint_list v)" and ?n = "sqlite3VarintLen v"
  have "sqlite3GetVarint ?p = (be7 (varint_list v), length (varint_list v))"
    by (rule get_varint_bytes [OF varint_list_ok [OF True]]) (simp add: write_bytes_def)
  moreover have "?n \<le> 8" using VarintLen_le [of v 8] True by simp
  moreover have "1 \<le> ?n" by (subst sqlite3VarintLen.simps) (simp add: Let_def)
  ultimately show ?thesis
    by (simp add: PutVarint_short [OF True] be7_varint_list) (simp add: write_bytes_def)
next
  case False
  have "sqlite3VarintLen v = 9" if "unat v < 2 ^ 63"
  proof (rule antisym)
    show "sqlite3VarintLen v \<le> 9" using VarintLen_le [of v 9] that by simp
    show "9 \<le> sqlite3VarintLen v" using VarintLen_gt [of 8 v] False by simp
  qed
  then show ?thesis
    by (simp add: PutVarint_long [OF False] PutVarint_long_read) (simp add: put_high_eq)
qed

theorem sqlite3_varint_roundtrip_witness:
  "\<exists>p' n. sqlite3PutVarint (\<lambda>_. 0) 300 = (p', n) \<and> sqlite3GetVarint p' = (300, n) \<and> n = sqlite3VarintLen 300"
  using sqlite3_varint_roundtrip [of "\<lambda>_. 0" 300] by force

subsection \<open>The 32-bit reader\<close>

lemma max_u32_mask: "(0xffffffff :: u64) = mask 32"
  by (simp add: mask_eq_exp_minus_1)

lemmas be7_u32_simps = be7_def bit_simps slot_masks(3) max_u32_mask

text \<open>C27: \<open>getVarint32\<close> reads what \<open>sqlite3GetVarint\<close> reads, with every value that does not
  fit 32 bits replaced by \<open>0xffffffff\<close>, and consumes the same bytes.\<close>

theorem getVarint32_correct:
  "getVarint32 p = (case sqlite3GetVarint p of (v, n) \<Rightarrow> (if v \<le> 0xffffffff then ucast v else 0xffffffff, n))"
proof -
  consider "\<not> bit (p 0) 7" | "bit (p 0) 7" "\<not> bit (p 1) 7" | "bit (p 0) 7" "bit (p 1) 7" "\<not> bit (p 2) 7" |
    "bit (p 0) 7" "bit (p 1) 7" "bit (p 2) 7" by blast
  then show ?thesis
  proof cases
    case 1
    have "be7 [p 0] AND 0xffffffff = be7 [p 0]" by (rule word64_eqI, simp only: list.pred_inject, simp add: be7_u32_simps)
    moreover have "ucast (p 0) = (ucast (be7 [p 0]) :: u32)"
      by (rule word32_eqI, simp only: list.pred_inject, simp add: be7_u32_simps 1)
    ultimately show ?thesis using 1
      by (simp add: get_varint_1 u64_and_max_u32 getVarint32_def u8_less_0x80)
  next
    case 2
    have "be7 [p 0, p 1] AND 0xffffffff = be7 [p 0, p 1]" by (rule word64_eqI, simp only: list.pred_inject, simp add: be7_u32_simps)
    moreover have "push_bit 7 (ucast (p 0 AND 0x7f)) OR ucast (p 1) = (ucast (be7 [p 0, p 1]) :: u32)"
      by (rule word32_eqI, simp only: list.pred_inject, use 2 in \<open>simp add: be7_u32_simps\<close>)
    ultimately show ?thesis using 2
      by (simp add: get_varint_2 u64_and_max_u32 getVarint32_def sqlite3GetVarint32_def u8_less_0x80 and_0x80_eq_0)
  next
    case 3
    have "be7 [p 0, p 1, p 2] AND 0xffffffff = be7 [p 0, p 1, p 2]" by (rule word64_eqI, simp only: list.pred_inject, simp add: be7_u32_simps)
    moreover have "push_bit 14 (ucast (p 0 AND 0x7f)) OR push_bit 7 (ucast (p 1 AND 0x7f)) OR ucast (p 2) = (ucast (be7 [p 0, p 1, p 2]) :: u32)"
      by (rule word32_eqI, simp only: list.pred_inject, use 3 in \<open>simp add: be7_u32_simps\<close>)
    ultimately show ?thesis using 3
      by (simp add: get_varint_3 u64_and_max_u32 getVarint32_def sqlite3GetVarint32_def u8_less_0x80 and_0x80_eq_0)
  next
    case 4
    then show ?thesis
      by (cases "sqlite3GetVarint p")
        (simp add: getVarint32_def sqlite3GetVarint32_def u8_less_0x80 and_0x80_eq_0 u64_and_max_u32)
  qed
qed

end
