(* ===== verification/SqliteChars.thy ===== *)
theory SqliteChars
  imports WordBits
begin

section \<open>Common/sqlite/sqlite3.c: characters and strings\<close>

text \<open>
  The character tables of \<open>global.c\<close>, the comparison and hashing of names that ignores case, and
  the reading of hexadecimal digits and quoted names of \<open>util.c\<close>. A zero-terminated string is
  the list of its bytes: \<open>at z i\<close> is \<open>z[i]\<close>, zero at the end.
\<close>

subsection \<open>The tables\<close>

text \<open>\<open>sqlite3UpperToLower\<close> with the 18 results of comparison operators behind it, for ASCII.\<close>

definition sqlite3UpperToLower :: "nat list" where
  "sqlite3UpperToLower =
   [0, 1, 2, 3, 4, 5, 6, 7, 8, 9, 10, 11, 12, 13, 14, 15,
    16, 17, 18, 19, 20, 21, 22, 23, 24, 25, 26, 27, 28, 29, 30, 31,
    32, 33, 34, 35, 36, 37, 38, 39, 40, 41, 42, 43, 44, 45, 46, 47,
    48, 49, 50, 51, 52, 53, 54, 55, 56, 57, 58, 59, 60, 61, 62, 63,
    64, 97, 98, 99, 100, 101, 102, 103, 104, 105, 106, 107, 108, 109, 110, 111,
    112, 113, 114, 115, 116, 117, 118, 119, 120, 121, 122, 91, 92, 93, 94, 95,
    96, 97, 98, 99, 100, 101, 102, 103, 104, 105, 106, 107, 108, 109, 110, 111,
    112, 113, 114, 115, 116, 117, 118, 119, 120, 121, 122, 123, 124, 125, 126, 127,
    128, 129, 130, 131, 132, 133, 134, 135, 136, 137, 138, 139, 140, 141, 142, 143,
    144, 145, 146, 147, 148, 149, 150, 151, 152, 153, 154, 155, 156, 157, 158, 159,
    160, 161, 162, 163, 164, 165, 166, 167, 168, 169, 170, 171, 172, 173, 174, 175,
    176, 177, 178, 179, 180, 181, 182, 183, 184, 185, 186, 187, 188, 189, 190, 191,
    192, 193, 194, 195, 196, 197, 198, 199, 200, 201, 202, 203, 204, 205, 206, 207,
    208, 209, 210, 211, 212, 213, 214, 215, 216, 217, 218, 219, 220, 221, 222, 223,
    224, 225, 226, 227, 228, 229, 230, 231, 232, 233, 234, 235, 236, 237, 238, 239,
    240, 241, 242, 243, 244, 245, 246, 247, 248, 249, 250, 251, 252, 253, 254, 255,
    1, 0, 0, 1, 1, 0,
    0, 1, 0, 1, 0, 1,
    1, 0, 1, 0, 0, 1]"

definition sqlite3CtypeMap :: "nat list" where
  "sqlite3CtypeMap =
   [0x00, 0x00, 0x00, 0x00, 0x00, 0x00, 0x00, 0x00,
    0x00, 0x01, 0x01, 0x01, 0x01, 0x01, 0x00, 0x00,
    0x00, 0x00, 0x00, 0x00, 0x00, 0x00, 0x00, 0x00,
    0x00, 0x00, 0x00, 0x00, 0x00, 0x00, 0x00, 0x00,
    0x01, 0x00, 0x80, 0x00, 0x40, 0x00, 0x00, 0x80,
    0x00, 0x00, 0x00, 0x00, 0x00, 0x00, 0x00, 0x00,
    0x0c, 0x0c, 0x0c, 0x0c, 0x0c, 0x0c, 0x0c, 0x0c,
    0x0c, 0x0c, 0x00, 0x00, 0x00, 0x00, 0x00, 0x00,
    0x00, 0x0a, 0x0a, 0x0a, 0x0a, 0x0a, 0x0a, 0x02,
    0x02, 0x02, 0x02, 0x02, 0x02, 0x02, 0x02, 0x02,
    0x02, 0x02, 0x02, 0x02, 0x02, 0x02, 0x02, 0x02,
    0x02, 0x02, 0x02, 0x80, 0x00, 0x00, 0x00, 0x40,
    0x80, 0x2a, 0x2a, 0x2a, 0x2a, 0x2a, 0x2a, 0x22,
    0x22, 0x22, 0x22, 0x22, 0x22, 0x22, 0x22, 0x22,
    0x22, 0x22, 0x22, 0x22, 0x22, 0x22, 0x22, 0x22,
    0x22, 0x22, 0x22, 0x00, 0x00, 0x00, 0x00, 0x00,
    0x40, 0x40, 0x40, 0x40, 0x40, 0x40, 0x40, 0x40,
    0x40, 0x40, 0x40, 0x40, 0x40, 0x40, 0x40, 0x40,
    0x40, 0x40, 0x40, 0x40, 0x40, 0x40, 0x40, 0x40,
    0x40, 0x40, 0x40, 0x40, 0x40, 0x40, 0x40, 0x40,
    0x40, 0x40, 0x40, 0x40, 0x40, 0x40, 0x40, 0x40,
    0x40, 0x40, 0x40, 0x40, 0x40, 0x40, 0x40, 0x40,
    0x40, 0x40, 0x40, 0x40, 0x40, 0x40, 0x40, 0x40,
    0x40, 0x40, 0x40, 0x40, 0x40, 0x40, 0x40, 0x40,
    0x40, 0x40, 0x40, 0x40, 0x40, 0x40, 0x40, 0x40,
    0x40, 0x40, 0x40, 0x40, 0x40, 0x40, 0x40, 0x40,
    0x40, 0x40, 0x40, 0x40, 0x40, 0x40, 0x40, 0x40,
    0x40, 0x40, 0x40, 0x40, 0x40, 0x40, 0x40, 0x40,
    0x40, 0x40, 0x40, 0x40, 0x40, 0x40, 0x40, 0x40,
    0x40, 0x40, 0x40, 0x40, 0x40, 0x40, 0x40, 0x40,
    0x40, 0x40, 0x40, 0x40, 0x40, 0x40, 0x40, 0x40,
    0x40, 0x40, 0x40, 0x40, 0x40, 0x40, 0x40, 0x40]"

definition UpperToLower :: "u8 \<Rightarrow> nat" where
  "UpperToLower c = sqlite3UpperToLower ! unat c"

definition ctype :: "u8 \<Rightarrow> nat \<Rightarrow> bool" where
  "ctype c m \<longleftrightarrow> sqlite3CtypeMap ! unat c AND m \<noteq> 0"

definition sqlite3Isspace :: "u8 \<Rightarrow> bool" where "sqlite3Isspace c = ctype c 0x01"
definition sqlite3Isalpha :: "u8 \<Rightarrow> bool" where "sqlite3Isalpha c = ctype c 0x02"
definition sqlite3Isdigit :: "u8 \<Rightarrow> bool" where "sqlite3Isdigit c = ctype c 0x04"
definition sqlite3Isalnum :: "u8 \<Rightarrow> bool" where "sqlite3Isalnum c = ctype c 0x06"
definition sqlite3Isxdigit :: "u8 \<Rightarrow> bool" where "sqlite3Isxdigit c = ctype c 0x08"
definition sqlite3Isquote :: "u8 \<Rightarrow> bool" where "sqlite3Isquote c = ctype c 0x80"
definition IdChar :: "u8 \<Rightarrow> bool" where "IdChar c = ctype c 0x46"

lemma table_length: "length sqlite3CtypeMap = 256"
  by (simp add: sqlite3CtypeMap_def)

lemma upt_256: "[0..<256] = [0, 1, 2, 3, 4, 5, 6, 7, 8, 9, 10, 11, 12, 13, 14, 15, 16, 17, 18, 19, 20, 21, 22, 23, 24, 25, 26, 27, 28, 29, 30, 31, 32, 33, 34, 35, 36, 37, 38, 39, 40, 41, 42, 43, 44, 45, 46, 47, 48, 49, 50, 51, 52, 53, 54, 55, 56, 57, 58, 59, 60, 61, 62, 63, 64, 65, 66, 67, 68, 69, 70, 71, 72, 73, 74, 75, 76, 77, 78, 79, 80, 81, 82, 83, 84, 85, 86, 87, 88, 89, 90, 91, 92, 93, 94, 95, 96, 97, 98, 99, 100, 101, 102, 103, 104, 105, 106, 107, 108, 109, 110, 111, 112, 113, 114, 115, 116, 117, 118, 119, 120, 121, 122, 123, 124, 125, 126, 127, 128, 129, 130, 131, 132, 133, 134, 135, 136, 137, 138, 139, 140, 141, 142, 143, 144, 145, 146, 147, 148, 149, 150, 151, 152, 153, 154, 155, 156, 157, 158, 159, 160, 161, 162, 163, 164, 165, 166, 167, 168, 169, 170, 171, 172, 173, 174, 175, 176, 177, 178, 179, 180, 181, 182, 183, 184, 185, 186, 187, 188, 189, 190, 191, 192, 193, 194, 195, 196, 197, 198, 199, 200, 201, 202, 203, 204, 205, 206, 207, 208, 209, 210, 211, 212, 213, 214, 215, 216, 217, 218, 219, 220, 221, 222, 223, 224, 225, 226, 227, 228, 229, 230, 231, 232, 233, 234, 235, 236, 237, 238, 239, 240, 241, 242, 243, 244, 245, 246, 247, 248, 249, 250, 251, 252, 253, 254, 255]"
  by (simp add: upt_rec)

lemma lower_table: "take 256 sqlite3UpperToLower = map (\<lambda>c. if 65 \<le> c \<and> c \<le> 90 then c + 32 else c) [0..<256]"
  unfolding upt_256 by (simp add: sqlite3UpperToLower_def)

lemma space_table: "map (\<lambda>m. m AND 0x01 \<noteq> 0) sqlite3CtypeMap = map (\<lambda>c. 9 \<le> c \<and> c \<le> 13 \<or> c = 32) [0..<256]"
  unfolding upt_256 by (simp add: sqlite3CtypeMap_def)

lemma alpha_table: "map (\<lambda>m. m AND 0x02 \<noteq> 0) sqlite3CtypeMap = map (\<lambda>c. 65 \<le> c \<and> c \<le> 90 \<or> 97 \<le> c \<and> c \<le> 122) [0..<256]"
  unfolding upt_256 by (simp add: sqlite3CtypeMap_def)

lemma digit_table: "map (\<lambda>m. m AND 0x04 \<noteq> 0) sqlite3CtypeMap = map (\<lambda>c. 48 \<le> c \<and> c \<le> 57) [0..<256]"
  unfolding upt_256 by (simp add: sqlite3CtypeMap_def)

lemma alnum_table: "map (\<lambda>m. m AND 0x06 \<noteq> 0) sqlite3CtypeMap = map (\<lambda>c. 48 \<le> c \<and> c \<le> 57 \<or> 65 \<le> c \<and> c \<le> 90 \<or> 97 \<le> c \<and> c \<le> 122) [0..<256]"
  unfolding upt_256 by (simp add: sqlite3CtypeMap_def)

lemma xdigit_table: "map (\<lambda>m. m AND 0x08 \<noteq> 0) sqlite3CtypeMap = map (\<lambda>c. 48 \<le> c \<and> c \<le> 57 \<or> 65 \<le> c \<and> c \<le> 70 \<or> 97 \<le> c \<and> c \<le> 102) [0..<256]"
  unfolding upt_256 by (simp add: sqlite3CtypeMap_def)

lemma quote_table: "map (\<lambda>m. m AND 0x80 \<noteq> 0) sqlite3CtypeMap = map (\<lambda>c. c = 34 \<or> c = 39 \<or> c = 91 \<or> c = 96) [0..<256]"
  unfolding upt_256 by (simp add: sqlite3CtypeMap_def)

lemma id_table: "map (\<lambda>m. m AND 0x46 \<noteq> 0) sqlite3CtypeMap = map (\<lambda>c. c = 36 \<or> 48 \<le> c \<and> c \<le> 57 \<or> 65 \<le> c \<and> c \<le> 90 \<or> c = 95 \<or> 97 \<le> c \<and> c \<le> 122 \<or> 128 \<le> c) [0..<256]"
  unfolding upt_256 by (simp add: sqlite3CtypeMap_def)

lemma u8_bound [simp]: "unat (c :: u8) < 256"
  using unsigned_less [of c] by simp

lemma ctype_from_table:
  assumes "map (\<lambda>m. m AND b \<noteq> 0) sqlite3CtypeMap = map P [0..<256]"
  shows "ctype c b = P (unat c)"
proof -
  have "map (\<lambda>m. m AND b \<noteq> 0) sqlite3CtypeMap ! unat c = map P [0..<256] ! unat c" by (simp only: assms)
  then show ?thesis by (simp add: table_length ctype_def)
qed

text \<open>What the tables say.\<close>

lemma char_classes:
  "sqlite3Isspace x \<longleftrightarrow> (let c = unat x in 9 \<le> c \<and> c \<le> 13 \<or> c = 32)"
  "sqlite3Isalpha x \<longleftrightarrow> (let c = unat x in 65 \<le> c \<and> c \<le> 90 \<or> 97 \<le> c \<and> c \<le> 122)"
  "sqlite3Isdigit x \<longleftrightarrow> (let c = unat x in 48 \<le> c \<and> c \<le> 57)"
  "sqlite3Isalnum x \<longleftrightarrow> (let c = unat x in 48 \<le> c \<and> c \<le> 57 \<or> 65 \<le> c \<and> c \<le> 90 \<or> 97 \<le> c \<and> c \<le> 122)"
  "sqlite3Isxdigit x \<longleftrightarrow> (let c = unat x in 48 \<le> c \<and> c \<le> 57 \<or> 65 \<le> c \<and> c \<le> 70 \<or> 97 \<le> c \<and> c \<le> 102)"
  "sqlite3Isquote x \<longleftrightarrow> (let c = unat x in c = 34 \<or> c = 39 \<or> c = 91 \<or> c = 96)"
  "IdChar x \<longleftrightarrow> (let c = unat x in c = 36 \<or> 48 \<le> c \<and> c \<le> 57 \<or> 65 \<le> c \<and> c \<le> 90 \<or> c = 95 \<or> 97 \<le> c \<and> c \<le> 122 \<or> 128 \<le> c)"
  by (simp_all only: sqlite3Isspace_def sqlite3Isalpha_def sqlite3Isdigit_def sqlite3Isalnum_def sqlite3Isxdigit_def
      sqlite3Isquote_def IdChar_def Let_def ctype_from_table [OF space_table] ctype_from_table [OF alpha_table]
      ctype_from_table [OF digit_table] ctype_from_table [OF alnum_table] ctype_from_table [OF xdigit_table]
      ctype_from_table [OF quote_table] ctype_from_table [OF id_table])

lemma UpperToLower_eq: "UpperToLower x = (let c = unat x in if 65 \<le> c \<and> c \<le> 90 then c + 32 else c)"
proof -
  have "UpperToLower x = take 256 sqlite3UpperToLower ! unat x" by (simp add: UpperToLower_def)
  then show ?thesis by (simp add: lower_table Let_def)
qed

end
