(* ===== verification/SqliteStrings.thy ===== *)
theory SqliteStrings
  imports SqliteChars
begin

section \<open>Common/sqlite/sqlite3.c: names without case, quotes and hexadecimal text\<close>

text \<open>
  Zero-terminated strings are the lists of their bytes; \<open>at z i\<close> is \<open>z[i]\<close>, which is zero at the
  end of the list. A zero inside the list ends the string for the code as well.
\<close>

definition at :: "u8 list \<Rightarrow> nat \<Rightarrow> u8" where
  "at z i = (if i < length z then z ! i else 0)"

lemma at_simps [simp]: "at [] i = 0" "at (c # z) 0 = c" "at (c # z) (Suc i) = at z i"
  by (simp_all add: at_def)

text \<open>The text encodings.\<close>

datatype encoding = SQLITE_UTF8 | SQLITE_UTF16LE | SQLITE_UTF16BE

subsection \<open>Comparison\<close>

function sqlite3StrICmp :: "u8 list \<Rightarrow> u8 list \<Rightarrow> int" where
  "sqlite3StrICmp a b =
     (let c = at a 0; x = at b 0 in
      if c = x then (if c = 0 then 0 else sqlite3StrICmp (tl a) (tl b))
      else let d = int (UpperToLower c) - int (UpperToLower x) in
        if d \<noteq> 0 then d else sqlite3StrICmp (tl a) (tl b))"
  by auto
termination
  by (relation "measure (\<lambda>(a, b). length a + length b)") (auto simp: at_def neq_Nil_conv split: if_splits)

definition sqlite3_stricmp :: "u8 list option \<Rightarrow> u8 list option \<Rightarrow> int" where
  "sqlite3_stricmp zLeft zRight =
     (case (zLeft, zRight) of
        (None, None) \<Rightarrow> 0 | (None, Some _) \<Rightarrow> -1 | (Some _, None) \<Rightarrow> 1
      | (Some a, Some b) \<Rightarrow> sqlite3StrICmp a b)"

function strnicmp_loop :: "u8 list \<Rightarrow> u8 list \<Rightarrow> int \<Rightarrow> int" where
  "strnicmp_loop a b N =
     (if N > 0 \<and> at a 0 \<noteq> 0 \<and> UpperToLower (at a 0) = UpperToLower (at b 0)
      then strnicmp_loop (tl a) (tl b) (N - 1)
      else if N - 1 < 0 then 0 else int (UpperToLower (at a 0)) - int (UpperToLower (at b 0)))"
  by auto
termination
  by (relation "measure (\<lambda>(a, b, N). nat N)") auto

definition sqlite3_strnicmp :: "u8 list option \<Rightarrow> u8 list option \<Rightarrow> int \<Rightarrow> int" where
  "sqlite3_strnicmp zLeft zRight N =
     (case (zLeft, zRight) of
        (None, None) \<Rightarrow> 0 | (None, Some _) \<Rightarrow> -1 | (Some _, None) \<Rightarrow> 1
      | (Some a, Some b) \<Rightarrow> strnicmp_loop a b N)"

fun strihash_loop :: "u8 \<Rightarrow> u8 list \<Rightarrow> u8" where
  "strihash_loop h z = (case z of [] \<Rightarrow> h
     | c # z \<Rightarrow> if c = 0 then h else strihash_loop (h + of_nat (UpperToLower c)) z)"

definition sqlite3StrIHash :: "u8 list option \<Rightarrow> u8" where
  "sqlite3StrIHash z = (case z of None \<Rightarrow> 0 | Some z \<Rightarrow> strihash_loop 0 z)"

subsection \<open>Hexadecimal digits\<close>

definition sqlite3HexToInt :: "u8 \<Rightarrow> u8" where
  "sqlite3HexToInt c = (let h = unat c; h = h + 9 * (1 AND drop_bit 6 h) in of_nat (h AND 0xf))"

text \<open>\<open>ok\<close> says whether the memory for the blob could be had; \<open>n\<close> counts the closing quote.\<close>

function hex_loop :: "u8 list \<Rightarrow> nat \<Rightarrow> nat \<Rightarrow> u8 list" where
  "hex_loop z i n =
     (if i < n then (push_bit 4 (sqlite3HexToInt (at z i)) OR sqlite3HexToInt (at z (i + 1))) # hex_loop z (i + 2) n
      else [0])"
  by auto
termination
  by (relation "measure (\<lambda>(z, i, n). n - i)") auto

definition sqlite3HexToBlob :: "bool \<Rightarrow> u8 list \<Rightarrow> nat \<Rightarrow> u8 list option" where
  "sqlite3HexToBlob ok z n = (if ok then Some (hex_loop z 0 (n - 1)) else None)"

subsection \<open>Quoted names\<close>

text \<open>
  The loop of \<open>sqlite3Dequote\<close> from \<open>z[i]\<close> on; it stores behind the position it reads, so that
  what it reads is the original text. \<open>assert( z[i] )\<close> fails at the end of the text.
\<close>

fun dequote_loop :: "u8 \<Rightarrow> u8 list \<Rightarrow> u8 list res" where
  "dequote_loop quote [] = Inl AssertFailed"
| "dequote_loop quote (c # z) =
     (if c = 0 then Inl AssertFailed
      else if c = quote
      then (case z of
              [] \<Rightarrow> Inr []
            | d # z' \<Rightarrow> if d = quote then andThen (dequote_loop quote z') (\<lambda>out. Inr (quote # out)) else Inr [])
      else andThen (dequote_loop quote z) (\<lambda>out. Inr (c # out)))"

definition sqlite3Dequote :: "u8 list option \<Rightarrow> u8 list option res" where
  "sqlite3Dequote z =
     (case z of None \<Rightarrow> Inr None
      | Some z \<Rightarrow>
          let quote = at z 0 in
          if \<not> sqlite3Isquote quote then Inr (Some z)
          else let quote = (if quote = 91 then 93 else quote) in
            andThen (dequote_loop quote (tl z)) (\<lambda>out. Inr (Some out)))"

text \<open>A token is the text it points to and its length.\<close>

definition sqlite3DequoteToken :: "u8 list \<times> nat \<Rightarrow> u8 list \<times> nat" where
  "sqlite3DequoteToken p =
     (let (z, n) = p in
      if n < 2 then p
      else if \<not> sqlite3Isquote (at z 0) then p
      else if \<exists>i \<in> set [1..<n - 1]. sqlite3Isquote (at z i) then p
      else (tl z, n - 2))"

subsection \<open>Comparison as a lexicographic order\<close>

text \<open>The text of a string, and its difference to another at the first place where they differ.\<close>

definition cbody :: "u8 list \<Rightarrow> u8 list" where
  "cbody z = takeWhile (\<lambda>c. c \<noteq> 0) z"

definition lowered :: "u8 list \<Rightarrow> nat list" where
  "lowered z = map UpperToLower (cbody z)"

fun first_difference :: "nat list \<Rightarrow> nat list \<Rightarrow> int" where
  "first_difference [] [] = 0"
| "first_difference (x # xs) [] = int x"
| "first_difference [] (y # ys) = - int y"
| "first_difference (x # xs) (y # ys) = (if x = y then first_difference xs ys else int x - int y)"

lemma UpperToLower_0 [simp]: "UpperToLower 0 = 0"
  by (simp add: UpperToLower_eq)

lemma UpperToLower_eq_0 [simp]: "UpperToLower c = 0 \<longleftrightarrow> c = 0"
  by (cases "c = 0") (auto simp: UpperToLower_eq Let_def unat_eq_zero unat_gt_0)

lemma lowered_simps [simp]:
  "lowered [] = []" "lowered (c # z) = (if c = 0 then [] else UpperToLower c # lowered z)"
  by (simp_all add: lowered_def cbody_def)

lemma at_0_cases: "at z 0 = 0 \<Longrightarrow> lowered z = []" "at z 0 \<noteq> 0 \<Longrightarrow> lowered z = UpperToLower (at z 0) # lowered (tl z)"
  by (cases z; simp)+

declare sqlite3StrICmp.simps [simp del] strnicmp_loop.simps [simp del]

lemma StrICmp_eq: "sqlite3StrICmp a b = first_difference (lowered a) (lowered b)"
proof (induction a b rule: sqlite3StrICmp.induct)
  case (1 a b)
  show ?case
  proof (cases "at a 0 = 0 \<or> at b 0 = 0")
    case True
    then show ?thesis
      by (subst sqlite3StrICmp.simps) (auto simp: Let_def at_0_cases)
  next
    case False
    then show ?thesis using 1 by (subst sqlite3StrICmp.simps) (auto simp: Let_def at_0_cases)
  qed
qed

lemma strnicmp_eq:
  "strnicmp_loop a b N = first_difference (take (nat N) (lowered a)) (take (nat N) (lowered b))"
proof (induction a b N rule: strnicmp_loop.induct)
  case (1 a b N)
  show ?case
  proof (cases "N > 0")
    case False
    then show ?thesis by (subst strnicmp_loop.simps) simp
  next
    case True
    then have n: "nat N = Suc (nat (N - 1))" by simp
    show ?thesis
    proof (cases "at a 0 = 0 \<or> at b 0 = 0")
      case a: True
      then show ?thesis using True
        by (subst strnicmp_loop.simps) (cases "at a 0 = 0"; cases "at b 0 = 0"; auto simp: n at_0_cases)
    next
      case False
      then show ?thesis using True 1
        by (subst strnicmp_loop.simps) (auto simp: n at_0_cases)
    qed
  qed
qed

text \<open>\<open>sqlite3StrICmp\<close> and \<open>sqlite3_strnicmp\<close> compare the texts, or their first \<open>N\<close> bytes, in
  lower case: the result is the difference at the first place where they differ.\<close>

lemma sqlite3_stricmp_correct:
  "sqlite3StrICmp a b = first_difference (lowered a) (lowered b) \<and>
   sqlite3_strnicmp (Some a) (Some b) N = first_difference (take (nat N) (lowered a)) (take (nat N) (lowered b))"
  by (simp add: StrICmp_eq strnicmp_eq sqlite3_strnicmp_def)

lemma first_difference_eq_0: "0 \<notin> set xs \<Longrightarrow> 0 \<notin> set ys \<Longrightarrow> first_difference xs ys = 0 \<longleftrightarrow> xs = ys"
  by (induction xs ys rule: first_difference.induct) auto

lemma lowered_nonzero [simp]: "0 \<notin> set (lowered z)"
  by (induction z) auto

lemma StrICmp_eq_0: "sqlite3StrICmp a b = 0 \<longleftrightarrow> lowered a = lowered b"
  by (simp add: StrICmp_eq first_difference_eq_0)

subsection \<open>Quoting and removing the quotes\<close>

text \<open>The SQL text of a name: between quotes, with every quote in it doubled.\<close>

definition quoted :: "u8 \<Rightarrow> u8 list \<Rightarrow> u8 list" where
  "quoted q s = q # concat (map (\<lambda>c. if c = q then [q, q] else [c]) s) @ [q]"

lemma dequote_loop_quoted:
  assumes "q \<noteq> 0" and "0 \<notin> set s"
  shows "dequote_loop q (concat (map (\<lambda>c. if c = q then [q, q] else [c]) s) @ [q]) = Inr s"
  using assms by (induction s) auto

text \<open>C35: \<open>sqlite3Dequote\<close> undoes quoting, for each of the three quote characters that stand at both
  ends, and leaves a text alone that does not begin with a quote.\<close>

theorem sqlite3Dequote_roundtrip:
  assumes "q \<in> {34, 39, 96}" and "0 \<notin> set s"
  shows "sqlite3Dequote (Some (quoted q s)) = Inr (Some s) \<and>
    (\<not> sqlite3Isquote (at z 0) \<longrightarrow> sqlite3Dequote (Some z) = Inr (Some z))"
proof -
  have "sqlite3Isquote q" "q \<noteq> 91" "q \<noteq> 0" using assms(1) by (auto simp: char_classes)
  then show ?thesis using dequote_loop_quoted [of q s] assms(2)
    by (simp add: sqlite3Dequote_def quoted_def Let_def)
qed

text \<open>The name \<open>a"b\<close>.\<close>

theorem sqlite3Dequote_roundtrip_witness:
  "sqlite3Dequote (Some (quoted 34 [97, 34, 98])) = Inr (Some [97, 34, 98]) \<and> sqlite3Dequote (Some [97]) = Inr (Some [97])"
proof -
  have "\<not> sqlite3Isquote (at [97] 0)" by (simp add: char_classes)
  then show ?thesis using sqlite3Dequote_roundtrip [of 34 "[97, 34, 98]" "[97]"] by simp
qed

subsection \<open>Blob literals\<close>

definition hex_digit :: "u8 \<Rightarrow> nat \<Rightarrow> bool" where
  "hex_digit c d \<longleftrightarrow> d < 16 \<and> (unat c = 48 + d \<and> d < 10 \<or> 10 \<le> d \<and> (unat c = 55 + d \<or> unat c = 87 + d))"

lemma HexToInt_digit:
  assumes "hex_digit c d"
  shows "sqlite3HexToInt c = of_nat d"
proof -
  have d: "d \<in> {0, 1, 2, 3, 4, 5, 6, 7, 8, 9, 10, 11, 12, 13, 14, 15}" using assms by (auto simp: hex_digit_def)
  show ?thesis using d assms by (auto simp: hex_digit_def sqlite3HexToInt_def)
qed

lemma hex_byte:
  assumes "hex_digit c (unat b div 16)" "hex_digit d (unat b mod 16)"
  shows "push_bit 4 (sqlite3HexToInt c) OR sqlite3HexToInt d = b"
proof -
  have "unat (of_nat (unat b div 16) :: u8) = unat (drop_bit 4 b)"
  proof -
    have "unat b div 16 < 256" using u8_bound [of b] by linarith
    then show ?thesis by (simp add: unat_drop_bit unat_of_nat)
  qed
  then have "sqlite3HexToInt c = drop_bit 4 b" using HexToInt_digit [OF assms(1)] by (simp only: word_unat_eq_iff)
  moreover have "unat (of_nat (unat b mod 16) :: u8) = unat (take_bit 4 b)"
    by (simp add: unat_of_nat unsigned_take_bit_eq take_bit_eq_mod unat_mod)
  then have "sqlite3HexToInt d = take_bit 4 b" using HexToInt_digit [OF assms(2)] by (simp only: word_unat_eq_iff)
  ultimately show ?thesis
    by (simp only:) (rule word8_eqI, simp only: list.pred_inject, simp add: bit_simps byte_masks)
qed

declare hex_loop.simps [simp del]

lemma hex_loop_eq:
  assumes "\<forall>i < length bs. hex_digit (at z (2 * i)) (unat (bs ! i) div 16) \<and> hex_digit (at z (2 * i + 1)) (unat (bs ! i) mod 16)"
    and "k \<le> length bs"
  shows "hex_loop z (2 * k) (2 * length bs) = drop k bs @ [0]"
  using assms(2)
proof (induction "length bs - k" arbitrary: k)
  case 0
  then show ?case by (subst hex_loop.simps) simp
next
  case (Suc m)
  then have "hex_loop z (2 * Suc k) (2 * length bs) = drop (Suc k) bs @ [0]" by (intro Suc.hyps(1)) auto
  moreover have "k < length bs" using Suc.hyps(2) by simp
  moreover have "push_bit 4 (sqlite3HexToInt (at z (2 * k))) OR sqlite3HexToInt (at z (2 * k + 1)) = bs ! k"
    using assms(1) \<open>k < length bs\<close> by (intro hex_byte) auto
  ultimately show ?case by (subst hex_loop.simps) (simp add: Cons_nth_drop_Suc)
qed

text \<open>\<open>sqlite3HexToBlob\<close> on the digits, in either case, of \<open>bs\<close> gives \<open>bs\<close> and a terminating zero;
  without memory it gives \<open>NULL\<close>.\<close>

lemma sqlite3HexToBlob_correct:
  assumes "\<forall>i < length bs. hex_digit (at z (2 * i)) (unat (bs ! i) div 16) \<and> hex_digit (at z (2 * i + 1)) (unat (bs ! i) mod 16)"
  shows "sqlite3HexToBlob True z (2 * length bs + 1) = Some (bs @ [0]) \<and> sqlite3HexToBlob False z n = None"
  using hex_loop_eq [OF assms, of 0] by (simp add: sqlite3HexToBlob_def)

text \<open>The literal \<open>x'4aF0'\<close>.\<close>

lemma sqlite3HexToBlob_example:
  "sqlite3HexToBlob True [0x34, 0x61, 0x46, 0x30, 0x27] (2 * length [0x4a, 0xf0 :: u8] + 1) = Some ([0x4a, 0xf0] @ [0]) \<and>
   sqlite3HexToBlob False [0x34, 0x61, 0x46, 0x30, 0x27] 5 = None"
  by (rule sqlite3HexToBlob_correct) (auto simp: hex_digit_def less_Suc_eq at_def)

end
