(* ===== verification/SqliteIntegers.thy ===== *)
theory SqliteIntegers
  imports SqliteStrings "HOL-Library.Signed_Division"
begin

section \<open>Common/sqlite/sqlite3.c: checked 64-bit arithmetic\<close>

text \<open>
  \<open>sqlite3AddInt64\<close>, \<open>sqlite3SubInt64\<close> and \<open>sqlite3MulInt64\<close> of \<open>util.c\<close> as compiled without the
  builtins of GCC, and \<open>sqlite3AbsInt32\<close>. Signed integers are integers; \<open>i64\<close> is their range, and
  \<open>sdiv\<close> the division of C. A routine returns its code and the new value of \<open>*pA\<close>.
\<close>

definition LARGEST_INT64 :: int where "LARGEST_INT64 = 0x7fffffffffffffff"
definition SMALLEST_INT64 :: int where "SMALLEST_INT64 = - 1 - LARGEST_INT64"

definition i64 :: "int \<Rightarrow> bool" where
  "i64 x \<longleftrightarrow> SMALLEST_INT64 \<le> x \<and> x \<le> LARGEST_INT64"

definition sqlite3AddInt64 :: "int \<Rightarrow> int \<Rightarrow> int \<times> int" where
  "sqlite3AddInt64 pA iB =
     (let iA = pA in
      if iB \<ge> 0
      then if iA > 0 \<and> LARGEST_INT64 - iA < iB then (1, pA) else (0, pA + iB)
      else if iA < 0 \<and> - (iA + LARGEST_INT64) > iB + 1 then (1, pA) else (0, pA + iB))"

definition sqlite3SubInt64 :: "int \<Rightarrow> int \<Rightarrow> int \<times> int" where
  "sqlite3SubInt64 pA iB =
     (if iB = SMALLEST_INT64 then if pA \<ge> 0 then (1, pA) else (0, pA - iB)
      else sqlite3AddInt64 pA (- iB))"

definition sqlite3MulInt64 :: "int \<Rightarrow> int \<Rightarrow> int \<times> int" where
  "sqlite3MulInt64 pA iB =
     (let iA = pA in
      if iB > 0 \<and> iA > LARGEST_INT64 sdiv iB then (1, pA)
      else if iB > 0 \<and> iA < SMALLEST_INT64 sdiv iB then (1, pA)
      else if iB < 0 \<and> iA > 0 \<and> iB < SMALLEST_INT64 sdiv iA then (1, pA)
      else if iB < 0 \<and> iA < 0 \<and> iB = SMALLEST_INT64 then (1, pA)
      else if iB < 0 \<and> iA < 0 \<and> iA = SMALLEST_INT64 then (1, pA)
      else if iB < 0 \<and> iA < 0 \<and> - iA > LARGEST_INT64 sdiv (- iB) then (1, pA)
      else (0, iA * iB))"

definition sqlite3AbsInt32 :: "int \<Rightarrow> int" where
  "sqlite3AbsInt32 x = (if x \<ge> 0 then x else if x = - (2 ^ 31) then 0x7fffffff else - x)"

lemma sdiv_pos: "0 < b \<Longrightarrow> (a :: int) sdiv b = (if 0 \<le> a then a div b else - ((- a) div b))"
  by (auto simp: signed_divide_int_def sgn_if)

lemma mul_le_iff_div: "0 < b \<Longrightarrow> a * b \<le> (c :: int) \<longleftrightarrow> a \<le> c div b"
proof
  assume "0 < b" "a * b \<le> c"
  then show "a \<le> c div b" using zdiv_mono1 [of "a * b" c b] by simp
next
  assume "0 < b" "a \<le> c div b"
  then have "a * b \<le> (c div b) * b" by (simp add: mult_right_mono)
  also have "\<dots> \<le> c" using \<open>0 < b\<close> by (simp add: minus_mod_eq_div_mult [symmetric])
  finally show "a * b \<le> c" .
qed

lemma le_mul_iff_div: "0 < b \<Longrightarrow> - (c :: int) \<le> a * b \<longleftrightarrow> - (c div b) \<le> a"
  using mul_le_iff_div [of b "- a" c] by auto

text \<open>C34: The checked operations on 64-bit integers return 0 and the exact result when it fits
  64 bits, and otherwise 1 with the operand unchanged.\<close>

theorem sqlite3_checked_arithmetic:
  assumes "i64 a" and "i64 b"
  shows "sqlite3AddInt64 a b = (if i64 (a + b) then (0, a + b) else (1, a)) \<and>
    sqlite3SubInt64 a b = (if i64 (a - b) then (0, a - b) else (1, a)) \<and>
    sqlite3MulInt64 a b = (if i64 (a * b) then (0, a * b) else (1, a))"
proof (intro conjI)
  have add: "sqlite3AddInt64 a c = (if i64 (a + c) then (0, a + c) else (1, a))" if "i64 c" for c
    using assms(1) that by (auto simp: sqlite3AddInt64_def i64_def LARGEST_INT64_def SMALLEST_INT64_def Let_def)
  show "sqlite3AddInt64 a b = (if i64 (a + b) then (0, a + b) else (1, a))" by (rule add [OF assms(2)])
  show "sqlite3SubInt64 a b = (if i64 (a - b) then (0, a - b) else (1, a))"
  proof (cases "b = SMALLEST_INT64")
    case True
    then show ?thesis using assms(1) by (auto simp: sqlite3SubInt64_def i64_def LARGEST_INT64_def SMALLEST_INT64_def)
  next
    case False
    then have "i64 (- b)" using assms(2) by (auto simp: i64_def LARGEST_INT64_def SMALLEST_INT64_def)
    from add [OF this] False show ?thesis by (simp add: sqlite3SubInt64_def)
  qed
  let ?L = "2 ^ 63 - 1 :: int"
  have c: "LARGEST_INT64 = ?L" "SMALLEST_INT64 = - (2 ^ 63)" by (simp_all add: LARGEST_INT64_def SMALLEST_INT64_def)
  consider "b = 0" | "0 < b" | "b < 0" "a = 0" | "b < 0" "0 < a" | "b < 0" "a < 0" by arith
  then show "sqlite3MulInt64 a b = (if i64 (a * b) then (0, a * b) else (1, a))"
  proof cases
    case 2
    have "i64 (a * b) \<longleftrightarrow> a \<le> ?L div b \<and> - (2 ^ 63 div b) \<le> a"
      unfolding i64_def c using 2 mul_le_iff_div [of b a ?L] le_mul_iff_div [of b "2 ^ 63" a] by auto
    then show ?thesis using 2 unfolding sqlite3MulInt64_def c by (auto simp: Let_def sdiv_pos)
  next
    case 4
    have "i64 (a * b) \<longleftrightarrow> - (2 ^ 63 div a) \<le> b"
      unfolding i64_def c using 4 le_mul_iff_div [of a "2 ^ 63" b] mult_pos_neg [of a b] by (auto simp: mult.commute)
    then show ?thesis using 4 unfolding sqlite3MulInt64_def c by (auto simp: Let_def sdiv_pos)
  next
    case 5
    define D where "D = ?L div (- b)"
    have m: "i64 (a * b) \<longleftrightarrow> - a \<le> D"
      unfolding i64_def c D_def using 5 mul_le_iff_div [of "- b" "- a" ?L] mult_neg_neg [of a b] by auto
    have n: "b \<noteq> - (2 ^ 63) \<and> a \<noteq> - (2 ^ 63)" if "- a \<le> D"
    proof -
      have "(- a) * (- b) \<le> ?L" using that 5 mul_le_iff_div [of "- b" "- a" ?L] by (simp add: D_def)
      moreover have "- a \<le> (- a) * (- b)" "- b \<le> (- a) * (- b)"
        using 5 mult_left_mono [of 1 "- b" "- a"] mult_right_mono [of 1 "- a" "- b"] by simp_all
      ultimately show ?thesis by auto
    qed
    have "?L sdiv (- b) = D" using 5 sdiv_pos [of "- b" ?L] by (simp add: D_def)
    then show ?thesis using 5 m n unfolding sqlite3MulInt64_def c Let_def by (simp only:) auto
  qed (auto simp: sqlite3MulInt64_def i64_def LARGEST_INT64_def SMALLEST_INT64_def Let_def)
qed

text \<open>The largest square that fits, and the next one.\<close>

theorem sqlite3_checked_arithmetic_witness:
  "sqlite3AddInt64 3037000500 3037000500 =
     (if i64 (3037000500 + 3037000500) then (0, 3037000500 + 3037000500) else (1, 3037000500)) \<and>
   sqlite3SubInt64 3037000500 3037000500 =
     (if i64 (3037000500 - 3037000500) then (0, 3037000500 - 3037000500) else (1, 3037000500)) \<and>
   sqlite3MulInt64 3037000500 3037000500 =
     (if i64 (3037000500 * 3037000500) then (0, 3037000500 * 3037000500) else (1, 3037000500))"
  by (rule sqlite3_checked_arithmetic) (simp_all add: i64_def LARGEST_INT64_def SMALLEST_INT64_def)

end
