(* ===== verification/SqliteNumbers.thy ===== *)
theory SqliteNumbers
  imports SqliteIntegers
begin

section \<open>Common/sqlite/sqlite3.c: integers as text\<close>

text \<open>
  \<open>sqlite3Int64ToText\<close>, \<open>sqlite3Atoi64\<close> with its helper \<open>compare2pow63\<close>, and the other readers of
  integers of \<open>util.c\<close>. Text is a list of bytes; pointers into it are indices.
\<close>

subsection \<open>Printing\<close>

definition ascii_bytes :: "string \<Rightarrow> u8 list" where
  "ascii_bytes s = map (\<lambda>c. of_nat (of_char c)) s"

definition sqlite3DigitPairs :: "u8 list" where
  "sqlite3DigitPairs = ascii_bytes (
     ''00010203040506070809'' @ ''10111213141516171819'' @ ''20212223242526272829'' @
     ''30313233343536373839'' @ ''40414243444546474849'' @ ''50515253545556575859'' @
     ''60616263646566676869'' @ ''70717273747576777879'' @ ''80818283848586878889'' @
     ''90919293949596979899'')"

text \<open>The text grows to the front of \<open>u.a\<close>: \<open>acc\<close> is what stands from index \<open>i\<close> on.\<close>

fun digits_loop :: "nat \<Rightarrow> u8 list \<Rightarrow> u8 list" where
  "digits_loop x acc =
     (if x \<ge> 10
      then let kk = (x mod 100) * 2 in
        digits_loop (x div 100) (sqlite3DigitPairs ! kk # sqlite3DigitPairs ! (kk + 1) # acc)
      else if x \<noteq> 0 then of_nat (x + 48) # acc else acc)"

definition sqlite3Int64ToText :: "int \<Rightarrow> u8 list \<times> nat" where
  "sqlite3Int64ToText v =
     (if v = 0 then ([48], 1)
      else let x = (if v > 0 then nat v else if v = SMALLEST_INT64 then 2 ^ 63 else nat (- v));
        a = digits_loop x [];
        a = (if v < 0 then 45 # a else a) in (a, length a))"

subsection \<open>Reading 64-bit integers\<close>

fun enc_code :: "encoding \<Rightarrow> nat" where
  "enc_code SQLITE_UTF8 = 1" | "enc_code SQLITE_UTF16LE = 2" | "enc_code SQLITE_UTF16BE = 3"

definition pow63_digits :: "u8 list" where
  "pow63_digits = ascii_bytes ''922337203685477580''"

fun compare_loop :: "u8 list \<Rightarrow> nat \<Rightarrow> nat \<Rightarrow> u8 list \<Rightarrow> int \<Rightarrow> int" where
  "compare_loop z p incr [] c = c"
| "compare_loop z p incr (d # ds) c =
     (if c = 0 then compare_loop z (p + incr) incr ds ((int (unat (at z p)) - int (unat d)) * 10) else c)"

definition compare2pow63 :: "u8 list \<Rightarrow> nat \<Rightarrow> nat \<Rightarrow> int" where
  "compare2pow63 z p incr =
     (let c = compare_loop z p incr pow63_digits 0 in
      if c = 0 then int (unat (at z (p + 18 * incr))) - 56 else c)"

text \<open>The loops of \<open>sqlite3Atoi64\<close>; \<open>w\<close> says that characters have two bytes.\<close>

definition step :: "bool \<Rightarrow> nat" where
  "step w = (if w then 2 else 1)"

lemma step_pos [simp]: "0 < step w"
  by (simp add: step_def)

function skip_while :: "(u8 \<Rightarrow> bool) \<Rightarrow> u8 list \<Rightarrow> nat \<Rightarrow> nat \<Rightarrow> bool \<Rightarrow> nat" where
  "skip_while P z p e w = (if p < e \<and> P (at z p) then skip_while P z (p + step w) e w else p)"
  by auto
termination
  by (relation "measure (\<lambda>(P, z, p, e, w). e - p)") (auto simp: step_def)

function atoi_loop :: "u8 list \<Rightarrow> nat \<Rightarrow> nat \<Rightarrow> bool \<Rightarrow> u64 \<Rightarrow> nat \<Rightarrow> u64 \<times> nat" where
  "atoi_loop z p e w u i =
     (if p + i < e \<and> 48 \<le> unat (at z (p + i)) \<and> unat (at z (p + i)) - 48 \<le> 9
      then atoi_loop z p e w (u * 10 + of_nat (unat (at z (p + i)) - 48)) (i + step w)
      else (u, i))"
  by auto
termination
  by (relation "measure (\<lambda>(z, p, e, w, u, i). e - (p + i))") (auto simp: step_def)

definition sqlite3Atoi64 :: "u8 list \<Rightarrow> nat \<Rightarrow> encoding \<Rightarrow> int \<times> int" where
  "sqlite3Atoi64 z len enc =
     (let w = (enc \<noteq> SQLITE_UTF8); incr = step w;
          len2 = (if w then 2 * (len div 2) else len);
          i0 = skip_while (\<lambda>c. c = 0) z (3 - enc_code enc) len2 True;
          nonNum = (w \<and> i0 < len2);
          zEnd = (if w then i0 XOR 1 else len);
          p0 = (if w then enc_code enc mod 2 else 0);
          p1 = skip_while sqlite3Isspace z p0 zEnd w;
          neg = (p1 < zEnd \<and> at z p1 = 45);
          zStart = (if p1 < zEnd \<and> (at z p1 = 45 \<or> at z p1 = 43) then p1 + incr else p1);
          p = skip_while (\<lambda>c. c = 48) z zStart zEnd w;
          (u, i) = atoi_loop z p zEnd w 0 0;
          pNum = (if unat u > nat LARGEST_INT64 then (if neg then SMALLEST_INT64 else LARGEST_INT64)
                  else if neg then - int (unat u) else int (unat u));
          rc = (if i = 0 \<and> zStart = p then -1
                else if nonNum then 1
                else if p + i < zEnd \<and> skip_while sqlite3Isspace z (p + i) zEnd w < zEnd then 1 else 0) in
      if i < 19 * incr then (rc, pNum)
      else let j = (if i > 19 * incr then 1 else compare2pow63 z p incr) in
        if j < 0 then (rc, pNum)
        else let pNum = (if neg then SMALLEST_INT64 else LARGEST_INT64) in
          if j > 0 then (2, pNum) else (if neg then rc else 3, pNum))"

subsection \<open>The other readers\<close>

text \<open>\<open>Some v\<close>: the routine returned 1 and stored \<open>v\<close>.\<close>

fun xdigits_loop :: "nat \<Rightarrow> u32 \<Rightarrow> u8 list \<Rightarrow> u32 \<times> u8 list" where
  "xdigits_loop 0 u z = (u, z)"
| "xdigits_loop (Suc k) u z =
     (if sqlite3Isxdigit (at z 0) then xdigits_loop k (u * 16 + ucast (sqlite3HexToInt (at z 0))) (tl z) else (u, z))"

fun ddigits_loop :: "nat \<Rightarrow> nat \<Rightarrow> int \<Rightarrow> u8 list \<Rightarrow> int \<times> nat" where
  "ddigits_loop 0 i v z = (v, i)"
| "ddigits_loop (Suc k) i v z =
     (let c = int (unat (at z 0)) - 48 in
      if c \<ge> 0 \<and> c \<le> 9 then ddigits_loop k (i + 1) (v * 10 + c) (tl z) else (v, i))"

definition sqlite3GetInt32 :: "u8 list \<Rightarrow> int option" where
  "sqlite3GetInt32 zNum =
     (let neg = (at zNum 0 = 45);
          z = (if at zNum 0 = 45 \<or> at zNum 0 = 43 then tl zNum else zNum) in
      if at zNum 0 = 48 \<and> (at zNum 1 = 120 \<or> at zNum 1 = 88) \<and> sqlite3Isxdigit (at zNum 2)
      then let (u, r) = xdigits_loop 8 0 (dropWhile (\<lambda>c. c = 48) (drop 2 zNum)) in
        if u AND 0x80000000 = 0 \<and> \<not> sqlite3Isxdigit (at r 0) then Some (sint u) else None
      else if \<not> sqlite3Isdigit (at z 0) then None
      else let (v, i) = ddigits_loop 11 0 0 (dropWhile (\<lambda>c. c = 48) z) in
        if i > 10 then None
        else if v - (if neg then 1 else 0) > 2147483647 then None
        else Some (if neg then - v else v))"

definition sqlite3Atoi :: "u8 list \<Rightarrow> int" where
  "sqlite3Atoi z = (case sqlite3GetInt32 z of None \<Rightarrow> 0 | Some x \<Rightarrow> x)"

text \<open>The code and the stored value of \<open>sqlite3GetUInt32\<close>, which stores 0 when it fails.\<close>

fun udigits_loop :: "nat \<Rightarrow> nat \<Rightarrow> u8 list \<Rightarrow> int \<times> nat" where
  "udigits_loop v i z =
     (case z of
        [] \<Rightarrow> if i = 0 then (0, 0) else (1, v mod 2 ^ 32)
      | c # z' \<Rightarrow>
          if sqlite3Isdigit c
          then let v = v * 10 + unat c - 48 in if v > 4294967296 then (0, 0) else udigits_loop v (i + 1) z'
          else if i = 0 \<or> c \<noteq> 0 then (0, 0) else (1, v mod 2 ^ 32))"

definition sqlite3GetUInt32 :: "u8 list \<Rightarrow> int \<times> nat" where
  "sqlite3GetUInt32 z = udigits_loop 0 0 z"

text \<open>The hexadecimal form of \<open>sqlite3DecOrHexToI64\<close> reads any number of digits into 64 bits.\<close>

fun hex64_loop :: "u64 \<Rightarrow> nat \<Rightarrow> u8 list \<Rightarrow> u64 \<times> nat \<times> u8 list" where
  "hex64_loop u k z =
     (case z of [] \<Rightarrow> (u, k, z)
      | c # z' \<Rightarrow> if sqlite3Isxdigit c then hex64_loop (u * 16 + ucast (sqlite3HexToInt c)) (k + 1) z' else (u, k, z))"

definition sqlite3DecOrHexToI64 :: "u8 list \<Rightarrow> int \<times> int" where
  "sqlite3DecOrHexToI64 z =
     (if at z 0 = 48 \<and> (at z 1 = 120 \<or> at z 1 = 88)
      then let (u, n, r) = hex64_loop 0 0 (dropWhile (\<lambda>c. c = 48) (drop 2 z)) in
        (if n > 16 then 2 else if at r 0 \<noteq> 0 then 1 else 0, sint u)
      else let n = length (takeWhile (\<lambda>c. c \<in> set (ascii_bytes ''+- '') \<union> {10, 9} \<union> set (ascii_bytes ''0123456789'')) z);
          n = (if at z n \<noteq> 0 then n + 1 else n) in
        sqlite3Atoi64 z n SQLITE_UTF8)"

end
