(* ===== verification/SqliteNumbers_Props.thy ===== *)
theory SqliteNumbers_Props
  imports SqliteNumbers
begin

section \<open>Integers printed and read back\<close>

text \<open>
  The value of a decimal text, what the printing loop produces, and what \<open>sqlite3Atoi64\<close> reads from
  spaces, a sign, zeros, digits and spaces; then printing and reading compose to the identity.
\<close>

fun dec_value :: "u8 list \<Rightarrow> nat" where
  "dec_value [] = 0"
| "dec_value (c # cs) = (unat c - 48) * 10 ^ length cs + dec_value cs"

definition is_digit :: "u8 \<Rightarrow> bool" where
  "is_digit c \<longleftrightarrow> 48 \<le> unat c \<and> unat c \<le> 57"

definition digits :: "u8 list \<Rightarrow> bool" where
  "digits ds \<longleftrightarrow> (\<forall>c \<in> set ds. is_digit c)"

lemma digits_simps [simp]: "digits []" "digits (c # cs) \<longleftrightarrow> is_digit c \<and> digits cs"
  by (simp_all add: digits_def)

lemma dec_value_append: "dec_value (xs @ ys) = dec_value xs * 10 ^ length ys + dec_value ys"
  by (induction xs) (simp_all add: power_add algebra_simps)

lemma dec_value_bound: "digits ds \<Longrightarrow> dec_value ds < 10 ^ length ds"
proof (induction ds)
  case Nil
  then show ?case by simp
next
  case (Cons c cs)
  have "unat c - 48 \<le> 9" using Cons.prems by (auto simp: is_digit_def)
  then have "(unat c - 48) * 10 ^ length cs \<le> 9 * 10 ^ length cs" by (rule mult_le_mono1)
  moreover have "dec_value cs < 10 ^ length cs" using Cons by simp
  moreover have "10 ^ length (c # cs) = 10 * (10 :: nat) ^ length cs" by simp
  ultimately show ?case unfolding dec_value.simps by linarith
qed

lemma dec_value_lower: "digits (c # cs) \<Longrightarrow> c \<noteq> 48 \<Longrightarrow> 10 ^ length cs \<le> dec_value (c # cs)"
proof -
  assume "digits (c # cs)" "c \<noteq> 48"
  then have "1 \<le> unat c - 48" by (cases "unat c = 48") (auto simp: is_digit_def word_unat_eq_iff)
  then have "1 * 10 ^ length cs \<le> (unat c - 48) * 10 ^ length cs" by (rule mult_le_mono1)
  then show ?thesis unfolding dec_value.simps by linarith
qed

subsection \<open>Printing\<close>

lemma pair_table: "\<forall>k < 100. unat (sqlite3DigitPairs ! (2 * k)) = 48 + k div 10 \<and> unat (sqlite3DigitPairs ! (2 * k + 1)) = 48 + k mod 10"
proof -
  have "map (\<lambda>k. unat (sqlite3DigitPairs ! (2 * k))) [0..<100] = map (\<lambda>k. 48 + k div 10) [0..<100]"
    "map (\<lambda>k. unat (sqlite3DigitPairs ! (2 * k + 1))) [0..<100] = map (\<lambda>k. 48 + k mod 10) [0..<100]"
    by (simp_all add: sqlite3DigitPairs_def ascii_bytes_def upt_rec)
  then show ?thesis by (simp add: map_eq_conv)
qed

lemma pair_digits:
  assumes "k < 100"
  shows "is_digit (sqlite3DigitPairs ! (2 * k))" "is_digit (sqlite3DigitPairs ! (2 * k + 1))"
    "(unat (sqlite3DigitPairs ! (2 * k)) - 48) * 10 + (unat (sqlite3DigitPairs ! (2 * k + 1)) - 48) = k"
  using pair_table assms by (auto simp: is_digit_def)

declare digits_loop.simps [simp del]

lemma digits_loop_eq:
  "\<exists>ds. digits_loop x acc = ds @ acc \<and> digits ds \<and> dec_value ds = x \<and> (ds = [] \<longleftrightarrow> x = 0) \<and> (x \<noteq> 0 \<longrightarrow> hd ds \<noteq> 48)"
proof (induction x acc rule: digits_loop.induct)
  case (1 x acc)
  show ?case
  proof (cases "10 \<le> x")
    case True
    define k where "k = x mod 100"
    have k: "k < 100" by (simp add: k_def)
    let ?a = "sqlite3DigitPairs ! (2 * k)" and ?b = "sqlite3DigitPairs ! (2 * k + 1)"
    obtain ds where ds: "digits_loop (x div 100) (?a # ?b # acc) = ds @ ?a # ?b # acc" "digits ds"
      "dec_value ds = x div 100" "ds = [] \<longleftrightarrow> x div 100 = 0" "x div 100 \<noteq> 0 \<longrightarrow> hd ds \<noteq> 48"
      using 1 [OF True refl, of ] by (auto simp: k_def mult.commute)
    have eq: "digits_loop x acc = (ds @ [?a, ?b]) @ acc"
      using ds(1) True by (subst digits_loop.simps) (simp add: Let_def k_def mult.commute)
    have d: "digits (ds @ [?a, ?b])" using ds(2) pair_digits(1,2) [OF k] by (auto simp: digits_def)
    have v: "dec_value (ds @ [?a, ?b]) = x"
      using ds(3) pair_digits(3) [OF k] by (simp add: dec_value_append k_def algebra_simps)
    have h: "hd (ds @ [?a, ?b]) \<noteq> 48"
    proof (cases "ds = []")
      case e: True
      then have "10 \<le> k" using ds(4) True by (simp add: k_def div_eq_0_iff)
      then have "unat ?a \<noteq> 48" using pair_table k by auto
      then show ?thesis using e by auto
    next
      case False
      then show ?thesis using ds(4,5) by (simp add: hd_append)
    qed
    show ?thesis using True
      by (intro exI [of _ "ds @ [?a, ?b]"]) (use eq d v h in auto)
  next
    case False
    have n: "unat (of_nat (x + 48) :: u8) = x + 48"
      by (simp only: unat_of_nat) (use False in simp)
    moreover have "(of_nat (x + 48) :: u8) \<noteq> 48" if "x \<noteq> 0"
    proof
      assume "(of_nat (x + 48) :: u8) = 48"
      then show False using n that by simp
    qed
    ultimately show ?thesis using False
      by (subst digits_loop.simps) (auto intro!: exI [of _ "if x = 0 then [] else [of_nat (x + 48)]"] simp: is_digit_def)
  qed
qed

lemma dec_value_length:
  assumes "digits ds" "ds \<noteq> []" "hd ds \<noteq> 48" "dec_value ds < 10 ^ n"
  shows "length ds \<le> n"
proof (rule ccontr)
  assume n: "\<not> length ds \<le> n"
  obtain c cs where ds: "ds = c # cs" using assms(2) by (cases ds) auto
  have "(10 :: nat) ^ n \<le> 10 ^ length cs" using n ds by (intro power_increasing) auto
  also have "\<dots> \<le> dec_value ds" using dec_value_lower [of c cs] assms(1,3) ds by simp
  finally show False using assms(4) by simp
qed

subsection \<open>The loops of the reader\<close>

declare skip_while.simps [simp del] atoi_loop.simps [simp del]

lemma skip_while_eq:
  "skip_while P z p (length z) False = p + length (takeWhile P (drop p z))"
proof (induction "length z - p" arbitrary: p)
  case 0
  then show ?case by (subst skip_while.simps) simp
next
  case (Suc n)
  then have d: "drop p z = at z p # drop (Suc p) z" by (simp add: at_def Cons_nth_drop_Suc)
  have "skip_while P z (Suc p) (length z) False = Suc p + length (takeWhile P (drop (Suc p) z))"
    using Suc by (intro Suc.hyps(1)) simp
  then show ?case using Suc.hyps(2) by (subst skip_while.simps) (simp add: step_def d)
qed

lemma dec_step: "((u :: u64) * 10 + of_nat d) * 10 ^ n + of_nat v = u * 10 ^ Suc n + of_nat (d * 10 ^ n + v)"
  by (simp add: algebra_simps)

lemma atoi_loop_eq:
  assumes "drop (p + i) z = ds @ rest" and "digits ds" and "rest = [] \<or> \<not> is_digit (hd rest)" and "p + i \<le> length z"
  shows "atoi_loop z p (length z) False u i = (u * 10 ^ length ds + of_nat (dec_value ds), i + length ds)"
  using assms
proof (induction ds arbitrary: u i)
  case Nil
  show ?case
  proof (cases "rest = []")
    case True
    then have "length z \<le> p + i" using Nil.prems(1) by simp
    then show ?thesis by (subst atoi_loop.simps) simp
  next
    case False
    then have "p + i < length z" using Nil.prems(1) by (cases "p + i < length z") auto
    then have "at z (p + i) = hd rest" using Nil.prems(1) by (simp add: at_def hd_drop_conv_nth [symmetric])
    then show ?thesis using Nil.prems(3) False by (subst atoi_loop.simps) (auto simp: is_digit_def)
  qed
next
  case (Cons c ds)
  have l: "p + i < length z" using Cons.prems(1) by (cases "p + i < length z") auto
  then have at: "at z (p + i) = c" using Cons.prems(1) by (simp add: at_def hd_drop_conv_nth [symmetric])
  have d: "drop (p + (i + 1)) z = ds @ rest" using Cons.prems(1) by (metis add.assoc add.commute append_Cons drop_drop list.sel(3) drop_Suc plus_1_eq_Suc tl_drop)
  have c: "48 \<le> unat c" "unat c - 48 \<le> 9" using Cons.prems(2) by (auto simp: is_digit_def)
  have "atoi_loop z p (length z) False (u * 10 + of_nat (unat c - 48)) (i + 1) =
      ((u * 10 + of_nat (unat c - 48)) * 10 ^ length ds + of_nat (dec_value ds), i + 1 + length ds)"
    using Cons.prems l by (intro Cons.IH d) auto
  moreover have "atoi_loop z p (length z) False u i =
      atoi_loop z p (length z) False (u * 10 + of_nat (unat c - 48)) (i + 1)"
    by (subst atoi_loop.simps) (simp only: at l c step_def if_True if_False simp_thms)
  moreover have "(u * 10 + of_nat (unat c - 48)) * 10 ^ length ds + of_nat (dec_value ds) =
      u * 10 ^ length (c # ds) + of_nat (dec_value (c # ds))"
    using dec_step [of u "unat c - 48" "length ds" "dec_value ds"] by simp
  ultimately show ?case by simp
qed

lemma int_diff_neg: "a < b \<Longrightarrow> (int a - int b) * 10 < 0"
  by simp

lemma int_diff_pos: "b < a \<Longrightarrow> (int a - int b) * 10 > 0"
  by simp

lemma compare_loop_sign:
  assumes "digits xs" "digits ys" "length xs = length ys" and "take (length ys) (drop p z) = xs" "p + length ys \<le> length z"
  shows "(compare_loop z p 1 ys 0 = 0 \<longleftrightarrow> dec_value xs = dec_value ys) \<and>
    (compare_loop z p 1 ys 0 < 0 \<longleftrightarrow> dec_value xs < dec_value ys)"
  using assms
proof (induction ys arbitrary: p xs)
  case Nil
  then show ?case by simp
next
  case (Cons y ys)
  obtain x xs' where xs: "xs = x # xs'" using Cons.prems(3) by (cases xs) auto
  have at: "at z p = x" using Cons.prems(4,5) xs by (cases "drop p z") (auto simp: at_def hd_drop_conv_nth [symmetric])
  have t: "take (length ys) (drop (Suc p) z) = xs'" using Cons.prems(4,5) xs by (cases "drop p z") (auto simp: drop_Suc tl_drop [symmetric])
  have b: "dec_value xs' < 10 ^ length ys" "dec_value ys < 10 ^ length ys"
    using dec_value_bound [of xs'] dec_value_bound [of ys] Cons.prems(1-3) xs by auto
  have nz: "compare_loop z (p + 1) 1 ys c = c" if "c \<noteq> 0" for c using that by (cases ys) simp_all
  have dx: "48 \<le> unat x" "48 \<le> unat y" using Cons.prems(1,2) xs by (auto simp: is_digit_def)
  have st: "compare_loop z p 1 (y # ys) 0 = compare_loop z (p + 1) 1 ys ((int (unat x) - int (unat y)) * 10)"
    by (simp only: compare_loop.simps at if_True simp_thms)
  consider "unat x = unat y" | "unat x < unat y" | "unat y < unat x" by arith
  then show ?case
  proof cases
    case 1
    then show ?thesis using Cons.IH [of xs' "Suc p"] Cons.prems t xs at by simp
  next
    case 2
    then have "(unat x - 48 + 1) * 10 ^ length ys \<le> (unat y - 48) * 10 ^ length ys" using dx by (intro mult_le_mono1) arith
    then have "dec_value xs < dec_value (y # ys)" using b Cons.prems(3) xs by simp
    moreover have k: "(int (unat x) - int (unat y)) * 10 < 0"
      using 2 by (rule int_diff_neg)
    moreover have "compare_loop z p 1 (y # ys) 0 = (int (unat x) - int (unat y)) * 10"
      unfolding st by (rule nz) (use k in linarith)
    ultimately show ?thesis by linarith
  next
    case 3
    then have "(unat y - 48 + 1) * 10 ^ length ys \<le> (unat x - 48) * 10 ^ length ys" using dx by (intro mult_le_mono1) arith
    then have "dec_value (y # ys) < dec_value xs" using b Cons.prems(3) xs by simp
    moreover have k: "(int (unat x) - int (unat y)) * 10 > 0"
      using 3 by (rule int_diff_pos)
    moreover have "compare_loop z p 1 (y # ys) 0 = (int (unat x) - int (unat y)) * 10"
      unfolding st by (rule nz) (use k in linarith)
    ultimately show ?thesis by linarith
  qed
qed

subsection \<open>Reading in UTF-8\<close>

lemma not_digit_space: "sqlite3Isspace c \<Longrightarrow> \<not> is_digit c \<and> c \<noteq> 45 \<and> c \<noteq> 43 \<and> c \<noteq> 48"
  by (auto simp: char_classes is_digit_def)

text \<open>
  Text of the form spaces, sign, zeros, significant digits, spaces: the value of its digits,
  negated by a minus sign, and how the routine reports and clamps what does not fit.
\<close>

definition atoi64_result :: "bool \<Rightarrow> nat \<Rightarrow> int \<times> int" where
  "atoi64_result neg n =
     (if n < 2 ^ 63 then (0, if neg then - int n else int n)
      else if n = 2 ^ 63 then (if neg then (0, SMALLEST_INT64) else (3, LARGEST_INT64))
      else (2, if neg then SMALLEST_INT64 else LARGEST_INT64))"

lemma pow63: "digits pow63_digits" "length pow63_digits = 18" "dec_value pow63_digits = 922337203685477580"
  by (simp_all add: pow63_digits_def ascii_bytes_def is_digit_def)

lemma compare2pow63_sign:
  assumes "digits ds" "length ds = 19" "take 19 (drop p z) = ds" "p + 19 \<le> length z"
  shows "compare2pow63 z p 1 < 0 \<longleftrightarrow> dec_value ds < 2 ^ 63" and "compare2pow63 z p 1 = 0 \<longleftrightarrow> dec_value ds = 2 ^ 63"
proof -
  define c where "c = compare_loop z p 1 pow63_digits 0"
  define xs where "xs = take 18 ds"
  define x where "x = ds ! 18"
  have "take (Suc 18) ds = xs @ [x]" unfolding xs_def x_def by (rule take_Suc_conv_app_nth) (simp add: assms(2))
  moreover have "take (Suc 18) ds = ds" by (rule take_all) (simp add: assms(2))
  ultimately have ds: "ds = xs @ [x]" by simp
  have xs: "digits xs" "length xs = 18" "is_digit x"
    using assms(1,2) unfolding ds by (auto simp: digits_def)
  have "take 18 (take 19 (drop p z)) = xs" by (simp only: assms(3) xs_def)
  then have "take 18 (drop p z) = xs" by simp
  then have s: "c = 0 \<longleftrightarrow> dec_value xs = 922337203685477580" "c < 0 \<longleftrightarrow> dec_value xs < 922337203685477580"
    using compare_loop_sign [of xs pow63_digits p z] xs pow63 assms(4) by (auto simp: c_def)
  have "at z (p + 18) = take 19 (drop p z) ! 18" using assms(4) by (simp add: at_def)
  also have "\<dots> = x" by (simp only: assms(3) x_def)
  finally have "at z (p + 18) = x" .
  define m where "m = unat x"
  have cmp: "compare2pow63 z p 1 = (if c = 0 then int m - 56 else c)"
    using \<open>at z (p + 18) = x\<close> by (simp add: compare2pow63_def c_def m_def Let_def)
  have v: "dec_value ds = dec_value xs * 10 + (m - 48)" by (simp add: ds dec_value_append m_def)
  have b: "48 \<le> m" "m \<le> 57" using xs(3) by (auto simp: is_digit_def m_def)
  show "compare2pow63 z p 1 < 0 \<longleftrightarrow> dec_value ds < 2 ^ 63"
    unfolding cmp v using s b by (cases "c = 0") auto
  show "compare2pow63 z p 1 = 0 \<longleftrightarrow> dec_value ds = 2 ^ 63"
    unfolding cmp v using s b by (cases "c = 0") auto
qed

definition spaces :: "u8 list \<Rightarrow> bool" where
  "spaces s \<longleftrightarrow> (\<forall>c \<in> set s. sqlite3Isspace c)"

lemma takeWhile_app_stop: "\<forall>c \<in> set xs. P c \<Longrightarrow> ys = [] \<or> \<not> P (hd ys) \<Longrightarrow> takeWhile P (xs @ ys) = xs"
  by (cases ys) (simp_all add: takeWhile_append2)

lemma Atoi64_utf8:
  assumes sp: "spaces sp" and sg: "sg \<in> {[], [45], [43]}" and zs: "\<forall>c \<in> set zs. c = 48"
    and ds: "digits ds" "ds = [] \<or> hd ds \<noteq> 48" "zs @ ds \<noteq> []" and sp': "spaces sp'"
  shows "sqlite3Atoi64 (sp @ sg @ zs @ ds @ sp') (length (sp @ sg @ zs @ ds @ sp')) SQLITE_UTF8 =
    atoi64_result (sg = [45]) (dec_value ds)"
proof -
  let ?z = "sp @ sg @ zs @ ds @ sp'"
  let ?n = "length ?z"
  define N where "N = dec_value ds"
  define p0 where "p0 = length sp"
  define p where "p = length sp + length sg + length zs"
  have h: "zs @ ds @ sp' \<noteq> []" "is_digit (hd (zs @ ds @ sp'))"
    using zs ds by (cases zs; cases ds; auto simp: is_digit_def digits_def)+
  have nsp: "\<not> sqlite3Isspace (hd (sg @ zs @ ds @ sp'))"
    using sg h not_digit_space by (cases sg) (auto simp: char_classes)
  have p1: "skip_while sqlite3Isspace ?z 0 ?n False = p0"
    using sp nsp takeWhile_app_stop [of sp sqlite3Isspace "sg @ zs @ ds @ sp'"]
    by (simp only: skip_while_eq) (simp add: spaces_def p0_def)
  have len: "p0 < ?n" using h(1) by (auto simp: p0_def)
  have at: "at ?z p0 = hd (sg @ zs @ ds @ sp')"
    using h(1) by (simp add: at_def p0_def nth_append hd_conv_nth)
  have sgn: "at ?z p0 = 45 \<longleftrightarrow> sg = [45]" "at ?z p0 = 43 \<longleftrightarrow> sg = [43]"
    using sg h(2) unfolding at by (cases sg; auto simp: is_digit_def hd_append split: if_splits)+
  have st: "(if p0 < ?n \<and> (at ?z p0 = 45 \<or> at ?z p0 = 43) then p0 + step False else p0) = p0 + length sg"
    using sg len sgn by (auto simp: step_def)
  have z0: "skip_while (\<lambda>c. c = 48) ?z (p0 + length sg) ?n False = p"
  proof -
    have "takeWhile (\<lambda>c. c = 48) (zs @ ds @ sp') = zs"
      using zs ds(2) sp' not_digit_space by (intro takeWhile_app_stop) (cases ds; cases sp'; auto simp: spaces_def)+
    then show ?thesis by (simp only: skip_while_eq) (simp add: p_def p0_def)
  qed
  have stop: "sp' = [] \<or> \<not> is_digit (hd sp')" using sp' not_digit_space by (cases sp') (auto simp: spaces_def)
  have lp: "atoi_loop ?z p ?n False 0 0 = (of_nat N, length ds)"
    using atoi_loop_eq [of p 0 ?z ds sp' 0] ds(1) stop by (simp add: p_def N_def)
  have rcp: "skip_while sqlite3Isspace ?z (p + length ds) ?n False = ?n"
  proof -
    have tw: "takeWhile sqlite3Isspace sp' = sp'" using sp' by (simp add: spaces_def takeWhile_eq_all_conv)
    show ?thesis by (simp only: skip_while_eq) (simp add: p_def tw)
  qed
  have nz: "\<not> (length ds = 0 \<and> p0 + length sg = p)" using ds(3) by (auto simp: p_def p0_def)
  have run: "sqlite3Atoi64 ?z ?n SQLITE_UTF8 =
      (let pNum = (if unat (of_nat N :: u64) > nat LARGEST_INT64 then (if sg = [45] then SMALLEST_INT64 else LARGEST_INT64)
                   else if sg = [45] then - int (unat (of_nat N :: u64)) else int (unat (of_nat N :: u64))) in
       if length ds < 19 then (0, pNum)
       else let j = (if length ds > 19 then 1 else compare2pow63 ?z p 1) in
         if j < 0 then (0, pNum)
         else let pNum = (if sg = [45] then SMALLEST_INT64 else LARGEST_INT64) in
           if j > 0 then (2, pNum) else (if sg = [45] then 0 else 3, pNum))"
  proof -
    have sg45: "(p0 < ?n \<and> at ?z p0 = 45) = (sg = [45])" using len sgn(1) by simp
    show ?thesis
      unfolding sqlite3Atoi64_def Let_def
      by (simp only: simp_thms not_True_eq_False if_False if_True p1 sg45 st z0 lp prod.case rcp less_irrefl nz)
        (simp only: step_def if_False mult_1_right nat_mult_1_right)
  qed
  have L: "nat LARGEST_INT64 = 2 ^ 63 - 1" by (simp add: LARGEST_INT64_def)
  have small: "unat (of_nat N :: u64) = N" if "N < 10 ^ 19"
    using that by (simp only: unat_of_nat) simp
  have ub: "N < 10 ^ length ds" using dec_value_bound [OF ds(1)] by (simp add: N_def)
  have lb: "10 ^ (length ds - 1) \<le> N" if "ds \<noteq> []"
    using that ds(1,2) dec_value_lower [of "hd ds" "tl ds"] by (cases ds) (auto simp: N_def)
  consider "length ds < 19" | "length ds = 19" | "length ds > 19" by arith
  then have "sqlite3Atoi64 ?z ?n SQLITE_UTF8 = atoi64_result (sg = [45]) N"
  proof cases
    case 1
    then have "N < 10 ^ 18" using ub power_increasing [of "length ds" 18 "10 :: nat"] by simp
    then show ?thesis using 1 small unfolding run L by (simp add: atoi64_result_def Let_def)
  next
    case 2
    then have "N < 10 ^ 19" using ub by simp
    moreover have "take 19 (drop p ?z) = ds" "p + 19 \<le> ?n" using 2 by (simp_all add: p_def)
    then have "compare2pow63 ?z p 1 < 0 \<longleftrightarrow> N < 2 ^ 63" "compare2pow63 ?z p 1 = 0 \<longleftrightarrow> N = 2 ^ 63"
      using compare2pow63_sign [of ds p ?z] ds(1) 2 by (simp_all add: N_def)
    moreover have "\<not> 2 ^ 63 - 1 < N" if "N < 2 ^ 63" using that by linarith
    ultimately show ?thesis using 2 small unfolding run L Let_def atoi64_result_def
      by (cases "N < 2 ^ 63"; cases "N = 2 ^ 63") (simp_all del: power_numeral)
  next
    case 3
    then have "(10 :: nat) ^ 19 \<le> 10 ^ (length ds - 1)" by (intro power_increasing) simp_all
    then have "10 ^ 19 \<le> N" using lb 3 by force
    then have "\<not> N < 2 ^ 63" "N \<noteq> 2 ^ 63" by simp_all
    then show ?thesis using 3 unfolding run atoi64_result_def by (simp add: Let_def)
  qed
  then show ?thesis by (simp only: N_def)
qed

text \<open>C30: \<open>sqlite3Atoi64\<close> on UTF-8 text of spaces, a sign or none, and digits, with spaces behind them: it
  returns 0 and the value if it fits 64 bits, 3 for \<open>2\<^sup>6\<^sup>3\<close> without a minus sign, and 2 with the nearest
  64-bit value for everything larger.\<close>

theorem sqlite3Atoi64_correct:
  assumes "spaces sp" and "sg \<in> {[], [45], [43]}" and "digits ds" and "ds \<noteq> []" and "spaces sp'"
  shows "sqlite3Atoi64 (sp @ sg @ ds @ sp') (length (sp @ sg @ ds @ sp')) SQLITE_UTF8 =
    atoi64_result (sg = [45]) (dec_value ds)"
proof -
  define zs where "zs = takeWhile (\<lambda>c. c = 48) ds"
  define rs where "rs = dropWhile (\<lambda>c. c = 48) ds"
  have split: "ds = zs @ rs" by (simp add: zs_def rs_def)
  have zs: "\<forall>c \<in> set zs. c = 48" by (auto simp: zs_def dest: set_takeWhileD)
  have "digits rs" using assms(3) unfolding split by (auto simp: digits_def)
  moreover have "rs = [] \<or> hd rs \<noteq> 48" using hd_dropWhile [of "\<lambda>c. c = 48" ds] by (auto simp: rs_def)
  moreover have "dec_value zs = 0" using zs by (induction zs) auto
  then have "dec_value ds = dec_value rs" unfolding split by (simp add: dec_value_append)
  ultimately show ?thesis
    using Atoi64_utf8 [OF assms(1,2) zs, of rs sp'] assms(4,5) unfolding split by simp
qed

text \<open>The texts \<open>" -9223372036854775808 "\<close> and \<open>"+9223372036854775808"\<close>.\<close>

theorem sqlite3Atoi64_correct_witness:
  "sqlite3Atoi64 ([32] @ [45] @ ascii_bytes ''9223372036854775808'' @ [32])
     (length ([32] @ [45] @ ascii_bytes ''9223372036854775808'' @ [32])) SQLITE_UTF8 =
     atoi64_result ([45] = [45 :: u8]) (dec_value (ascii_bytes ''9223372036854775808''))"
  by (rule sqlite3Atoi64_correct) (simp_all add: spaces_def char_classes ascii_bytes_def is_digit_def)

text \<open>C31: Printing a 64-bit integer with \<open>sqlite3Int64ToText\<close> and reading the text with
  \<open>sqlite3Atoi64\<close> gives the integer back; the text has at most 20 characters.\<close>

theorem sqlite3_int64_text_roundtrip:
  assumes "i64 v"
  shows "sqlite3Atoi64 (fst (sqlite3Int64ToText v)) (snd (sqlite3Int64ToText v)) SQLITE_UTF8 = (0, v) \<and>
    snd (sqlite3Int64ToText v) = length (fst (sqlite3Int64ToText v)) \<and> snd (sqlite3Int64ToText v) \<le> 20"
proof (cases "v = 0")
  case True
  have "sqlite3Atoi64 ([] @ [] @ [48] @ []) (length ([] @ [] @ [48 :: u8] @ [])) SQLITE_UTF8 =
      atoi64_result ([] = [45 :: u8]) (dec_value [48])"
    using Atoi64_utf8 [of "[]" "[]" "[48]" "[]" "[]"] by (simp add: spaces_def)
  then show ?thesis using True by (simp add: sqlite3Int64ToText_def atoi64_result_def)
next
  case False
  define x where "x = nat \<bar>v\<bar>"
  have x: "(if v > 0 then nat v else if v = SMALLEST_INT64 then 2 ^ 63 else nat (- v)) = x" "x \<noteq> 0" "x \<le> 2 ^ 63"
    using assms False by (auto simp: x_def i64_def SMALLEST_INT64_def LARGEST_INT64_def)
  obtain ds where ds: "digits_loop x [] = ds" "digits ds" "dec_value ds = x" "ds \<noteq> []" "hd ds \<noteq> 48"
    using digits_loop_eq [of x "[]"] x(2) by auto
  let ?sg = "if v < 0 then [45 :: u8] else []"
  have t: "sqlite3Int64ToText v = (?sg @ ds, length (?sg @ ds))"
    unfolding sqlite3Int64ToText_def x(1) using ds(1) False by (simp add: Let_def)
  have "length ds \<le> 19"
    by (rule dec_value_length [OF ds(2,4,5)]) (use ds(3) x(3) in simp)
  moreover have "sqlite3Atoi64 ([] @ ?sg @ [] @ ds @ []) (length ([] @ ?sg @ [] @ ds @ [])) SQLITE_UTF8 =
      atoi64_result (?sg = [45]) (dec_value ds)"
    by (rule Atoi64_utf8) (use ds in \<open>auto simp: spaces_def\<close>)
  moreover have "atoi64_result (?sg = [45]) (dec_value ds) = (0, v)"
    using assms False by (auto simp: ds(3) atoi64_result_def x_def i64_def SMALLEST_INT64_def LARGEST_INT64_def)
  ultimately show ?thesis by (simp add: t)
qed

theorem sqlite3_int64_text_roundtrip_witness:
  "sqlite3Atoi64 (fst (sqlite3Int64ToText (- 123))) (snd (sqlite3Int64ToText (- 123))) SQLITE_UTF8 = (0, - 123) \<and>
   snd (sqlite3Int64ToText (- 123)) = length (fst (sqlite3Int64ToText (- 123))) \<and> snd (sqlite3Int64ToText (- 123)) \<le> 20"
  by (rule sqlite3_int64_text_roundtrip) (simp add: i64_def SMALLEST_INT64_def LARGEST_INT64_def)

subsection \<open>The 32-bit readers\<close>

lemma is_digit_uint: "is_digit c \<longleftrightarrow> 48 \<le> uint c \<and> uint c \<le> 57"
proof -
  have u: "uint c = int (unat c)" by simp
  show ?thesis unfolding is_digit_def u by (metis of_nat_le_iff of_nat_numeral)
qed

lemma ddigits_loop_eq:
  assumes "digits ds" "rest = [] \<or> \<not> is_digit (hd rest)"
  shows "ddigits_loop k i v (ds @ rest) =
    (v * 10 ^ min k (length ds) + int (dec_value (take k ds)), i + min k (length ds))"
  using assms
proof (induction ds arbitrary: k i v)
  case Nil
  then show ?case
    by (cases k; cases rest) (auto simp: Let_def is_digit_uint)
next
  case (Cons c ds)
  define d where "d = unat c - 48"
  have c: "int (unat c) - 48 = int d" "d \<le> 9" using Cons.prems(1) by (auto simp: d_def is_digit_def)
  show ?case
  proof (cases k)
    case 0
    then show ?thesis by simp
  next
    case (Suc k')
    have "ddigits_loop k i v ((c # ds) @ rest) = ddigits_loop k' (i + 1) (v * 10 + int d) (ds @ rest)"
      unfolding Suc append_Cons ddigits_loop.simps at_simps Let_def c(1) using c(2) by simp
    also have "\<dots> = ((v * 10 + int d) * 10 ^ min k' (length ds) + int (dec_value (take k' ds)), i + 1 + min k' (length ds))"
      using Cons by simp
    finally show ?thesis by (simp add: Suc d_def [symmetric] algebra_simps min.commute)
  qed
qed

lemma GetInt32_decimal:
  assumes sg: "sg \<in> {[], [45], [43]}" and zs: "\<forall>c \<in> set zs. c = 48"
    and ds: "digits ds" "ds = [] \<or> hd ds \<noteq> 48" "zs @ ds \<noteq> []"
    and rest: "rest = [] \<or> \<not> is_digit (hd rest) \<and> hd rest \<notin> {120, 88}"
  shows "sqlite3GetInt32 (sg @ zs @ ds @ rest) =
    (let v = (if sg = [45] then - int (dec_value ds) else int (dec_value ds)) in
     if - (2 ^ 31) \<le> v \<and> v < 2 ^ 31 then Some v else None)"
proof -
  let ?z = "sg @ zs @ ds @ rest"
  let ?t = "zs @ ds @ rest"
  have d48: "is_digit 48" "\<not> is_digit 45" "\<not> is_digit 43" "\<not> is_digit 120" "\<not> is_digit 88" by (simp_all add: is_digit_def)
  have dt: "is_digit (at ?t 0)"
    using zs ds d48 by (cases zs; cases ds) (auto simp: digits_def)
  have digit: "sqlite3Isdigit c = is_digit c" for c by (simp add: char_classes is_digit_def Let_def)
  have "at ?z 1 \<noteq> 120 \<and> at ?z 1 \<noteq> 88" if "sg = []"
  proof -
    have dg: "\<forall>c \<in> set (zs @ ds). is_digit c" using zs ds d48 by (auto simp: digits_def)
    obtain x xs where x: "zs @ ds = x # xs" using ds(3) by (cases "zs @ ds") auto
    then have eq: "?z = x # xs @ rest" using that by (metis append_Cons append_Nil append_assoc)
    have "at ?z 1 = at (xs @ rest) 0" unfolding eq by simp
    moreover have "\<forall>c \<in> set xs. is_digit c" using dg x by simp
    ultimately show ?thesis using rest d48 by (cases xs; cases rest) auto
  qed
  moreover have "at ?z 0 \<noteq> 48" if "sg \<noteq> []" using sg that by auto
  ultimately have nohex: "\<not> (at ?z 0 = 48 \<and> (at ?z 1 = 120 \<or> at ?z 1 = 88) \<and> sqlite3Isxdigit (at ?z 2))" by blast
  have sgn: "at ?z 0 = 45 \<longleftrightarrow> sg = [45]" "(if sg = [45] \<or> at ?z 0 = 43 then tl ?z else ?z) = ?t"
    using sg dt d48 by auto
  have dz: "dropWhile (\<lambda>c. c = 48) ?t = ds @ rest"
    using zs ds(1,2) rest d48 by (cases ds; cases rest) (auto simp: dropWhile_append2)
  define N where "N = dec_value ds"
  have lp: "ddigits_loop 11 0 0 (ds @ rest) = (int (dec_value (take 11 ds)), min 11 (length ds))"
    using ddigits_loop_eq [OF ds(1), of rest 11 0 0] rest by auto
  have run: "sqlite3GetInt32 ?z =
      (if min 11 (length ds) > 10 then None
       else if int (dec_value (take 11 ds)) - (if sg = [45] then 1 else 0) > 2147483647 then None
       else Some (if sg = [45] then - int (dec_value (take 11 ds)) else int (dec_value (take 11 ds))))"
    unfolding sqlite3GetInt32_def Let_def
    by (simp only: nohex if_False sgn digit dt dz lp prod.case simp_thms)
  show ?thesis
  proof (cases "length ds \<le> 10")
    case True
    then have "take 11 ds = ds" by simp
    then show ?thesis unfolding run using True by (auto simp: Let_def)
  next
    case False
    then have "(10 :: nat) ^ 10 \<le> 10 ^ (length ds - 1)" by (intro power_increasing) simp_all
    moreover have "10 ^ (length ds - 1) \<le> dec_value ds"
      using False ds(1,2) dec_value_lower [of "hd ds" "tl ds"] by (cases ds) auto
    ultimately have "10 ^ 10 \<le> dec_value ds" by linarith
    then have "int (10 ^ 10) \<le> int (dec_value ds)" by (simp only: of_nat_le_iff)
    then show ?thesis unfolding run using False by (auto simp: Let_def)
  qed
qed

text \<open>C32: \<open>sqlite3GetInt32\<close> on a decimal integer with or without a sign, and with anything behind it but a
  digit or the \<open>x\<close> of a hexadecimal literal, stores its value and returns 1 exactly if it is between
  \<open>-2\<^sup>3\<^sup>1\<close> and \<open>2\<^sup>3\<^sup>1 - 1\<close>.\<close>

theorem sqlite3GetInt32_correct:
  assumes "sg \<in> {[], [45], [43]}" and "digits ds" and "ds \<noteq> []"
    and "rest = [] \<or> \<not> is_digit (hd rest) \<and> hd rest \<notin> {120, 88}"
  shows "sqlite3GetInt32 (sg @ ds @ rest) =
    (let v = (if sg = [45] then - int (dec_value ds) else int (dec_value ds)) in
     if - (2 ^ 31) \<le> v \<and> v < 2 ^ 31 then Some v else None)"
proof -
  define zs where "zs = takeWhile (\<lambda>c. c = 48) ds"
  define rs where "rs = dropWhile (\<lambda>c. c = 48) ds"
  have split: "ds = zs @ rs" by (simp add: zs_def rs_def)
  have zs: "\<forall>c \<in> set zs. c = 48" by (auto simp: zs_def dest: set_takeWhileD)
  have "digits rs" using assms(2) unfolding split by (auto simp: digits_def)
  moreover have "rs = [] \<or> hd rs \<noteq> 48" using hd_dropWhile [of "\<lambda>c. c = 48" ds] by (auto simp: rs_def)
  moreover have "dec_value zs = 0" using zs by (induction zs) auto
  then have "dec_value ds = dec_value rs" unfolding split by (simp add: dec_value_append)
  ultimately show ?thesis
    using GetInt32_decimal [OF assms(1) zs, of rs rest] assms(3,4) unfolding split by simp
qed

text \<open>The smallest integer and its positive counterpart.\<close>

theorem sqlite3GetInt32_correct_witness:
  "sqlite3GetInt32 ([45] @ ascii_bytes ''2147483648'' @ [59]) =
    (let v = (if [45] = [45 :: u8] then - int (dec_value (ascii_bytes ''2147483648'')) else int (dec_value (ascii_bytes ''2147483648''))) in
     if - (2 ^ 31) \<le> v \<and> v < 2 ^ 31 then Some v else None)"
  by (rule sqlite3GetInt32_correct) (simp_all add: ascii_bytes_def is_digit_def)

lemma udigits_loop_eq:
  assumes "digits ds" "i + length ds \<noteq> 0" "v \<le> 2 ^ 32"
  shows "udigits_loop v i ds =
    (if v * 10 ^ length ds + dec_value ds \<le> 2 ^ 32 then (1, (v * 10 ^ length ds + dec_value ds) mod 2 ^ 32) else (0, 0))"
  using assms
proof (induction ds arbitrary: v i)
  case Nil
  then show ?case by simp
next
  case (Cons c ds)
  define d where "d = unat c - 48"
  have c: "sqlite3Isdigit c" "v * 10 + unat c - 48 = v * 10 + d"
    using Cons.prems(1) by (auto simp: char_classes is_digit_def d_def)
  have val: "v * 10 ^ length (c # ds) + dec_value (c # ds) = (v * 10 + d) * 10 ^ length ds + dec_value ds"
    by (simp add: d_def [symmetric] algebra_simps)
  have st: "udigits_loop v i (c # ds) = (if v * 10 + d > 4294967296 then (0, 0) else udigits_loop (v * 10 + d) (i + 1) ds)"
    using c by (subst udigits_loop.simps) (simp add: Let_def)
  show ?case
  proof (cases "v * 10 + d > 4294967296")
    case True
    define K where "K = (v * 10 + d) * 10 ^ length ds"
    have "(v * 10 + d) * 1 \<le> K" unfolding K_def by (intro mult_le_mono2) simp
    then have "\<not> K + dec_value ds \<le> 2 ^ 32" using True by simp
    then have "\<not> (v * 10 + d) * 10 ^ length ds + dec_value ds \<le> 2 ^ 32" unfolding K_def .
    then show ?thesis unfolding st val using True by simp
  next
    case False
    then show ?thesis unfolding st val using Cons by simp
  qed
qed

text \<open>C33: \<open>sqlite3GetUInt32\<close> accepts a text of digits up to and including \<open>2\<^sup>3\<^sup>2\<close>, one more than fits:
  for \<open>2\<^sup>3\<^sup>2\<close> itself it reports success and stores 0.\<close>

theorem sqlite3GetUInt32_correct:
  assumes "digits ds" and "ds \<noteq> []"
  shows "sqlite3GetUInt32 ds = (if dec_value ds \<le> 2 ^ 32 then (1, dec_value ds mod 2 ^ 32) else (0, 0)) \<and>
    sqlite3GetUInt32 (ascii_bytes ''4294967296'') = (1, 0)"
proof -
  have g: "sqlite3GetUInt32 xs = (if dec_value xs \<le> 2 ^ 32 then (1, dec_value xs mod 2 ^ 32) else (0, 0))"
    if "digits xs" "xs \<noteq> []" for xs
    using udigits_loop_eq [of xs 0 0] that by (simp add: sqlite3GetUInt32_def)
  have "digits (ascii_bytes ''4294967296'')" "ascii_bytes ''4294967296'' \<noteq> []" "dec_value (ascii_bytes ''4294967296'') = 2 ^ 32"
    by (simp_all add: ascii_bytes_def is_digit_def)
  then show ?thesis using g assms by simp
qed

theorem sqlite3GetUInt32_correct_witness:
  "sqlite3GetUInt32 (ascii_bytes ''4294967295'') =
     (if dec_value (ascii_bytes ''4294967295'') \<le> 2 ^ 32 then (1, dec_value (ascii_bytes ''4294967295'') mod 2 ^ 32) else (0, 0)) \<and>
   sqlite3GetUInt32 (ascii_bytes ''4294967296'') = (1, 0)"
  by (rule sqlite3GetUInt32_correct) (simp_all add: ascii_bytes_def is_digit_def)

end
