(* ===== verification/SqliteUtf.thy ===== *)
theory SqliteUtf
  imports SqliteStrings
begin

section \<open>Common/sqlite/sqlite3.c: UTF-8 and UTF-16\<close>

text \<open>
  The routines of \<open>utf.c\<close>. Input is the list of bytes from \<open>zIn\<close> to \<open>zTerm\<close>, or to the terminating
  zero; a macro that advances a pointer returns the rest of the list, one that writes returns the
  bytes written. A character is a \<open>u32\<close>.
\<close>

subsection \<open>One character\<close>

definition sqlite3Utf8Trans1 :: "u32 list" where
  "sqlite3Utf8Trans1 =
   [0x00, 0x01, 0x02, 0x03, 0x04, 0x05, 0x06, 0x07, 0x08, 0x09, 0x0a, 0x0b, 0x0c, 0x0d, 0x0e, 0x0f,
    0x10, 0x11, 0x12, 0x13, 0x14, 0x15, 0x16, 0x17, 0x18, 0x19, 0x1a, 0x1b, 0x1c, 0x1d, 0x1e, 0x1f,
    0x00, 0x01, 0x02, 0x03, 0x04, 0x05, 0x06, 0x07, 0x08, 0x09, 0x0a, 0x0b, 0x0c, 0x0d, 0x0e, 0x0f,
    0x00, 0x01, 0x02, 0x03, 0x04, 0x05, 0x06, 0x07, 0x00, 0x01, 0x02, 0x03, 0x00, 0x01, 0x00, 0x00]"

definition WRITE_UTF8 :: "u32 \<Rightarrow> u8 list" where
  "WRITE_UTF8 c =
     (if c < 0x00080 then [ucast (c AND 0xFF)]
      else if c < 0x00800 then [0xC0 + ucast (drop_bit 6 c AND 0x1F), 0x80 + ucast (c AND 0x3F)]
      else if c < 0x10000 then
        [0xE0 + ucast (drop_bit 12 c AND 0x0F), 0x80 + ucast (drop_bit 6 c AND 0x3F), 0x80 + ucast (c AND 0x3F)]
      else
        [0xF0 + ucast (drop_bit 18 c AND 0x07), 0x80 + ucast (drop_bit 12 c AND 0x3F),
         0x80 + ucast (drop_bit 6 c AND 0x3F), 0x80 + ucast (c AND 0x3F)])"

text \<open>The buffer after the call and the number of bytes.\<close>

definition sqlite3AppendOneUtf8Character :: "(nat \<Rightarrow> u8) \<Rightarrow> u32 \<Rightarrow> (nat \<Rightarrow> u8) \<times> nat" where
  "sqlite3AppendOneUtf8Character zOut v =
     (if v < 0x00080 then (zOut(0 := ucast (v AND 0xff)), 1)
      else if v < 0x00800 then
        (zOut(0 := 0xc0 + ucast (drop_bit 6 v AND 0x1f), 1 := 0x80 + ucast (v AND 0x3f)), 2)
      else if v < 0x10000 then
        (zOut(0 := 0xe0 + ucast (drop_bit 12 v AND 0x0f), 1 := 0x80 + ucast (drop_bit 6 v AND 0x3f),
              2 := 0x80 + ucast (v AND 0x3f)), 3)
      else
        (zOut(0 := 0xf0 + ucast (drop_bit 18 v AND 0x07), 1 := 0x80 + ucast (drop_bit 12 v AND 0x3f),
              2 := 0x80 + ucast (drop_bit 6 v AND 0x3f), 3 := 0x80 + ucast (v AND 0x3f)), 4))"

fun utf8_tail :: "u32 \<Rightarrow> u8 list \<Rightarrow> u32 \<times> u8 list" where
  "utf8_tail c [] = (c, [])"
| "utf8_tail c (b # z) =
     (if b AND 0xc0 = 0x80 then utf8_tail (push_bit 6 c + ucast (0x3f AND b)) z else (c, b # z))"

definition utf8_fix :: "u32 \<Rightarrow> u32" where
  "utf8_fix c =
     (if c < 0x80 \<or> c AND 0xFFFFF800 = 0xD800 \<or> c AND 0xFFFFFFFE = 0xFFFE then 0xFFFD else c)"

definition READ_UTF8 :: "u8 list \<Rightarrow> u32 \<times> u8 list" where
  "READ_UTF8 zIn =
     (let c = ucast (at zIn 0) :: u32; zIn = tl zIn in
      if c \<ge> 0xc0
      then let c = sqlite3Utf8Trans1 ! unat (c - 0xc0); (c, zIn) = utf8_tail c zIn in (utf8_fix c, zIn)
      else (c, zIn))"

text \<open>\<open>sqlite3Utf8Read\<close> has no \<open>zTerm\<close>: the terminating zero ends the loop.\<close>

definition sqlite3Utf8Read :: "u8 list \<Rightarrow> u32 \<times> u8 list" where
  "sqlite3Utf8Read z =
     (let c = ucast (at z 0) :: u32; z = tl z in
      if c \<ge> 0xc0
      then let c = sqlite3Utf8Trans1 ! unat (c - 0xc0); (c, z) = utf8_tail c z in (utf8_fix c, z)
      else (c, z))"

fun limited_loop :: "nat \<Rightarrow> u32 \<Rightarrow> u8 list \<Rightarrow> nat \<Rightarrow> u32 \<times> nat" where
  "limited_loop 0 c z i = (c, i)"
| "limited_loop (Suc k) c z i =
     (if at z 0 AND 0xc0 = 0x80
      then limited_loop k (push_bit 6 c + ucast (0x3f AND at z 0)) (tl z) (i + 1) else (c, i))"

definition sqlite3Utf8ReadLimited :: "u8 list \<Rightarrow> nat \<Rightarrow> u32 \<times> nat" where
  "sqlite3Utf8ReadLimited z n =
     (let c = ucast (at z 0) :: u32 in
      if c \<ge> 0xc0
      then let c = sqlite3Utf8Trans1 ! unat (c - 0xc0); n = (if n > 4 then 4 else n) in
        limited_loop (n - 1) c (tl z) 1
      else (c, 1))"

fun skip_tail :: "u8 list \<Rightarrow> u8 list" where
  "skip_tail [] = []"
| "skip_tail (b # z) = (if b AND 0xc0 = 0x80 then skip_tail z else b # z)"

definition SQLITE_SKIP_UTF8 :: "u8 list \<Rightarrow> u8 list" where
  "SQLITE_SKIP_UTF8 zIn = (if at zIn 0 \<ge> 0xc0 then skip_tail (tl zIn) else tl zIn)"

lemma length_skip_tail: "length (skip_tail z) \<le> length z"
  by (induction z) auto

text \<open>\<open>nByte\<close> is what is left of the limit, or \<open>None\<close> without one.\<close>

function charlen_loop :: "u8 list \<Rightarrow> int option \<Rightarrow> nat \<Rightarrow> nat" where
  "charlen_loop z nByte r =
     (if at z 0 \<noteq> 0 \<and> (case nByte of None \<Rightarrow> True | Some n \<Rightarrow> n > 0)
      then let z' = SQLITE_SKIP_UTF8 z in
        charlen_loop z' (map_option (\<lambda>n. n - int (length z - length z')) nByte) (r + 1)
      else r)"
  by auto
termination
proof (relation "measure (\<lambda>(z, nByte, r). length z)", simp, goal_cases)
  case (1 z nByte r z')
  then have "z \<noteq> []" by auto
  then show ?case using 1 length_skip_tail [of "tl z"] by (cases z) (auto simp: SQLITE_SKIP_UTF8_def)
qed

definition sqlite3Utf8CharLen :: "u8 list \<Rightarrow> int \<Rightarrow> nat" where
  "sqlite3Utf8CharLen zIn nByte = charlen_loop zIn (if nByte \<ge> 0 then Some nByte else None) 0"

subsection \<open>UTF-16\<close>

definition WRITE_UTF16LE :: "u32 \<Rightarrow> u8 list" where
  "WRITE_UTF16LE c =
     (if c \<le> 0xFFFF then [ucast (c AND 0x00FF), ucast (drop_bit 8 c AND 0x00FF)]
      else [ucast ((drop_bit 10 c AND 0x003F) + (drop_bit 10 (c - 0x10000) AND 0x00C0)),
            ucast (0x00D8 + (drop_bit 18 (c - 0x10000) AND 0x03)),
            ucast (c AND 0x00FF), ucast (0x00DC + (drop_bit 8 c AND 0x03))])"

definition WRITE_UTF16BE :: "u32 \<Rightarrow> u8 list" where
  "WRITE_UTF16BE c =
     (if c \<le> 0xFFFF then [ucast (drop_bit 8 c AND 0x00FF), ucast (c AND 0x00FF)]
      else [ucast (0x00D8 + (drop_bit 18 (c - 0x10000) AND 0x03)),
            ucast ((drop_bit 10 c AND 0x003F) + (drop_bit 10 (c - 0x10000) AND 0x00C0)),
            ucast (0x00DC + (drop_bit 8 c AND 0x03)), ucast (c AND 0x00FF)])"

text \<open>A surrogate followed by another unit, whatever it is.\<close>

definition surrogate_pair :: "u32 \<Rightarrow> u32 \<Rightarrow> u32" where
  "surrogate_pair c c2 =
     (c2 AND 0x03FF) + push_bit 10 (c AND 0x003F) + push_bit 10 ((c AND 0x03C0) + 0x0040)"

fun utf16le_to_8 :: "u8 list \<Rightarrow> u8 list" where
  "utf16le_to_8 (b0 # b1 # z) =
     (let c = ucast b0 + push_bit 8 (ucast b1) :: u32 in
      if c \<ge> 0xd800 \<and> c < 0xe000
      then (case z of
              d0 # d1 # z' \<Rightarrow> WRITE_UTF8 (surrogate_pair c (ucast d0 + push_bit 8 (ucast d1))) @ utf16le_to_8 z'
            | _ \<Rightarrow> WRITE_UTF8 c @ utf16le_to_8 z)
      else WRITE_UTF8 c @ utf16le_to_8 z)"
| "utf16le_to_8 _ = []"

fun utf16be_to_8 :: "u8 list \<Rightarrow> u8 list" where
  "utf16be_to_8 (b0 # b1 # z) =
     (let c = push_bit 8 (ucast b0) + ucast b1 :: u32 in
      if c \<ge> 0xd800 \<and> c < 0xe000
      then (case z of
              d0 # d1 # z' \<Rightarrow> WRITE_UTF8 (surrogate_pair c (push_bit 8 (ucast d0) + ucast d1)) @ utf16be_to_8 z'
            | _ \<Rightarrow> WRITE_UTF8 c @ utf16be_to_8 z)
      else WRITE_UTF8 c @ utf16be_to_8 z)"
| "utf16be_to_8 _ = []"

lemma length_utf8_tail: "length (snd (utf8_tail c z)) \<le> length z"
  by (induction c z rule: utf8_tail.induct) auto

lemma READ_UTF8_shorter: "z \<noteq> [] \<Longrightarrow> length (snd (READ_UTF8 z)) < length z"
proof -
  assume "z \<noteq> []"
  moreover have "length (snd (READ_UTF8 z)) \<le> length (tl z)"
    using length_utf8_tail [of _ "tl z"] by (auto simp: READ_UTF8_def Let_def case_prod_unfold)
  ultimately show ?thesis by (cases z) auto
qed

function utf8_to_16 :: "(u32 \<Rightarrow> u8 list) \<Rightarrow> u8 list \<Rightarrow> u8 list" where
  "utf8_to_16 W z = (if z = [] then [] else let (c, z') = READ_UTF8 z in W c @ utf8_to_16 W z')"
  by auto
termination
proof (relation "measure (\<lambda>(W, z). length z)", simp, goal_cases)
  case (1 W z p c z')
  then show ?case using READ_UTF8_shorter [of z] by (metis in_measure case_prod_conv snd_conv)
qed

fun swap_pairs :: "u8 list \<Rightarrow> u8 list" where
  "swap_pairs (a # b # z) = b # a # swap_pairs z"
| "swap_pairs z = z"

fun utf16_skip :: "u8 list \<Rightarrow> nat \<Rightarrow> nat \<Rightarrow> nat \<Rightarrow> nat" where
  "utf16_skip z zEnd p 0 = p"
| "utf16_skip z zEnd p (Suc k) =
     (if p \<le> zEnd
      then let c = at z p; p = p + 2;
        p = (if c \<ge> 0xd8 \<and> c < 0xdc \<and> p \<le> zEnd \<and> at z p \<ge> 0xdc \<and> at z p < 0xe0 then p + 2 else p) in
        utf16_skip z zEnd p k
      else p)"

text \<open>The native encoding of Windows is little endian: the high bytes are at odd positions.\<close>

definition sqlite3Utf16ByteLen :: "u8 list \<Rightarrow> nat \<Rightarrow> nat \<Rightarrow> nat" where
  "sqlite3Utf16ByteLen z nByte nChar = (if nByte = 0 then 0 else utf16_skip z (nByte - 1) 1 nChar - 1)"

subsection \<open>Converting a value\<close>

text \<open>The fields of \<open>Mem\<close> the conversion uses; \<open>m_z\<close> holds the \<open>n\<close> bytes of the text.\<close>

record mem =
  m_flags :: u16
  m_enc :: encoding
  m_z :: "u8 list"

definition MEM_Str :: u16 where "MEM_Str = 0x0002"
definition MEM_AffMask :: u16 where "MEM_AffMask = 0x003f"
definition MEM_Term :: u16 where "MEM_Term = 0x0200"
definition MEM_Subtype :: u16 where "MEM_Subtype = 0x0800"
definition SQLITE_OK :: int where "SQLITE_OK = 0"
definition SQLITE_NOMEM :: int where "SQLITE_NOMEM = 7"

definition even_prefix :: "u8 list \<Rightarrow> u8 list" where
  "even_prefix z = take (2 * (length z div 2)) z"

text \<open>\<open>ok\<close>: the memory for a writeable or a new text could be had.\<close>

definition sqlite3VdbeMemTranslate :: "bool \<Rightarrow> mem \<Rightarrow> encoding \<Rightarrow> int \<times> mem" where
  "sqlite3VdbeMemTranslate ok pMem desiredEnc =
     (if m_enc pMem \<noteq> SQLITE_UTF8 \<and> desiredEnc \<noteq> SQLITE_UTF8
      then if \<not> ok then (SQLITE_NOMEM, pMem)
        else let e = even_prefix (m_z pMem) in
          (SQLITE_OK, pMem\<lparr> m_z := swap_pairs e @ drop (length e) (m_z pMem), m_enc := desiredEnc \<rparr>)
      else
        let pMem = (if desiredEnc = SQLITE_UTF8 then pMem\<lparr> m_z := even_prefix (m_z pMem) \<rparr> else pMem) in
        if \<not> ok then (SQLITE_NOMEM, pMem)
        else let out = (if m_enc pMem = SQLITE_UTF8
                        then (if desiredEnc = SQLITE_UTF16LE then utf8_to_16 WRITE_UTF16LE (m_z pMem)
                              else utf8_to_16 WRITE_UTF16BE (m_z pMem))
                        else if m_enc pMem = SQLITE_UTF16LE then utf16le_to_8 (m_z pMem)
                        else utf16be_to_8 (m_z pMem));
               c = MEM_Str OR MEM_Term OR (m_flags pMem AND (MEM_AffMask OR MEM_Subtype)) in
          (SQLITE_OK, pMem\<lparr> m_flags := c, m_enc := desiredEnc, m_z := out \<rparr>))"

definition sqlite3VdbeMemHandleBom :: "bool \<Rightarrow> mem \<Rightarrow> int \<times> mem" where
  "sqlite3VdbeMemHandleBom ok pMem =
     (let z = m_z pMem; b1 = at z 0; b2 = at z 1;
          bom = (if length z > 1 \<and> b1 = 0xFF \<and> b2 = 0xFE then Some SQLITE_UTF16LE
                 else if length z > 1 \<and> b1 = 0xFE \<and> b2 = 0xFF then Some SQLITE_UTF16BE else None) in
      case bom of
        None \<Rightarrow> (SQLITE_OK, pMem)
      | Some e \<Rightarrow> if ok then (SQLITE_OK, pMem\<lparr> m_z := drop 2 z, m_flags := m_flags pMem OR MEM_Term, m_enc := e \<rparr>)
                  else (SQLITE_NOMEM, pMem))"

end
