(* ===== verification/SqliteUtf_Props.thy ===== *)
theory SqliteUtf_Props
  imports SqliteUtf
begin

section \<open>Characters written and read back\<close>

text \<open>
  Each encoding is read back by its decoder: bit by bit for one character, then for texts of
  characters that are neither surrogates nor \<open>U+FFFE\<close> or \<open>U+FFFF\<close>.
\<close>

subsection \<open>The bytes of UTF-8\<close>

lemma no_bits_beyond: "unat (c :: 'a::len word) < 2 ^ k \<Longrightarrow> k \<le> n \<Longrightarrow> \<not> bit c n"
proof -
  assume "unat c < 2 ^ k" "k \<le> n"
  then have "drop_bit k c = 0" by (simp add: drop_bit_eq_0)
  then have "\<not> bit (drop_bit k c) (n - k)" by simp
  then show ?thesis using \<open>k \<le> n\<close> by (simp add: bit_drop_bit_eq)
qed

lemma add_as_or: "(a :: 'a::len word) AND b = 0 \<Longrightarrow> a + b = a OR b"
  by (rule disjunctive_add_eq_or)

lemma low_mask: "(0x3f :: u32) = mask 6" "(0xc0 :: u8) = push_bit 6 (mask 2)"
  by (simp_all add: mask_eq_exp_minus_1)

lemma cont_byte: "0x80 + ucast (d AND (0x3F :: u32)) = (0x80 OR ucast (d AND 0x3F) :: u8)"
  by (rule add_as_or, rule word8_eqI, simp only: list.pred_inject) (simp add: bit_simps low_mask)

lemma cont_byte_tail [simp]:
  "utf8_tail c ((0x80 + ucast (d AND (0x3F :: u32))) # z) = utf8_tail (push_bit 6 c OR (d AND 0x3F)) z"
proof -
  have c: "(0x80 OR ucast (d AND 0x3F) :: u8) AND 0xc0 = 0x80"
    by (rule word8_eqI, simp only: list.pred_inject) (simp add: bit_simps low_mask)
  have l: "ucast (0x3f AND (0x80 OR ucast (d AND 0x3F)) :: u8) = d AND (0x3F :: u32)"
    by (rule word32_eqI, simp only: list.pred_inject) (simp add: bit_simps byte_masks)
  have "push_bit 6 c + (d AND 0x3F) = push_bit 6 c OR (d AND 0x3F)"
    by (rule add_as_or, rule word32_eqI, simp only: list.pred_inject) (simp add: bit_simps byte_masks)
  then show ?thesis unfolding cont_byte by (simp add: c l)
qed

definition not_cont :: "u8 list \<Rightarrow> bool" where
  "not_cont z \<longleftrightarrow> z = [] \<or> hd z AND 0xc0 \<noteq> 0x80"

lemma tail_stop [simp]: "not_cont z \<Longrightarrow> utf8_tail c z = (c, z)"
  by (cases z) (simp_all add: not_cont_def)

text \<open>The table gives the payload of a lead byte.\<close>

lemma trans_table:
  "list_all (\<lambda>n. sqlite3Utf8Trans1 ! (0 + n) = of_nat n) [0..<32]"
  "list_all (\<lambda>n. sqlite3Utf8Trans1 ! (32 + n) = of_nat n) [0..<16]"
  "list_all (\<lambda>n. sqlite3Utf8Trans1 ! (48 + n) = of_nat n) [0..<8]"
  by (simp_all add: upt_rec sqlite3Utf8Trans1_def)

lemma trans_lead:
  assumes "unat (x :: u8) < k" "list_all (\<lambda>n. sqlite3Utf8Trans1 ! (m + n) = of_nat n) [0..<k]" "m + k \<le> 64"
  shows "(0xc0 :: u32) \<le> ucast (of_nat (0xC0 + m) + x)"
    and "sqlite3Utf8Trans1 ! unat (ucast (of_nat (0xC0 + m) + x) - (0xc0 :: u32)) = ucast x"
proof -
  have b: "unat (of_nat (0xC0 + m) + x :: u8) = 0xC0 + m + unat x"
  proof -
    have m: "unat (of_nat (0xC0 + m) :: u8) = 0xC0 + m" using assms(1,3) by (simp only: unat_of_nat) simp
    then have "unat (of_nat (0xC0 + m) :: u8) + unat x < 2 ^ LENGTH(8)" using assms(1,3) by simp
    then have "unat (of_nat (0xC0 + m) + x) = unat (of_nat (0xC0 + m) :: u8) + unat x" by (simp only: unat_add_lem)
    then show ?thesis unfolding m .
  qed
  then have u: "unat (ucast (of_nat (0xC0 + m) + x) :: u32) = 0xC0 + m + unat x"
    using assms(1,3) by (simp only: unsigned_ucast_eq b) (simp add: take_bit_nat_eq_self)
  then show "(0xc0 :: u32) \<le> ucast (of_nat (0xC0 + m) + x)" by (simp add: word_le_nat_alt)
  then have "unat (ucast (of_nat (0xC0 + m) + x) - (0xc0 :: u32)) = m + unat x"
    using u by (simp add: unat_sub)
  moreover have "sqlite3Utf8Trans1 ! (m + unat x) = of_nat (unat x)" using assms(1,2) by (auto simp: list_all_iff)
  ultimately show "sqlite3Utf8Trans1 ! unat (ucast (of_nat (0xC0 + m) + x) - (0xc0 :: u32)) = ucast x" by simp
qed

lemmas lead_2 = trans_lead [of _ 32 0] and lead_3 = trans_lead [of _ 16 32] and lead_4 = trans_lead [of _ 8 48]

lemma small_payload:
  "unat (ucast (d AND (0x1F :: u32)) :: u8) < 32" "unat (ucast (d AND (0x0F :: u32)) :: u8) < 16"
  "unat (ucast (d AND (0x07 :: u32)) :: u8) < 8"
proof -
  have "unat (ucast (d AND mask k :: u32) :: u8) < 2 ^ k" if "k < 8" for k
  proof -
    have "ucast (d AND mask k :: u32) = (ucast d AND mask k :: u8)"
      by (rule bit_word_eqI) (auto simp: bit_simps)
    then show ?thesis using that by (simp add: flip: take_bit_eq_mask) (simp add: unsigned_take_bit_eq)
  qed
  from this [of 5] this [of 4] this [of 3] show
    "unat (ucast (d AND (0x1F :: u32)) :: u8) < 32" "unat (ucast (d AND (0x0F :: u32)) :: u8) < 16"
    "unat (ucast (d AND (0x07 :: u32)) :: u8) < 8"
    by (simp_all add: mask_eq_exp_minus_1)
qed

lemma payload_id:
  "(ucast (ucast (d AND (0x1F :: u32)) :: u8) :: u32) = d AND 0x1F" "(ucast (ucast (d AND (0x0F :: u32)) :: u8) :: u32) = d AND 0x0F"
  "(ucast (ucast (d AND (0x07 :: u32)) :: u8) :: u32) = d AND 0x07"
  by (rule word32_eqI, simp only: list.pred_inject, simp add: bit_simps byte_masks mask_eq_exp_minus_1 [of 3, symmetric])+

lemma join_2: "unat c < 2 ^ 11 \<Longrightarrow> push_bit 6 (drop_bit 6 c AND 0x1F) OR (c AND 0x3F) = (c :: u32)"
  by (rule word32_eqI, simp only: list.pred_inject) (simp add: bit_simps byte_masks no_bits_beyond [where k = 11])

lemma join_3: "unat c < 2 ^ 16 \<Longrightarrow>
  push_bit 6 (push_bit 6 (drop_bit 12 c AND 0x0F) OR (drop_bit 6 c AND 0x3F)) OR (c AND 0x3F) = (c :: u32)"
  by (rule word32_eqI, simp only: list.pred_inject) (simp add: bit_simps byte_masks no_bits_beyond [where k = 16])

lemma join_4: "unat c < 2 ^ 21 \<Longrightarrow>
  push_bit 6 (push_bit 6 (push_bit 6 (drop_bit 18 c AND 0x07) OR (drop_bit 12 c AND 0x3F)) OR (drop_bit 6 c AND 0x3F)) OR
    (c AND 0x3F) = (c :: u32)"
  by (rule word32_eqI, simp only: list.pred_inject)
    (simp add: bit_simps byte_masks mask_eq_exp_minus_1 [of 3, symmetric] no_bits_beyond [where k = 21])

text \<open>Reading the bytes of a character gives the character, as far as \<open>utf8_fix\<close> lets it.\<close>

lemma READ_UTF8_lead:
  assumes "(0xc0 :: u32) \<le> ucast l" "sqlite3Utf8Trans1 ! unat (ucast l - (0xc0 :: u32)) = p"
  shows "READ_UTF8 (l # z) = (let (c, z') = utf8_tail p z in (utf8_fix c, z'))"
  using assms by (simp add: READ_UTF8_def)

lemma READ_WRITE_UTF8:
  assumes "unat c < 0x110000" "not_cont z"
  shows "READ_UTF8 (WRITE_UTF8 c @ z) = (if c < 0x80 then c else utf8_fix c, z)"
proof -
  consider "c < 0x80" | "\<not> c < 0x80" "c < 0x800" | "\<not> c < 0x800" "c < 0x10000" | "\<not> c < 0x10000" by blast
  then show ?thesis
  proof cases
    case 1
    have "ucast (ucast (c AND 0xFF) :: u8) = c"
    proof (rule bit_word_eqI)
      fix n assume "n < LENGTH(32)"
      have "\<not> bit c n" if "7 \<le> n" using 1 that no_bits_beyond [of c 7 n] by (simp add: word_less_nat_alt)
      then show "bit (ucast (ucast (c AND 0xFF) :: u8) :: u32) n = bit c n"
        by (cases "7 \<le> n") (auto simp: bit_simps byte_masks)
    qed
    then show ?thesis using 1 by (simp add: WRITE_UTF8_def READ_UTF8_def Let_def word_le_nat_alt word_less_nat_alt)
  next
    case 2
    have n: "unat c < 2 ^ 11" using 2 assms(1) by (simp_all add: word_less_nat_alt)
    then have W: "WRITE_UTF8 c @ z = (0xC0 + ucast (drop_bit 6 c AND 0x1F)) # (0x80 + ucast (c AND 0x3F)) # z"
      using 2 by (simp add: WRITE_UTF8_def)
    note l = lead_2 [OF small_payload(1) trans_table(1), of "drop_bit 6 c"]
    have l1: "(0xc0 :: u32) \<le> ucast (0xC0 + ucast (drop_bit 6 c AND 0x1F) :: u8)"
      "sqlite3Utf8Trans1 ! unat (ucast (0xC0 + ucast (drop_bit 6 c AND 0x1F) :: u8) - (0xc0 :: u32)) = drop_bit 6 c AND 0x1F"
      using l by (simp_all add: payload_id)
    show ?thesis
      unfolding W READ_UTF8_lead [OF l1] cont_byte_tail tail_stop [OF assms(2)] Let_def prod.case join_2 [OF n(1)]
      using n 2 by simp
  next
    case 3
    have n: "unat c < 2 ^ 16" "\<not> c < 0x80" using 3 assms(1) by (simp_all add: word_less_nat_alt)
    then have W: "WRITE_UTF8 c @ z = (0xE0 + ucast (drop_bit 12 c AND 0x0F)) # (0x80 + ucast (drop_bit 6 c AND 0x3F)) # (0x80 + ucast (c AND 0x3F)) # z"
      using 3 by (simp add: WRITE_UTF8_def)
    note l = lead_3 [OF small_payload(2) trans_table(2), of "drop_bit 12 c"]
    have l1: "(0xc0 :: u32) \<le> ucast (0xE0 + ucast (drop_bit 12 c AND 0x0F) :: u8)"
      "sqlite3Utf8Trans1 ! unat (ucast (0xE0 + ucast (drop_bit 12 c AND 0x0F) :: u8) - (0xc0 :: u32)) = drop_bit 12 c AND 0x0F"
      using l by (simp_all add: payload_id)
    show ?thesis
      unfolding W READ_UTF8_lead [OF l1] cont_byte_tail tail_stop [OF assms(2)] Let_def prod.case join_3 [OF n(1)]
      using n 3 by simp
  next
    case 4
    have n: "unat c < 2 ^ 21" "\<not> c < 0x80" "\<not> c < 0x800" using 4 assms(1) by (simp_all add: word_less_nat_alt)
    then have W: "WRITE_UTF8 c @ z = (0xF0 + ucast (drop_bit 18 c AND 0x07)) # (0x80 + ucast (drop_bit 12 c AND 0x3F)) # (0x80 + ucast (drop_bit 6 c AND 0x3F)) # (0x80 + ucast (c AND 0x3F)) # z"
      using 4 by (simp add: WRITE_UTF8_def)
    note l = lead_4 [OF small_payload(3) trans_table(3), of "drop_bit 18 c"]
    have l1: "(0xc0 :: u32) \<le> ucast (0xF0 + ucast (drop_bit 18 c AND 0x07) :: u8)"
      "sqlite3Utf8Trans1 ! unat (ucast (0xF0 + ucast (drop_bit 18 c AND 0x07) :: u8) - (0xc0 :: u32)) = drop_bit 18 c AND 0x07"
      using l by (simp_all add: payload_id)
    show ?thesis
      unfolding W READ_UTF8_lead [OF l1] cont_byte_tail tail_stop [OF assms(2)] Let_def prod.case join_4 [OF n(1)]
      using n 4 by simp
  qed
qed

subsection \<open>The units of UTF-16\<close>

lemma unit_masks: "(0x3FF :: u32) = mask 10" "(0xC0 :: u32) = push_bit 6 (mask 2)" "(0x3C0 :: u32) = push_bit 6 (mask 4)"
  "(3 :: u32) = mask 2"
  by (simp_all add: mask_eq_exp_minus_1)

text \<open>The bytes of a unit below \<open>0x10000\<close>, and the two units of a larger character.\<close>

definition unit :: "u8 \<Rightarrow> u8 \<Rightarrow> u32" where
  "unit lo hi = ucast lo + push_bit 8 (ucast hi)"

lemma unit_or: "unit lo hi = ucast lo OR push_bit 8 (ucast hi)"
  unfolding unit_def by (rule add_as_or, rule word32_eqI, simp only: list.pred_inject) (simp add: bit_simps)

lemma unit_small:
  assumes "c \<le> 0xFFFF"
  shows "unit (ucast (c AND 0x00FF)) (ucast (drop_bit 8 c AND 0x00FF)) = c"
proof -
  have "unat c < 2 ^ 16" using assms by (simp add: word_le_nat_alt)
  then show ?thesis unfolding unit_or
    by (intro word32_eqI, simp only: list.pred_inject) (simp add: bit_simps byte_masks no_bits_beyond [where k = 16])
qed

lemma low_16: "n < 16 \<Longrightarrow> bit (w + 0x10000 :: u32) n = bit w n"
proof -
  have "unat (take_bit 16 (w + 0x10000)) = (unat w + 65536) mod 4294967296 mod 65536"
    by (simp only: unsigned_take_bit_eq take_bit_eq_mod unat_word_ariths) simp
  also have "\<dots> = unat w mod 65536" by (simp add: mod_mod_cancel)
  also have "\<dots> = unat (take_bit 16 w)" by (simp only: unsigned_take_bit_eq take_bit_eq_mod) (simp add: unat_mod)
  finally have "take_bit 16 (w + 0x10000) = take_bit 16 w" by (simp only: word_unat_eq_iff)
  then have "bit (take_bit 16 (w + 0x10000)) n = bit (take_bit 16 w) n" by simp
  then show "n < 16 \<Longrightarrow> ?thesis" by (simp add: bit_take_bit_iff)
qed

lemma surrogate_units:
  assumes "unat w < 2 ^ 20"
  shows "unit (ucast ((drop_bit 10 (w + 0x10000) AND 0x003F) + (drop_bit 10 w AND 0x00C0)))
      (ucast (0x00D8 + (drop_bit 18 w AND 0x03))) = 0xD800 OR drop_bit 10 w"
    and "unit (ucast ((w + 0x10000) AND 0x00FF)) (ucast (0x00DC + (drop_bit 8 (w + 0x10000) AND 0x03))) = 0xDC00 OR (w AND 0x3FF)"
proof -
  have a: "(drop_bit 10 (w + 0x10000) AND 0x003F) + (drop_bit 10 w AND 0x00C0) = (drop_bit 10 w AND 0xFF)"
    by (subst add_as_or; rule word32_eqI, simp only: list.pred_inject) (simp_all add: bit_simps byte_masks unit_masks low_16)
  have h: "0x00D8 + (drop_bit 18 w AND 0x03) = 0xD8 OR (drop_bit 18 w AND 0x03)"
    "0x00DC + (drop_bit 8 (w + 0x10000) AND 0x03) = 0xDC OR (drop_bit 8 w AND 0x03)"
    by (subst add_as_or; rule word32_eqI, simp only: list.pred_inject; simp add: bit_simps unit_masks low_16)+
  have l: "(w + 0x10000) AND 0xFF = w AND 0xFF"
    by (rule word32_eqI, simp only: list.pred_inject) (simp add: bit_simps byte_masks low_16)
  show "unit (ucast ((drop_bit 10 (w + 0x10000) AND 0x003F) + (drop_bit 10 w AND 0x00C0)))
      (ucast (0x00D8 + (drop_bit 18 w AND 0x03))) = 0xD800 OR drop_bit 10 w"
    unfolding a h unit_or by (rule word32_eqI, simp only: list.pred_inject)
      (simp add: bit_simps byte_masks unit_masks no_bits_beyond [OF assms])
  show "unit (ucast ((w + 0x10000) AND 0x00FF)) (ucast (0x00DC + (drop_bit 8 (w + 0x10000) AND 0x03))) = 0xDC00 OR (w AND 0x3FF)"
    unfolding l h unit_or by (rule word32_eqI, simp only: list.pred_inject)
      (simp add: bit_simps byte_masks unit_masks)
qed

lemma surrogate_pair_units:
  assumes "unat w < 2 ^ 20"
  shows "surrogate_pair (0xD800 OR drop_bit 10 w) (0xDC00 OR (w AND 0x3FF)) = w + 0x10000"
proof -
  let ?a = "(0xDC00 OR (w AND 0x3FF)) AND 0x03FF :: u32"
  let ?b = "push_bit 10 ((0xD800 OR drop_bit 10 w) AND 0x003F) :: u32"
  let ?c = "push_bit 10 ((0xD800 OR drop_bit 10 w) AND 0x03C0) :: u32"
  have "push_bit 10 (((0xD800 OR drop_bit 10 w) AND 0x03C0) + 0x0040) = ?c + 0x10000"
    by (simp add: push_bit_add)
  moreover have "?a + ?b = ?a OR ?b"
    by (rule add_as_or, rule word32_eqI, simp only: list.pred_inject) (simp add: bit_simps byte_masks unit_masks)
  moreover have "(?a OR ?b) + ?c = (?a OR ?b) OR ?c"
    by (rule add_as_or, rule word32_eqI, simp only: list.pred_inject) (simp add: bit_simps byte_masks unit_masks)
  moreover have "(?a OR ?b) OR ?c = w"
    by (rule word32_eqI, simp only: list.pred_inject) (simp add: bit_simps byte_masks unit_masks no_bits_beyond [OF assms])
  ultimately show ?thesis unfolding surrogate_pair_def by (simp add: add.assoc [symmetric])
qed

subsection \<open>Texts\<close>

definition valid_char :: "u32 \<Rightarrow> bool" where
  "valid_char c \<longleftrightarrow> unat c < 0x110000 \<and> c AND 0xFFFFF800 \<noteq> 0xD800 \<and> c AND 0xFFFFFFFE \<noteq> 0xFFFE"

definition encode :: "(u32 \<Rightarrow> u8 list) \<Rightarrow> u32 list \<Rightarrow> u8 list" where
  "encode W cs = concat (map W cs)"

lemma encode_simps [simp]: "encode W [] = []" "encode W (c # cs) = W c @ encode W cs"
  by (simp_all add: encode_def)

lemma valid_char_fix: "valid_char c \<Longrightarrow> (if c < 0x80 then c else utf8_fix c) = c"
  by (simp add: valid_char_def utf8_fix_def)

lemma surrogate_range: "c AND 0xFFFFF800 = 0xD800 \<longleftrightarrow> 0xd800 \<le> c \<and> c < (0xe000 :: u32)"
proof -
  have "c AND 0xFFFFF800 = push_bit 11 (drop_bit 11 c)"
  proof -
    have "(0xFFFFF800 :: u32) = push_bit 11 (mask 21)" by (simp add: mask_eq_exp_minus_1)
    then show ?thesis by (simp only:) (rule word32_eqI, simp only: list.pred_inject, simp add: bit_simps)
  qed
  moreover have "(0xD800 :: u32) = push_bit 11 27" by simp
  moreover have "push_bit 11 (drop_bit 11 c) = push_bit 11 27 \<longleftrightarrow> drop_bit 11 c = 27"
  proof
    assume "push_bit 11 (drop_bit 11 c) = (push_bit 11 27 :: u32)"
    then have "drop_bit 11 (push_bit 11 (drop_bit 11 c)) = drop_bit 11 (push_bit 11 27 :: u32)" by simp
    moreover have "drop_bit 11 (push_bit 11 (drop_bit 11 c)) = drop_bit 11 c"
      by (rule bit_word_eqI) (auto simp: bit_simps dest: bit_imp_le_length)
    ultimately show "drop_bit 11 c = 27" by simp
  qed simp
  moreover have "drop_bit 11 c = 27 \<longleftrightarrow> unat c div 2048 = 27"
    unfolding word_unat_eq_iff unat_drop_bit by simp
  moreover have "\<dots> \<longleftrightarrow> 0xd800 \<le> unat c \<and> unat c < 0xe000" by (auto simp: div_nat_eqI)
  ultimately show ?thesis by (simp add: word_le_nat_alt word_less_nat_alt)
qed

lemma bit_6_lead: "bit (b :: u8) 6 \<Longrightarrow> b AND 0xc0 \<noteq> 0x80"
proof
  assume "bit b 6" "b AND 0xc0 = 0x80"
  then have "bit (b AND 0xc0) 6 = bit (0x80 :: u8) 6" by simp
  then show False using \<open>bit b 6\<close> by (simp add: bit_simps low_mask)
qed

lemma lead_bytes:
  "bit (0xC0 + ucast (d AND (0x1F :: u32)) :: u8) 6" "bit (0xE0 + ucast (d AND (0x0F :: u32)) :: u8) 6"
  "bit (0xF0 + ucast (d AND (0x07 :: u32)) :: u8) 6"
proof -
  have "0xC0 + ucast (d AND 0x1F) = (0xC0 OR ucast (d AND (0x1F :: u32)) :: u8)"
    "0xE0 + ucast (d AND 0x0F) = (0xE0 OR ucast (d AND (0x0F :: u32)) :: u8)"
    "0xF0 + ucast (d AND 0x07) = (0xF0 OR ucast (d AND (0x07 :: u32)) :: u8)"
    by (rule add_as_or, rule word8_eqI, simp only: list.pred_inject,
        simp add: bit_simps byte_masks mask_eq_exp_minus_1 [of 3, symmetric])+
  then show "bit (0xC0 + ucast (d AND (0x1F :: u32)) :: u8) 6" "bit (0xE0 + ucast (d AND (0x0F :: u32)) :: u8) 6"
    "bit (0xF0 + ucast (d AND (0x07 :: u32)) :: u8) 6" by (simp_all only:) (simp_all add: bit_simps)
qed

lemma WRITE_UTF8_starts: "unat c < 0x110000 \<Longrightarrow> not_cont (WRITE_UTF8 c @ z)"
proof -
  have "ucast (c AND 0xFF) AND (0xc0 :: u8) \<noteq> 0x80" if "c < 0x80"
  proof
    assume "ucast (c AND 0xFF) AND (0xc0 :: u8) = 0x80"
    then have "bit (ucast (c AND 0xFF) AND (0xc0 :: u8)) 7 = bit (0x80 :: u8) 7" by simp
    moreover have "\<not> bit c 7" using that no_bits_beyond [of c 7 7] by (simp add: word_less_nat_alt)
    ultimately show False by (simp add: bit_simps)
  qed
  then show ?thesis using lead_bytes bit_6_lead by (simp add: not_cont_def WRITE_UTF8_def)
qed

lemma encode_starts: "\<forall>c \<in> set cs. valid_char c \<Longrightarrow> not_cont z \<Longrightarrow> not_cont (encode WRITE_UTF8 cs @ z)"
  using WRITE_UTF8_starts by (cases cs) (auto simp: valid_char_def)

declare utf8_to_16.simps [simp del]

lemma WRITE_UTF8_ne [simp]: "WRITE_UTF8 c \<noteq> []"
  by (simp add: WRITE_UTF8_def)

lemma utf8_to_16_encode: "\<forall>c \<in> set cs. valid_char c \<Longrightarrow> utf8_to_16 W (encode WRITE_UTF8 cs) = encode W cs"
proof (induction cs)
  case Nil
  then show ?case by (simp add: utf8_to_16.simps)
next
  case (Cons c cs)
  have "READ_UTF8 (WRITE_UTF8 c @ encode WRITE_UTF8 cs) = (c, encode WRITE_UTF8 cs)"
    using Cons.prems encode_starts [of cs "[]"] valid_char_fix [of c]
    by (subst READ_WRITE_UTF8) (simp_all add: valid_char_def not_cont_def)
  then show ?case using Cons by (subst utf8_to_16.simps) simp
qed

lemma large_char:
  assumes "\<not> (c :: u32) \<le> 0xFFFF" "unat c < 0x110000"
  obtains w where "c = w + 0x10000" "c - 0x10000 = w" "unat w < 2 ^ 20"
proof
  show "c = (c - 0x10000) + 0x10000" "c - 0x10000 = c - 0x10000" by simp_all
  show "unat (c - 0x10000) < 2 ^ 20" using assms by (simp add: unat_sub word_le_nat_alt)
qed

lemma high_surrogate:
  assumes "unat w < 2 ^ 20"
  shows "0xd800 \<le> 0xD800 OR drop_bit 10 w \<and> 0xD800 OR drop_bit 10 w < (0xe000 :: u32)"
proof -
  have d: "unat (drop_bit 10 w) < 1024" using assms by (simp add: unat_drop_bit less_mult_imp_div_less)
  have "0xD800 AND drop_bit 10 w = 0"
    by (rule word32_eqI, simp only: list.pred_inject) (simp add: bit_simps no_bits_beyond [OF assms])
  then have "0xD800 OR drop_bit 10 w = 0xD800 + drop_bit 10 w" by (rule add_as_or [symmetric])
  moreover have "unat (0xD800 + drop_bit 10 w) = 0xD800 + unat (drop_bit 10 w)"
    using d by (subst unat_add_lem [THEN iffD1]) simp_all
  ultimately show ?thesis using d by (simp add: word_le_nat_alt word_less_nat_alt)
qed

lemma utf16le_char:
  assumes "valid_char c"
  shows "utf16le_to_8 (WRITE_UTF16LE c @ z) = WRITE_UTF8 c @ utf16le_to_8 z"
proof (cases "c \<le> 0xFFFF")
  case True
  then show ?thesis using assms unit_small [OF True] surrogate_range [of c]
    by (auto simp: WRITE_UTF16LE_def unit_def valid_char_def Let_def)
next
  case False
  then obtain w where w: "c = w + 0x10000" "c - 0x10000 = w" "unat w < 2 ^ 20"
    using large_char assms by (auto simp: valid_char_def)
  show ?thesis using False surrogate_units [OF w(3)] surrogate_pair_units [OF w(3)] high_surrogate [OF w(3)]
    unfolding w(1) by (simp add: WRITE_UTF16LE_def unit_def Let_def)
qed

lemma utf16be_char:
  assumes "valid_char c"
  shows "utf16be_to_8 (WRITE_UTF16BE c @ z) = WRITE_UTF8 c @ utf16be_to_8 z"
proof (cases "c \<le> 0xFFFF")
  case True
  then show ?thesis using assms unit_small [OF True] surrogate_range [of c]
    by (auto simp: WRITE_UTF16BE_def unit_def valid_char_def Let_def add.commute)
next
  case False
  then obtain w where w: "c = w + 0x10000" "c - 0x10000 = w" "unat w < 2 ^ 20"
    using large_char assms by (auto simp: valid_char_def)
  show ?thesis using False surrogate_units [OF w(3)] surrogate_pair_units [OF w(3)] high_surrogate [OF w(3)]
    unfolding w(1) by (simp add: WRITE_UTF16BE_def unit_def Let_def add.commute)
qed

lemma utf16_to_8_encode:
  assumes "\<forall>c \<in> set cs. valid_char c"
  shows "utf16le_to_8 (encode WRITE_UTF16LE cs) = encode WRITE_UTF8 cs"
    and "utf16be_to_8 (encode WRITE_UTF16BE cs) = encode WRITE_UTF8 cs"
  using assms by (induction cs) (simp_all add: utf16le_char utf16be_char)

lemma even_encode:
  "even_prefix (encode WRITE_UTF16LE cs) = encode WRITE_UTF16LE cs"
  "even_prefix (encode WRITE_UTF16BE cs) = encode WRITE_UTF16BE cs"
proof -
  have "even (length (encode WRITE_UTF16LE cs))" "even (length (encode WRITE_UTF16BE cs))"
    by (induction cs) (simp_all add: WRITE_UTF16LE_def WRITE_UTF16BE_def)
  then show "even_prefix (encode WRITE_UTF16LE cs) = encode WRITE_UTF16LE cs"
    "even_prefix (encode WRITE_UTF16BE cs) = encode WRITE_UTF16BE cs" by (simp_all add: even_prefix_def)
qed

lemma swap_encode: "swap_pairs (encode WRITE_UTF16LE cs) = encode WRITE_UTF16BE cs"
  "swap_pairs (encode WRITE_UTF16BE cs) = encode WRITE_UTF16LE cs"
  by (induction cs) (simp_all add: WRITE_UTF16LE_def WRITE_UTF16BE_def)

fun writer :: "encoding \<Rightarrow> u32 \<Rightarrow> u8 list" where
  "writer SQLITE_UTF8 = WRITE_UTF8" | "writer SQLITE_UTF16LE = WRITE_UTF16LE" | "writer SQLITE_UTF16BE = WRITE_UTF16BE"



lemma slice_fun_small:
  "slice_fun f 0 1 = [f 0]" "slice_fun f 0 2 = [f 0, f 1]" "slice_fun f 0 3 = [f 0, f 1, f 2]"
  "slice_fun f 0 4 = [f 0, f 1, f 2, f 3]"
  by (simp_all add: slice_fun_def eval_nat_numeral)

lemma AppendOneUtf8Character_slice:
  "case sqlite3AppendOneUtf8Character buf c of (buf', n) \<Rightarrow>
     slice_fun buf' 0 n = WRITE_UTF8 c \<and> (\<forall>i \<ge> n. buf' i = buf i)"
proof -
  consider "c < 0x80" | "\<not> c < 0x80" "c < 0x800" | "\<not> c < 0x80" "\<not> c < 0x800" "c < 0x10000"
    | "\<not> c < 0x80" "\<not> c < 0x800" "\<not> c < 0x10000" by blast
  then show ?thesis
    by cases (simp_all only: sqlite3AppendOneUtf8Character_def WRITE_UTF8_def slice_fun_small if_True if_False
        prod.case refl simp_thms fun_upd_apply list.inject, simp_all)
qed

text \<open>C29: \<open>sqlite3Utf8Read\<close> reads back what \<open>WRITE_UTF8\<close> and \<open>sqlite3AppendOneUtf8Character\<close> write for any
  character below \<open>0x110000\<close>, and stops behind it; only surrogates, \<open>U+FFFE\<close> and \<open>U+FFFF\<close> come back
  as \<open>U+FFFD\<close>.\<close>

theorem sqlite3Utf8Read_roundtrip:
  assumes "unat c < 0x110000"
  shows "sqlite3Utf8Read (WRITE_UTF8 c @ 0 # z) = (if valid_char c then c else 0xFFFD, 0 # z) \<and>
    (case sqlite3AppendOneUtf8Character buf c of (buf', n) \<Rightarrow>
       slice_fun buf' 0 n = WRITE_UTF8 c \<and> (\<forall>i \<ge> n. buf' i = buf i))"
proof
  have "not_cont (0 # z)" by (simp add: not_cont_def)
  then have r: "READ_UTF8 (WRITE_UTF8 c @ 0 # z) = (if c < 0x80 then c else utf8_fix c, 0 # z)"
    using assms by (rule READ_WRITE_UTF8 [rotated])
  have "valid_char c" if "c < 0x80"
  proof -
    have "c AND 0xFFFFFFFE \<le> c" by (rule word_and_le2)
    then have "c AND 0xFFFFFFFE < 0x80" using that by simp
    then have "c AND 0xFFFFFFFE \<noteq> 0xFFFE" by auto
    moreover have "c AND 0xFFFFF800 \<noteq> 0xD800" using that by (auto simp: surrogate_range word_le_nat_alt word_less_nat_alt)
    ultimately show ?thesis using that by (simp add: valid_char_def word_less_nat_alt)
  qed
  moreover have "utf8_fix c = (if valid_char c then c else 0xFFFD)" if "\<not> c < 0x80"
    using that assms by (auto simp: utf8_fix_def valid_char_def)
  ultimately show "sqlite3Utf8Read (WRITE_UTF8 c @ 0 # z) = (if valid_char c then c else 0xFFFD, 0 # z)"
    using r by (auto simp: sqlite3Utf8Read_def READ_UTF8_def)
  show "case sqlite3AppendOneUtf8Character buf c of (buf', n) \<Rightarrow>
       slice_fun buf' 0 n = WRITE_UTF8 c \<and> (\<forall>i \<ge> n. buf' i = buf i)"
    by (rule AppendOneUtf8Character_slice)
qed

theorem sqlite3Utf8Read_roundtrip_witness:
  "sqlite3Utf8Read (WRITE_UTF8 0x20AC @ 0 # [7]) = (if valid_char 0x20AC then 0x20AC else 0xFFFD, 0 # [7]) \<and>
    (case sqlite3AppendOneUtf8Character (\<lambda>_. 0) 0x20AC of (buf', n) \<Rightarrow>
       slice_fun buf' 0 n = WRITE_UTF8 0x20AC \<and> (\<forall>i \<ge> n. buf' i = (\<lambda>_. 0) i))"
  by (rule sqlite3Utf8Read_roundtrip) simp

end
