(* ===== verification/SqliteHash.thy ===== *)
theory SqliteHash
  imports SqliteStrings
begin

section \<open>Common/sqlite/sqlite3.c: the hash tables of hash.c\<close>

text \<open>
  All elements of a table are on one doubly linked list; \<open>hs_list\<close> are its elements in order, each
  with its address. A bucket counts its elements and points to the first of them; they are next to
  each other on the list. \<open>hs_ht\<close> is the bucket array, empty when \<open>ht\<close> is \<open>NULL\<close>. \<open>NULL\<close> as data is
  \<open>None\<close>, and elements hold data that is not \<open>NULL\<close>. Walking off the list is the fault \<open>NullPointer\<close>.
  The argument \<open>hash_mem\<close> answers the allocations of an insertion: the address of a new element, and
  how many buckets fit the memory got for a new array.
\<close>

record 'd helem =
  he_addr :: nat
  he_data :: 'd
  he_key :: "u8 list"
  he_h :: u32

record ht_bucket =
  hb_count :: nat
  hb_chain :: "nat option"

record 'd hash =
  hs_count :: nat
  hs_list :: "'d helem list"
  hs_ht :: "ht_bucket list"

record hash_mem =
  hm_elem :: "nat option"
  hm_table :: "nat \<Rightarrow> nat option"

definition htsize :: "'d hash \<Rightarrow> nat" where
  "htsize pH = length (hs_ht pH)"

definition sqlite3HashInit :: "'d hash" where
  "sqlite3HashInit = \<lparr> hs_count = 0, hs_list = [], hs_ht = [] \<rparr>"

definition sqlite3HashClear :: "'d hash \<Rightarrow> 'd hash" where
  "sqlite3HashClear pH = pH\<lparr> hs_list := [], hs_ht := [], hs_count := 0 \<rparr>"

fun strHash_loop :: "u32 \<Rightarrow> u8 list \<Rightarrow> u32" where
  "strHash_loop h [] = h"
| "strHash_loop h (c # z) =
     (if c = 0 then h else let h = h + ucast (0xdf AND c) in strHash_loop (h * 0x9e3779b1) z)"

definition strHash :: "u8 list \<Rightarrow> u32" where
  "strHash z = strHash_loop 0 z"

text \<open>\<open>insert_before a x\<close> links \<open>x\<close> in front of the element at address \<open>a\<close>.\<close>

fun insert_before :: "nat \<Rightarrow> 'd helem \<Rightarrow> 'd helem list \<Rightarrow> 'd helem list" where
  "insert_before a x [] = []"
| "insert_before a x (e # es) = (if he_addr e = a then x # e # es else e # insert_before a x es)"

definition insertElement :: "'d hash \<Rightarrow> nat option \<Rightarrow> 'd helem \<Rightarrow> 'd hash" where
  "insertElement pH pEntry pNew =
     (let (pHead, ht) =
        (case pEntry of
           Some i \<Rightarrow>
             let b = hs_ht pH ! i in
             (if hb_count b \<noteq> 0 then hb_chain b else None,
              (hs_ht pH)[i := \<lparr> hb_count = hb_count b + 1, hb_chain = Some (he_addr pNew) \<rparr>])
         | None \<Rightarrow> (None, hs_ht pH)) in
      case pHead of
        Some a \<Rightarrow> pH\<lparr> hs_list := insert_before a pNew (hs_list pH), hs_ht := ht \<rparr>
      | None \<Rightarrow> pH\<lparr> hs_list := pNew # hs_list pH, hs_ht := ht \<rparr>)"

definition bucket_of :: "'d helem \<Rightarrow> nat \<Rightarrow> nat" where
  "bucket_of e n = unat (he_h e) mod n"

fun rehash_loop :: "'d hash \<Rightarrow> 'd helem list \<Rightarrow> 'd hash" where
  "rehash_loop pH [] = pH"
| "rehash_loop pH (elem # next_elem) =
     rehash_loop (insertElement pH (Some (bucket_of elem (htsize pH))) elem) next_elem"

definition SQLITE_MALLOC_SOFT_LIMIT :: nat where "SQLITE_MALLOC_SOFT_LIMIT = 1024"

text \<open>\<open>sizeof(struct _ht)\<close> with pointers of eight bytes.\<close>

definition sizeof_ht :: nat where "sizeof_ht = 16"

definition rehash :: "hash_mem \<Rightarrow> 'd hash \<Rightarrow> nat \<Rightarrow> 'd hash \<times> bool" where
  "rehash M pH new_size =
     (let new_size = (if new_size * sizeof_ht > SQLITE_MALLOC_SOFT_LIMIT
                      then SQLITE_MALLOC_SOFT_LIMIT div sizeof_ht else new_size) in
      if new_size = htsize pH then (pH, False)
      else case hm_table M new_size of
        None \<Rightarrow> (pH, False)
      | Some new_size \<Rightarrow>
          (rehash_loop (pH\<lparr> hs_list := [], hs_ht := replicate new_size \<lparr> hb_count = 0, hb_chain = None \<rparr> \<rparr>)
             (hs_list pH), True))"

text \<open>The list from the element a pointer designates on.\<close>

definition list_from :: "nat option \<Rightarrow> 'd helem list \<Rightarrow> 'd helem list" where
  "list_from p es = (case p of None \<Rightarrow> [] | Some a \<Rightarrow> dropWhile (\<lambda>e. he_addr e \<noteq> a) es)"

fun find_loop :: "u32 \<Rightarrow> u8 list \<Rightarrow> nat \<Rightarrow> 'd helem list \<Rightarrow> 'd helem option res" where
  "find_loop h pKey 0 es = Inr None"
| "find_loop h pKey (Suc count) [] = Inl NullPointer"
| "find_loop h pKey (Suc count) (elem # es) =
     (if h = he_h elem \<and> sqlite3StrICmp (he_key elem) pKey = 0 then Inr (Some elem)
      else find_loop h pKey count es)"

definition findElementWithHash :: "'d hash \<Rightarrow> u8 list \<Rightarrow> ('d helem option \<times> u32) res" where
  "findElementWithHash pH pKey =
     (let h = strHash pKey;
          (elem, count) =
            (if hs_ht pH \<noteq> []
             then let pEntry = hs_ht pH ! (unat h mod htsize pH) in (list_from (hb_chain pEntry) (hs_list pH), hb_count pEntry)
             else (hs_list pH, hs_count pH)) in
      andThen (find_loop h pKey count elem) (\<lambda>r. Inr (r, h)))"

text \<open>The address of the element behind the one at \<open>a\<close>, and unlinking it.\<close>

definition next_of :: "nat \<Rightarrow> 'd helem list \<Rightarrow> nat option" where
  "next_of a es = (case dropWhile (\<lambda>e. he_addr e \<noteq> a) es of _ # e # _ \<Rightarrow> Some (he_addr e) | _ \<Rightarrow> None)"

definition unlink :: "nat \<Rightarrow> 'd helem list \<Rightarrow> 'd helem list" where
  "unlink a es = filter (\<lambda>e. he_addr e \<noteq> a) es"

definition removeElement :: "'d hash \<Rightarrow> 'd helem \<Rightarrow> 'd hash" where
  "removeElement pH elem =
     (let a = he_addr elem;
          ht = (if hs_ht pH \<noteq> []
                then let i = bucket_of elem (htsize pH); b = hs_ht pH ! i;
                       chain = (if hb_chain b = Some a then next_of a (hs_list pH) else hb_chain b) in
                  (hs_ht pH)[i := \<lparr> hb_count = hb_count b - 1, hb_chain = chain \<rparr>]
                else hs_ht pH);
          pH = pH\<lparr> hs_list := unlink a (hs_list pH), hs_ht := ht, hs_count := hs_count pH - 1 \<rparr> in
      if hs_count pH = 0 then sqlite3HashClear pH else pH)"

definition sqlite3HashFind :: "'d hash \<Rightarrow> u8 list \<Rightarrow> 'd option res" where
  "sqlite3HashFind pH pKey = andThen (findElementWithHash pH pKey) (\<lambda>(e, _). Inr (map_option he_data e))"

definition sqlite3HashInsert :: "hash_mem \<Rightarrow> 'd hash \<Rightarrow> u8 list \<Rightarrow> 'd option \<Rightarrow> ('d hash \<times> 'd option) res" where
  "sqlite3HashInsert M pH pKey data =
     andThen (findElementWithHash pH pKey) (\<lambda>(e, h). Inr (
     case e of
       Some elem \<Rightarrow>
         (case data of
            None \<Rightarrow> (removeElement pH elem, Some (he_data elem))
          | Some d \<Rightarrow>
              (pH\<lparr> hs_list := map (\<lambda>x. if he_addr x = he_addr elem then x\<lparr> he_data := d, he_key := pKey \<rparr> else x) (hs_list pH) \<rparr>,
               Some (he_data elem)))
     | None \<Rightarrow>
         (case data of
            None \<Rightarrow> (pH, None)
          | Some d \<Rightarrow>
              (case hm_elem M of
                 None \<Rightarrow> (pH, Some d)
               | Some a \<Rightarrow>
                   let new_elem = \<lparr> he_addr = a, he_data = d, he_key = pKey, he_h = h \<rparr>;
                       pH = pH\<lparr> hs_count := hs_count pH + 1 \<rparr>;
                       pH = (if hs_count pH \<ge> 5 \<and> hs_count pH > 2 * htsize pH
                             then fst (rehash M pH (hs_count pH * 3)) else pH) in
                   (insertElement pH (if hs_ht pH \<noteq> [] then Some (bucket_of new_elem (htsize pH)) else None) new_elem, None)))))"

subsection \<open>The hash ignores case\<close>

lemma and_0xdf_lower:
  fixes c :: u8
  assumes "65 \<le> unat c" "unat c \<le> 90"
  shows "0xdf AND (c + 32) = 0xdf AND c"
proof -
  have "\<forall>n \<in> set [65..<91]. (0xdf :: u8) AND (of_nat n + 32) = 0xdf AND of_nat n" by (simp add: upt_rec)
  moreover have "unat c \<in> set [65..<91]" using assms unfolding set_upt atLeastLessThan_iff by linarith
  ultimately have "(0xdf :: u8) AND (of_nat (unat c) + 32) = 0xdf AND of_nat (unat c)" by (rule bspec)
  then show ?thesis by simp
qed

lemma UpperToLower_hash:
  assumes "UpperToLower a = UpperToLower b"
  shows "0xdf AND a = 0xdf AND b"
proof -
  let ?up = "\<lambda>c. 65 \<le> unat c \<and> unat c \<le> 90"
  have 1: "unat (c + 32) = unat c + 32" if "?up c" for c :: u8
    using that by (simp add: unat_word_ariths)
  consider "?up a" "?up b" | "?up a" "\<not> ?up b" | "\<not> ?up a" "?up b" | "\<not> ?up a" "\<not> ?up b" by blast
  then show ?thesis
  proof cases
    case 1
    then have "unat a = unat b" using assms by (simp add: UpperToLower_eq Let_def)
    then have "a = b" by (simp only: word_unat_eq_iff)
    then show ?thesis by simp
  next
    case 2
    then have "unat b = unat (a + 32)" using assms 1 [of a] by (auto simp: UpperToLower_eq Let_def split: if_splits)
    then have "b = a + 32" by (simp only: word_unat_eq_iff)
    then show ?thesis using and_0xdf_lower [of a] 2 by simp
  next
    case 3
    then have "unat a = unat (b + 32)" using assms 1 [of b] by (auto simp: UpperToLower_eq Let_def split: if_splits)
    then have "a = b + 32" by (simp only: word_unat_eq_iff)
    then show ?thesis using and_0xdf_lower [of b] 3 by simp
  next
    case 4
    then have "unat a = unat b" using assms by (simp add: UpperToLower_eq Let_def del: de_Morgan_conj)
    then have "a = b" by (simp only: word_unat_eq_iff)
    then show ?thesis by simp
  qed
qed

lemma strHash_lowered: "lowered a = lowered b \<Longrightarrow> strHash_loop h a = strHash_loop h b"
proof (induction h a arbitrary: b rule: strHash_loop.induct)
  case (1 h)
  then show ?case by (cases b) (auto split: if_splits)
next
  case (2 h c z)
  show ?case
  proof (cases "c = 0")
    case True
    then show ?thesis using 2 by (cases b) (auto split: if_splits)
  next
    case False
    then obtain c' z' where b: "b = c' # z'" "c' \<noteq> 0" "UpperToLower c = UpperToLower c'" "lowered z = lowered z'"
      using 2(2) by (cases b) (auto split: if_splits)
    have "0xdf AND c = 0xdf AND c'" using b(3) by (rule UpperToLower_hash)
    then show ?thesis using 2(1) [OF False refl b(4)] b False by (simp add: Let_def)
  qed
qed

end
