(* ===== verification/SqliteHash_Props.thy ===== *)
theory SqliteHash_Props
  imports SqliteHash "HOL-Library.Multiset"
begin

section \<open>The hash table implements a map of lowered names\<close>

subsection \<open>Elements that are next to each other\<close>

fun contig :: "('a \<Rightarrow> bool) \<Rightarrow> 'a list \<Rightarrow> bool" where
  "contig P [] \<longleftrightarrow> True"
| "contig P (x # xs) \<longleftrightarrow> contig P xs \<and> (P x \<longrightarrow> xs = [] \<or> P (hd xs) \<or> (\<forall>z \<in> set xs. \<not> P z))"

lemma contig_none: "\<forall>x \<in> set xs. \<not> P x \<Longrightarrow> contig P xs"
  by (induction xs) auto

lemma contig_take: "contig P xs \<Longrightarrow> take (length (filter P xs)) (dropWhile (\<lambda>x. \<not> P x) xs) = filter P xs"
proof (induction xs)
  case Nil
  then show ?case by simp
next
  case (Cons x xs)
  show ?case
  proof (cases "P x")
    case False
    then show ?thesis using Cons by simp
  next
    case True
    show ?thesis
    proof (cases "xs \<noteq> [] \<and> P (hd xs)")
      case hd: True
      then have "dropWhile (\<lambda>x. \<not> P x) xs = xs" by (cases xs) auto
      then show ?thesis using Cons True by simp
    next
      case False
      then have "filter P xs = []" using Cons.prems True by (auto simp: filter_empty_conv)
      then show ?thesis using True by simp
    qed
  qed
qed

text \<open>The list operations, on a list split at the element at the address.\<close>

lemma insert_before_split:
  assumes "\<forall>e \<in> set l1. he_addr e \<noteq> he_addr y"
  shows "insert_before (he_addr y) x (l1 @ y # l2) = l1 @ x # y # l2"
  using assms by (induction l1) auto

lemma contig_insert:
  "contig P (l1 @ y # l2) \<Longrightarrow> P x \<Longrightarrow> P y \<Longrightarrow> \<forall>z \<in> set l1. \<not> P z \<Longrightarrow> contig P (l1 @ x # y # l2)"
  by (induction l1) simp_all

lemma contig_insert_other:
  assumes "contig P (l1 @ y # l2)" and "\<not> P x" and "\<not> P y"
  shows "contig P (l1 @ x # y # l2)"
  using assms
proof (induction l1)
  case Nil
  then show ?case by auto
next
  case (Cons a l1)
  then have "contig P (l1 @ x # y # l2)" by simp
  then show ?case using Cons.prems by (cases "P a"; cases l1) auto
qed

lemma contig_remove: "contig P (l1 @ y # l2) \<Longrightarrow> contig P (l1 @ l2)"
proof (induction l1)
  case Nil
  then show ?case by simp
next
  case (Cons x l1)
  then show ?case by (cases l1; cases l2) auto
qed

lemma unlink_split:
  assumes "distinct (map he_addr (l1 @ y # l2))"
  shows "unlink (he_addr y) (l1 @ y # l2) = l1 @ l2"
proof -
  have "filter (\<lambda>e. he_addr e \<noteq> he_addr y) l1 = l1" "filter (\<lambda>e. he_addr e \<noteq> he_addr y) l2 = l2"
    using assms by (auto simp: filter_id_conv image_iff)
  then show ?thesis by (simp add: unlink_def)
qed

lemma distinct_addr_front: "distinct (map he_addr (l1 @ y # l2)) \<Longrightarrow> \<forall>e \<in> set l1. he_addr e \<noteq> he_addr y"
  by (induction l1) auto

lemma dropWhile_split:
  assumes "distinct (map he_addr (l1 @ y # l2))"
  shows "dropWhile (\<lambda>e. he_addr e \<noteq> he_addr y) (l1 @ y # l2) = y # l2"
  using assms by (induction l1) auto

lemma split_first:
  assumes "\<exists>e \<in> set es. P e"
  obtains l1 y l2 where "es = l1 @ y # l2" "P y" "\<forall>z \<in> set l1. \<not> P z"
  using split_list_first_prop [OF assms] by blast

subsection \<open>The invariant\<close>

text \<open>
  \<open>bucket_ok\<close>: the bucket counts the elements of the class \<open>P\<close>, which are next to each other, and points to
  the first. \<open>table_ok\<close>: every bucket is so; without an array there is nothing to say.
\<close>

abbreviation in_bucket :: "nat \<Rightarrow> nat \<Rightarrow> 'd helem \<Rightarrow> bool" where
  "in_bucket n b e \<equiv> bucket_of e n = b"

definition bucket_ok :: "('d helem \<Rightarrow> bool) \<Rightarrow> 'd helem list \<Rightarrow> ht_bucket \<Rightarrow> bool" where
  "bucket_ok P es b \<longleftrightarrow> contig P es \<and> hb_count b = length (filter P es) \<and>
     (\<forall>l1 y l2. es = l1 @ y # l2 \<longrightarrow> P y \<longrightarrow> (\<forall>z \<in> set l1. \<not> P z) \<longrightarrow> hb_chain b = Some (he_addr y))"

definition table_ok :: "'d hash \<Rightarrow> bool" where
  "table_ok H \<longleftrightarrow> (\<forall>b < htsize H. bucket_ok (in_bucket (htsize H) b) (hs_list H) (hs_ht H ! b))"

definition elems_ok :: "'d helem list \<Rightarrow> bool" where
  "elems_ok es \<longleftrightarrow> distinct (map he_addr es) \<and> distinct (map (\<lambda>e. lowered (he_key e)) es) \<and>
     (\<forall>e \<in> set es. he_h e = strHash (he_key e))"

definition hash_inv :: "'d hash \<Rightarrow> bool" where
  "hash_inv H \<longleftrightarrow> hs_count H = length (hs_list H) \<and> elems_ok (hs_list H) \<and> table_ok H"

definition hash_map :: "'d hash \<Rightarrow> nat list \<Rightarrow> 'd option" where
  "hash_map H = map_of (map (\<lambda>e. (lowered (he_key e), he_data e)) (hs_list H))"

lemma Init_inv: "hash_inv sqlite3HashInit" "hash_map sqlite3HashInit = Map.empty"
  by (simp_all add: hash_inv_def hash_map_def sqlite3HashInit_def elems_ok_def table_ok_def htsize_def)

lemma Clear_inv: "hash_inv (sqlite3HashClear H)" "hash_map (sqlite3HashClear H) = Map.empty"
  by (simp_all add: hash_inv_def hash_map_def sqlite3HashClear_def elems_ok_def table_ok_def htsize_def)

subsection \<open>Finding\<close>

lemma find_loop_take: "n \<le> length es \<Longrightarrow>
  find_loop h k n es = Inr (find (\<lambda>e. h = he_h e \<and> lowered (he_key e) = lowered k) (take n es))"
  by (induction h k n es rule: find_loop.induct) (auto simp: StrICmp_eq_0)

lemma find_filter: "(\<And>x. Q x \<Longrightarrow> P x) \<Longrightarrow> find Q (filter P xs) = find Q xs"
  by (induction xs) auto

lemma find_key:
  assumes "elems_ok es"
  shows "find (\<lambda>e. strHash k = he_h e \<and> lowered (he_key e) = lowered k) es = find (\<lambda>e. lowered (he_key e) = lowered k) es"
proof (rule find_cong [OF refl])
  fix e assume e: "e \<in> set es"
  have "strHash k = he_h e" if "lowered (he_key e) = lowered k"
    using e assms strHash_lowered [OF that] by (simp add: elems_ok_def strHash_def)
  then show "(strHash k = he_h e \<and> lowered (he_key e) = lowered k) = (lowered (he_key e) = lowered k)" by blast
qed

lemma bucket_search:
  assumes ok: "bucket_ok P es b" and d: "distinct (map he_addr es)"
  shows "hb_count b \<le> length (list_from (hb_chain b) es)" and "take (hb_count b) (list_from (hb_chain b) es) = filter P es"
proof -
  have c: "contig P es" "hb_count b = length (filter P es)" using ok by (simp_all add: bucket_ok_def)
  have "hb_count b \<le> length (list_from (hb_chain b) es) \<and> take (hb_count b) (list_from (hb_chain b) es) = filter P es"
  proof (cases "\<exists>e \<in> set es. P e")
    case False
    then show ?thesis using c by (simp add: filter_False)
  next
    case True
    then obtain l1 y l2 where s: "es = l1 @ y # l2" "P y" "\<forall>z \<in> set l1. \<not> P z" by (rule split_first)
    have "hb_chain b = Some (he_addr y)" using ok s unfolding bucket_ok_def by blast
    then have "list_from (hb_chain b) es = dropWhile (\<lambda>x. \<not> P x) es"
      using s d dropWhile_split [of l1 y l2] by (simp add: list_from_def dropWhile_append2)
    moreover have "length (filter P es) \<le> length (dropWhile (\<lambda>x. \<not> P x) es)"
      using s by (simp add: dropWhile_append2 le_SucI)
    ultimately show ?thesis using c contig_take [OF c(1)] by simp
  qed
  then show "hb_count b \<le> length (list_from (hb_chain b) es)" "take (hb_count b) (list_from (hb_chain b) es) = filter P es"
    by simp_all
qed

lemma findElement_eq:
  assumes "hash_inv H"
  shows "findElementWithHash H k = Inr (find (\<lambda>e. lowered (he_key e) = lowered k) (hs_list H), strHash k)"
proof (cases "hs_ht H = []")
  case True
  then show ?thesis using assms find_key [of "hs_list H" k]
    by (simp add: findElementWithHash_def hash_inv_def Let_def find_loop_take)
next
  case False
  let ?b = "unat (strHash k) mod htsize H" and ?P = "in_bucket (htsize H) (unat (strHash k) mod htsize H) :: 'a helem \<Rightarrow> bool"
  have "?b < htsize H" using False by (simp add: htsize_def)
  then have ok: "bucket_ok ?P (hs_list H) (hs_ht H ! ?b)" and e: "elems_ok (hs_list H)"
    using assms by (simp_all add: hash_inv_def table_ok_def)
  then have d: "distinct (map he_addr (hs_list H))" by (simp add: elems_ok_def)
  have "find (\<lambda>e. strHash k = he_h e \<and> lowered (he_key e) = lowered k) (filter ?P (hs_list H)) =
      find (\<lambda>e. strHash k = he_h e \<and> lowered (he_key e) = lowered k) (hs_list H)"
    by (rule find_filter) (simp add: bucket_of_def)
  then have "find_loop (strHash k) k (hb_count (hs_ht H ! ?b)) (list_from (hb_chain (hs_ht H ! ?b)) (hs_list H)) =
      Inr (find (\<lambda>e. lowered (he_key e) = lowered k) (hs_list H))"
    by (simp only: find_loop_take [OF bucket_search(1) [OF ok d]] bucket_search(2) [OF ok d] find_key [OF e])
  then show ?thesis using False by (simp add: findElementWithHash_def Let_def)
qed

lemma map_of_find: "map_of (map (\<lambda>e. (f e, g e)) es) k = map_option g (find (\<lambda>e. f e = k) es)"
  by (induction es) auto

lemma HashFind_eq: "hash_inv H \<Longrightarrow> sqlite3HashFind H k = Inr (hash_map H (lowered k))"
  by (simp add: sqlite3HashFind_def findElement_eq hash_map_def map_of_find)


subsection \<open>Linking and unlinking one element\<close>

definition empty_bucket :: ht_bucket where
  "empty_bucket = \<lparr> hb_count = 0, hb_chain = None \<rparr>"

lemma bucket_ok_empty [simp]: "bucket_ok P [] b \<longleftrightarrow> hb_count b = 0"
  by (simp add: bucket_ok_def)

lemma bucket_okD:
  "bucket_ok P es b \<Longrightarrow> contig P es"
  "bucket_ok P es b \<Longrightarrow> hb_count b = length (filter P es)"
  "bucket_ok P (l1 @ y # l2) b \<Longrightarrow> P y \<Longrightarrow> \<forall>z \<in> set l1. \<not> P z \<Longrightarrow> hb_chain b = Some (he_addr y)"
  unfolding bucket_ok_def by blast+

text \<open>Two decompositions at a first element of the class are the same.\<close>

lemma first_unique:
  assumes "l1 @ y # l2 = k1 @ z # k2" and "P y" and "P z" and "\<forall>u \<in> set l1. \<not> P u" and "\<forall>u \<in> set k1. \<not> P u"
  shows "y = z"
proof -
  have "find P (l1 @ y # l2) = Some y" using assms(2,4) by (induction l1) auto
  moreover have "find P (k1 @ z # k2) = Some z" using assms(3,5) by (induction k1) auto
  ultimately show ?thesis using assms(1) by simp
qed

lemma bucket_okI:
  assumes "contig P es" and "hb_count b = length (filter P es)"
    and "\<And>y. find P es = Some y \<Longrightarrow> hb_chain b = Some (he_addr y)"
  shows "bucket_ok P es b"
  unfolding bucket_ok_def
proof (intro conjI allI impI assms(1,2))
  fix l1 y l2 assume "es = l1 @ y # l2" "P y" "\<forall>z \<in> set l1. \<not> P z"
  then have "find P es = Some y" by (induction l1 arbitrary: es) auto
  then show "hb_chain b = Some (he_addr y)" by (rule assms(3))
qed

lemma bucket_ok_find: "bucket_ok P es b \<Longrightarrow> find P es = Some y \<Longrightarrow> hb_chain b = Some (he_addr y)"
proof -
  assume b: "bucket_ok P es b" and f: "find P es = Some y"
  obtain i where i: "i < length es" "P (es ! i)" "y = es ! i" "\<forall>j < i. \<not> P (es ! j)"
    using f unfolding find_Some_iff by blast
  have "\<forall>z \<in> set (take i es). \<not> P z" using i(1,4) by (auto simp: in_set_conv_nth)
  then show ?thesis using bucket_okD(3) [of P "take i es" y "drop (Suc i) es" b] b i id_take_nth_drop [OF i(1)] by simp
qed

lemma find_insert: "P x \<Longrightarrow> P y \<Longrightarrow> \<forall>z \<in> set l1. \<not> P z \<Longrightarrow> find P (l1 @ x # y # l2) = Some x"
  by (induction l1) auto

lemma find_insert_other: "\<not> P x \<Longrightarrow> find P (l1 @ x # l2) = find P (l1 @ l2)"
  by (induction l1) auto

text \<open>The new element comes before the first of its bucket, or to the front when the bucket is empty.\<close>

lemma bucket_link:
  assumes "bucket_ok P (l1 @ y # l2) b" and "P y" and "\<forall>z \<in> set l1. \<not> P z" and "P x"
  shows "bucket_ok P (l1 @ x # y # l2) \<lparr> hb_count = hb_count b + 1, hb_chain = Some (he_addr x) \<rparr>"
  using assms bucket_okD(1,2) [OF assms(1)]
  by (intro bucket_okI contig_insert) (auto simp: find_insert)

lemma bucket_link_other:
  assumes "bucket_ok P (l1 @ y # l2) b" and "\<not> P x" and "\<not> P y"
  shows "bucket_ok P (l1 @ x # y # l2) b"
  using bucket_okD(1,2) [OF assms(1)] bucket_ok_find [OF assms(1)] assms(2,3)
  by (intro bucket_okI contig_insert_other) (auto simp: find_insert_other)

lemma bucket_link_front:
  assumes "bucket_ok P es b" and "hb_count b = 0" and "P x"
  shows "bucket_ok P (x # es) \<lparr> hb_count = hb_count b + 1, hb_chain = Some (he_addr x) \<rparr>"
  using assms bucket_okD(1,2) [OF assms(1)] by (intro bucket_okI) (auto simp: filter_empty_conv)

lemma bucket_link_front_other: "bucket_ok P es b \<Longrightarrow> \<not> P x \<Longrightarrow> bucket_ok P (x # es) b"
  using bucket_okD(1,2) [of P es b] bucket_ok_find [of P es b] by (intro bucket_okI) auto

text \<open>\<open>insertElement\<close> keeps the table and the elements, whatever the list.\<close>

lemma insertElement_ok:
  fixes H :: "'a hash" and x :: "'a helem"
  assumes t: "table_ok H" and d: "distinct (map he_addr (hs_list H))" and ne: "hs_ht H \<noteq> []"
  defines "i \<equiv> bucket_of x (htsize H)"
  shows "table_ok (insertElement H (Some i) x)" and "htsize (insertElement H (Some i) x) = htsize H"
    and "mset (hs_list (insertElement H (Some i) x)) = add_mset x (mset (hs_list H))"
    and "hs_count (insertElement H (Some i) x) = hs_count H"
proof -
  let ?n = "htsize H" and ?b = "hs_ht H ! i"
  let ?P = "in_bucket ?n i :: 'a helem \<Rightarrow> bool"
  let ?b' = "\<lparr> hb_count = hb_count ?b + 1, hb_chain = Some (he_addr x) \<rparr>"
  have i: "i < ?n" using ne by (simp add: i_def bucket_of_def htsize_def)
  have ok: "bucket_ok (in_bucket ?n j) (hs_list H) (hs_ht H ! j)" if "j < ?n" for j
    using t that by (simp add: table_ok_def)
  have Px: "?P x" by (simp add: i_def)
  have "\<exists>es. insertElement H (Some i) x = H\<lparr> hs_list := es, hs_ht := (hs_ht H)[i := ?b'] \<rparr> \<and>
      mset es = add_mset x (mset (hs_list H)) \<and> bucket_ok ?P es ?b' \<and>
      (\<forall>j < ?n. j \<noteq> i \<longrightarrow> bucket_ok (in_bucket ?n j) es (hs_ht H ! j))"
  proof (cases "hb_count ?b = 0")
    case True
    have "insertElement H (Some i) x = H\<lparr> hs_list := x # hs_list H, hs_ht := (hs_ht H)[i := ?b'] \<rparr>"
      using True by (simp add: insertElement_def Let_def)
    moreover have "bucket_ok ?P (x # hs_list H) ?b'" using bucket_link_front [OF ok [OF i] True Px] .
    moreover have "bucket_ok (in_bucket ?n j) (x # hs_list H) (hs_ht H ! j)" if "j < ?n" "j \<noteq> i" for j
      using bucket_link_front_other [OF ok [OF that(1)], of x] that(2) by (simp add: i_def)
    ultimately show ?thesis by (intro exI [of _ "x # hs_list H"] conjI) auto
  next
    case False
    then have "\<exists>e \<in> set (hs_list H). ?P e" using bucket_okD(2) [OF ok [OF i]] by (auto simp: filter_empty_conv)
    then obtain l1 y l2 where s: "hs_list H = l1 @ y # l2" "?P y" "\<forall>z \<in> set l1. \<not> ?P z" by (rule split_first)
    note ok' = ok [unfolded s(1)]
    have c: "hb_chain ?b = Some (he_addr y)" by (rule bucket_okD(3) [OF ok' [OF i] s(2,3)])
    have "\<forall>e \<in> set l1. he_addr e \<noteq> he_addr y" using distinct_addr_front [of l1 y l2] d s(1) by simp
    then have "insert_before (he_addr y) x (hs_list H) = l1 @ x # y # l2" using insert_before_split s(1) by metis
    then have "insertElement H (Some i) x = H\<lparr> hs_list := l1 @ x # y # l2, hs_ht := (hs_ht H)[i := ?b'] \<rparr>"
      using False c by (simp add: insertElement_def Let_def)
    moreover have "bucket_ok ?P (l1 @ x # y # l2) ?b'" by (rule bucket_link [OF ok' [OF i] s(2,3) Px])
    moreover have "bucket_ok (in_bucket ?n j) (l1 @ x # y # l2) (hs_ht H ! j)" if "j < ?n" "j \<noteq> i" for j
      using bucket_link_other [OF ok' [OF that(1)], of x] that(2) s(2) by (simp add: i_def)
    ultimately show ?thesis using s(1) by (intro exI [of _ "l1 @ x # y # l2"] conjI) auto
  qed
  then obtain es where e: "insertElement H (Some i) x = H\<lparr> hs_list := es, hs_ht := (hs_ht H)[i := ?b'] \<rparr>"
    "mset es = add_mset x (mset (hs_list H))" "bucket_ok ?P es ?b'"
    "\<forall>j < ?n. j \<noteq> i \<longrightarrow> bucket_ok (in_bucket ?n j) es (hs_ht H ! j)" by blast
  show "htsize (insertElement H (Some i) x) = htsize H" by (simp add: e(1) htsize_def)
  show "mset (hs_list (insertElement H (Some i) x)) = add_mset x (mset (hs_list H))"
    "hs_count (insertElement H (Some i) x) = hs_count H" by (simp_all add: e(1,2))
  show "table_ok (insertElement H (Some i) x)"
    using e(3,4) i by (auto simp: e(1) table_ok_def htsize_def nth_list_update)
qed

lemma insertElement_none:
  "hs_ht H = [] \<Longrightarrow> insertElement H None x = H\<lparr> hs_list := x # hs_list H \<rparr>"
  by (simp add: insertElement_def)

subsection \<open>Rehashing\<close>

lemma rehash_loop_ok:
  assumes "table_ok H" and "hs_ht H \<noteq> []" and "distinct (map he_addr (hs_list H @ es))"
  shows "table_ok (rehash_loop H es) \<and> htsize (rehash_loop H es) = htsize H \<and>
    mset (hs_list (rehash_loop H es)) = mset (hs_list H) + mset es \<and> hs_count (rehash_loop H es) = hs_count H"
  using assms
proof (induction es arbitrary: H)
  case Nil
  then show ?case by simp
next
  case (Cons e es)
  let ?H = "insertElement H (Some (bucket_of e (htsize H))) e"
  note I = insertElement_ok [OF Cons.prems(1) _ Cons.prems(2), of e]
  have d: "distinct (map he_addr (hs_list H))" using Cons.prems(3) by simp
  have "mset (map he_addr (hs_list ?H @ es)) = mset (map he_addr (hs_list H @ e # es))"
    using I(3) [OF d] by simp
  then have "distinct (map he_addr (hs_list ?H @ es))" using Cons.prems(3) mset_eq_imp_distinct_iff by blast
  moreover have "hs_ht ?H \<noteq> []" using I(2) [OF d] Cons.prems(2) by (auto simp: htsize_def)
  ultimately show ?case using Cons.IH [of ?H] I [OF d] by simp
qed

lemma table_ok_empty [simp]: "table_ok (H\<lparr> hs_list := [], hs_ht := replicate n \<lparr> hb_count = 0, hb_chain = None \<rparr> \<rparr>)"
  by (simp add: table_ok_def htsize_def)

lemma rehash_ok:
  assumes "table_ok H" and "distinct (map he_addr (hs_list H))" and "\<forall>n m. hm_table M n = Some m \<longrightarrow> 0 < m"
  shows "table_ok (fst (rehash M H n)) \<and> mset (hs_list (fst (rehash M H n))) = mset (hs_list H) \<and>
    hs_count (fst (rehash M H n)) = hs_count H"
proof -
  have "table_ok (rehash_loop (H\<lparr> hs_list := [], hs_ht := replicate m \<lparr> hb_count = 0, hb_chain = None \<rparr> \<rparr>) (hs_list H)) \<and>
      mset (hs_list (rehash_loop (H\<lparr> hs_list := [], hs_ht := replicate m \<lparr> hb_count = 0, hb_chain = None \<rparr> \<rparr>) (hs_list H))) = mset (hs_list H) \<and>
      hs_count (rehash_loop (H\<lparr> hs_list := [], hs_ht := replicate m \<lparr> hb_count = 0, hb_chain = None \<rparr> \<rparr>) (hs_list H)) = hs_count H"
    if "0 < m" for m
    using rehash_loop_ok [of "H\<lparr> hs_list := [], hs_ht := replicate m \<lparr> hb_count = 0, hb_chain = None \<rparr> \<rparr>" "hs_list H"]
      assms(2) that by simp
  then show ?thesis using assms(1,3) by (auto simp: rehash_def Let_def split: option.split)
qed


subsection \<open>The elements as a map\<close>

lemma elems_ok_mset: "mset es' = mset es \<Longrightarrow> elems_ok es' = elems_ok es"
  unfolding elems_ok_def by (metis mset_eq_imp_distinct_iff mset_eq_setD mset_map)

lemma elems_map:
  assumes "elems_ok es"
  shows "map_of (map (\<lambda>e. (lowered (he_key e), he_data e)) es) n = Some d \<longleftrightarrow>
    (\<exists>e \<in> set es. lowered (he_key e) = n \<and> he_data e = d)"
proof -
  have "distinct (map fst (map (\<lambda>e. (lowered (he_key e), he_data e)) es))"
    using assms by (simp add: elems_ok_def comp_def)
  then show ?thesis by (auto simp: map_of_eq_Some_iff)
qed

lemma hash_map_Some:
  "elems_ok (hs_list H) \<Longrightarrow> hash_map H n = Some d \<longleftrightarrow> (\<exists>e \<in> set (hs_list H). lowered (he_key e) = n \<and> he_data e = d)"
  unfolding hash_map_def by (rule elems_map)

lemma map_eqI: "(\<And>n d. f n = Some d \<longleftrightarrow> g n = Some d) \<Longrightarrow> f = g"
  by (rule ext) (metis not_None_eq)

text \<open>Two elements with the same lowered key are one.\<close>

lemma elems_key_inj:
  assumes "elems_ok es" and "e \<in> set es" and "e' \<in> set es" and "lowered (he_key e) = lowered (he_key e')"
  shows "e = e'"
  using assms unfolding elems_ok_def by (metis distinct_map inj_onD)

subsection \<open>Removing\<close>

lemma contig_suffix: "contig P (l1 @ es) \<Longrightarrow> contig P es"
  by (induction l1) auto

lemma next_of_split:
  "distinct (map he_addr (l1 @ y # l2)) \<Longrightarrow> next_of (he_addr y) (l1 @ y # l2) = (case l2 of [] \<Rightarrow> None | z # _ \<Rightarrow> Some (he_addr z))"
  unfolding next_of_def by (simp only: dropWhile_split) (simp split: list.split)

lemma bucket_unlink:
  assumes ok: "bucket_ok P (l1 @ x # l2) b" and "P x" and d: "distinct (map he_addr (l1 @ x # l2))"
  shows "bucket_ok P (l1 @ l2) \<lparr> hb_count = hb_count b - 1,
    hb_chain = (if hb_chain b = Some (he_addr x) then next_of (he_addr x) (l1 @ x # l2) else hb_chain b) \<rparr>"
proof (rule bucket_okI)
  show "contig P (l1 @ l2)" using bucket_okD(1) [OF ok] by (rule contig_remove)
  show "hb_count \<lparr> hb_count = hb_count b - 1, hb_chain = (if hb_chain b = Some (he_addr x) then next_of (he_addr x) (l1 @ x # l2) else hb_chain b) \<rparr> =
      length (filter P (l1 @ l2))"
    using bucket_okD(2) [OF ok] assms(2) by simp
  fix y assume y: "find P (l1 @ l2) = Some y"
  have "(if hb_chain b = Some (he_addr x) then next_of (he_addr x) (l1 @ x # l2) else hb_chain b) = Some (he_addr y)"
  proof (cases "\<exists>z \<in> set l1. P z")
    case True
    then obtain k1 z k2 where l1: "l1 = k1 @ z # k2" "P z" "\<forall>u \<in> set k1. \<not> P u" by (rule split_first)
    have z: "find P (k1 @ z # ys) = Some z" for ys using l1(2,3) by (induction k1) auto
    have "y = z" using y z [of "k2 @ l2"] l1(1) by simp
    moreover have "hb_chain b = Some (he_addr z)" using bucket_ok_find [OF ok] z [of "k2 @ x # l2"] l1(1) by simp
    moreover have "he_addr z \<noteq> he_addr x" using d l1(1) by auto
    ultimately show ?thesis by simp
  next
    case False
    then have none: "\<forall>z \<in> set l1. \<not> P z" by simp
    have "find P (l1 @ l2) = find P l2" using none by (induction l1) auto
    then have f: "find P l2 = Some y" using y by simp
    have "contig P (x # l2)" using bucket_okD(1) [OF ok] by (rule contig_suffix)
    moreover have "\<exists>z \<in> set l2. P z" using f by (auto simp: find_Some_iff)
    ultimately obtain l3 where "l2 = y # l3" using f assms(2) by (cases l2) (auto split: if_splits)
    moreover have "hb_chain b = Some (he_addr x)" using bucket_okD(3) [OF ok assms(2) none] .
    ultimately show ?thesis using next_of_split [OF d] by simp
  qed
  then show "hb_chain \<lparr> hb_count = hb_count b - 1, hb_chain = (if hb_chain b = Some (he_addr x) then next_of (he_addr x) (l1 @ x # l2) else hb_chain b) \<rparr> =
      Some (he_addr y)" by simp
qed

lemma bucket_unlink_other: "bucket_ok P (l1 @ x # l2) b \<Longrightarrow> \<not> P x \<Longrightarrow> bucket_ok P (l1 @ l2) b"
  using bucket_okD(1,2) [of P "l1 @ x # l2" b] bucket_ok_find [of P "l1 @ x # l2" b]
  by (intro bucket_okI contig_remove [of P l1 x l2]) (auto simp: find_insert_other)

lemma removeElement_ok:
  fixes H :: "'a hash"
  assumes inv: "hash_inv H" and x: "x \<in> set (hs_list H)"
  shows "hash_inv (removeElement H x) \<and> hash_map (removeElement H x) = (hash_map H)(lowered (he_key x) := None)"
proof -
  obtain l1 l2 where l: "hs_list H = l1 @ x # l2" using x by (meson split_list)
  have el: "elems_ok (l1 @ x # l2)" and t: "table_ok H" and c: "hs_count H = length (hs_list H)"
    using inv l by (simp_all add: hash_inv_def)
  then have d: "distinct (map he_addr (l1 @ x # l2))" by (simp add: elems_ok_def)
  have el': "elems_ok (l1 @ l2)" using el by (auto simp: elems_ok_def)
  let ?n = "htsize H" and ?i = "bucket_of x (htsize H)"
  let ?b = "hs_ht H ! ?i"
  let ?b' = "\<lparr> hb_count = hb_count ?b - 1,
    hb_chain = (if hb_chain ?b = Some (he_addr x) then next_of (he_addr x) (l1 @ x # l2) else hb_chain ?b) \<rparr>"
  let ?ht = "if hs_ht H \<noteq> [] then (hs_ht H)[?i := ?b'] else hs_ht H"
  let ?H = "H\<lparr> hs_list := l1 @ l2, hs_ht := ?ht, hs_count := hs_count H - 1 \<rparr>"
  have r: "removeElement H x = (if hs_count ?H = 0 then sqlite3HashClear ?H else ?H)"
    using unlink_split [OF d] l by (simp add: removeElement_def Let_def)
  have "table_ok ?H"
    unfolding table_ok_def
  proof (intro allI impI)
    fix j assume j: "j < htsize ?H"
    then have jn: "j < ?n" "hs_ht H \<noteq> []" by (auto simp: htsize_def split: if_splits)
    have ok: "bucket_ok (in_bucket ?n j) (l1 @ x # l2) (hs_ht H ! j)" using t jn l by (simp add: table_ok_def)
    have n: "htsize ?H = ?n" by (simp add: htsize_def)
    show "bucket_ok (in_bucket (htsize ?H) j) (hs_list ?H) (hs_ht ?H ! j)"
    proof (cases "j = ?i")
      case True
      have "hs_ht ?H ! j = ?b'" using True jn by (simp add: htsize_def)
      moreover have "bucket_ok (in_bucket ?n ?i) (l1 @ l2) ?b'"
        by (rule bucket_unlink [OF ok [unfolded True] refl d])
      ultimately show ?thesis using n True by simp
    next
      case False
      then show ?thesis using bucket_unlink_other [OF ok] jn n by simp
    qed
  qed
  then have inv': "hash_inv ?H" using c l el' by (simp add: hash_inv_def)
  have m: "hash_map ?H = (hash_map H)(lowered (he_key x) := None)"
  proof (rule map_eqI)
    fix n e
    have "lowered (he_key y) \<noteq> lowered (he_key x)" if "y \<in> set (l1 @ l2)" for y
    proof
      assume "lowered (he_key y) = lowered (he_key x)"
      then have "y = x" using that by (intro elems_key_inj [OF el]) auto
      then show False using that d by auto
    qed
    then show "hash_map ?H n = Some e \<longleftrightarrow> ((hash_map H)(lowered (he_key x) := None)) n = Some e"
      using hash_map_Some [of ?H n e] hash_map_Some [of H n e] el el' l by auto
  qed
  show ?thesis
  proof (cases "hs_count ?H = 0")
    case True
    then have "l1 @ l2 = []" using c l by simp
    then have "hash_map ?H = Map.empty" by (simp add: hash_map_def)
    then have "(hash_map H)(lowered (he_key x) := None) = Map.empty" by (simp only: m)
    moreover have "removeElement H x = sqlite3HashClear ?H" unfolding r by (rule if_P [OF True])
    ultimately show ?thesis by (simp only: Clear_inv simp_thms)
  next
    case False
    have "removeElement H x = ?H" unfolding r by (rule if_not_P [OF False])
    then show ?thesis by (simp only: inv' m simp_thms)
  qed
qed

subsection \<open>Replacing\<close>

lemma contig_map:
  assumes "\<And>e. P (f e) = P e"
  shows "contig P (map f es) = contig P es"
proof (induction es)
  case Nil
  then show ?case by simp
next
  case (Cons e es)
  then show ?case by (cases es) (simp_all add: assms)
qed

lemma find_map_same: "(\<And>e. P (f e) = P e) \<Longrightarrow> find P (map f es) = map_option f (find P es)"
  by (induction es) simp_all

lemma filter_map_same: "(\<And>e. P (f e) = P e) \<Longrightarrow> length (filter P (map f es)) = length (filter P es)"
  by (induction es) simp_all

lemma bucket_ok_map:
  assumes "bucket_ok P es b" and "\<And>e. P (f e) = P e" and "\<And>e. he_addr (f e) = he_addr e"
  shows "bucket_ok P (map f es) b"
proof (rule bucket_okI)
  show "contig P (map f es)" using contig_map [of P f es] assms(2) bucket_okD(1) [OF assms(1)] by simp
  show "hb_count b = length (filter P (map f es))"
    using filter_map_same [of P f es] assms(2) bucket_okD(2) [OF assms(1)] by simp
  show "hb_chain b = Some (he_addr y)" if "find P (map f es) = Some y" for y
    using that find_map_same [of P f es] assms(2,3) bucket_ok_find [OF assms(1)] by auto
qed

lemma hash_map_replace:
  assumes inv: "hash_inv H" and x: "x \<in> set (hs_list H)" and k: "lowered k = lowered (he_key x)"
    and H': "hash_inv H'" "hs_list H' = map f (hs_list H)"
    and f: "\<And>y. y \<in> set (hs_list H) \<Longrightarrow> lowered (he_key (f y)) = lowered (he_key y) \<and> he_data (f y) = (if y = x then v else he_data y)"
  shows "hash_map H' = (hash_map H)(lowered k \<mapsto> v)"
proof (rule map_eqI)
  fix n e
  have el: "elems_ok (hs_list H)" "elems_ok (hs_list H')" using inv H'(1) by (simp_all add: hash_inv_def)
  have a: "hash_map H' n = Some e \<longleftrightarrow> (\<exists>y \<in> set (hs_list H). lowered (he_key y) = n \<and> (if y = x then v else he_data y) = e)"
    unfolding hash_map_Some [OF el(2)] H'(2) set_map bex_simps by (rule bex_cong [OF refl]) (simp only: f)
  have u: "y = x" if "y \<in> set (hs_list H)" "lowered (he_key y) = lowered k" for y
    using elems_key_inj [OF el(1) that(1) x] that(2) k by simp
  show "hash_map H' n = Some e \<longleftrightarrow> ((hash_map H)(lowered k \<mapsto> v)) n = Some e"
  proof (cases "n = lowered k")
    case True
    then have "(\<exists>y \<in> set (hs_list H). lowered (he_key y) = n \<and> (if y = x then v else he_data y) = e) \<longleftrightarrow> v = e"
      using u x k by metis
    then show ?thesis using a True by simp
  next
    case False
    then have "(\<exists>y \<in> set (hs_list H). lowered (he_key y) = n \<and> (if y = x then v else he_data y) = e) \<longleftrightarrow>
        (\<exists>y \<in> set (hs_list H). lowered (he_key y) = n \<and> he_data y = e)"
      using k by (intro bex_cong [OF refl]) auto
    then show ?thesis unfolding a using hash_map_Some [OF el(1), of n e] False by simp
  qed
qed

lemma replace_ok:
  fixes H :: "'a hash" and v :: 'a
  assumes inv: "hash_inv H" and x: "x \<in> set (hs_list H)" and k: "lowered k = lowered (he_key x)"
  defines "H' \<equiv> H\<lparr> hs_list := map (\<lambda>y. if he_addr y = he_addr x then y\<lparr> he_data := v, he_key := k \<rparr> else y) (hs_list H) \<rparr>"
  shows "hash_inv H' \<and> hash_map H' = (hash_map H)(lowered k \<mapsto> v)"
proof -
  let ?f = "\<lambda>y. if he_addr y = he_addr x then y\<lparr> he_data := v, he_key := k \<rparr> else y"
  have el: "elems_ok (hs_list H)" and t: "table_ok H" and c: "hs_count H = length (hs_list H)"
    using inv by (simp_all add: hash_inv_def)
  have one: "y = x" if "y \<in> set (hs_list H)" "he_addr y = he_addr x" for y
    using that x el unfolding elems_ok_def by (metis distinct_map inj_onD)
  have keys: "map (\<lambda>e. lowered (he_key e)) (map ?f (hs_list H)) = map (\<lambda>e. lowered (he_key e)) (hs_list H)"
    using one k by (auto simp: map_eq_conv)
  have h: "he_h (?f y) = strHash (he_key (?f y))" if "y \<in> set (hs_list H)" for y
    using one [OF that] that el k strHash_lowered [of k "he_key x"] by (auto simp: elems_ok_def strHash_def)
  have "map he_addr (map ?f (hs_list H)) = map he_addr (hs_list H)" by simp
  then have "elems_ok (map ?f (hs_list H))"
    using el h unfolding elems_ok_def by (simp only: keys set_map ball_simps) simp
  moreover have "table_ok H'"
    using t bucket_ok_map [of _ "hs_list H" _ ?f] by (simp add: table_ok_def htsize_def H'_def bucket_of_def)
  ultimately have inv': "hash_inv H'" using c by (simp add: hash_inv_def H'_def)
  have f: "lowered (he_key (?f y)) = lowered (he_key y) \<and> he_data (?f y) = (if y = x then v else he_data y)"
    if "y \<in> set (hs_list H)" for y using one [OF that] k by auto
  have "hs_list H' = map ?f (hs_list H)" unfolding H'_def by simp
  then have "hash_map H' = (hash_map H)(lowered k \<mapsto> v)"
    using hash_map_replace [OF inv x k, of H' ?f] inv' f by blast
  then show ?thesis using inv' by simp
qed

subsection \<open>Inserting\<close>

definition hash_mem_ok :: "hash_mem \<Rightarrow> 'd hash \<Rightarrow> bool" where
  "hash_mem_ok M H \<longleftrightarrow> (\<forall>n m. hm_table M n = Some m \<longrightarrow> 0 < m) \<and>
     (\<forall>a. hm_elem M = Some a \<longrightarrow> a \<notin> he_addr ` set (hs_list H))"

text \<open>What an insertion does to a map; \<open>full\<close>: no memory for a new element.\<close>

definition map_update :: "bool \<Rightarrow> ('n \<Rightarrow> 'd option) \<Rightarrow> 'n \<Rightarrow> 'd option \<Rightarrow> ('n \<Rightarrow> 'd option) \<times> 'd option" where
  "map_update full f n d =
     (case d of
        None \<Rightarrow> (f(n := None), f n)
      | Some v \<Rightarrow> (case f n of Some u \<Rightarrow> (f(n \<mapsto> v), Some u) | None \<Rightarrow> if full then (f, Some v) else (f(n \<mapsto> v), None)))"

lemma insert_new:
  fixes H :: "'a hash" and v :: 'a
  assumes inv: "hash_inv H" and new: "hash_map H (lowered k) = None" and a: "a \<notin> he_addr ` set (hs_list H)"
    and M: "\<forall>n m. hm_table M n = Some m \<longrightarrow> 0 < m"
  defines "x \<equiv> \<lparr> he_addr = a, he_data = v, he_key = k, he_h = strHash k \<rparr>"
    and "H1 \<equiv> H\<lparr> hs_count := hs_count H + 1 \<rparr>"
  defines "H2 \<equiv> (if hs_count H1 \<ge> 5 \<and> hs_count H1 > 2 * htsize H1 then fst (rehash M H1 (hs_count H1 * 3)) else H1)"
  defines "H3 \<equiv> insertElement H2 (if hs_ht H2 \<noteq> [] then Some (bucket_of x (htsize H2)) else None) x"
  shows "hash_inv H3 \<and> hash_map H3 = (hash_map H)(lowered k \<mapsto> v)"
proof -
  have el: "elems_ok (hs_list H)" and t: "table_ok H" and c: "hs_count H = length (hs_list H)"
    using inv by (simp_all add: hash_inv_def)
  have t1: "table_ok H1" using t by (simp add: H1_def table_ok_def htsize_def)
  have d: "distinct (map he_addr (hs_list H1))" using el by (simp add: elems_ok_def H1_def)
  have 2: "table_ok H2" "mset (hs_list H2) = mset (hs_list H)" "hs_count H2 = hs_count H + 1"
    using rehash_ok [OF t1 d M, of "hs_count H1 * 3"] t1 by (auto simp: H2_def H1_def)
  have d2: "distinct (map he_addr (hs_list H2))"
    using el 2(2) unfolding elems_ok_def by (metis mset_eq_imp_distinct_iff mset_map)
  have 3: "table_ok H3" "mset (hs_list H3) = add_mset x (mset (hs_list H))" "hs_count H3 = hs_count H + 1"
  proof -
    have "table_ok H3 \<and> mset (hs_list H3) = add_mset x (mset (hs_list H)) \<and> hs_count H3 = hs_count H + 1"
    proof (cases "hs_ht H2 = []")
      case True
      then have "H3 = H2\<lparr> hs_list := x # hs_list H2 \<rparr>" by (simp add: H3_def insertElement_none)
      then show ?thesis using True 2 by (simp add: table_ok_def htsize_def)
    next
      case False
      then have "H3 = insertElement H2 (Some (bucket_of x (htsize H2))) x" by (simp add: H3_def)
      then show ?thesis using insertElement_ok [OF 2(1) d2 False, of x] 2 by simp
    qed
    then show "table_ok H3" "mset (hs_list H3) = add_mset x (mset (hs_list H))" "hs_count H3 = hs_count H + 1" by simp_all
  qed
  have fresh: "lowered (he_key e) \<noteq> lowered k" if "e \<in> set (hs_list H)" for e
    using new hash_map_Some [OF el, of "lowered k" "he_data e"] that by auto
  then have "lowered k \<notin> (\<lambda>e. lowered (he_key e)) ` set (hs_list H)" by (metis (no_types, lifting) imageE)
  then have "elems_ok (x # hs_list H)"
    using el a by (simp add: elems_ok_def x_def)
  then have el3: "elems_ok (hs_list H3)" using elems_ok_mset [of "hs_list H3" "x # hs_list H"] 3(2) by simp
  have "length (hs_list H3) = Suc (length (hs_list H))" using arg_cong [OF 3(2), of size] by simp
  then have inv3: "hash_inv H3" using 3 el3 c by (simp add: hash_inv_def)
  have s: "set (hs_list H3) = insert x (set (hs_list H))" using arg_cong [OF 3(2), of set_mset] by simp
  have "hash_map H3 = (hash_map H)(lowered k \<mapsto> v)"
  proof (rule map_eqI)
    fix n e
    show "hash_map H3 n = Some e \<longleftrightarrow> ((hash_map H)(lowered k \<mapsto> v)) n = Some e"
      using hash_map_Some [OF el3, of n e] hash_map_Some [OF el, of n e] s fresh by (auto simp: x_def)
  qed
  then show ?thesis using inv3 by simp
qed

lemma find_key_found:
  assumes "find (\<lambda>e. lowered (he_key e) = lowered k) (hs_list H) = Some x"
  shows "x \<in> set (hs_list H)" and "lowered k = lowered (he_key x)" and "hash_map H (lowered k) = Some (he_data x)"
  using assms by (auto simp: find_Some_iff hash_map_def map_of_find)

lemma HashInsert_eq:
  assumes inv: "hash_inv H" and M: "hash_mem_ok M H"
  shows "\<exists>H'. sqlite3HashInsert M H k d = Inr (H', snd (map_update (hm_elem M = None) (hash_map H) (lowered k) d)) \<and>
    hash_inv H' \<and> hash_map H' = fst (map_update (hm_elem M = None) (hash_map H) (lowered k) d)"
proof (cases "find (\<lambda>e. lowered (he_key e) = lowered k) (hs_list H)")
  case None
  then have n: "hash_map H (lowered k) = None" by (simp add: hash_map_def map_of_find)
  have id: "(hash_map H)(lowered k := None) = hash_map H" using n by (simp add: fun_upd_idem)
  show ?thesis
  proof (cases "d = None \<or> hm_elem M = None")
    case True
    then show ?thesis using inv n id None
      by (auto simp: sqlite3HashInsert_def findElement_eq [OF inv] map_update_def split: option.split)
  next
    case False
    then obtain v a where d: "d = Some v" "hm_elem M = Some a" by auto
    have "a \<notin> he_addr ` set (hs_list H)" "\<forall>n m. hm_table M n = Some m \<longrightarrow> 0 < m" using M d by (simp_all add: hash_mem_ok_def)
    note new = insert_new [OF inv n this, of v]
    have "\<exists>H'. sqlite3HashInsert M H k d = Inr (H', None) \<and> hash_inv H' \<and> hash_map H' = (hash_map H)(lowered k \<mapsto> v)"
      by (rule exI, rule conjI [OF _ new])
        (simp only: sqlite3HashInsert_def findElement_eq [OF inv] None d andThen_simps prod.case option.case Let_def)
    then show ?thesis using d n by (simp add: map_update_def)
  qed
next
  case (Some x)
  note x = find_key_found [OF Some]
  show ?thesis
  proof (cases d)
    case None
    then show ?thesis using removeElement_ok [OF inv x(1)] Some x
      by (simp add: sqlite3HashInsert_def findElement_eq [OF inv] map_update_def)
  next
    case (Some v)
    then show ?thesis using replace_ok [OF inv x(1,2), of v] \<open>find _ _ = _\<close> x(3)
      by (simp add: sqlite3HashInsert_def findElement_eq [OF inv] map_update_def)
  qed
qed

subsection \<open>The contract of a table of names\<close>

text \<open>A run of updates, when the memory each of them is given is admissible, and what it does to a map.\<close>

fun run_updates :: "('m \<Rightarrow> 's \<Rightarrow> 'k \<Rightarrow> 'v \<Rightarrow> ('s \<times> 'r) res) \<Rightarrow> 's \<Rightarrow> ('m \<times> 'k \<times> 'v) list \<Rightarrow> 's res" where
  "run_updates upd s [] = Inr s"
| "run_updates upd s ((m, k, v) # ops) = andThen (upd m s k v) (\<lambda>(s', _). run_updates upd s' ops)"

fun run_ok :: "('m \<Rightarrow> 's \<Rightarrow> 'k \<Rightarrow> 'v \<Rightarrow> ('s \<times> 'r) res) \<Rightarrow> ('m \<Rightarrow> 's \<Rightarrow> bool) \<Rightarrow> 's \<Rightarrow> ('m \<times> 'k \<times> 'v) list \<Rightarrow> bool" where
  "run_ok upd ok s [] \<longleftrightarrow> True"
| "run_ok upd ok s ((m, k, v) # ops) \<longleftrightarrow>
     ok m s \<and> (case upd m s k v of Inl _ \<Rightarrow> True | Inr (s', _) \<Rightarrow> run_ok upd ok s' ops)"

fun map_run :: "('m \<Rightarrow> bool) \<Rightarrow> ('k \<Rightarrow> 'n) \<Rightarrow> ('n \<Rightarrow> 'd option) \<Rightarrow> ('m \<times> 'k \<times> 'd option) list \<Rightarrow> 'n \<Rightarrow> 'd option" where
  "map_run full name f [] = f"
| "map_run full name f ((m, k, v) # ops) = map_run full name (fst (map_update (full m) f (name k) v)) ops"

locale name_table =
  fixes lookup :: "'s \<Rightarrow> 'k \<Rightarrow> 'd option res"
    and upd :: "'m \<Rightarrow> 's \<Rightarrow> 'k \<Rightarrow> 'd option \<Rightarrow> ('s \<times> 'd option) res"
    and as_map :: "'s \<Rightarrow> 'n \<Rightarrow> 'd option"
    and name :: "'k \<Rightarrow> 'n"
    and inv :: "'s \<Rightarrow> bool"
    and ok :: "'m \<Rightarrow> 's \<Rightarrow> bool"
    and full :: "'m \<Rightarrow> bool"
  assumes lookup_as_map: "inv s \<Longrightarrow> lookup s k = Inr (as_map s (name k))"
    and update_as_map: "inv s \<Longrightarrow> ok m s \<Longrightarrow>
      \<exists>s'. upd m s k v = Inr (s', snd (map_update (full m) (as_map s) (name k) v)) \<and> inv s' \<and>
        as_map s' = fst (map_update (full m) (as_map s) (name k) v)"
begin

lemma run_as_map:
  assumes "inv s" and "run_ok upd ok s ops"
  shows "\<exists>s'. run_updates upd s ops = Inr s' \<and> inv s' \<and> as_map s' = map_run full name (as_map s) ops"
  using assms
proof (induction ops arbitrary: s)
  case Nil
  then show ?case by simp
next
  case (Cons op ops)
  obtain m k v where op: "op = (m, k, v)" by (cases op)
  obtain s' where s': "upd m s k v = Inr (s', snd (map_update (full m) (as_map s) (name k) v))" "inv s'"
      "as_map s' = fst (map_update (full m) (as_map s) (name k) v)"
    using update_as_map [of s m k v] Cons.prems op by auto
  then show ?case using Cons.IH [of s'] Cons.prems(2) op by simp
qed

lemma lookup_after_run:
  assumes "inv s" and "run_ok upd ok s ops"
  shows "\<exists>s'. run_updates upd s ops = Inr s' \<and> inv s' \<and> (\<forall>k. lookup s' k = Inr (map_run full name (as_map s) ops (name k)))"
  using run_as_map [OF assms] lookup_as_map by fastforce

end

interpretation hash: name_table sqlite3HashFind sqlite3HashInsert hash_map lowered hash_inv hash_mem_ok "\<lambda>M. hm_elem M = None"
  using HashFind_eq HashInsert_eq by unfold_locales blast+

text \<open>C36: A hash table is a map from names without case to data. After any run of insertions, replacements and
  removals from the empty table, whatever allocations fail, looking up a name gives what the run left for
  its lower-case form; the next insertion returns the data it replaces or removes, or its own data if
  there was no memory for a new element; and no walk leaves the list.\<close>

theorem sqlite3Hash_refines_map:
  assumes "run_ok sqlite3HashInsert hash_mem_ok sqlite3HashInit ops"
  shows "\<exists>H. run_updates sqlite3HashInsert sqlite3HashInit ops = Inr H \<and>
    (\<forall>k. sqlite3HashFind H k = Inr (map_run (\<lambda>M. hm_elem M = None) lowered Map.empty ops (lowered k))) \<and>
    (\<forall>M k d. hash_mem_ok M H \<longrightarrow> (\<exists>H'. sqlite3HashInsert M H k d =
       Inr (H', snd (map_update (hm_elem M = None) (map_run (\<lambda>M. hm_elem M = None) lowered Map.empty ops) (lowered k) d))))"
proof -
  obtain H where H: "run_updates sqlite3HashInsert sqlite3HashInit ops = Inr H" "hash_inv H"
    "hash_map H = map_run (\<lambda>M. hm_elem M = None) lowered Map.empty ops"
    using hash.run_as_map [OF Init_inv(1) assms] by (auto simp: Init_inv(2))
  have "\<forall>M k d. hash_mem_ok M H \<longrightarrow> (\<exists>H'. sqlite3HashInsert M H k d =
       Inr (H', snd (map_update (hm_elem M = None) (map_run (\<lambda>M. hm_elem M = None) lowered Map.empty ops) (lowered k) d)))"
    using HashInsert_eq [OF H(2)] unfolding H(3) by blast
  then show ?thesis using H HashFind_eq [OF H(2)] by auto
qed

text \<open>"Ab" is entered, "aB" replaced, and "x" is refused for lack of memory.\<close>

definition sample_hash_ops :: "(hash_mem \<times> u8 list \<times> nat option) list" where
  "sample_hash_ops =
     [(\<lparr> hm_elem = Some 1, hm_table = (\<lambda>n. if n = 0 then None else Some n) \<rparr>, [65, 98], Some 1),
      (\<lparr> hm_elem = None, hm_table = (\<lambda>n. None) \<rparr>, [97, 66], Some 2),
      (\<lparr> hm_elem = None, hm_table = (\<lambda>n. None) \<rparr>, [120], Some 3)]"

theorem sqlite3Hash_refines_map_witness:
  "\<exists>H. run_updates sqlite3HashInsert sqlite3HashInit sample_hash_ops = Inr H \<and>
     sqlite3HashFind H [97, 98] = Inr (Some 2) \<and> sqlite3HashFind H [120] = Inr None"
proof -
  let ?m = "map_run (\<lambda>M. hm_elem M = None) lowered Map.empty sample_hash_ops"
  have "run_ok sqlite3HashInsert hash_mem_ok sqlite3HashInit sample_hash_ops"
    by (auto simp: sample_hash_ops_def hash_mem_ok_def sqlite3HashInit_def split: sum.split)
  from sqlite3Hash_refines_map [OF this]
  obtain H where "run_updates sqlite3HashInsert sqlite3HashInit sample_hash_ops = Inr H"
    "\<forall>k. sqlite3HashFind H k = Inr (?m (lowered k))" by blast
  moreover have "?m (lowered [97, 98]) = Some 2" "?m (lowered [120]) = None" by code_simp+
  ultimately show ?thesis by auto
qed

end
