(* ===== verification/SqliteBitvec.thy ===== *)
theory SqliteBitvec
  imports Prelude
begin

section \<open>Common/sqlite/sqlite3.c: the bit vectors of bitvec.c\<close>

text \<open>
  A bit vector records which of the numbers 1 to \<open>iSize\<close> are set: as a bitmap, as a hash table with
  linear probing, or as 62 sub-vectors of \<open>iDivisor\<close> numbers each. The union is a datatype whose
  constructor is the representation that was written last; reading another one is the fault
  \<open>RawMemory\<close>, an index outside an array is \<open>OutOfBounds\<close>. The sizes are those of pointers of eight
  bytes. A \<open>NULL\<close> pointer is \<open>None\<close>.

  The allocations of an operation are numbered; \<open>ok n\<close> says whether allocation \<open>n\<close> succeeds. A probe of
  the hash table is back at its start after \<open>BITVEC_NINT\<close> steps, so that a probe with that fuel left
  over is a loop that does not end. The fuel of \<open>set_at\<close> counts levels of sub-vectors and rehashes.
\<close>

datatype bitvec = Bitvec (bv_iSize: u32) (bv_nSet: u32) (bv_iDivisor: u32) (bv_u: bv_union)
  and bv_union = aBitmap "u8 list" | aHash "u32 list" | apSub "bitvec option list"

definition BITVEC_SZ :: nat where "BITVEC_SZ = 512"
definition BITVEC_USIZE :: nat where "BITVEC_USIZE = ((BITVEC_SZ - 3 * 4) div 8) * 8"
definition BITVEC_SZELEM :: nat where "BITVEC_SZELEM = 8"
definition BITVEC_NELEM :: nat where "BITVEC_NELEM = BITVEC_USIZE div 1"
definition BITVEC_NBIT :: nat where "BITVEC_NBIT = BITVEC_NELEM * BITVEC_SZELEM"
definition BITVEC_NINT :: nat where "BITVEC_NINT = BITVEC_USIZE div 4"
definition BITVEC_MXHASH :: nat where "BITVEC_MXHASH = BITVEC_NINT div 2"
definition BITVEC_HASH :: "u32 \<Rightarrow> nat" where "BITVEC_HASH x = (unat x * 1) mod BITVEC_NINT"
definition BITVEC_NPTR :: u32 where "BITVEC_NPTR = of_nat (BITVEC_USIZE div 8)"

lemma bitvec_sizes [simp]:
  "BITVEC_NELEM = 496" "BITVEC_NBIT = 3968" "BITVEC_NINT = 124" "BITVEC_MXHASH = 62" "BITVEC_SZELEM = 8"
  "BITVEC_NPTR = 62" "BITVEC_HASH x = unat x mod 124"
  by (simp_all add: BITVEC_NELEM_def BITVEC_NBIT_def BITVEC_NINT_def BITVEC_MXHASH_def BITVEC_SZELEM_def
      BITVEC_NPTR_def BITVEC_HASH_def BITVEC_USIZE_def BITVEC_SZ_def)

definition bv_OK :: nat where "bv_OK = 0"
definition bv_NOMEM :: nat where "bv_NOMEM = 7"

text \<open>Zeroed memory is an empty bitmap or an empty hash table, as the size says.\<close>

definition zero_union :: "u32 \<Rightarrow> bv_union" where
  "zero_union sz = (if unat sz \<le> BITVEC_NBIT then aBitmap (replicate BITVEC_NELEM 0) else aHash (replicate BITVEC_NINT 0))"

definition sqlite3BitvecCreate :: "(nat \<Rightarrow> bool) \<Rightarrow> nat \<Rightarrow> u32 \<Rightarrow> bitvec option \<times> nat" where
  "sqlite3BitvecCreate ok n sz = (if ok n then Some (Bitvec sz 0 0 (zero_union sz)) else None, Suc n)"

subsection \<open>Testing\<close>

definition sub_at :: "bitvec option list \<Rightarrow> nat \<Rightarrow> bitvec option res" where
  "sub_at subs bin = (if bin < length subs then Inr (subs ! bin) else Inl OutOfBounds)"

definition bitmap_test :: "u8 list \<Rightarrow> u32 \<Rightarrow> bool res" where
  "bitmap_test bs i =
     (let k = unat i div BITVEC_SZELEM in
      if k < length bs then Inr (bs ! k AND push_bit (unat (i AND of_nat (BITVEC_SZELEM - 1))) 1 \<noteq> 0) else Inl OutOfBounds)"

fun test_probe :: "nat \<Rightarrow> u32 list \<Rightarrow> u32 \<Rightarrow> nat \<Rightarrow> bool res" where
  "test_probe 0 hs i h = Inl NoReturn"
| "test_probe (Suc f) hs i h =
     (if hs ! h = 0 then Inr False
      else if hs ! h = i then Inr True
      else test_probe f hs i ((h + 1) mod BITVEC_NINT))"

function test_at :: "bitvec \<Rightarrow> u32 \<Rightarrow> bool res" where
  "test_at (Bitvec sz n dv u) i =
     (if dv \<noteq> 0 then
        (case u of
           apSub subs \<Rightarrow> andThen (sub_at subs (unat (i div dv)))
             (\<lambda>s. case s of None \<Rightarrow> Inr False | Some q \<Rightarrow> test_at q (i mod dv))
         | _ \<Rightarrow> Inl RawMemory)
      else if unat sz \<le> BITVEC_NBIT then
        (case u of aBitmap bs \<Rightarrow> bitmap_test bs i | _ \<Rightarrow> Inl RawMemory)
      else
        (case u of aHash hs \<Rightarrow> test_probe BITVEC_NINT hs (i + 1) (BITVEC_HASH i) | _ \<Rightarrow> Inl RawMemory))"
  by pat_completeness auto

lemma sub_at_size: "sub_at subs b = Inr (Some q) \<Longrightarrow> size q < size (Bitvec sz n dv (apSub subs))"
proof -
  assume "sub_at subs b = Inr (Some q)"
  then have "Some q \<in> set subs" by (auto simp: sub_at_def nth_mem split: if_splits) (metis nth_mem)
  then have "size_option size (Some q) \<le> size_list (size_option size) subs" by (rule size_list_estimation') simp
  then show ?thesis by simp
qed

termination test_at
  by (relation "measure (size \<circ> fst)") (auto dest: sub_at_size)

definition sqlite3BitvecTestNotNull :: "bitvec \<Rightarrow> u32 \<Rightarrow> bool res" where
  "sqlite3BitvecTestNotNull p i = (let i = i - 1 in if i \<ge> bv_iSize p then Inr False else test_at p i)"

definition sqlite3BitvecTest :: "bitvec option \<Rightarrow> u32 \<Rightarrow> bool res" where
  "sqlite3BitvecTest p i = (case p of None \<Rightarrow> Inr False | Some p \<Rightarrow> sqlite3BitvecTestNotNull p i)"

subsection \<open>Setting\<close>

definition bitmap_set :: "u8 list \<Rightarrow> u32 \<Rightarrow> u8 list res" where
  "bitmap_set bs i =
     (let k = unat i div BITVEC_SZELEM in
      if k < length bs then Inr (bs[k := bs ! k OR push_bit (unat (i AND of_nat (BITVEC_SZELEM - 1))) 1]) else Inl OutOfBounds)"

text \<open>The probe of \<open>sqlite3BitvecSet\<close>: \<open>None\<close> when the value is found, otherwise the first free slot.\<close>

fun set_probe :: "nat \<Rightarrow> u32 list \<Rightarrow> u32 \<Rightarrow> nat \<Rightarrow> nat option res" where
  "set_probe 0 hs i h = Inl NoReturn"
| "set_probe (Suc f) hs i h =
     (if hs ! h = i then Inr None
      else let h = h + 1; h = (if h \<ge> BITVEC_NINT then 0 else h) in
        if hs ! h = 0 then Inr (Some h) else set_probe f hs i h)"

text \<open>Where a hash table goes after looking for the value: it has it, or it takes it at a slot, or
  the table is checked for being too full first (the labels of the code).\<close>

datatype set_goto = return_ok | bitvec_set_end nat | bitvec_set_rehash nat

definition hash_goto :: "u32 list \<Rightarrow> u32 \<Rightarrow> u32 \<Rightarrow> nat \<Rightarrow> set_goto res" where
  "hash_goto hs n i h =
     (if hs ! h = 0
      then Inr (if unat n < BITVEC_NINT - 1 then bitvec_set_end h else bitvec_set_rehash h)
      else andThen (set_probe BITVEC_NINT hs i h)
        (\<lambda>r. Inr (case r of None \<Rightarrow> return_ok | Some h \<Rightarrow> bitvec_set_rehash h)))"

definition new_divisor :: "u32 \<Rightarrow> u32" where
  "new_divisor sz =
     (let dv = sz div BITVEC_NPTR;
          dv = (if sz mod BITVEC_NPTR \<noteq> 0 then dv + 1 else dv) in
      if unat dv < BITVEC_NBIT then of_nat BITVEC_NBIT else dv)"

fun rehash_values :: "(nat \<Rightarrow> bitvec \<Rightarrow> u32 \<Rightarrow> (nat \<times> bitvec \<times> nat) res) \<Rightarrow>
    nat \<Rightarrow> bitvec \<Rightarrow> nat \<Rightarrow> u32 list \<Rightarrow> (nat \<times> bitvec \<times> nat) res" where
  "rehash_values f n p rc [] = Inr (n, p, rc)"
| "rehash_values f n p rc (v # vs) =
     (if v \<noteq> 0
      then andThen (f n p v) (\<lambda>(n, p, rc'). rehash_values f n p (rc OR rc') vs)
      else rehash_values f n p rc vs)"

text \<open>\<open>set_at d ok n p i\<close> sets the number \<open>i + 1\<close>; \<open>n\<close> is the number of the next allocation. It returns
  that of the next one, the vector and the result code.\<close>

fun set_at :: "nat \<Rightarrow> (nat \<Rightarrow> bool) \<Rightarrow> nat \<Rightarrow> bitvec \<Rightarrow> u32 \<Rightarrow> (nat \<times> bitvec \<times> nat) res" where
  "set_at 0 ok n p i = Inl NoReturn"
| "set_at (Suc d) ok n (Bitvec sz k dv u) i =
     (if unat sz > BITVEC_NBIT \<and> dv \<noteq> 0 then
        (case u of
           apSub subs \<Rightarrow>
             let bin = unat (i div dv); i = i mod dv in
             andThen (sub_at subs bin) (\<lambda>s.
               case (case s of None \<Rightarrow> sqlite3BitvecCreate ok n dv | Some q \<Rightarrow> (Some q, n)) of
                 (None, n) \<Rightarrow> Inr (n, Bitvec sz k dv u, bv_NOMEM)
               | (Some q, n) \<Rightarrow> andThen (set_at d ok n q i)
                   (\<lambda>(n, q, rc). Inr (n, Bitvec sz k dv (apSub (subs[bin := Some q])), rc)))
         | _ \<Rightarrow> Inl RawMemory)
      else if unat sz \<le> BITVEC_NBIT then
        (case u of aBitmap bs \<Rightarrow> andThen (bitmap_set bs i) (\<lambda>bs. Inr (n, Bitvec sz k dv (aBitmap bs), bv_OK)) | _ \<Rightarrow> Inl RawMemory)
      else
        (case u of
           aHash hs \<Rightarrow>
             let h = BITVEC_HASH i; i = i + 1;
                 set_end = (\<lambda>h. Inr (n, Bitvec sz (k + 1) dv (aHash (hs[h := i])), bv_OK)) in
             andThen (hash_goto hs k i h) (\<lambda>g.
               case g of
                 return_ok \<Rightarrow> Inr (n, Bitvec sz k dv u, bv_OK)
               | bitvec_set_end h \<Rightarrow> set_end h
               | bitvec_set_rehash h \<Rightarrow>
                   if unat k \<ge> BITVEC_MXHASH then
                     if \<not> ok n then Inr (Suc n, Bitvec sz k dv u, bv_NOMEM)
                     else
                       let set = (\<lambda>n p i. set_at d ok n p (i - 1));
                           p = Bitvec sz k (new_divisor sz) (apSub (replicate (unat BITVEC_NPTR) None)) in
                       andThen (set (Suc n) p i) (\<lambda>(n, p, rc). rehash_values set n p rc hs)
                   else set_end h)
         | _ \<Rightarrow> Inl RawMemory))"

definition sqlite3BitvecSet :: "nat \<Rightarrow> (nat \<Rightarrow> bool) \<Rightarrow> nat \<Rightarrow> bitvec option \<Rightarrow> u32 \<Rightarrow> (nat \<times> bitvec option \<times> nat) res" where
  "sqlite3BitvecSet d ok n p i =
     (case p of
        None \<Rightarrow> Inr (n, None, bv_OK)
      | Some p \<Rightarrow> andThen (set_at d ok n p (i - 1)) (\<lambda>(n, p, rc). Inr (n, Some p, rc)))"

subsection \<open>Clearing\<close>

definition bitmap_clear :: "u8 list \<Rightarrow> u32 \<Rightarrow> u8 list res" where
  "bitmap_clear bs i =
     (let k = unat i div BITVEC_SZELEM in
      if k < length bs then Inr (bs[k := bs ! k AND NOT (push_bit (unat (i AND of_nat (BITVEC_SZELEM - 1))) 1)]) else Inl OutOfBounds)"

fun free_probe :: "nat \<Rightarrow> u32 list \<Rightarrow> nat \<Rightarrow> nat res" where
  "free_probe 0 hs h = Inl NoReturn"
| "free_probe (Suc f) hs h =
     (if hs ! h = 0 then Inr h
      else let h = h + 1; h = (if h \<ge> BITVEC_NINT then 0 else h) in free_probe f hs h)"

fun clear_loop :: "u32 \<Rightarrow> u32 list \<Rightarrow> u32 \<Rightarrow> u32 list \<Rightarrow> (u32 \<times> u32 list) res" where
  "clear_loop i [] n hs = Inr (n, hs)"
| "clear_loop i (v # vs) n hs =
     (if v \<noteq> 0 \<and> v \<noteq> i + 1
      then andThen (free_probe BITVEC_NINT hs (BITVEC_HASH (v - 1))) (\<lambda>h. clear_loop i vs (n + 1) (hs[h := v]))
      else clear_loop i vs n hs)"

function clear_at :: "bitvec \<Rightarrow> u32 \<Rightarrow> bitvec res" where
  "clear_at (Bitvec sz n dv u) i =
     (if dv \<noteq> 0 then
        (case u of
           apSub subs \<Rightarrow> andThen (sub_at subs (unat (i div dv))) (\<lambda>s.
             case s of
               None \<Rightarrow> Inr (Bitvec sz n dv u)
             | Some q \<Rightarrow> andThen (clear_at q (i mod dv))
                 (\<lambda>q. Inr (Bitvec sz n dv (apSub (subs[unat (i div dv) := Some q])))))
         | _ \<Rightarrow> Inl RawMemory)
      else if unat sz \<le> BITVEC_NBIT then
        (case u of aBitmap bs \<Rightarrow> andThen (bitmap_clear bs i) (\<lambda>bs. Inr (Bitvec sz n dv (aBitmap bs))) | _ \<Rightarrow> Inl RawMemory)
      else
        (case u of
           aHash hs \<Rightarrow> andThen (clear_loop i hs 0 (replicate BITVEC_NINT 0)) (\<lambda>(n, hs). Inr (Bitvec sz n dv (aHash hs)))
         | _ \<Rightarrow> Inl RawMemory))"
  by pat_completeness auto

termination clear_at
  by (relation "measure (size \<circ> fst)") (auto dest: sub_at_size)

definition sqlite3BitvecClear :: "bitvec option \<Rightarrow> u32 \<Rightarrow> bitvec option res" where
  "sqlite3BitvecClear p i =
     (case p of None \<Rightarrow> Inr None | Some p \<Rightarrow> andThen (clear_at p (i - 1)) (\<lambda>p. Inr (Some p)))"

subsection \<open>Size and destruction\<close>

definition sqlite3BitvecSize :: "bitvec \<Rightarrow> u32" where
  "sqlite3BitvecSize p = bv_iSize p"

text \<open>The vectors in the order they are freed.\<close>

fun destroy :: "bitvec \<Rightarrow> bitvec list" where
  "destroy (Bitvec sz n dv (apSub subs)) =
     (if dv \<noteq> 0 then concat (map (\<lambda>s. case s of None \<Rightarrow> [] | Some q \<Rightarrow> destroy q) subs) else []) @ [Bitvec sz n dv (apSub subs)]"
| "destroy p = [p]"

definition sqlite3BitvecDestroy :: "bitvec option \<Rightarrow> bitvec list" where
  "sqlite3BitvecDestroy p = (case p of None \<Rightarrow> [] | Some p \<Rightarrow> destroy p)"

end
