(* ===== verification/SqliteBitvec_Hash.thy ===== *)
theory SqliteBitvec_Hash
  imports SqliteBitvec
begin

section \<open>The hash tables of the bit vectors\<close>

text \<open>The probes of the three operations end at the first slot that is free or holds the value, and an
  insertion there keeps the tables in order.\<close>

subsection \<open>Probing\<close>

text \<open>The slot \<open>k\<close> steps behind \<open>h\<close>.\<close>

definition slot :: "u32 list \<Rightarrow> nat \<Rightarrow> nat \<Rightarrow> u32" where
  "slot hs h k = hs ! ((h + k) mod 124)"

lemma slot_0: "h < 124 \<Longrightarrow> slot hs h 0 = hs ! h"
  by (simp add: slot_def)

text \<open>\<open>probe_to hs v h k\<close>: the probe for \<open>v\<close> from \<open>h\<close> passes \<open>k\<close> slots that are neither free nor hold \<open>v\<close>.\<close>

definition probe_to :: "u32 list \<Rightarrow> u32 \<Rightarrow> nat \<Rightarrow> nat \<Rightarrow> bool" where
  "probe_to hs v h k \<longleftrightarrow> k < 124 \<and> (\<forall>j < k. slot hs h j \<noteq> 0 \<and> slot hs h j \<noteq> v)"

lemma slot_step: "slot hs ((h + 1) mod 124) j = slot hs h (Suc j)"
  by (simp add: slot_def mod_simps)

lemma all_slots_step: "(\<forall>j < Suc k. P (slot hs h j)) \<Longrightarrow> \<forall>j < k. P (slot hs ((h + 1) mod 124) j)"
  unfolding slot_step by simp

lemma slot_covers: "z < 124 \<Longrightarrow> \<exists>k < 124. (h + k) mod 124 = (z :: nat)"
proof -
  assume z: "z < 124"
  let ?k = "(z + (124 - h mod 124)) mod 124"
  have le: "h mod 124 \<le> 124" by (rule less_imp_le, rule mod_less_divisor) simp
  have "(h + ?k) mod 124 = (h mod 124 + (z + (124 - h mod 124))) mod 124" by (simp only: mod_add_left_eq mod_add_right_eq)
  also have "h mod 124 + (z + (124 - h mod 124)) = z + 124" using le by simp
  finally show ?thesis using z by (intro exI [of _ ?k]) simp
qed

lemma probe_ends:
  assumes "length hs = 124" and "0 \<in> set hs"
  shows "\<exists>k. probe_to hs v h k \<and> (slot hs h k = 0 \<or> slot hs h k = v)"
proof -
  obtain z where z: "z < 124" "hs ! z = 0" using assms by (auto simp: in_set_conv_nth)
  obtain k where k: "k < 124" "slot hs h k = 0" using slot_covers [OF z(1), of h] z(2) unfolding slot_def by auto
  let ?P = "\<lambda>k. slot hs h k = 0 \<or> slot hs h k = v"
  have "?P k" using k(2) by (rule disjI1)
  then obtain m where m: "?P m" "\<forall>j < m. \<not> ?P j" using exists_least_iff [of ?P] by blast
  have "\<not> k < m" using m(2) \<open>?P k\<close> by blast
  then have "m < 124" using k(1) by linarith
  then have "probe_to hs v h m" using m(2) unfolding probe_to_def by blast
  then show ?thesis using m(1) by blast
qed

lemma test_probe_run:
  "\<forall>j < k. slot hs h j \<noteq> 0 \<and> slot hs h j \<noteq> v \<Longrightarrow> slot hs h k = 0 \<or> slot hs h k = v \<Longrightarrow> k < f \<Longrightarrow> h < 124 \<Longrightarrow>
   test_probe f hs v h = Inr (slot hs h k \<noteq> 0)"
proof (induction k arbitrary: f h)
  case 0
  then show ?case by (cases f) (auto simp: slot_0)
next
  case (Suc k)
  obtain f' where f: "f = Suc f'" using Suc.prems(3) by (cases f) auto
  have "slot hs h 0 \<noteq> 0" "slot hs h 0 \<noteq> v" using Suc.prems(1) by blast+
  then have "test_probe f hs v h = test_probe f' hs v ((h + 1) mod 124)" using f Suc.prems(4) by (simp add: slot_0)
  then show ?case using Suc.IH [OF all_slots_step [OF Suc.prems(1)], of f'] Suc.prems(2,3) f unfolding slot_step by simp
qed

lemma free_probe_run:
  "\<forall>j < k. slot hs h j \<noteq> 0 \<Longrightarrow> slot hs h k = 0 \<Longrightarrow> k < f \<Longrightarrow> h < 124 \<Longrightarrow> free_probe f hs h = Inr ((h + k) mod 124)"
proof (induction k arbitrary: f h)
  case 0
  then show ?case by (cases f) (auto simp: slot_0)
next
  case (Suc k)
  obtain f' where f: "f = Suc f'" using Suc.prems(3) by (cases f) auto
  have "slot hs h 0 \<noteq> 0" using Suc.prems(1) by blast
  then have "free_probe f hs h = free_probe f' hs ((h + 1) mod 124)"
    using f Suc.prems(4) by (cases "h = 123") (auto simp: slot_0 Let_def)
  then show ?case using Suc.IH [OF all_slots_step [OF Suc.prems(1)], of f'] Suc.prems(2,3) f unfolding slot_step
    by (simp add: mod_simps)
qed

lemma set_probe_run:
  "\<forall>j < k. slot hs h j \<noteq> 0 \<and> slot hs h j \<noteq> v \<Longrightarrow> slot hs h k = 0 \<or> slot hs h k = v \<Longrightarrow> slot hs h 0 \<noteq> 0 \<Longrightarrow> v \<noteq> 0 \<Longrightarrow> k < f \<Longrightarrow> h < 124 \<Longrightarrow>
   set_probe f hs v h = Inr (if slot hs h k = v then None else Some ((h + k) mod 124))"
proof (induction k arbitrary: f h)
  case 0
  then show ?case by (cases f) (auto simp: slot_0)
next
  case (Suc k)
  let ?h = "(h + 1) mod 124"
  obtain f' where f: "f = Suc f'" using Suc.prems(5) by (cases f) auto
  have "slot hs h 0 \<noteq> v" using Suc.prems(1) by blast
  then have step: "set_probe f hs v h = (if slot hs ?h 0 = 0 then Inr (Some ?h) else set_probe f' hs v ?h)"
    using f Suc.prems(6) by (cases "h = 123") (auto simp: slot_0 Let_def)
  show ?case
  proof (cases "slot hs ?h 0 = 0")
    case True
    then have "\<not> Suc 0 < Suc k" using Suc.prems(1) unfolding slot_step by blast
    then have "k = 0" by simp
    then show ?thesis using step True Suc.prems(4) unfolding slot_step by simp
  next
    case False
    have "set_probe f' hs v ?h = Inr (if slot hs ?h k = v then None else Some ((?h + k) mod 124))"
      using Suc.IH [OF all_slots_step [OF Suc.prems(1)] _ False Suc.prems(4), of f'] Suc.prems(2,5) f unfolding slot_step by simp
    moreover have "(?h + k) mod 124 = (h + Suc k) mod 124" by (simp add: mod_simps)
    ultimately show ?thesis using step False unfolding slot_step by simp
  qed
qed

subsection \<open>The hash tables\<close>

text \<open>Every value is found on the way from its home, and a free slot is left.\<close>

definition reachable :: "u32 list \<Rightarrow> u32 \<Rightarrow> bool" where
  "reachable hs v \<longleftrightarrow> (\<exists>k < 124. slot hs (BITVEC_HASH (v - 1)) k = v \<and> (\<forall>j < k. slot hs (BITVEC_HASH (v - 1)) j \<noteq> 0))"

abbreviation used :: "u32 list \<Rightarrow> nat" where
  "used hs \<equiv> length (filter (\<lambda>v. v \<noteq> 0) hs)"

definition hash_ok :: "u32 \<Rightarrow> u32 \<Rightarrow> u32 list \<Rightarrow> bool" where
  "hash_ok sz n hs \<longleftrightarrow> length hs = 124 \<and> (\<forall>v \<in> set hs. v \<noteq> 0 \<longrightarrow> reachable hs v) \<and> (\<forall>v \<in> set hs. v \<le> sz) \<and>
     unat n = used hs \<and> used hs < 124"

lemma used_free: "used hs < length hs \<Longrightarrow> 0 \<in> set hs"
  by (rule ccontr) (metis (mono_tags, lifting) filter_True less_irrefl)

lemma hash_free: "hash_ok sz n hs \<Longrightarrow> 0 \<in> set hs"
  by (rule used_free) (simp add: hash_ok_def)

lemma probe_decides:
  assumes "hash_ok sz n hs" and "probe_to hs v (BITVEC_HASH (v - 1)) k" and "v \<noteq> 0"
    and "slot hs (BITVEC_HASH (v - 1)) k = 0 \<or> slot hs (BITVEC_HASH (v - 1)) k = v"
  shows "slot hs (BITVEC_HASH (v - 1)) k \<noteq> 0 \<longleftrightarrow> v \<in> set hs"
proof
  assume "slot hs (BITVEC_HASH (v - 1)) k \<noteq> 0"
  then have "slot hs (BITVEC_HASH (v - 1)) k = v" using assms(4) by blast
  then show "v \<in> set hs" using assms(1) unfolding slot_def hash_ok_def by (metis mod_less_divisor nth_mem zero_less_numeral)
next
  assume "v \<in> set hs"
  then obtain k' where k': "slot hs (BITVEC_HASH (v - 1)) k' = v" "\<forall>j < k'. slot hs (BITVEC_HASH (v - 1)) j \<noteq> 0"
    using assms(1,3) by (auto simp: hash_ok_def reachable_def)
  have "\<not> k' < k" using k'(1) assms(2) by (auto simp: probe_to_def)
  then show "slot hs (BITVEC_HASH (v - 1)) k \<noteq> 0" using k' assms(3) by (metis linorder_neqE_nat)
qed

lemma test_probe_ok:
  assumes "hash_ok sz n hs" and "v \<noteq> 0"
  shows "test_probe 124 hs v (BITVEC_HASH (v - 1)) = Inr (v \<in> set hs)"
proof -
  have "length hs = 124" "0 \<in> set hs" using assms(1) hash_free by (auto simp: hash_ok_def)
  from probe_ends [OF this] obtain k where k: "probe_to hs v (BITVEC_HASH (v - 1)) k"
    "slot hs (BITVEC_HASH (v - 1)) k = 0 \<or> slot hs (BITVEC_HASH (v - 1)) k = v" by blast
  then have "test_probe 124 hs v (BITVEC_HASH (v - 1)) = Inr (slot hs (BITVEC_HASH (v - 1)) k \<noteq> 0)"
    by (intro test_probe_run) (simp_all add: probe_to_def)
  then show ?thesis using probe_decides [OF assms(1) k(1) assms(2) k(2)] by simp
qed

lemma filter_update:
  assumes "s < length hs" and "hs ! s = (0 :: u32)" and "v \<noteq> 0"
  shows "used (hs[s := v]) = Suc (used hs)"
proof -
  have "used (take s hs @ v # drop (Suc s) hs) = Suc (used (take s hs @ hs ! s # drop (Suc s) hs))"
    using assms by simp
  then show ?thesis using assms(1) by (simp only: upd_conv_take_nth_drop id_take_nth_drop [symmetric])
qed

lemma member_update:
  assumes "s < length hs" and "hs ! s = (0 :: u32)" and "x \<noteq> 0"
  shows "x \<in> set (hs[s := v]) \<longleftrightarrow> x = v \<or> x \<in> set hs"
proof -
  have "set (hs[s := v]) = insert v (set (take s hs) \<union> set (drop (Suc s) hs))"
    using assms(1) by (simp add: upd_conv_take_nth_drop)
  moreover have "set hs = insert 0 (set (take s hs) \<union> set (drop (Suc s) hs))"
    using arg_cong [OF id_take_nth_drop [OF assms(1)], of set] assms(2) by simp
  ultimately show ?thesis using assms(3) by auto
qed

lemma slot_update: "s < length hs \<Longrightarrow> length hs = 124 \<Longrightarrow> slot (hs[s := v]) h j = (if (h + j) mod 124 = s then v else slot hs h j)"
  by (simp add: slot_def nth_list_update)

lemma reachable_update:
  assumes "length hs = 124" and "s < 124" and "hs ! s = 0" and "v \<noteq> 0" and "x \<noteq> 0" and "reachable hs x"
  shows "reachable (hs[s := v]) x"
proof -
  let ?h = "BITVEC_HASH (x - 1)"
  obtain k where k: "k < 124" "slot hs ?h k = x" "\<forall>j < k. slot hs ?h j \<noteq> 0" using assms(6) unfolding reachable_def by blast
  have "(?h + k) mod 124 \<noteq> s" using k(2) assms(3,5) unfolding slot_def by metis
  then have "slot (hs[s := v]) ?h k = x" using slot_update [of s hs v ?h k] assms(1,2) k(2) by simp
  moreover have "\<forall>j < k. slot (hs[s := v]) ?h j \<noteq> 0" using slot_update [of s hs v ?h] assms(1,2,4) k(3) by simp
  ultimately show ?thesis using k(1) unfolding reachable_def by blast
qed

lemma reachable_new:
  assumes "length hs = 124" and "k < 124 \<and> (\<forall>j < k. slot hs (BITVEC_HASH (v - 1)) j \<noteq> 0)" and "v \<noteq> 0"
  shows "reachable (hs[(BITVEC_HASH (v - 1) + k) mod 124 := v]) v"
proof -
  let ?h = "BITVEC_HASH (v - 1)"
  let ?s = "(?h + k) mod 124"
  have s: "?s < length hs" using assms(1) by simp
  have "slot (hs[?s := v]) ?h k = v" using slot_update [OF s assms(1), of v ?h k] by simp
  moreover have "\<forall>j < k. slot (hs[?s := v]) ?h j \<noteq> 0"
    using slot_update [OF s assms(1), of v ?h] assms(2,3) by simp
  ultimately show ?thesis using assms(2) unfolding reachable_def by blast
qed

lemma unat_inc: "unat n < 200 \<Longrightarrow> unat (n + 1 :: u32) = Suc (unat n)"
  by (subst unat_add_lem [THEN iffD1]) simp_all

text \<open>A new value put where its probe ended.\<close>

lemma hash_ok_insert:
  assumes ok: "hash_ok sz n hs" and probe: "k < 124 \<and> (\<forall>j < k. slot hs (BITVEC_HASH (v - 1)) j \<noteq> 0)" and v: "v \<noteq> 0" "v \<le> sz"
    and free: "slot hs (BITVEC_HASH (v - 1)) k = 0" and room: "used hs < 123"
  defines "s \<equiv> (BITVEC_HASH (v - 1) + k) mod 124"
  shows "hash_ok sz (n + 1) (hs[s := v])" and "x \<noteq> 0 \<Longrightarrow> x \<in> set (hs[s := v]) \<longleftrightarrow> x = v \<or> x \<in> set hs"
proof -
  have len: "length hs = 124" and le: "\<forall>v \<in> set hs. v \<le> sz" and n: "unat n = used hs"
    and reach: "\<forall>v \<in> set hs. v \<noteq> 0 \<longrightarrow> reachable hs v" using ok by (simp_all add: hash_ok_def)
  have s: "s < length hs" "s < 124" "hs ! s = 0" using len free by (simp_all add: s_def slot_def)
  show mem: "x \<noteq> 0 \<Longrightarrow> x \<in> set (hs[s := v]) \<longleftrightarrow> x = v \<or> x \<in> set hs" for x using member_update [OF s(1,3)] by blast
  have "reachable (hs[s := v]) x" if "x \<in> set (hs[s := v])" "x \<noteq> 0" for x
    using mem [OF that(2)] that reachable_update [OF len s(2,3) v(1) that(2)] reach reachable_new [OF len probe v(1)]
    unfolding s_def by blast
  moreover have "\<forall>x \<in> set (hs[s := v]). x \<le> sz" using le v(2) set_update_subset_insert [of hs s v] by auto
  moreover have "used (hs[s := v]) = Suc (used hs)" using filter_update [OF s(1,3) v(1)] .
  moreover have "unat (n + 1) = Suc (used hs)" using unat_inc [of n] n room by simp
  ultimately show "hash_ok sz (n + 1) (hs[s := v])" using len room by (simp add: hash_ok_def)
qed

lemma hash_ok_empty: "hash_ok sz 0 (replicate 124 0)"
  by (auto simp: hash_ok_def)

text \<open>Where \<open>sqlite3BitvecSet\<close> goes, and that what it does there is an insertion.\<close>

lemma hash_goto_ok:
  assumes ok: "hash_ok sz n hs" and v: "v \<noteq> 0" "v \<le> sz"
  shows "hash_goto hs n v (BITVEC_HASH (v - 1)) = Inr return_ok \<and> v \<in> set hs \<or>
    v \<notin> set hs \<and> (\<exists>s. (hash_goto hs n v (BITVEC_HASH (v - 1)) = Inr (bitvec_set_end s) \<or>
         hash_goto hs n v (BITVEC_HASH (v - 1)) = Inr (bitvec_set_rehash s)) \<and>
      (hash_goto hs n v (BITVEC_HASH (v - 1)) = Inr (bitvec_set_end s) \<longrightarrow> used hs < 123) \<and>
      (used hs < 123 \<longrightarrow> hash_ok sz (n + 1) (hs[s := v]) \<and> (\<forall>x. x \<noteq> 0 \<longrightarrow> (x \<in> set (hs[s := v]) \<longleftrightarrow> x = v \<or> x \<in> set hs))))"
proof -
  let ?h = "BITVEC_HASH (v - 1)"
  have len: "length hs = 124" "0 \<in> set hs" and n: "unat n = used hs" using ok hash_free [OF ok] by (simp_all add: hash_ok_def)
  obtain k where k: "probe_to hs v ?h k" "slot hs ?h k = 0 \<or> slot hs ?h k = v" using probe_ends [OF len] by blast
  let ?s = "(?h + k) mod 124"
  have h: "?h < 124" by simp
  note dec = probe_decides [OF ok k(1) v(1) k(2)]
  have ins: "hash_ok sz (n + 1) (hs[?s := v]) \<and> (\<forall>x. x \<noteq> 0 \<longrightarrow> (x \<in> set (hs[?s := v]) \<longleftrightarrow> x = v \<or> x \<in> set hs))"
    if "v \<notin> set hs" "used hs < 123" using hash_ok_insert [OF ok _ v _ that(2), of k] k(1) dec that(1) unfolding probe_to_def by blast
  show ?thesis
  proof (cases "slot hs ?h 0 = 0")
    case True
    have "\<not> 0 < k" using True k(1) unfolding probe_to_def by blast
    then have "k = 0" by simp
    have "v \<notin> set hs" using dec True \<open>k = 0\<close> by simp
    moreover have "hs ! ?h = 0" using True slot_0 [OF h] by metis
    ultimately show ?thesis using ins n h \<open>k = 0\<close> by (auto simp: hash_goto_def)
  next
    case False
    have "set_probe 124 hs v ?h = Inr (if slot hs ?h k = v then None else Some ?s)"
      using k(1) by (intro set_probe_run k(2) False v(1) h) (simp_all add: probe_to_def)
    then have go: "hash_goto hs n v ?h = Inr (if slot hs ?h k = v then return_ok else bitvec_set_rehash ?s)"
      using False slot_0 [OF h, of hs] by (simp add: hash_goto_def)
    show ?thesis
    proof (cases "v \<in> set hs")
      case True
      then show ?thesis using go dec k(2) by simp
    next
      case notin: False
      then have "slot hs ?h k \<noteq> v" using dec v(1) by auto
      then show ?thesis using go notin ins by auto
    qed
  qed
qed

end
