(* ===== verification/SqliteBitvec_Props.thy ===== *)
theory SqliteBitvec_Props
  imports SqliteBitvec_Hash
begin

section \<open>Bit vectors implement sets of numbers\<close>

text \<open>What each operation does on well-formed vectors, by the three representations; the contract of a set
  of numbers (locale \<open>number_set\<close>) and its interpretation.\<close>

subsection \<open>The numbers a vector holds\<close>

text \<open>\<open>bv_has p i\<close>: the vector holds \<open>i + 1\<close>. A hash table holds what is anywhere in it.\<close>

function bv_has :: "bitvec \<Rightarrow> nat \<Rightarrow> bool" where
  "bv_has (Bitvec sz n dv u) i =
     (case u of
        aBitmap bs \<Rightarrow> i div 8 < length bs \<and> bit (bs ! (i div 8)) (i mod 8)
      | aHash hs \<Rightarrow> (\<exists>v \<in> set hs. unat v = Suc i)
      | apSub subs \<Rightarrow> (case sub_at subs (i div unat dv) of Inr (Some q) \<Rightarrow> bv_has q (i mod unat dv) | _ \<Rightarrow> False))"
  by pat_completeness auto

termination bv_has
  by (relation "measure (size \<circ> fst)") (auto dest: sub_at_size)

lemma has_simps [simp]:
  "bv_has (Bitvec sz n dv (aBitmap bs)) i \<longleftrightarrow> i div 8 < length bs \<and> bit (bs ! (i div 8)) (i mod 8)"
  "bv_has (Bitvec sz n dv (aHash hs)) i \<longleftrightarrow> (\<exists>v \<in> set hs. unat v = Suc i)"
  "bv_has (Bitvec sz n dv (apSub subs)) i \<longleftrightarrow>
     i div unat dv < length subs \<and> (\<exists>q. subs ! (i div unat dv) = Some q \<and> bv_has q (i mod unat dv))"
  by (auto simp: sub_at_def split: option.splits)

declare bv_has.simps [simp del]

subsection \<open>Bitmaps\<close>

lemma bit_index: "unat ((i :: u32) AND of_nat (BITVEC_SZELEM - 1)) = unat i mod 8"
proof -
  have "(i AND 7) = take_bit 3 i" by (simp add: take_bit_eq_mask mask_eq_exp_minus_1)
  then have "unat (i AND 7) = take_bit 3 (unat i)" by (simp only: unsigned_take_bit_eq)
  then show ?thesis by (simp add: take_bit_eq_mod)
qed

lemma bit_test: "(b :: u8) AND push_bit m 1 \<noteq> 0 \<longleftrightarrow> bit b m"
  by (simp add: bit_iff_and_push_bit_not_eq_0)

lemma bit_set: "j < 8 \<Longrightarrow> bit ((b :: u8) OR push_bit m 1) j \<longleftrightarrow> j = m \<or> bit b j"
  by (auto simp: bit_simps)

lemma bit_clear: "j < 8 \<Longrightarrow> bit ((b :: u8) AND NOT (push_bit m 1)) j \<longleftrightarrow> j \<noteq> m \<and> bit b j"
  by (auto simp: bit_simps)

lemma same_index: "(j :: nat) = i \<longleftrightarrow> j div m = i div m \<and> j mod m = i mod m"
  by (metis div_mult_mod_eq)

lemma bitmap_ok:
  assumes "length bs = 496" and "unat i < 3968"
  shows "bitmap_test bs i = Inr (bit (bs ! (unat i div 8)) (unat i mod 8))"
    and "\<exists>bs'. bitmap_set bs i = Inr bs' \<and> length bs' = 496 \<and>
      (\<forall>j. j div 8 < 496 \<longrightarrow> (bit (bs' ! (j div 8)) (j mod 8) \<longleftrightarrow> j = unat i \<or> bit (bs ! (j div 8)) (j mod 8)))"
    and "\<exists>bs'. bitmap_clear bs i = Inr bs' \<and> length bs' = 496 \<and>
      (\<forall>j. j div 8 < 496 \<longrightarrow> (bit (bs' ! (j div 8)) (j mod 8) \<longleftrightarrow> j \<noteq> unat i \<and> bit (bs ! (j div 8)) (j mod 8)))"
proof -
  have k: "unat i div 8 < length bs" using assms by (simp add: less_mult_imp_div_less)
  have m: "(j :: nat) mod 8 < 8" for j by simp
  note bits = bit_index [unfolded bitvec_sizes]
  show "bitmap_test bs i = Inr (bit (bs ! (unat i div 8)) (unat i mod 8))"
    using k bit_index [of i] bit_test by (simp add: bitmap_test_def Let_def)
  have "bit (bs[unat i div 8 := bs ! (unat i div 8) OR push_bit (unat i mod 8) 1] ! (j div 8)) (j mod 8) \<longleftrightarrow>
      j = unat i \<or> bit (bs ! (j div 8)) (j mod 8)" if "j div 8 < 496" for j
    using that assms(1) bit_set [OF m] same_index [of j "unat i" 8] by (cases "j div 8 = unat i div 8") simp_all
  then show "\<exists>bs'. bitmap_set bs i = Inr bs' \<and> length bs' = 496 \<and>
      (\<forall>j. j div 8 < 496 \<longrightarrow> (bit (bs' ! (j div 8)) (j mod 8) \<longleftrightarrow> j = unat i \<or> bit (bs ! (j div 8)) (j mod 8)))"
    using k bit_index [of i] assms(1) by (simp add: bitmap_set_def Let_def)
  have "bit (bs[unat i div 8 := bs ! (unat i div 8) AND NOT (push_bit (unat i mod 8) 1)] ! (j div 8)) (j mod 8) \<longleftrightarrow>
      j \<noteq> unat i \<and> bit (bs ! (j div 8)) (j mod 8)" if "j div 8 < 496" for j
    using that assms(1) bit_clear [OF m] same_index [of j "unat i" 8] by (cases "j div 8 = unat i div 8") simp_all
  then show "\<exists>bs'. bitmap_clear bs i = Inr bs' \<and> length bs' = 496 \<and>
      (\<forall>j. j div 8 < 496 \<longrightarrow> (bit (bs' ! (j div 8)) (j mod 8) \<longleftrightarrow> j \<noteq> unat i \<and> bit (bs ! (j div 8)) (j mod 8)))"
    using k bit_index [of i] assms(1) by (simp add: bitmap_clear_def Let_def)
qed

subsection \<open>Well-formed vectors\<close>

inductive bv_wf :: "bitvec \<Rightarrow> bool" where
  wf_bitmap: "unat sz \<le> 3968 \<Longrightarrow> length bs = 496 \<Longrightarrow> bv_wf (Bitvec sz n 0 (aBitmap bs))"
| wf_hash: "3968 < unat sz \<Longrightarrow> hash_ok sz n hs \<Longrightarrow> bv_wf (Bitvec sz n 0 (aHash hs))"
| wf_sub: "3968 < unat sz \<Longrightarrow> length subs = 62 \<Longrightarrow>
    (\<And>q. Some q \<in> set subs \<Longrightarrow> bv_wf q \<and> bv_iSize q = new_divisor sz) \<Longrightarrow>
    bv_wf (Bitvec sz n (new_divisor sz) (apSub subs))"

inductive_cases wf_cases: "bv_wf p"

inductive_simps wf_simps:
  "bv_wf (Bitvec sz n dv (aBitmap bs))"
  "bv_wf (Bitvec sz n dv (aHash hs))"
  "bv_wf (Bitvec sz n dv (apSub subs))"

lemma ceil_62: "(if m mod 62 \<noteq> 0 then m div 62 + 1 else m div 62) = (m + 61) div (62 :: nat)"
proof -
  define q r where "q = m div 62" and "r = m mod 62"
  have m: "m = 62 * q + r" "r < 62" by (simp_all add: q_def r_def)
  have "(m + 61) div 62 = (if r \<noteq> 0 then q + 1 else q)" using m by (intro div_nat_eqI) auto
  then show ?thesis by (simp add: q_def r_def)
qed

lemma new_divisor_eq: "unat (new_divisor sz) = max 3968 ((unat sz + 61) div 62)"
proof -
  have q: "unat (sz div 62) = unat sz div 62" "unat (sz mod 62) = unat sz mod 62" by (simp_all add: unat_div_distrib unat_mod_distrib)
  have "unat sz < 2 ^ 32" using unsigned_less [of sz] by simp
  then have "unat (sz div 62 + 1) = unat sz div 62 + 1" using q by (subst unat_add_lem [THEN iffD1]) simp_all
  moreover have "sz mod 62 \<noteq> 0 \<longleftrightarrow> unat sz mod 62 \<noteq> 0" unfolding q(2) [symmetric] by (simp only: unat_eq_zero)
  ultimately have "unat (if sz mod 62 \<noteq> 0 then sz div 62 + 1 else sz div 62) = (if unat sz mod 62 \<noteq> 0 then unat sz div 62 + 1 else unat sz div 62)"
    using q(1) by (simp only: split: if_split) blast
  also have "\<dots> = (unat sz + 61) div 62" by (rule ceil_62)
  finally have d: "unat (if sz mod 62 \<noteq> 0 then sz div 62 + 1 else sz div 62) = (unat sz + 61) div 62" .
  define dv where "dv = (if sz mod 62 \<noteq> 0 then sz div 62 + 1 else sz div 62)"
  have "new_divisor sz = (if unat dv < 3968 then 3968 else dv)"
    by (simp only: new_divisor_def Let_def bitvec_sizes dv_def of_nat_numeral)
  then show ?thesis using d [folded dv_def] by simp
qed

lemma new_divisor_bounds:
  "new_divisor sz \<noteq> 0" "unat sz \<le> 62 * unat (new_divisor sz)"
  "unat sz \<le> 3968 * 62 ^ Suc k \<Longrightarrow> unat (new_divisor sz) \<le> 3968 * 62 ^ k"
proof -
  show "unat sz \<le> 62 * unat (new_divisor sz)" unfolding new_divisor_eq by linarith
  have "unat (new_divisor sz) > 0" unfolding new_divisor_eq by simp
  then show "new_divisor sz \<noteq> 0" by auto
  assume "unat sz \<le> 3968 * 62 ^ Suc k"
  then have "(unat sz + 61) div 62 \<le> (3968 * 62 ^ k * 62 + 61) div 62" by (intro div_le_mono) simp
  also have "\<dots> = 3968 * 62 ^ k" by simp
  finally have "(unat sz + 61) div 62 \<le> 3968 * 62 ^ k" .
  moreover have "3968 \<le> 3968 * (62 :: nat) ^ k" by simp
  ultimately show "unat (new_divisor sz) \<le> 3968 * 62 ^ k" unfolding new_divisor_eq by simp
qed

lemma wf_new: "bv_wf (Bitvec sz 0 0 (zero_union sz))" "\<not> bv_has (Bitvec sz 0 0 (zero_union sz)) i"
  using hash_ok_empty [of sz] by (auto simp: zero_union_def wf_simps nth_replicate)

lemma wf_empty_subs:
  "3968 < unat sz \<Longrightarrow> bv_wf (Bitvec sz k (new_divisor sz) (apSub (replicate 62 None)))"
  "\<not> bv_has (Bitvec sz k dv (apSub (replicate 62 None))) i"
  by (auto simp: wf_simps)

text \<open>Sub-vectors: the number \<open>j\<close> is number \<open>j mod dv\<close> of the sub-vector \<open>j div dv\<close>.\<close>

lemma has_update_sub:
  assumes "b < length subs" and "\<And>j. bv_has q' j \<longleftrightarrow> Q j"
  shows "bv_has (Bitvec sz n dv (apSub (subs[b := Some q']))) j \<longleftrightarrow>
    (if j div unat dv = b then Q (j mod unat dv) else bv_has (Bitvec sz n dv (apSub subs)) j)"
  using assms by (auto simp: nth_list_update)

lemma wf_update_sub:
  assumes "bv_wf (Bitvec sz n dv (apSub subs))" and "bv_wf q'" and "bv_iSize q' = dv"
  shows "bv_wf (Bitvec sz n dv (apSub (subs[b := Some q'])))"
  using assms set_update_subset_insert [of subs b "Some q'"] by (auto simp: wf_simps)

lemma sub_index:
  assumes "dv = new_divisor sz" and "i < sz"
  shows "unat (i div dv) < 62" and "i mod dv < dv" and "unat (i div dv) = unat i div unat dv" and "unat (i mod dv) = unat i mod unat dv"
proof -
  have "unat i < 62 * unat dv" using new_divisor_bounds(2) [of sz] assms unat_mono [of i sz] by simp
  then show "unat (i div dv) < 62" by (simp add: unat_div_distrib less_mult_imp_div_less)
  show "i mod dv < dv" using new_divisor_bounds(1) [of sz] assms(1) by (simp add: word_mod_less_divisor word_gt_0)
qed (simp_all add: unat_div_distrib unat_mod_distrib)

subsection \<open>Testing and clearing\<close>

lemma unat_pred: "v \<noteq> 0 \<Longrightarrow> Suc (unat (v - 1)) = unat (v :: u32)"
  by (simp add: unat_minus_one Suc_leI unat_gt_0)

lemma succ_nonzero: "i < sz \<Longrightarrow> i + 1 \<noteq> (0 :: u32)"
  by (metis eq_neg_iff_add_eq_0 not_le word_n1_ge)

lemma unat_succ: "i < sz \<Longrightarrow> unat (i + 1) = Suc (unat (i :: u32))"
  using unat_pred [OF succ_nonzero, of i sz] by simp

lemma test_at_ok: "bv_wf p \<Longrightarrow> i < bv_iSize p \<Longrightarrow> test_at p i = Inr (bv_has p (unat i))"
proof (induction p arbitrary: i rule: bv_wf.induct)
  case (wf_bitmap sz bs n)
  have "unat i < 3968" using wf_bitmap unat_mono [of i sz] by simp
  then show ?case using bitmap_ok(1) [OF wf_bitmap(2)] wf_bitmap(1,2) by (simp add: less_mult_imp_div_less)
next
  case (wf_hash sz n hs)
  have i: "i + 1 \<noteq> 0" using wf_hash(3) succ_nonzero [of i sz] by simp
  have "i + 1 \<in> set hs \<longleftrightarrow> (\<exists>v \<in> set hs. unat v = Suc (unat i))"
    using unat_succ [of i sz] wf_hash(3) by (simp only: bitvec.sel) (metis word_unat_eq_iff)
  then show ?case using test_probe_ok [OF wf_hash(2) i] wf_hash(1) by simp
next
  case (wf_sub sz subs n)
  note ix = sub_index [OF refl wf_sub(4) [unfolded bitvec.sel]]
  let ?s = "subs ! (unat i div unat (new_divisor sz))"
  show ?case
  proof (cases ?s)
    case None
    then show ?thesis using wf_sub(2) ix new_divisor_bounds(1) by (simp add: sub_at_def)
  next
    case (Some q)
    have "Some q \<in> set subs" using Some ix(1,3) wf_sub(2) by (metis nth_mem)
    then have "test_at q (i mod new_divisor sz) = Inr (bv_has q (unat (i mod new_divisor sz)))" using wf_sub(3) ix(2) by simp
    then show ?thesis using Some wf_sub(2) ix new_divisor_bounds(1) by (simp add: sub_at_def)
  qed
qed

lemma clear_loop_ok:
  assumes "hash_ok sz n acc" and "used acc + used vs < 124" and "\<forall>v \<in> set vs. v \<le> sz"
  shows "\<exists>n' hs'. clear_loop i vs n acc = Inr (n', hs') \<and> hash_ok sz n' hs' \<and>
    (\<forall>x. x \<noteq> 0 \<longrightarrow> (x \<in> set hs' \<longleftrightarrow> x \<in> set acc \<or> x \<in> set vs \<and> x \<noteq> i + 1))"
  using assms
proof (induction vs arbitrary: n acc)
  case Nil
  then show ?case by simp
next
  case (Cons v vs)
  show ?case
  proof (cases "v \<noteq> 0 \<and> v \<noteq> i + 1")
    case False
    then show ?thesis using Cons.IH [OF Cons.prems(1)] Cons.prems(2,3) by (auto split: if_splits)
  next
    case True
    let ?h = "BITVEC_HASH (v - 1)"
    have len: "length acc = 124" "0 \<in> set acc" using Cons.prems(1) hash_free [OF Cons.prems(1)] by (simp_all add: hash_ok_def)
    obtain k where k: "probe_to acc 0 ?h k" "slot acc ?h k = 0" using probe_ends [OF len, of 0] by auto
    let ?s = "(?h + k) mod 124"
    have free: "free_probe 124 acc ?h = Inr ?s" using k by (intro free_probe_run) (simp_all add: probe_to_def)
    have room: "used acc < 123" using Cons.prems(2) True by simp
    have v: "v \<le> sz" using Cons.prems(3) by simp
    have way: "k < 124 \<and> (\<forall>j < k. slot acc ?h j \<noteq> 0)" using k(1) unfolding probe_to_def by blast
    note ins = hash_ok_insert [OF Cons.prems(1) way _ v k(2) room]
    have u: "used (acc[?s := v]) = Suc (used acc)"
      using filter_update [of ?s acc v] len(1) k(2) True unfolding slot_def by simp
    obtain n' hs' where r: "clear_loop i vs (n + 1) (acc[?s := v]) = Inr (n', hs')" "hash_ok sz n' hs'"
        "\<forall>x. x \<noteq> 0 \<longrightarrow> (x \<in> set hs' \<longleftrightarrow> x \<in> set (acc[?s := v]) \<or> x \<in> set vs \<and> x \<noteq> i + 1)"
      using Cons.IH [of "n + 1" "acc[?s := v]"] ins(1) True u Cons.prems(2,3) by (simp only: filter.simps if_True list.size list.set) auto
    have "\<forall>x. x \<noteq> 0 \<longrightarrow> (x \<in> set hs' \<longleftrightarrow> x \<in> set acc \<or> x \<in> set (v # vs) \<and> x \<noteq> i + 1)"
      using r(3) ins(2) True by auto
    moreover have "clear_loop i (v # vs) n acc = Inr (n', hs')" using True free r(1) by (simp only: clear_loop.simps bitvec_sizes if_True andThen_simps simp_thms)
    ultimately show ?thesis using r(2) by blast
  qed
qed

lemma nonzero_values: "(\<exists>v \<in> V. unat (v :: u32) = Suc j) \<longleftrightarrow> (\<exists>v \<in> V. v \<noteq> 0 \<and> unat v = Suc j)"
  by (metis nat.distinct(1) unsigned_0)

lemma value_number: "i < sz \<Longrightarrow> unat (v :: u32) = Suc j \<Longrightarrow> v = i + 1 \<longleftrightarrow> j = unat i"
  using unat_succ [of i sz] by (metis nat.inject word_unat_eq_iff)

lemma clear_at_ok: "bv_wf p \<Longrightarrow> i < bv_iSize p \<Longrightarrow>
  \<exists>p'. clear_at p i = Inr p' \<and> bv_wf p' \<and> bv_iSize p' = bv_iSize p \<and> (\<forall>j. bv_has p' j \<longleftrightarrow> bv_has p j \<and> j \<noteq> unat i)"
proof (induction p arbitrary: i rule: bv_wf.induct)
  case (wf_bitmap sz bs n)
  have "unat i < 3968" using wf_bitmap unat_mono [of i sz] by simp
  then obtain bs' where bs': "bitmap_clear bs i = Inr bs'" "length bs' = 496"
    "\<forall>j. j div 8 < 496 \<longrightarrow> (bit (bs' ! (j div 8)) (j mod 8) \<longleftrightarrow> j \<noteq> unat i \<and> bit (bs ! (j div 8)) (j mod 8))"
    using bitmap_ok(3) [OF wf_bitmap(2)] by blast
  have "\<forall>j. bv_has (Bitvec sz n 0 (aBitmap bs')) j \<longleftrightarrow> bv_has (Bitvec sz n 0 (aBitmap bs)) j \<and> j \<noteq> unat i"
    using bs'(2,3) wf_bitmap(2) by auto
  then show ?case using bs'(1,2) wf_bitmap(1,2) bv_wf.wf_bitmap [of sz bs' n] by simp
next
  case (wf_hash sz n hs)
  have ok: "length hs = 124" "used hs < 124" "\<forall>v \<in> set hs. v \<le> sz" using wf_hash(2) by (simp_all add: hash_ok_def)
  have "used (replicate 124 0) + used hs < 124" using ok(2) by simp
  from clear_loop_ok [OF hash_ok_empty this ok(3), of i] obtain n' hs' where r:
    "clear_loop i hs 0 (replicate 124 0) = Inr (n', hs')" "hash_ok sz n' hs'"
    "\<forall>x. x \<noteq> 0 \<longrightarrow> (x \<in> set hs' \<longleftrightarrow> x \<in> set (replicate 124 0) \<or> x \<in> set hs \<and> x \<noteq> i + 1)" by blast
  have "bv_has (Bitvec sz n' 0 (aHash hs')) j \<longleftrightarrow> bv_has (Bitvec sz n 0 (aHash hs)) j \<and> j \<noteq> unat i" for j
  proof -
    have "(\<exists>v \<in> set hs'. unat v = Suc j) \<longleftrightarrow> (\<exists>v \<in> set hs. v \<noteq> 0 \<and> v \<noteq> i + 1 \<and> unat v = Suc j)"
      unfolding nonzero_values [of "set hs'"] using r(3) by auto
    also have "\<dots> \<longleftrightarrow> (\<exists>v \<in> set hs. v \<noteq> 0 \<and> unat v = Suc j) \<and> j \<noteq> unat i"
      using value_number [of i sz _ j] wf_hash(3) by auto
    finally show ?thesis using nonzero_values [of "set hs" j] by simp
  qed
  then show ?case using r(1,2) wf_hash(1) bv_wf.wf_hash [of sz n' hs'] by simp
next
  case (wf_sub sz subs n)
  let ?dv = "new_divisor sz"
  note ix = sub_index [OF refl wf_sub(4) [unfolded bitvec.sel]]
  have wf: "bv_wf (Bitvec sz n ?dv (apSub subs))" using bv_wf.wf_sub [of sz subs n] wf_sub(1-3) by blast
  have b: "unat (i div ?dv) < length subs" using ix(1) wf_sub(2) by simp
  show ?case
  proof (cases "subs ! unat (i div ?dv)")
    case None
    have "\<not> bv_has (Bitvec sz n ?dv (apSub subs)) (unat i)" using None ix(3) by simp
    then have "\<forall>j. bv_has (Bitvec sz n ?dv (apSub subs)) j \<longleftrightarrow> bv_has (Bitvec sz n ?dv (apSub subs)) j \<and> j \<noteq> unat i" by blast
    moreover have "clear_at (Bitvec sz n ?dv (apSub subs)) i = Inr (Bitvec sz n ?dv (apSub subs))"
      using None b new_divisor_bounds(1) by (simp add: sub_at_def)
    ultimately show ?thesis using wf by blast
  next
    case (Some q)
    have q: "Some q \<in> set subs" using Some b by (metis nth_mem)
    then obtain q' where q': "clear_at q (i mod ?dv) = Inr q'" "bv_wf q'" "bv_iSize q' = ?dv"
      "\<And>j. bv_has q' j \<longleftrightarrow> bv_has q j \<and> j \<noteq> unat (i mod ?dv)" using wf_sub(3) ix(2) by metis
    have "clear_at (Bitvec sz n ?dv (apSub subs)) i = Inr (Bitvec sz n ?dv (apSub (subs[unat (i div ?dv) := Some q'])))"
      using Some b q'(1) new_divisor_bounds(1) by (simp add: sub_at_def)
    moreover have "bv_has (Bitvec sz n ?dv (apSub (subs[unat (i div ?dv) := Some q']))) j \<longleftrightarrow>
        bv_has (Bitvec sz n ?dv (apSub subs)) j \<and> j \<noteq> unat i" for j
      unfolding has_update_sub [OF b q'(4)] same_index [of j "unat i" "unat ?dv"] using Some b ix(3,4)
      by (cases "j div unat ?dv = unat (i div ?dv)") auto
    ultimately show ?thesis using wf_update_sub [OF wf q'(2,3)] by auto
  qed
qed

subsection \<open>Setting\<close>

text \<open>
  \<open>set_post ok p I p' rc\<close>: the vector \<open>p\<close> became \<open>p'\<close> with the code \<open>rc\<close> while the numbers \<open>I\<close> were set.
  Without an error it holds these numbers as well; otherwise an allocation failed, and it holds no other.
\<close>

definition set_post :: "(nat \<Rightarrow> bool) \<Rightarrow> bitvec \<Rightarrow> nat set \<Rightarrow> bitvec \<Rightarrow> nat \<Rightarrow> bool" where
  "set_post ok p I p' rc \<longleftrightarrow> bv_wf p' \<and> bv_iSize p' = bv_iSize p \<and> (bv_iDivisor p \<noteq> 0 \<longrightarrow> bv_iDivisor p' \<noteq> 0) \<and>
     (rc = bv_OK \<and> (\<forall>j. bv_has p' j \<longleftrightarrow> j \<in> I \<or> bv_has p j) \<or>
      rc = bv_NOMEM \<and> (\<exists>m. \<not> ok m) \<and> (\<forall>j. bv_has p' j \<longrightarrow> j \<in> I \<or> bv_has p j))"

lemma set_post_trans:
  assumes "set_post ok p I p1 rc1" and "set_post ok p1 J p2 rc2"
  shows "set_post ok p (I \<union> J) p2 (rc1 OR rc2)"
proof -
  let ?all = "\<forall>j. bv_has p2 j \<longrightarrow> j \<in> I \<union> J \<or> bv_has p j"
  have c: "bv_wf p2 \<and> bv_iSize p2 = bv_iSize p \<and> (bv_iDivisor p \<noteq> 0 \<longrightarrow> bv_iDivisor p2 \<noteq> 0)"
    using assms unfolding set_post_def by metis
  have a: "?all" using assms unfolding set_post_def by blast
  show ?thesis
  proof (cases "rc1 = 0 \<and> rc2 = 0")
    case True
    then have "\<forall>j. bv_has p2 j \<longleftrightarrow> j \<in> I \<union> J \<or> bv_has p j"
      using assms unfolding set_post_def bv_NOMEM_def by auto
    then show ?thesis using c True unfolding set_post_def bv_OK_def by simp
  next
    case False
    then have "rc1 = 0 \<or> rc1 = 7" "rc2 = 0 \<or> rc2 = 7" "rc1 = 7 \<or> rc2 = 7" "\<exists>m. \<not> ok m"
      using assms unfolding set_post_def bv_OK_def bv_NOMEM_def by blast+
    then have "rc1 OR rc2 = 7" by (elim disjE) simp_all
    then show ?thesis using c a \<open>\<exists>m. \<not> ok m\<close> unfolding set_post_def bv_NOMEM_def by blast
  qed
qed

lemma rehash_values_ok:
  assumes f: "\<And>n p v. bv_wf p \<Longrightarrow> bv_iSize p = sz \<Longrightarrow> bv_iDivisor p \<noteq> 0 \<Longrightarrow> v \<noteq> 0 \<Longrightarrow> v \<le> sz \<Longrightarrow>
      \<exists>n' p' rc. f n p v = Inr (n', p', rc) \<and> set_post ok p {unat v - 1} p' rc"
    and "bv_iSize p0 = sz" "bv_iDivisor p0 \<noteq> 0" "\<forall>v \<in> set vs. v \<le> sz" "set_post ok p0 I p rc"
  shows "\<exists>n' p' rc'. rehash_values f n p rc vs = Inr (n', p', rc') \<and>
    set_post ok p0 (I \<union> {j. \<exists>v \<in> set vs. unat v = Suc j}) p' rc'"
  using assms(2-)
proof (induction vs arbitrary: n p rc I)
  case Nil
  then show ?case by simp
next
  case (Cons v vs)
  show ?case
  proof (cases "v = 0")
    case True
    then show ?thesis using Cons.IH [OF Cons.prems(1,2) _ Cons.prems(4), of n] Cons.prems(3) by simp
  next
    case False
    have p: "bv_wf p" "bv_iSize p = sz" "bv_iDivisor p \<noteq> 0" using Cons.prems(1,2,4) by (simp_all add: set_post_def)
    then obtain n1 p1 rc1 where r: "f n p v = Inr (n1, p1, rc1)" "set_post ok p {unat v - 1} p1 rc1"
      using f [OF p False, of n] Cons.prems(3) by auto
    have e: "I \<union> {unat v - 1} \<union> {j. \<exists>v \<in> set vs. unat v = Suc j} = I \<union> {j. \<exists>v \<in> set (v # vs). unat v = Suc j}"
      using unat_pred [OF False] by auto
    obtain n' p' rc' where "rehash_values f n1 p1 (rc OR rc1) vs = Inr (n', p', rc')"
      "set_post ok p0 (I \<union> {unat v - 1} \<union> {j. \<exists>v \<in> set vs. unat v = Suc j}) p' rc'"
      using Cons.IH [OF Cons.prems(1,2) _ set_post_trans [OF Cons.prems(4) r(2)], of n1] Cons.prems(3) by auto
    then show ?thesis using False r(1) unfolding e by simp
  qed
qed

text \<open>\<open>set_total ok d p\<close>: with fuel \<open>d\<close> any number in range is set in \<open>p\<close>, or memory runs out.\<close>

definition set_total :: "(nat \<Rightarrow> bool) \<Rightarrow> nat \<Rightarrow> bitvec \<Rightarrow> bool" where
  "set_total ok d p \<longleftrightarrow> (\<forall>n i. i < bv_iSize p \<longrightarrow>
     (\<exists>n' p' rc. set_at d ok n p i = Inr (n', p', rc) \<and> set_post ok p {unat i} p' rc))"

lemma set_totalD:
  assumes "set_total ok d p" and "i < bv_iSize p"
  obtains n' p' rc where "set_at d ok n p i = Inr (n', p', rc)" "set_post ok p {unat i} p' rc"
  using assms unfolding set_total_def by blast

lemma set_at_sub:
  assumes "3968 < unat sz" "dv \<noteq> 0" "unat (i div dv) < length subs"
  shows "set_at (Suc d) ok n (Bitvec sz k dv (apSub subs)) i =
    (case (case subs ! unat (i div dv) of None \<Rightarrow> sqlite3BitvecCreate ok n dv | Some q \<Rightarrow> (Some q, n)) of
       (None, n) \<Rightarrow> Inr (n, Bitvec sz k dv (apSub subs), bv_NOMEM)
     | (Some q, n) \<Rightarrow> andThen (set_at d ok n q (i mod dv))
         (\<lambda>(n, q, rc). Inr (n, Bitvec sz k dv (apSub (subs[unat (i div dv) := Some q])), rc)))"
  using assms by (simp add: sub_at_def Let_def)

lemma set_post_sub:
  assumes P: "bv_wf (Bitvec sz k dv (apSub subs))" "dv \<noteq> 0" and b: "b < length subs" and size: "bv_iSize q = dv"
    and q: "\<And>j. j div unat dv = b \<Longrightarrow> bv_has (Bitvec sz k dv (apSub subs)) j \<longleftrightarrow> bv_has q (j mod unat dv)"
    and post: "set_post ok q {i mod unat dv} q' rc" and i: "i div unat dv = b"
  shows "set_post ok (Bitvec sz k dv (apSub subs)) {i} (Bitvec sz k dv (apSub (subs[b := Some q']))) rc"
proof -
  let ?P = "Bitvec sz k dv (apSub subs)" and ?P' = "Bitvec sz k dv (apSub (subs[b := Some q']))"
  have q': "bv_wf q'" "bv_iSize q' = dv" using post size unfolding set_post_def by simp_all
  have new: "bv_has ?P' j \<longleftrightarrow> (if j div unat dv = b then bv_has q' (j mod unat dv) else bv_has ?P j)" for j
    using has_update_sub [OF b refl] by blast
  have here: "j \<in> {i} \<longleftrightarrow> j div unat dv = b \<and> j mod unat dv \<in> {i mod unat dv}" for j
    using same_index [of j i "unat dv"] i by simp
  consider (ok) "rc = bv_OK" "\<forall>j. bv_has q' j \<longleftrightarrow> j \<in> {i mod unat dv} \<or> bv_has q j"
    | (nomem) "rc = bv_NOMEM" "\<exists>m. \<not> ok m" "\<forall>j. bv_has q' j \<longrightarrow> j \<in> {i mod unat dv} \<or> bv_has q j"
    using post unfolding set_post_def by blast
  then show ?thesis
  proof cases
    case ok
    have "\<forall>j. bv_has ?P' j \<longleftrightarrow> j \<in> {i} \<or> bv_has ?P j" unfolding new here using ok(2) q by metis
    then show ?thesis using ok(1) wf_update_sub [OF P(1) q'] P(2) unfolding set_post_def by simp
  next
    case nomem
    have "\<forall>j. bv_has ?P' j \<longrightarrow> j \<in> {i} \<or> bv_has ?P j" unfolding new here using nomem(3) q by metis
    then show ?thesis using nomem(1,2) wf_update_sub [OF P(1) q'] P(2) unfolding set_post_def by simp
  qed
qed

lemma set_total_sub:
  assumes P: "bv_wf P" "bv_iDivisor P \<noteq> 0"
    and IH: "\<And>q. bv_wf q \<Longrightarrow> bv_iSize q = new_divisor (bv_iSize P) \<Longrightarrow> set_total ok d q"
  shows "set_total ok (Suc d) P"
  unfolding set_total_def
proof (intro allI impI)
  fix n i assume i: "i < bv_iSize P"
  from P obtain sz subs k where p: "P = Bitvec sz k (new_divisor sz) (apSub subs)" and big: "3968 < unat sz" and len: "length subs = 62"
    and sub: "\<And>q. Some q \<in> set subs \<Longrightarrow> bv_wf q \<and> bv_iSize q = new_divisor sz"
    by (elim wf_cases) auto
  let ?dv = "new_divisor sz"
  note ix = sub_index [OF refl i [unfolded p bitvec.sel]]
  let ?b = "unat (i div ?dv)"
  have b: "?b < length subs" using ix(1) len by simp
  have dv: "?dv \<noteq> 0" by (rule new_divisor_bounds)
  note eq = set_at_sub [OF big dv b, of d ok n k]
  consider (full) "subs ! ?b = None" "\<not> ok n"
    | (room) q n0 where "(case subs ! ?b of None \<Rightarrow> sqlite3BitvecCreate ok n ?dv | Some q \<Rightarrow> (Some q, n)) = (Some q, n0)"
        "bv_wf q" "bv_iSize q = ?dv"
        "\<And>j. j div unat ?dv = ?b \<Longrightarrow> bv_has P j \<longleftrightarrow> bv_has q (j mod unat ?dv)"
  proof (cases "subs ! ?b")
    case None
    then show ?thesis
    proof (cases "ok n")
      case True
      then show ?thesis using that(2) [of "Bitvec ?dv 0 0 (zero_union ?dv)" "Suc n"] None wf_new [of ?dv] b
        by (simp add: sqlite3BitvecCreate_def p)
    next
      case False
      then show ?thesis using that(1) None by blast
    qed
  next
    case (Some q)
    then have "Some q \<in> set subs" using b by (metis nth_mem)
    then show ?thesis using that(2) [of q n] sub Some b by (simp add: p)
  qed
  then show "\<exists>n' p' rc. set_at (Suc d) ok n P i = Inr (n', p', rc) \<and> set_post ok P {unat i} p' rc"
  proof cases
    case full
    then have "set_at (Suc d) ok n P i = Inr (Suc n, P, bv_NOMEM)" unfolding p eq by (simp add: sqlite3BitvecCreate_def)
    then show ?thesis using P full(2) by (auto simp: set_post_def)
  next
    case room
    have "i mod ?dv < bv_iSize q" using ix(2) room(3) by simp
    from set_totalD [OF IH [OF room(2)] this, of n0] room(3) obtain n' q' rc where
      r: "set_at d ok n0 q (i mod ?dv) = Inr (n', q', rc)" "set_post ok q {unat (i mod ?dv)} q' rc" by (auto simp: p)
    have "set_at (Suc d) ok n P i = Inr (n', Bitvec sz k ?dv (apSub (subs[?b := Some q'])), rc)"
      unfolding p eq room(1) using r(1) by simp
    moreover have "set_post ok P {unat i} (Bitvec sz k ?dv (apSub (subs[?b := Some q']))) rc"
      unfolding p using P(1) r(2) room(4) unfolding p ix(4)
      by (intro set_post_sub [OF _ dv b room(3)] ix(3) [symmetric])
    ultimately show ?thesis by blast
  qed
qed

lemma set_at_hash:
  assumes "3968 < unat sz"
  shows "set_at (Suc d) ok n (Bitvec sz k 0 (aHash hs)) i =
    andThen (hash_goto hs k (i + 1) (BITVEC_HASH i)) (\<lambda>g. case g of
        return_ok \<Rightarrow> Inr (n, Bitvec sz k 0 (aHash hs), bv_OK)
      | bitvec_set_end h \<Rightarrow> Inr (n, Bitvec sz (k + 1) 0 (aHash (hs[h := i + 1])), bv_OK)
      | bitvec_set_rehash h \<Rightarrow>
          if unat k \<ge> 62 then
            if \<not> ok n then Inr (Suc n, Bitvec sz k 0 (aHash hs), bv_NOMEM)
            else andThen (set_at d ok (Suc n) (Bitvec sz k (new_divisor sz) (apSub (replicate 62 None))) i)
              (\<lambda>(n, p, rc). rehash_values (\<lambda>n p i. set_at d ok n p (i - 1)) n p rc hs)
          else Inr (n, Bitvec sz (k + 1) 0 (aHash (hs[h := i + 1])), bv_OK))"
  using assms by (simp add: Let_def andThen_def split: sum.split set_goto.split)

lemma has_hash: "i < sz \<Longrightarrow> j = unat i \<Longrightarrow> i + 1 \<in> set hs \<Longrightarrow> bv_has (Bitvec sz k dv (aHash hs)) j"
  using unat_succ [of i sz] by auto

lemma has_hash_insert:
  assumes "i < sz" and "\<forall>x. x \<noteq> 0 \<longrightarrow> (x \<in> set hs' \<longleftrightarrow> x = i + 1 \<or> x \<in> set hs)"
  shows "bv_has (Bitvec sz k' dv (aHash hs')) j \<longleftrightarrow> j \<in> {unat i} \<or> bv_has (Bitvec sz k dv (aHash hs)) j"
proof -
  have "(\<exists>v \<in> set hs'. unat v = Suc j) \<longleftrightarrow> (\<exists>v. v \<noteq> 0 \<and> (v = i + 1 \<or> v \<in> set hs) \<and> unat v = Suc j)"
    unfolding nonzero_values [of "set hs'"] using assms(2) by blast
  also have "\<dots> \<longleftrightarrow> unat (i + 1) = Suc j \<or> (\<exists>v \<in> set hs. v \<noteq> 0 \<and> unat v = Suc j)"
    using succ_nonzero [OF assms(1)] by blast
  finally show ?thesis using unat_succ [OF assms(1)] nonzero_values [of "set hs" j] by auto
qed

lemma pred_less: "v \<noteq> 0 \<Longrightarrow> v \<le> sz \<Longrightarrow> v - 1 < (sz :: u32)"
  using unat_pred [of v] by (simp add: word_less_nat_alt word_le_nat_alt)

lemma bv_rehash_ok:
  assumes big: "3968 < unat sz" and ok: "hash_ok sz k hs" and i: "i < sz"
    and total: "\<And>P. bv_wf P \<Longrightarrow> bv_iSize P = sz \<Longrightarrow> bv_iDivisor P \<noteq> 0 \<Longrightarrow> set_total alloc d P"
  shows "\<exists>n' p' rc. andThen (set_at d alloc n (Bitvec sz k (new_divisor sz) (apSub (replicate 62 None))) i)
      (\<lambda>(n, p, rc). rehash_values (\<lambda>n p i. set_at d alloc n p (i - 1)) n p rc hs) = Inr (n', p', rc) \<and>
    set_post alloc (Bitvec sz k 0 (aHash hs)) {unat i} p' rc"
proof -
  let ?p0 = "Bitvec sz k (new_divisor sz) (apSub (replicate 62 None))" and ?P = "Bitvec sz k 0 (aHash hs)"
  let ?set = "\<lambda>n p i. set_at d alloc n p (i - 1)"
  have dv: "new_divisor sz \<noteq> 0" by (rule new_divisor_bounds)
  have "set_total alloc d ?p0" using total [of ?p0] wf_empty_subs(1) [OF big] dv by simp
  from set_totalD [OF this, of i n] i obtain n1 p1 rc1 where
    r1: "set_at d alloc n ?p0 i = Inr (n1, p1, rc1)" "set_post alloc ?p0 {unat i} p1 rc1" by auto
  have f: "\<exists>n' p' rc. ?set n p v = Inr (n', p', rc) \<and> set_post alloc p {unat v - 1} p' rc"
    if "bv_wf p" "bv_iSize p = sz" "bv_iDivisor p \<noteq> 0" "v \<noteq> 0" "v \<le> sz" for n p v
  proof -
    have "v - 1 < bv_iSize p" using pred_less [OF that(4,5)] that(2) by simp
    from set_totalD [OF total [OF that(1-3)] this, of n] obtain n' p' rc where
      "?set n p v = Inr (n', p', rc)" "set_post alloc p {unat (v - 1)} p' rc" by blast
    moreover have "unat (v - 1) = unat v - 1" using unat_pred [OF that(4)] by simp
    ultimately show ?thesis by auto
  qed
  have le: "\<forall>v \<in> set hs. v \<le> sz" using ok by (simp add: hash_ok_def)
  obtain n' p' rc where r: "rehash_values ?set n1 p1 rc1 hs = Inr (n', p', rc)"
    "set_post alloc ?p0 ({unat i} \<union> {j. \<exists>v \<in> set hs. unat v = Suc j}) p' rc"
    using rehash_values_ok [where f = ?set and n = n1, OF f _ _ le r1(2)] dv by auto
  have "j \<in> {unat i} \<union> {j. \<exists>v \<in> set hs. unat v = Suc j} \<or> bv_has ?p0 j \<longleftrightarrow> j \<in> {unat i} \<or> bv_has ?P j" for j
    using wf_empty_subs(2) [of sz k "new_divisor sz" j] by auto
  then have "set_post alloc ?P {unat i} p' rc" using r(2) unfolding set_post_def by simp
  then show ?thesis using r1(1) r(1) by simp
qed

lemma set_total_hash:
  assumes big: "3968 < unat sz" and ok: "hash_ok sz k hs"
    and total: "\<And>P. bv_wf P \<Longrightarrow> bv_iSize P = sz \<Longrightarrow> bv_iDivisor P \<noteq> 0 \<Longrightarrow> set_total alloc d P"
  shows "set_total alloc (Suc d) (Bitvec sz k 0 (aHash hs))"
  unfolding set_total_def bitvec.sel
proof (intro allI impI)
  fix n i assume i: "i < sz"
  let ?P = "Bitvec sz k 0 (aHash hs)" and ?v = "i + 1"
  have v: "?v \<noteq> 0" "?v \<le> sz" using succ_nonzero [OF i] i by (simp_all add: inc_le)
  have k: "unat k = used hs" and wf: "bv_wf ?P" using ok big by (simp_all add: hash_ok_def wf_simps)
  have pred: "?v - 1 = i" by simp
  note eq = set_at_hash [OF big, of d alloc n k hs i]
  have post: "set_post alloc ?P {unat i} (Bitvec sz (k + 1) 0 (aHash (hs[s := ?v]))) bv_OK"
    if "hash_ok sz (k + 1) (hs[s := ?v])" "\<forall>x. x \<noteq> 0 \<longrightarrow> (x \<in> set (hs[s := ?v]) \<longleftrightarrow> x = ?v \<or> x \<in> set hs)" for s
    using has_hash_insert [OF i that(2)] that(1) big by (simp add: set_post_def wf_simps)
  consider (found) "hash_goto hs k ?v (BITVEC_HASH i) = Inr return_ok" "?v \<in> set hs"
    | (direct) s where "hash_goto hs k ?v (BITVEC_HASH i) = Inr (bitvec_set_end s)" "set_post alloc ?P {unat i} (Bitvec sz (k + 1) 0 (aHash (hs[s := ?v]))) bv_OK"
    | (check) s where "hash_goto hs k ?v (BITVEC_HASH i) = Inr (bitvec_set_rehash s)" "used hs < 123 \<longrightarrow> set_post alloc ?P {unat i} (Bitvec sz (k + 1) 0 (aHash (hs[s := ?v]))) bv_OK"
    using hash_goto_ok [OF ok v] post unfolding pred by blast
  then show "\<exists>n' p' rc. set_at (Suc d) alloc n ?P i = Inr (n', p', rc) \<and> set_post alloc ?P {unat i} p' rc"
  proof cases
    case found
    have "set_post alloc ?P {unat i} ?P bv_OK" using has_hash [OF i refl found(2)] wf by (auto simp: set_post_def)
    then show ?thesis unfolding eq found(1) by simp
  next
    case direct
    then show ?thesis unfolding eq direct(1) by simp
  next
    case check
    show ?thesis
    proof (cases "62 \<le> unat k")
      case False
      then show ?thesis using check k unfolding eq check(1) by simp
    next
      case full: True
      show ?thesis
      proof (cases "alloc n")
        case True
        then show ?thesis using full bv_rehash_ok [OF big ok i total, where n = "Suc n"] unfolding eq check(1) by simp
      next
        case False
        then have "set_post alloc ?P {unat i} ?P bv_NOMEM" using wf by (auto simp: set_post_def)
        then show ?thesis using full False unfolding eq check(1) by simp
      qed
    qed
  qed
qed

lemma set_total_bitmap:
  assumes "unat sz \<le> 3968" and "length bs = 496"
  shows "set_total ok (Suc d) (Bitvec sz k 0 (aBitmap bs))"
  unfolding set_total_def bitvec.sel
proof (intro allI impI)
  fix n i assume "i < sz"
  then have "unat i < 3968" using assms(1) unat_mono [of i sz] by simp
  then obtain bs' where b: "bitmap_set bs i = Inr bs'" "length bs' = 496"
    "\<forall>j. j div 8 < 496 \<longrightarrow> (bit (bs' ! (j div 8)) (j mod 8) \<longleftrightarrow> j = unat i \<or> bit (bs ! (j div 8)) (j mod 8))"
    using bitmap_ok(2) [OF assms(2)] by blast
  have "unat i div 8 < 496" using \<open>unat i < 3968\<close> by (simp add: less_mult_imp_div_less)
  then have "\<forall>j. bv_has (Bitvec sz k 0 (aBitmap bs')) j \<longleftrightarrow> j \<in> {unat i} \<or> bv_has (Bitvec sz k 0 (aBitmap bs)) j"
    using b(2,3) assms(2) by auto
  then have "set_post ok (Bitvec sz k 0 (aBitmap bs)) {unat i} (Bitvec sz k 0 (aBitmap bs')) bv_OK"
    using assms(1) b(2) by (simp add: set_post_def wf_simps)
  then show "\<exists>n' p' rc. set_at (Suc d) ok n (Bitvec sz k 0 (aBitmap bs)) i = Inr (n', p', rc) \<and>
      set_post ok (Bitvec sz k 0 (aBitmap bs)) {unat i} p' rc"
    using b(1) assms(1) by simp
qed

text \<open>A vector of at most \<open>3968 * 62 ^ k\<close> numbers needs two units of fuel for each of \<open>k\<close> levels of
  sub-vectors: one for the descent and one for the rehash.\<close>

lemma set_total_levels:
  "bv_wf P \<Longrightarrow> unat (bv_iSize P) \<le> 3968 * 62 ^ k \<Longrightarrow> 2 * k + 1 \<le> d \<Longrightarrow> set_total ok d P"
proof (induction k arbitrary: P d)
  case 0
  then obtain d' where "d = Suc d'" by (cases d) auto
  then show ?case using 0(1,2) set_total_bitmap by (elim wf_cases) auto
next
  case (Suc k)
  obtain d' where d: "d = Suc (Suc d')" "2 * k + 1 \<le> d'" using Suc.prems(3) by (cases d; cases "d - 1") auto
  have sub: "set_total ok (Suc e) Q" if "bv_wf Q" "unat (bv_iSize Q) \<le> 3968 * 62 ^ Suc k" "bv_iDivisor Q \<noteq> 0" "2 * k + 1 \<le> e" for Q e
    using Suc.IH new_divisor_bounds(3) [OF that(2)] that(4) by (intro set_total_sub [OF that(1,3)]) simp
  from Suc.prems(1) show ?case
  proof (cases rule: bv_wf.cases)
    case (wf_bitmap sz bs n)
    then show ?thesis using set_total_bitmap d(1) by blast
  next
    case (wf_hash sz n hs)
    then show ?thesis using set_total_hash [OF wf_hash(2,3), of ok "Suc d'" ] sub Suc.prems(2) d by auto
  next
    case (wf_sub sz subs n)
    then show ?thesis using sub [of P "Suc d'"] Suc.prems d new_divisor_bounds(1) by simp
  qed
qed

lemma set_total_9:
  assumes "bv_wf P" and "9 \<le> d"
  shows "set_total ok d P"
proof -
  have "unat (bv_iSize P) < 2 ^ 32" using unsigned_less [of "bv_iSize P"] by simp
  then show ?thesis using set_total_levels [OF assms(1), of 4 d ok] assms(2) by simp
qed

subsection \<open>The contract of a set of numbers\<close>

datatype 'k set_op = Put 'k | Drop 'k

primrec op_key :: "'k set_op \<Rightarrow> 'k" where
  "op_key (Put k) = k"
| "op_key (Drop k) = k"

primrec set_step :: "'k set_op \<Rightarrow> 'k set \<Rightarrow> 'k set" where
  "set_step (Put k) A = insert k A"
| "set_step (Drop k) A = A - {k}"

text \<open>A run of operations returns the last state and the result codes.\<close>

fun run_ops :: "('s \<Rightarrow> 'k \<Rightarrow> ('s \<times> nat) res) \<Rightarrow> ('s \<Rightarrow> 'k \<Rightarrow> 's res) \<Rightarrow> 's \<Rightarrow> 'k set_op list \<Rightarrow> ('s \<times> nat list) res" where
  "run_ops ins del s [] = Inr (s, [])"
| "run_ops ins del s (Put k # ops) =
     andThen (ins s k) (\<lambda>(s, rc). andThen (run_ops ins del s ops) (\<lambda>(s, rcs). Inr (s, rc # rcs)))"
| "run_ops ins del s (Drop k # ops) = andThen (del s k) (\<lambda>s. run_ops ins del s ops)"

locale number_set =
  fixes test :: "'s \<Rightarrow> 'k \<Rightarrow> bool res"
    and ins :: "'s \<Rightarrow> 'k \<Rightarrow> ('s \<times> nat) res"
    and del :: "'s \<Rightarrow> 'k \<Rightarrow> 's res"
    and elems :: "'s \<Rightarrow> 'k set"
    and keys :: "'s \<Rightarrow> 'k set"
    and inv :: "'s \<Rightarrow> bool"
    and enough :: bool
  assumes test_elems: "inv s \<Longrightarrow> test s k = Inr (k \<in> elems s)"
    and ins_elems: "inv s \<Longrightarrow> k \<in> keys s \<Longrightarrow>
      \<exists>s' rc. ins s k = Inr (s', rc) \<and> inv s' \<and> keys s' = keys s \<and> elems s' \<subseteq> insert k (elems s) \<and>
        (rc = 0 \<longrightarrow> elems s' = insert k (elems s)) \<and> (enough \<longrightarrow> rc = 0)"
    and del_elems: "inv s \<Longrightarrow> k \<in> keys s \<Longrightarrow>
      \<exists>s'. del s k = Inr s' \<and> inv s' \<and> keys s' = keys s \<and> elems s' = elems s - {k}"
begin

lemma set_step_mono: "A \<subseteq> B \<Longrightarrow> fold set_step ops A \<subseteq> fold set_step ops B"
proof (induction ops arbitrary: A B)
  case (Cons op ops)
  have "set_step op A \<subseteq> set_step op B" using Cons.prems by (cases op) auto
  then show ?case using Cons.IH by simp
qed simp

lemma run_elems:
  assumes "inv s" and "\<forall>op \<in> set ops. op_key op \<in> keys s"
  shows "\<exists>s' rcs. run_ops ins del s ops = Inr (s', rcs) \<and> inv s' \<and> elems s' \<subseteq> fold set_step ops (elems s) \<and>
    ((\<forall>rc \<in> set rcs. rc = 0) \<longrightarrow> elems s' = fold set_step ops (elems s)) \<and> (enough \<longrightarrow> (\<forall>rc \<in> set rcs. rc = 0))"
  using assms
proof (induction ops arbitrary: s)
  case Nil
  then show ?case by simp
next
  case (Cons op ops)
  show ?case
  proof (cases op)
    case (Put k)
    obtain s1 rc where 1: "ins s k = Inr (s1, rc)" "inv s1" "keys s1 = keys s" "elems s1 \<subseteq> insert k (elems s)"
      "rc = 0 \<longrightarrow> elems s1 = insert k (elems s)" "enough \<longrightarrow> rc = 0"
      using ins_elems [of s k] Cons.prems Put by auto
    obtain s' rcs where 2: "run_ops ins del s1 ops = Inr (s', rcs)" "inv s'" "elems s' \<subseteq> fold set_step ops (elems s1)"
      "(\<forall>rc \<in> set rcs. rc = 0) \<longrightarrow> elems s' = fold set_step ops (elems s1)" "enough \<longrightarrow> (\<forall>rc \<in> set rcs. rc = 0)"
      using Cons.IH [of s1] 1(2,3) Cons.prems(2) by auto
    have "elems s' \<subseteq> fold set_step ops (insert k (elems s))" using 2(3) set_step_mono [OF 1(4), of ops] by blast
    then show ?thesis using 1 2 Put by auto
  next
    case (Drop k)
    obtain s1 where 1: "del s k = Inr s1" "inv s1" "keys s1 = keys s" "elems s1 = elems s - {k}"
      using del_elems [of s k] Cons.prems Drop by auto
    then show ?thesis using Cons.IH [of s1] Cons.prems(2) Drop by simp
  qed
qed

end

text \<open>The vectors a pointer reaches, with the number of the next allocation, as the states of a set.\<close>

definition bv_elems :: "nat \<times> bitvec option \<Rightarrow> u32 set" where
  "bv_elems s = {i. \<exists>p. snd s = Some p \<and> i - 1 < bv_iSize p \<and> bv_has p (unat (i - 1))}"

definition bv_keys :: "nat \<times> bitvec option \<Rightarrow> u32 set" where
  "bv_keys s = {i. \<exists>p. snd s = Some p \<and> i - 1 < bv_iSize p}"

definition bv_inv :: "nat \<times> bitvec option \<Rightarrow> bool" where
  "bv_inv s \<longleftrightarrow> (\<exists>p. snd s = Some p \<and> bv_wf p)"

definition bv_set :: "nat \<Rightarrow> (nat \<Rightarrow> bool) \<Rightarrow> nat \<times> bitvec option \<Rightarrow> u32 \<Rightarrow> ((nat \<times> bitvec option) \<times> nat) res" where
  "bv_set d ok s i = andThen (sqlite3BitvecSet d ok (fst s) (snd s) i) (\<lambda>(n, p, rc). Inr ((n, p), rc))"

definition bv_clear :: "nat \<times> bitvec option \<Rightarrow> u32 \<Rightarrow> (nat \<times> bitvec option) res" where
  "bv_clear s i = andThen (sqlite3BitvecClear (snd s) i) (\<lambda>p. Inr (fst s, p))"

lemma bv_test_law: "bv_inv s \<Longrightarrow> sqlite3BitvecTest (snd s) i = Inr (i \<in> bv_elems s)"
  using test_at_ok by (auto simp: bv_inv_def bv_elems_def sqlite3BitvecTest_def sqlite3BitvecTestNotNull_def Let_def not_le)

lemma number_pred: "(\<forall>j. P j \<longleftrightarrow> j \<in> {unat (i - 1)} \<or> Q j) \<Longrightarrow> P (unat (x - 1)) \<longleftrightarrow> x = (i :: u32) \<or> Q (unat (x - 1))"
proof -
  have "unat (x - 1) = unat (i - 1) \<longleftrightarrow> x = i" by (metis diff_add_cancel word_unat_eq_iff)
  then show "(\<forall>j. P j \<longleftrightarrow> j \<in> {unat (i - 1)} \<or> Q j) \<Longrightarrow> P (unat (x - 1)) \<longleftrightarrow> x = i \<or> Q (unat (x - 1))" by simp
qed

lemma Set_returns:
  assumes "bv_wf p" and "i - 1 < bv_iSize p" and "9 \<le> d"
  shows "\<exists>n' p' rc. sqlite3BitvecSet d ok n (Some p) i = Inr (n', Some p', rc) \<and> set_post ok p {unat (i - 1)} p' rc"
  using set_totalD [OF set_total_9 [OF assms(1,3)] assms(2), of ok n] by (fastforce simp: sqlite3BitvecSet_def)

lemma bv_ins_law:
  assumes "9 \<le> d" and "bv_inv s" and "i \<in> bv_keys s"
  shows "\<exists>s' rc. bv_set d ok s i = Inr (s', rc) \<and> bv_inv s' \<and> bv_keys s' = bv_keys s \<and>
    bv_elems s' \<subseteq> insert i (bv_elems s) \<and> (rc = 0 \<longrightarrow> bv_elems s' = insert i (bv_elems s)) \<and> ((\<forall>m. ok m) \<longrightarrow> rc = 0)"
proof -
  obtain n p where s: "s = (n, Some p)" "bv_wf p" "i - 1 < bv_iSize p"
    using assms(2,3) by (cases s) (auto simp: bv_inv_def bv_keys_def)
  obtain n' p' rc where r: "sqlite3BitvecSet d ok n (Some p) i = Inr (n', Some p', rc)" "set_post ok p {unat (i - 1)} p' rc"
    using Set_returns [OF s(2,3) assms(1)] by blast
  have p': "bv_wf p'" "bv_iSize p' = bv_iSize p" and rc: "rc = 0 \<or> rc = 7 \<and> (\<exists>m. \<not> ok m)"
    using r(2) by (auto simp: set_post_def bv_OK_def bv_NOMEM_def)
  have sub: "\<forall>j. bv_has p' j \<longrightarrow> j \<in> {unat (i - 1)} \<or> bv_has p j" using r(2) unfolding set_post_def by blast
  have eq: "unat (x - 1) = unat (i - 1) \<longleftrightarrow> x = i" for x by (metis diff_add_cancel word_unat_eq_iff)
  have all: "\<forall>j. bv_has p' j \<longleftrightarrow> j \<in> {unat (i - 1)} \<or> bv_has p j" if "rc = 0"
    using r(2) that unfolding set_post_def bv_NOMEM_def by auto
  have "bv_elems (n', Some p') \<subseteq> insert i (bv_elems s)" using sub eq p'(2) s(1) by (auto simp: bv_elems_def)
  moreover have "bv_elems (n', Some p') = insert i (bv_elems s)" if "rc = 0"
    using number_pred [OF all [OF that]] p'(2) s(1,3) by (auto simp: bv_elems_def)
  moreover have "bv_set d ok s i = Inr ((n', Some p'), rc)" using r(1) s(1) by (simp add: bv_set_def)
  ultimately show ?thesis using p' rc s(1) by (auto simp: bv_inv_def bv_keys_def)
qed

lemma bv_del_law:
  assumes "bv_inv s" and "i \<in> bv_keys s"
  shows "\<exists>s'. bv_clear s i = Inr s' \<and> bv_inv s' \<and> bv_keys s' = bv_keys s \<and> bv_elems s' = bv_elems s - {i}"
proof -
  obtain n p where s: "s = (n, Some p)" "bv_wf p" "i - 1 < bv_iSize p"
    using assms by (cases s) (auto simp: bv_inv_def bv_keys_def)
  obtain p' where r: "clear_at p (i - 1) = Inr p'" "bv_wf p'" "bv_iSize p' = bv_iSize p"
    "\<forall>j. bv_has p' j \<longleftrightarrow> bv_has p j \<and> j \<noteq> unat (i - 1)" using clear_at_ok [OF s(2,3)] by blast
  have eq: "unat (x - 1) = unat (i - 1) \<longleftrightarrow> x = i" for x by (metis diff_add_cancel word_unat_eq_iff)
  have "bv_elems (n, Some p') = bv_elems s - {i}" using r(3,4) eq s(1) by (auto simp: bv_elems_def)
  then show ?thesis using r s(1) by (simp add: bv_clear_def sqlite3BitvecClear_def bv_inv_def bv_keys_def)
qed

interpretation bv: number_set "\<lambda>s. sqlite3BitvecTest (snd s)" "bv_set (d + 9) ok" bv_clear bv_elems bv_keys bv_inv "\<forall>m. ok m" for d ok
  by unfold_locales (simp_all only: bv_test_law bv_ins_law bv_del_law le_add2)

subsection \<open>Properties\<close>

text \<open>C37: Setting a number in range of a well-formed vector returns: every probe of a hash table ends,
  and descents and rehashes nest at most nine deep, whatever the 32-bit size. The vector stays
  well-formed and keeps its size. The code is \<open>SQLITE_OK\<close>, and the vector holds the number besides what
  it held; or an allocation failed, the code is \<open>SQLITE_NOMEM\<close>, and it holds nothing else.\<close>

theorem sqlite3BitvecSet_returns:
  assumes "bv_wf p" and "i - 1 < bv_iSize p" and "9 \<le> d"
  shows "\<exists>n' p' rc. sqlite3BitvecSet d ok n (Some p) i = Inr (n', Some p', rc) \<and> bv_wf p' \<and> bv_iSize p' = bv_iSize p \<and>
    (rc = bv_OK \<and> (\<forall>j. bv_has p' j \<longleftrightarrow> j = unat (i - 1) \<or> bv_has p j) \<or>
     rc = bv_NOMEM \<and> (\<exists>m. \<not> ok m) \<and> (\<forall>j. bv_has p' j \<longrightarrow> j = unat (i - 1) \<or> bv_has p j))"
proof -
  obtain n' p' rc where "sqlite3BitvecSet d ok n (Some p) i = Inr (n', Some p', rc)" "set_post ok p {unat (i - 1)} p' rc"
    using Set_returns [OF assms] by blast
  then show ?thesis unfolding set_post_def singleton_iff by blast
qed

text \<open>A new vector of five thousand numbers, which is a hash table.\<close>

theorem sqlite3BitvecSet_returns_witness:
  "\<exists>n' p'. sqlite3BitvecSet 9 (\<lambda>_. True) 1 (Some (Bitvec 5000 0 0 (aHash (replicate 124 0)))) 4711 = Inr (n', Some p', bv_OK) \<and>
     bv_has p' 4710 \<and> \<not> bv_has p' 4711"
proof -
  let ?p = "Bitvec 5000 0 0 (aHash (replicate 124 0))"
  have wf: "bv_wf ?p" using wf_new(1) [of 5000] by (simp add: zero_union_def)
  have no: "\<not> bv_has ?p j" for j using wf_new(2) [of 5000 j] by (simp add: zero_union_def)
  have i: "(4711 :: u32) - 1 < bv_iSize ?p" "unat ((4711 :: u32) - 1) = 4710" by simp_all
  from sqlite3BitvecSet_returns [OF wf i(1) order_refl, of "\<lambda>_. True" 1] obtain n' p' where
    "sqlite3BitvecSet 9 (\<lambda>_. True) 1 (Some ?p) 4711 = Inr (n', Some p', bv_OK)"
    "\<forall>j. bv_has p' j \<longleftrightarrow> j = unat ((4711 :: u32) - 1) \<or> bv_has ?p j" by auto
  moreover from this(2) have "bv_has p' 4710" "\<not> bv_has p' 4711" unfolding i(2) using no by simp_all
  ultimately show ?thesis by blast
qed

text \<open>C38: A bit vector is a set of numbers. After any run of setting and clearing numbers from 1 to the
  size of a new vector, whatever allocations fail, every test of a number returns, and never finds one
  that the run did not leave in the set. If every code was \<open>SQLITE_OK\<close>, the tests are the set exactly;
  and the codes are so if every allocation succeeds.\<close>

theorem sqlite3Bitvec_refines_set:
  assumes "\<forall>op \<in> set ops. op_key op - 1 < sz" and "ok 0"
  shows "\<exists>s rcs f. run_ops (bv_set (d + 9) ok) bv_clear (prod.swap (sqlite3BitvecCreate ok 0 sz)) ops = Inr (s, rcs) \<and>
    (\<forall>i. sqlite3BitvecTest (snd s) i = Inr (f i)) \<and> (\<forall>i. f i \<longrightarrow> i \<in> fold set_step ops {}) \<and>
    ((\<forall>rc \<in> set rcs. rc = bv_OK) \<longrightarrow> (\<forall>i. f i \<longleftrightarrow> i \<in> fold set_step ops {})) \<and>
    ((\<forall>m. ok m) \<longrightarrow> (\<forall>rc \<in> set rcs. rc = bv_OK))"
proof -
  let ?s = "prod.swap (sqlite3BitvecCreate ok 0 sz)"
  have s: "?s = (Suc 0, Some (Bitvec sz 0 0 (zero_union sz)))" using assms(2) by (simp add: sqlite3BitvecCreate_def)
  have "bv_inv ?s" "\<forall>op \<in> set ops. op_key op \<in> bv_keys ?s" and e: "bv_elems ?s = {}"
    unfolding s using wf_new [of sz] assms(1) by (simp_all add: bv_inv_def bv_keys_def bv_elems_def)
  from bv.run_elems [OF this(1,2), of d ok] obtain s' rcs where r:
    "run_ops (bv_set (d + 9) ok) bv_clear ?s ops = Inr (s', rcs)" "bv_inv s'" "bv_elems s' \<subseteq> fold set_step ops {}"
    "(\<forall>rc \<in> set rcs. rc = 0) \<longrightarrow> bv_elems s' = fold set_step ops {}" "(\<forall>m. ok m) \<longrightarrow> (\<forall>rc \<in> set rcs. rc = 0)"
    unfolding e by blast
  show ?thesis
    by (intro exI [of _ s'] exI [of _ rcs] exI [of _ "\<lambda>i. i \<in> bv_elems s'"])
      (use r bv.test_elems [OF r(2)] in \<open>auto simp: bv_OK_def\<close>)
qed

theorem sqlite3Bitvec_refines_set_witness:
  "\<exists>s rcs. run_ops (bv_set 9 (\<lambda>_. True)) bv_clear (prod.swap (sqlite3BitvecCreate (\<lambda>_. True) 0 5000))
       [Put 4711, Put 1, Drop 4711] = Inr (s, rcs) \<and>
     sqlite3BitvecTest (snd s) 1 = Inr True \<and> sqlite3BitvecTest (snd s) 4711 = Inr False"
proof -
  let ?ops = "[Put 4711, Put 1, Drop (4711 :: u32)]"
  have "\<forall>op \<in> set ?ops. op_key op - 1 < 5000" by simp
  from sqlite3Bitvec_refines_set [where ok = "\<lambda>_. True" and d = 0, OF this TrueI] obtain s rcs f where r:
    "run_ops (bv_set (0 + 9) (\<lambda>_. True)) bv_clear (prod.swap (sqlite3BitvecCreate (\<lambda>_. True) 0 5000)) ?ops = Inr (s, rcs)"
    "\<forall>i. sqlite3BitvecTest (snd s) i = Inr (f i)"
    "(\<forall>rc \<in> set rcs. rc = bv_OK) \<longrightarrow> (\<forall>i. f i \<longleftrightarrow> i \<in> fold set_step ?ops {})" "\<forall>rc \<in> set rcs. rc = bv_OK" by blast
  have "\<forall>i. f i \<longleftrightarrow> i \<in> fold set_step ?ops {}" using r(3,4) by blast
  then have "f 1 = True" "f 4711 = False" by simp_all
  then have "sqlite3BitvecTest (snd s) 1 = Inr True" "sqlite3BitvecTest (snd s) 4711 = Inr False" using r(2) by metis+
  then show ?thesis using r(1) unfolding add_0 by blast
qed

end
