(* ===== verification/SqliteRowset.thy ===== *)
theory SqliteRowset
  imports Prelude "HOL-Library.Tree"
begin

section \<open>Common/sqlite/sqlite3.c: the row sets of rowset.c\<close>

text \<open>
  A row set collects row numbers. They are either taken out again in order, or tested for having been
  inserted in an earlier batch; for the tests the entries of a batch move from the list \<open>pEntry\<close> to the
  forest. A list of entries connected by \<open>pRight\<close> is a list of their values, a tree is a \<open>tree\<close>, and the
  forest is the list of its trees, in which \<open>Leaf\<close> is \<open>pLeft == 0\<close>. \<open>rs_last\<close> is the value of the entry
  \<open>pLast\<close>. Values are only compared, so they are integers. An argument \<open>mem\<close> says whether the allocation
  of the operation succeeds, if it needs one. Fresh entries are counted.
\<close>

record rowset =
  rs_chunks :: nat
  rs_entry :: "int list"
  rs_last :: "int option"
  rs_nFresh :: nat
  rs_forest :: "int tree list"
  rs_sorted :: bool
  rs_next :: bool
  rs_iBatch :: int

definition ROWSET_ALLOCATION_SIZE :: nat where "ROWSET_ALLOCATION_SIZE = 1024"

text \<open>\<open>sizeof\<close> of \<open>RowSetEntry\<close> and \<open>RowSet\<close> with pointers of eight bytes.\<close>

definition sizeof_RowSetEntry :: nat where "sizeof_RowSetEntry = 8 + 8 + 8"
definition sizeof_RowSet :: nat where "sizeof_RowSet = 6 * 8 + 2 + 2 + 4"

definition ROWSET_ENTRY_PER_CHUNK :: nat where
  "ROWSET_ENTRY_PER_CHUNK = (ROWSET_ALLOCATION_SIZE - 8) div sizeof_RowSetEntry"

text \<open>\<open>N\<close> is the size of the memory got for the object, or \<open>None\<close>.\<close>

definition sqlite3RowSetInit :: "nat option \<Rightarrow> rowset option" where
  "sqlite3RowSetInit N =
     (case N of
        None \<Rightarrow> None
      | Some N \<Rightarrow> Some \<lparr> rs_chunks = 0, rs_entry = [], rs_last = None,
          rs_nFresh = ((N - sizeof_RowSet) div sizeof_RowSetEntry) mod 2 ^ 16, rs_forest = [],
          rs_sorted = True, rs_next = False, rs_iBatch = 0 \<rparr>)"

definition sqlite3RowSetClear :: "rowset \<Rightarrow> rowset" where
  "sqlite3RowSetClear p =
     p\<lparr> rs_chunks := 0, rs_nFresh := 0, rs_entry := [], rs_last := None, rs_forest := [],
        rs_sorted := True, rs_next := False \<rparr>"

definition rowSetEntryAlloc :: "bool \<Rightarrow> rowset \<Rightarrow> rowset \<times> bool" where
  "rowSetEntryAlloc mem p =
     (if rs_nFresh p = 0
      then if \<not> mem then (p, False)
           else (p\<lparr> rs_chunks := rs_chunks p + 1, rs_nFresh := ROWSET_ENTRY_PER_CHUNK - 1 \<rparr>, True)
      else (p\<lparr> rs_nFresh := rs_nFresh p - 1 \<rparr>, True))"

definition sqlite3RowSetInsert :: "bool \<Rightarrow> rowset \<Rightarrow> int \<Rightarrow> rowset" where
  "sqlite3RowSetInsert mem p rowid =
     (case rowSetEntryAlloc mem p of
        (p, False) \<Rightarrow> p
      | (p, True) \<Rightarrow>
          (let p = (case rs_last p of
                Some v \<Rightarrow>
                  (let p = (if rowid \<le> v then p\<lparr> rs_sorted := False \<rparr> else p) in p\<lparr> rs_entry := rs_entry p @ [rowid] \<rparr>)
              | None \<Rightarrow> p\<lparr> rs_entry := [rowid] \<rparr>) in
           p\<lparr> rs_last := Some rowid \<rparr>))"

subsection \<open>Sorting\<close>

fun rowSetEntryMerge :: "int list \<Rightarrow> int list \<Rightarrow> int list" where
  "rowSetEntryMerge [] pB = pB"
| "rowSetEntryMerge pA [] = pA"
| "rowSetEntryMerge (a # pA) (b # pB) =
     (if a \<le> b
      then (if a < b then a # rowSetEntryMerge pA (b # pB) else rowSetEntryMerge pA (b # pB))
      else b # rowSetEntryMerge (a # pA) pB)"

text \<open>One entry put into the buckets; an empty list is a bucket that is \<open>NULL\<close>.\<close>

fun bucket_put :: "int list list \<Rightarrow> int list \<Rightarrow> int list list res" where
  "bucket_put [] pIn = Inl OutOfBounds"
| "bucket_put (b # bs) pIn =
     (if b \<noteq> [] then andThen (bucket_put bs (rowSetEntryMerge b pIn)) (\<lambda>bs. Inr ([] # bs))
      else Inr (pIn # bs))"

fun sort_loop :: "int list list \<Rightarrow> int list \<Rightarrow> int list list res" where
  "sort_loop aBucket [] = Inr aBucket"
| "sort_loop aBucket (v # pIn) = andThen (bucket_put aBucket [v]) (\<lambda>aBucket. sort_loop aBucket pIn)"

fun merge_buckets :: "int list \<Rightarrow> int list list \<Rightarrow> int list" where
  "merge_buckets pIn [] = pIn"
| "merge_buckets pIn (b # bs) =
     (if b = [] then merge_buckets pIn bs
      else merge_buckets (if pIn \<noteq> [] then rowSetEntryMerge pIn b else b) bs)"

definition rowSetEntrySort :: "int list \<Rightarrow> int list res" where
  "rowSetEntrySort pIn =
     andThen (sort_loop (replicate 40 []) pIn) (\<lambda>aBucket. Inr (merge_buckets (hd aBucket) (tl aBucket)))"

subsection \<open>Trees\<close>

fun rowSetTreeToList :: "int tree \<Rightarrow> int list" where
  "rowSetTreeToList Leaf = []"
| "rowSetTreeToList (Node l v r) = rowSetTreeToList l @ v # rowSetTreeToList r"

fun rowSetNDeepTree :: "int list \<Rightarrow> nat \<Rightarrow> int tree \<times> int list" where
  "rowSetNDeepTree pList iDepth =
     (if pList = [] then (Leaf, [])
      else if iDepth > 1 then
        (let (pLeft, pList) = rowSetNDeepTree pList (iDepth - 1) in
         case pList of
           [] \<Rightarrow> (pLeft, [])
         | v # pList \<Rightarrow> (let (pRight, pList) = rowSetNDeepTree pList (iDepth - 1) in (Node pLeft v pRight, pList)))
      else (Node Leaf (hd pList) Leaf, tl pList))"

declare rowSetNDeepTree.simps [simp del]

lemma NDeepTree_shorter: "length (snd (rowSetNDeepTree xs d)) \<le> length xs"
proof (induction xs d rule: rowSetNDeepTree.induct)
  case (1 xs d)
  show ?case
  proof (cases "xs = [] \<or> d \<le> 1")
    case True
    then show ?thesis by (auto simp: rowSetNDeepTree.simps [of xs d])
  next
    case False
    obtain l ys where l: "rowSetNDeepTree xs (d - 1) = (l, ys)" by fastforce
    have ys: "length ys \<le> length xs" using 1(1) False l by simp
    show ?thesis
    proof (cases ys)
      case Nil
      then show ?thesis using False l by (simp add: rowSetNDeepTree.simps [of xs d])
    next
      case (Cons v vs)
      obtain r zs where r: "rowSetNDeepTree vs (d - 1) = (r, zs)" by fastforce
      have "length zs \<le> length vs" using 1(2) [OF _ _ l [symmetric] refl Cons] False r by simp
      then show ?thesis using False l r ys Cons by (simp add: rowSetNDeepTree.simps [of xs d])
    qed
  qed
qed

function tree_loop :: "nat \<Rightarrow> int tree \<Rightarrow> int list \<Rightarrow> int tree" where
  "tree_loop iDepth p pList =
     (case pList of
        [] \<Rightarrow> p
      | v # pList \<Rightarrow>
          tree_loop (iDepth + 1) (Node p v (fst (rowSetNDeepTree pList iDepth))) (snd (rowSetNDeepTree pList iDepth)))"
  by pat_completeness auto

termination
  by (relation "measure (\<lambda>(_, _, xs). length xs)") (auto simp: le_imp_less_Suc NDeepTree_shorter)

declare tree_loop.simps [simp del]

definition rowSetListToTree :: "int list \<Rightarrow> int tree" where
  "rowSetListToTree pList = (case pList of [] \<Rightarrow> Leaf | v # pList \<Rightarrow> tree_loop 1 (Node Leaf v Leaf) pList)"

subsection \<open>Taking out and testing\<close>

definition sqlite3RowSetNext :: "rowset \<Rightarrow> (rowset \<times> int option) res" where
  "sqlite3RowSetNext p =
     andThen
       (if \<not> rs_next p
        then andThen (if \<not> rs_sorted p then andThen (rowSetEntrySort (rs_entry p)) (\<lambda>es. Inr (p\<lparr> rs_entry := es \<rparr>)) else Inr p)
          (\<lambda>p. Inr (p\<lparr> rs_sorted := True, rs_next := True \<rparr>))
        else Inr p)
       (\<lambda>p. case rs_entry p of
          v # es \<Rightarrow>
            (let p = p\<lparr> rs_entry := es \<rparr>; p = (if rs_entry p = [] then sqlite3RowSetClear p else p) in Inr (p, Some v))
        | [] \<Rightarrow> Inr (p, None))"

text \<open>A sorted list put into the forest: the first tree that is empty takes it, together with the trees in
  front. The last component tells whether there was one.\<close>

fun forest_put :: "int tree list \<Rightarrow> int list \<Rightarrow> int tree list \<times> int list \<times> bool" where
  "forest_put [] p = ([], p, False)"
| "forest_put (t # ts) p =
     (if t = Leaf then (rowSetListToTree p # ts, p, True)
      else let (ts', p', placed) = forest_put ts (rowSetEntryMerge (rowSetTreeToList t) p) in (Leaf # ts', p', placed))"

fun tree_search :: "int tree \<Rightarrow> int \<Rightarrow> bool" where
  "tree_search Leaf iRowid \<longleftrightarrow> False"
| "tree_search (Node l v r) iRowid \<longleftrightarrow>
     (if v < iRowid then tree_search r iRowid else if v > iRowid then tree_search l iRowid else True)"

fun forest_search :: "int tree list \<Rightarrow> int \<Rightarrow> bool" where
  "forest_search [] iRowid \<longleftrightarrow> False"
| "forest_search (pTree # ts) iRowid \<longleftrightarrow> (if tree_search pTree iRowid then True else forest_search ts iRowid)"

text \<open>The first test of a batch.\<close>

definition new_batch :: "bool \<Rightarrow> rowset \<Rightarrow> rowset res" where
  "new_batch mem p =
     (if rs_entry p \<noteq> [] then
        andThen (if \<not> rs_sorted p then rowSetEntrySort (rs_entry p) else Inr (rs_entry p)) (\<lambda>es.
          let (ts, es, placed) = forest_put (rs_forest p) es;
              p = p\<lparr> rs_forest := ts \<rparr>;
              p = (if placed then p
                   else case rowSetEntryAlloc mem p of
                     (p, False) \<Rightarrow> p
                   | (p, True) \<Rightarrow> p\<lparr> rs_forest := rs_forest p @ [rowSetListToTree es] \<rparr>) in
          Inr (p\<lparr> rs_entry := [], rs_last := None, rs_sorted := True \<rparr>))
      else Inr p)"

definition sqlite3RowSetTest :: "bool \<Rightarrow> rowset \<Rightarrow> int \<Rightarrow> int \<Rightarrow> (rowset \<times> bool) res" where
  "sqlite3RowSetTest mem p iBatch iRowid =
     andThen
       (if iBatch \<noteq> rs_iBatch p then andThen (new_batch mem p) (\<lambda>p. Inr (p\<lparr> rs_iBatch := iBatch \<rparr>)) else Inr p)
       (\<lambda>p. Inr (p, forest_search (rs_forest p) iRowid))"

end
