(* ===== verification/SqliteRowset_Props.thy ===== *)
theory SqliteRowset_Props
  imports SqliteRowset
begin

section \<open>Row sets answer for the batches and give back what was put in\<close>

subsection \<open>Sorting\<close>

abbreviation increasing :: "int list \<Rightarrow> bool" where
  "increasing \<equiv> sorted_wrt (<)"

lemma merge_set [simp]: "set (rowSetEntryMerge xs ys) = set xs \<union> set ys"
  by (induction xs ys rule: rowSetEntryMerge.induct) auto

lemma merge_increasing: "increasing xs \<Longrightarrow> increasing ys \<Longrightarrow> increasing (rowSetEntryMerge xs ys)"
  by (induction xs ys rule: rowSetEntryMerge.induct) (auto simp: ball_Un)

lemma merge_nonempty: "xs \<noteq> [] \<Longrightarrow> rowSetEntryMerge xs ys \<noteq> []"
  by (metis Un_empty merge_set set_empty)

text \<open>The buckets that are in use are the digits of a binary counter of the entries.\<close>

fun counter :: "int list list \<Rightarrow> nat" where
  "counter [] = 0"
| "counter (b # bs) = (if b \<noteq> [] then 1 else 0) + 2 * counter bs"

lemma bucket_put_ok:
  assumes "Suc (counter bs) < 2 ^ length bs" and "\<forall>b \<in> set bs. increasing b" and "increasing x" and "x \<noteq> []"
  shows "\<exists>bs'. bucket_put bs x = Inr bs' \<and> length bs' = length bs \<and> counter bs' = Suc (counter bs) \<and>
    (\<forall>b \<in> set bs'. increasing b) \<and> \<Union> (set ` set bs') = \<Union> (set ` set bs) \<union> set x"
  using assms
proof (induction bs arbitrary: x)
  case Nil
  then show ?case by simp
next
  case (Cons b bs)
  show ?case
  proof (cases "b = []")
    case True
    then show ?thesis using Cons.prems by auto
  next
    case False
    have "Suc (counter bs) < 2 ^ length bs" using Cons.prems(1) False by simp
    from Cons.IH [OF this _ merge_increasing merge_nonempty [OF False], of x] Cons.prems(2,3)
    obtain bs' where bs': "bucket_put bs (rowSetEntryMerge b x) = Inr bs'" "length bs' = length bs" "counter bs' = Suc (counter bs)"
      "\<forall>b \<in> set bs'. increasing b" "\<Union> (set ` set bs') = \<Union> (set ` set bs) \<union> set (rowSetEntryMerge b x)" by auto
    then show ?thesis using False by (intro exI [of _ "[] # bs'"]) auto
  qed
qed

lemma sort_loop_ok:
  assumes "counter bs + length xs < 2 ^ length bs" and "\<forall>b \<in> set bs. increasing b"
  shows "\<exists>bs'. sort_loop bs xs = Inr bs' \<and> length bs' = length bs \<and> (\<forall>b \<in> set bs'. increasing b) \<and>
    \<Union> (set ` set bs') = \<Union> (set ` set bs) \<union> set xs"
  using assms
proof (induction xs arbitrary: bs)
  case Nil
  then show ?case by simp
next
  case (Cons v xs)
  obtain b1 where b1: "bucket_put bs [v] = Inr b1" "length b1 = length bs" "counter b1 = Suc (counter bs)"
    "\<forall>b \<in> set b1. increasing b" "\<Union> (set ` set b1) = \<Union> (set ` set bs) \<union> {v}"
    using bucket_put_ok [of bs "[v]"] Cons.prems by auto
  obtain bs' where "sort_loop b1 xs = Inr bs'" "length bs' = length b1" "\<forall>b \<in> set bs'. increasing b"
    "\<Union> (set ` set bs') = \<Union> (set ` set b1) \<union> set xs"
    using Cons.IH [of b1] b1 Cons.prems(1) by auto
  then show ?case using b1 by auto
qed

lemma merge_buckets_ok:
  "increasing x \<Longrightarrow> \<forall>b \<in> set bs. increasing b \<Longrightarrow>
   increasing (merge_buckets x bs) \<and> set (merge_buckets x bs) = set x \<union> \<Union> (set ` set bs)"
proof (induction bs arbitrary: x)
  case Nil
  then show ?case by simp
next
  case (Cons b bs)
  show ?case
  proof (cases "b = []")
    case True
    then show ?thesis using Cons.IH [of x] Cons.prems by simp
  next
    case False
    let ?x = "if x \<noteq> [] then rowSetEntryMerge x b else b"
    have "increasing ?x" "set ?x = set x \<union> set b" using Cons.prems merge_increasing [of x b] by auto
    then show ?thesis using Cons.IH [of ?x] Cons.prems False by auto
  qed
qed

lemma counter_empty: "counter (replicate n []) = 0"
  by (induction n) simp_all

lemma rowSetEntrySort_ok:
  assumes "length xs < 2 ^ 40"
  shows "\<exists>ys. rowSetEntrySort xs = Inr ys \<and> increasing ys \<and> set ys = set xs"
proof -
  have "counter (replicate 40 []) + length xs < 2 ^ length (replicate 40 ([] :: int list))"
    using assms by (simp add: counter_empty)
  from sort_loop_ok [OF this] obtain bs where bs: "sort_loop (replicate 40 []) xs = Inr bs" "length bs = 40"
    "\<forall>b \<in> set bs. increasing b" "\<Union> (set ` set bs) = set xs" by auto
  then obtain b bs' where "bs = b # bs'" by (cases bs) auto
  then show ?thesis using bs merge_buckets_ok [of b bs'] by (auto simp: rowSetEntrySort_def)
qed

lemma increasing_unique: "increasing xs \<Longrightarrow> increasing ys \<Longrightarrow> set xs = set ys \<Longrightarrow> xs = ys"
  by (rule strict_sorted_equal)

subsection \<open>Trees\<close>

lemma TreeToList_inorder: "rowSetTreeToList t = inorder t"
  by (induction t) simp_all

text \<open>The tree is complete with depth \<open>d\<close>, or the list was used up.\<close>

lemma NDeepTree_ok:
  "rowSetNDeepTree xs d = (t, ys) \<Longrightarrow> inorder t @ ys = xs \<and> height t \<le> max 1 d \<and> (ys \<noteq> [] \<longrightarrow> d \<ge> 1 \<longrightarrow> Suc (size t) = 2 ^ d)"
proof (induction xs d arbitrary: t ys rule: rowSetNDeepTree.induct)
  case (1 xs d)
  consider (none) "xs = []" | (one) "xs \<noteq> []" "d \<le> 1" | (more) "xs \<noteq> []" "d > 1" by linarith
  then show ?case
  proof cases
    case none
    then show ?thesis using 1(3) by (simp add: rowSetNDeepTree.simps [of "[]" d])
  next
    case one
    then have "t = Node Leaf (hd xs) Leaf" "ys = tl xs" using 1(3) by (simp_all add: rowSetNDeepTree.simps [of xs d])
    moreover have "d = 1" if "1 \<le> d" using that one(2) by simp
    ultimately show ?thesis using one by auto
  next
    case more
    obtain l zs where l: "rowSetNDeepTree xs (d - 1) = (l, zs)" by fastforce
    have d: "2 * 2 ^ (d - 1) = (2 :: nat) ^ d" using more(2) by (metis One_nat_def less_trans power_minus_mult mult.commute zero_less_one)
    have IHl: "inorder l @ zs = xs" "height l \<le> max 1 (d - 1)" "zs \<noteq> [] \<longrightarrow> Suc (size l) = 2 ^ (d - 1)"
      using 1(1) [OF more l] more(2) by simp_all
    show ?thesis
    proof (cases zs)
      case Nil
      then have "t = l" "ys = []" using 1(3) more l by (simp_all add: rowSetNDeepTree.simps [of xs d])
      then show ?thesis using IHl Nil by simp
    next
      case (Cons v vs)
      obtain r us where r: "rowSetNDeepTree vs (d - 1) = (r, us)" by fastforce
      have IHr: "inorder r @ us = vs" "height r \<le> max 1 (d - 1)" "us \<noteq> [] \<longrightarrow> Suc (size r) = 2 ^ (d - 1)"
        using 1(2) [OF more l [symmetric] refl Cons r] more(2) by simp_all
      have t: "t = Node l v r" "ys = us" using 1(3) more l r Cons by (simp_all add: rowSetNDeepTree.simps [of xs d])
      have "Suc (size t) = 2 ^ d" if "ys \<noteq> []" using IHl(3) IHr(3) that Cons d t by simp
      then show ?thesis using t IHl(1,2) IHr(1,2) Cons more(2) by auto
    qed
  qed
qed

lemma tree_loop_ok:
  "1 \<le> d \<Longrightarrow> height p \<le> d \<Longrightarrow> (xs \<noteq> [] \<longrightarrow> Suc (size p) = 2 ^ d) \<Longrightarrow> 2 ^ (height p - 1) \<le> size p \<Longrightarrow>
   inorder (tree_loop d p xs) = inorder p @ xs \<and> 2 ^ (height (tree_loop d p xs) - 1) \<le> size (tree_loop d p xs)"
proof (induction d p xs rule: tree_loop.induct)
  case (1 d p xs)
  show ?case
  proof (cases xs)
    case Nil
    then show ?thesis using 1(5) by (simp add: tree_loop.simps)
  next
    case (Cons v vs)
    obtain r ys where r: "rowSetNDeepTree vs d = (r, ys)" by fastforce
    note N = NDeepTree_ok [OF r]
    let ?p = "Node p v r"
    have s: "Suc (size p) = 2 ^ d" using 1(4) Cons by simp
    have h: "height ?p \<le> d + 1" using N 1(2,3) by simp
    then have "2 ^ (height ?p - 1) \<le> (2 :: nat) ^ d" by (intro power_increasing) simp_all
    moreover have "(2 :: nat) ^ d \<le> size ?p" using s by simp
    ultimately have b: "2 ^ (height ?p - 1) \<le> size ?p" by (rule le_trans)
    have full: "ys \<noteq> [] \<longrightarrow> Suc (size ?p) = 2 ^ (d + 1)"
    proof
      assume "ys \<noteq> []"
      then have "Suc (size r) = 2 ^ d" using N 1(2) by simp
      then show "Suc (size ?p) = 2 ^ (d + 1)" using s by simp
    qed
    have "inorder (tree_loop (d + 1) ?p ys) = inorder ?p @ ys \<and>
        2 ^ (height (tree_loop (d + 1) ?p ys) - 1) \<le> size (tree_loop (d + 1) ?p ys)"
      using 1(1) [OF Cons] h full b r by simp
    moreover have "tree_loop d p xs = tree_loop (d + 1) ?p ys" using Cons r by (simp add: tree_loop.simps [of d p "v # vs"])
    ultimately show ?thesis using N Cons by simp
  qed
qed

lemma ListToTree_ok:
  "inorder (rowSetListToTree xs) = xs" "xs \<noteq> [] \<Longrightarrow> 2 ^ (height (rowSetListToTree xs) - 1) \<le> size (rowSetListToTree xs)"
proof -
  have "inorder (rowSetListToTree xs) = xs \<and> (xs \<noteq> [] \<longrightarrow> 2 ^ (height (rowSetListToTree xs) - 1) \<le> size (rowSetListToTree xs))"
  proof (cases xs)
    case Nil
    then show ?thesis by (simp add: rowSetListToTree_def)
  next
    case (Cons v vs)
    then show ?thesis using tree_loop_ok [of 1 "Node Leaf v Leaf" vs] by (simp add: rowSetListToTree_def)
  qed
  then show "inorder (rowSetListToTree xs) = xs" "xs \<noteq> [] \<Longrightarrow> 2 ^ (height (rowSetListToTree xs) - 1) \<le> size (rowSetListToTree xs)"
    by simp_all
qed

lemma tree_search_ok: "increasing (inorder t) \<Longrightarrow> tree_search t x \<longleftrightarrow> x \<in> set (inorder t)"
  by (induction t) (auto simp: sorted_wrt_append)

subsection \<open>The state\<close>

abbreviation row_values :: "int tree list \<Rightarrow> int set" where
  "row_values ts \<equiv> \<Union> (set_tree ` set ts)"

definition tree_ok :: "int tree \<Rightarrow> bool" where
  "tree_ok t \<longleftrightarrow> increasing (inorder t) \<and> (t \<noteq> Leaf \<longrightarrow> 2 ^ (height t - 1) \<le> size t)"

definition rowset_inv :: "rowset \<Rightarrow> bool" where
  "rowset_inv p \<longleftrightarrow> rs_last p = (if rs_entry p = [] then None else Some (last (rs_entry p))) \<and>
     (rs_sorted p \<longrightarrow> increasing (rs_entry p)) \<and> (\<forall>t \<in> set (rs_forest p). tree_ok t) \<and> \<not> rs_next p"

lemma ListToTree_tree_ok: "increasing xs \<Longrightarrow> tree_ok (rowSetListToTree xs) \<and> set_tree (rowSetListToTree xs) = set xs"
  using ListToTree_ok [of xs] by (cases "xs = []") (auto simp: tree_ok_def rowSetListToTree_def simp flip: set_inorder)

lemma RowSetInit_inv: "sqlite3RowSetInit (Some N) = Some p \<Longrightarrow> rowset_inv p \<and> rs_entry p = [] \<and> rs_forest p = [] \<and> rs_iBatch p = 0"
  by (auto simp: sqlite3RowSetInit_def rowset_inv_def)

lemma Alloc_fields:
  assumes "rowSetEntryAlloc mem p = (p', b)"
  shows "rs_entry p' = rs_entry p" "rs_last p' = rs_last p" "rs_forest p' = rs_forest p" "rs_sorted p' = rs_sorted p"
    "rs_next p' = rs_next p" "rs_iBatch p' = rs_iBatch p" "mem \<Longrightarrow> b"
  using assms by (auto simp: rowSetEntryAlloc_def split: if_splits)

lemma last_increasing: "increasing xs \<Longrightarrow> xs \<noteq> [] \<Longrightarrow> last xs < v \<Longrightarrow> increasing (xs @ [v])"
  by (induction xs) (auto simp: sorted_wrt_append split: if_splits, metis last_in_set less_trans)

lemma Insert_ok:
  assumes "rowset_inv p"
  shows "rowset_inv (sqlite3RowSetInsert mem p v) \<and> rs_forest (sqlite3RowSetInsert mem p v) = rs_forest p \<and>
    rs_iBatch (sqlite3RowSetInsert mem p v) = rs_iBatch p \<and>
    (rs_entry (sqlite3RowSetInsert mem p v) = rs_entry p @ [v] \<or> \<not> mem \<and> rs_entry (sqlite3RowSetInsert mem p v) = rs_entry p)"
proof -
  obtain p' b where a: "rowSetEntryAlloc mem p = (p', b)" by fastforce
  note f = Alloc_fields [OF a]
  show ?thesis
  proof (cases b)
    case False
    then show ?thesis using a f assms by (auto simp: sqlite3RowSetInsert_def rowset_inv_def)
  next
    case True
    show ?thesis
    proof (cases "rs_entry p = []")
      case True
      then show ?thesis using \<open>b\<close> a f assms by (simp add: sqlite3RowSetInsert_def rowset_inv_def)
    next
      case False
      then show ?thesis using \<open>b\<close> a f assms last_increasing [of "rs_entry p" v]
        by (auto simp: sqlite3RowSetInsert_def rowset_inv_def Let_def not_le)
    qed
  qed
qed

lemma forest_put_ok:
  assumes "\<forall>t \<in> set ts. tree_ok t" and "increasing xs" and "forest_put ts xs = (ts', ys, placed)"
  shows "(\<forall>t \<in> set ts'. tree_ok t) \<and> increasing ys \<and> (placed \<longrightarrow> row_values ts' = row_values ts \<union> set xs) \<and>
    (\<not> placed \<longrightarrow> row_values ts' = {} \<and> set ys = row_values ts \<union> set xs)"
  using assms
proof (induction ts arbitrary: xs ts')
  case Nil
  then show ?case by simp
next
  case (Cons t ts)
  show ?case
  proof (cases "t = Leaf")
    case True
    then show ?thesis using Cons.prems ListToTree_tree_ok [of xs] by auto
  next
    case False
    let ?m = "rowSetEntryMerge (rowSetTreeToList t) xs"
    obtain ts1 where r: "forest_put ts ?m = (ts1, ys, placed)" "ts' = Leaf # ts1"
      using Cons.prems(3) False by (auto split: prod.splits)
    have m: "increasing ?m" using Cons.prems(1,2) by (intro merge_increasing) (simp_all add: tree_ok_def TreeToList_inorder)
    have l: "tree_ok Leaf" by (simp add: tree_ok_def)
    from Cons.IH [OF _ m r(1)] Cons.prems(1) r(2) l show ?thesis by (auto simp: TreeToList_inorder)
  qed
qed

lemma forest_search_ok: "\<forall>t \<in> set ts. tree_ok t \<Longrightarrow> forest_search ts x \<longleftrightarrow> x \<in> row_values ts"
  by (induction ts) (auto simp: tree_search_ok tree_ok_def)

lemma new_batch_ok:
  assumes inv: "rowset_inv p" and len: "length (rs_entry p) < 2 ^ 40"
  shows "\<exists>p'. new_batch mem p = Inr p' \<and> rowset_inv p' \<and> rs_entry p' = [] \<and>
    row_values (rs_forest p') \<subseteq> row_values (rs_forest p) \<union> set (rs_entry p) \<and>
    (mem \<longrightarrow> row_values (rs_forest p') = row_values (rs_forest p) \<union> set (rs_entry p))"
proof (cases "rs_entry p = []")
  case True
  then show ?thesis using inv by (simp add: new_batch_def)
next
  case False
  obtain es where es: "(if \<not> rs_sorted p then rowSetEntrySort (rs_entry p) else Inr (rs_entry p)) = Inr es" "increasing es" "set es = set (rs_entry p)"
  proof (cases "rs_sorted p")
    case True
    then show ?thesis using that inv by (simp add: rowset_inv_def)
  next
    case False
    then show ?thesis using that rowSetEntrySort_ok [OF len] by auto
  qed
  obtain ts ys placed where f: "forest_put (rs_forest p) es = (ts, ys, placed)" by (metis prod_cases3)
  have T: "\<forall>t \<in> set (rs_forest p). tree_ok t" using inv by (simp add: rowset_inv_def)
  note F = forest_put_ok [OF T es(2) f]
  let ?p = "p\<lparr> rs_forest := ts \<rparr>"
  obtain p1 b where a: "rowSetEntryAlloc mem ?p = (p1, b)" by fastforce
  note A = Alloc_fields [OF a]
  let ?r = "(if placed then ?p else if b then p1\<lparr> rs_forest := rs_forest p1 @ [rowSetListToTree ys] \<rparr> else p1)"
  have r: "new_batch mem p = Inr (?r\<lparr> rs_entry := [], rs_last := None, rs_sorted := True \<rparr>)"
    using False es(1) f a by (simp add: new_batch_def Let_def split: bool.split)
  have fields: "rs_next ?r = rs_next p"
    "rs_forest ?r = (if placed then ts else if b then ts @ [rowSetListToTree ys] else ts)" using A by simp_all
  have ok: "\<forall>t \<in> set (rs_forest ?r). tree_ok t" unfolding fields using F ListToTree_tree_ok [of ys] by auto
  have vals: "row_values (rs_forest ?r) \<subseteq> row_values (rs_forest p) \<union> set (rs_entry p)"
    "mem \<longrightarrow> row_values (rs_forest ?r) = row_values (rs_forest p) \<union> set (rs_entry p)"
    unfolding fields using F ListToTree_tree_ok [of ys] es(3) A(7) by auto
  have "rowset_inv (?r\<lparr> rs_entry := [], rs_last := None, rs_sorted := True \<rparr>)"
    using ok fields(1) inv unfolding rowset_inv_def by simp
  then show ?thesis using r vals by simp
qed

subsection \<open>Batches\<close>

text \<open>Insertions and tests in a row, with the answers of the tests, and what they are to be: \<open>cur\<close> are the
  numbers of the batch under way, \<open>old\<close> those of earlier batches.\<close>

datatype row_op = Row_insert bool int | Row_test bool int int

primrec op_mem :: "row_op \<Rightarrow> bool" where
  "op_mem (Row_insert mem v) = mem"
| "op_mem (Row_test mem b v) = mem"

fun row_run :: "rowset \<Rightarrow> row_op list \<Rightarrow> (rowset \<times> bool list) res" where
  "row_run p [] = Inr (p, [])"
| "row_run p (Row_insert mem v # ops) = row_run (sqlite3RowSetInsert mem p v) ops"
| "row_run p (Row_test mem b v # ops) =
     andThen (sqlite3RowSetTest mem p b v) (\<lambda>(p, r). andThen (row_run p ops) (\<lambda>(p, rs). Inr (p, r # rs)))"

fun row_spec :: "int set \<Rightarrow> int set \<Rightarrow> int \<Rightarrow> row_op list \<Rightarrow> bool list" where
  "row_spec cur old batch [] = []"
| "row_spec cur old batch (Row_insert mem v # ops) = row_spec (insert v cur) old batch ops"
| "row_spec cur old batch (Row_test mem b v # ops) =
     (if b \<noteq> batch then (v \<in> old \<union> cur) # row_spec {} (old \<union> cur) b ops else (v \<in> old) # row_spec cur old batch ops)"

text \<open>The state implements the two sets, or only part of them when memory ran out.\<close>

definition rows_in :: "bool \<Rightarrow> rowset \<Rightarrow> int set \<Rightarrow> int set \<Rightarrow> bool" where
  "rows_in full p cur old \<longleftrightarrow> rowset_inv p \<and> set (rs_entry p) \<subseteq> cur \<and> row_values (rs_forest p) \<subseteq> old \<and>
     (full \<longrightarrow> set (rs_entry p) = cur \<and> row_values (rs_forest p) = old)"

lemma rows_in_insert:
  assumes "rows_in full p cur old" and "full \<longrightarrow> mem"
  shows "rows_in full (sqlite3RowSetInsert mem p v) (insert v cur) old"
    and "rs_iBatch (sqlite3RowSetInsert mem p v) = rs_iBatch p"
    and "length (rs_entry (sqlite3RowSetInsert mem p v)) \<le> Suc (length (rs_entry p))"
proof -
  let ?p = "sqlite3RowSetInsert mem p v"
  have inv: "rowset_inv p" using assms(1) by (simp add: rows_in_def)
  have f: "rowset_inv ?p" "rs_forest ?p = rs_forest p" and e: "rs_entry ?p = rs_entry p @ [v] \<or> \<not> mem \<and> rs_entry ?p = rs_entry p"
    and "rs_iBatch ?p = rs_iBatch p" using Insert_ok [OF inv, of mem v] by simp_all
  then show "rs_iBatch ?p = rs_iBatch p" by simp
  show "length (rs_entry ?p) \<le> Suc (length (rs_entry p))" using e by auto
  have "set (rs_entry ?p) = insert v (set (rs_entry p)) \<or> \<not> full \<and> set (rs_entry ?p) = set (rs_entry p)"
  proof (cases "rs_entry ?p = rs_entry p @ [v]")
    case False
    then have "\<not> mem" "rs_entry ?p = rs_entry p" using e by blast+
    then show ?thesis using assms(2) by metis
  qed simp
  then show "rows_in full ?p (insert v cur) old" using assms(1) f unfolding rows_in_def by (elim disjE conjE) auto
qed

lemma rows_in_test:
  assumes p: "rows_in full p cur old" and mem: "full \<longrightarrow> mem" and len: "length (rs_entry p) < 2 ^ 40"
    and b: "b \<noteq> rs_iBatch p"
  shows "\<exists>p' r. sqlite3RowSetTest mem p b v = Inr (p', r) \<and> rows_in full p' {} (old \<union> cur) \<and> rs_iBatch p' = b \<and> rs_entry p' = [] \<and>
    (r \<longrightarrow> v \<in> old \<union> cur) \<and> (full \<longrightarrow> r = (v \<in> old \<union> cur))"
proof -
  have inv: "rowset_inv p" using p by (simp add: rows_in_def)
  from new_batch_ok [OF inv len, of mem] obtain p1 where p1: "new_batch mem p = Inr p1" "rowset_inv p1" "rs_entry p1 = []"
    "row_values (rs_forest p1) \<subseteq> row_values (rs_forest p) \<union> set (rs_entry p)"
    "mem \<longrightarrow> row_values (rs_forest p1) = row_values (rs_forest p) \<union> set (rs_entry p)"
    by (elim exE conjE) (rule that)
  let ?p = "p1\<lparr> rs_iBatch := b \<rparr>"
  have t: "sqlite3RowSetTest mem p b v = Inr (?p, v \<in> row_values (rs_forest p1))"
    using p1(1,2) b forest_search_ok [of "rs_forest p1" v] by (simp add: sqlite3RowSetTest_def rowset_inv_def)
  have P: "set (rs_entry p) \<subseteq> cur" "row_values (rs_forest p) \<subseteq> old" "full \<longrightarrow> set (rs_entry p) = cur \<and> row_values (rs_forest p) = old"
    using p by (simp_all add: rows_in_def)
  have vals: "row_values (rs_forest p1) \<subseteq> old \<union> cur" by (rule subset_trans [OF p1(4) Un_mono [OF P(2,1)]])
  have all: "full \<longrightarrow> row_values (rs_forest p1) = old \<union> cur" using p1(5) P(3) mem by simp
  have "rowset_inv ?p" using p1(2) by (simp add: rowset_inv_def)
  then have "rows_in full ?p {} (old \<union> cur)" using p1(3) vals all by (simp add: rows_in_def)
  moreover have "v \<in> row_values (rs_forest p1) \<longrightarrow> v \<in> old \<union> cur" "full \<longrightarrow> (v \<in> row_values (rs_forest p1)) = (v \<in> old \<union> cur)"
    using vals all by blast+
  ultimately show ?thesis using t p1(3) by (intro exI [of _ ?p] exI [of _ "v \<in> row_values (rs_forest p1)"]) simp
qed

lemma rows_in_test_again:
  assumes "rows_in full p cur old" and "b = rs_iBatch p"
  shows "\<exists>r. sqlite3RowSetTest mem p b v = Inr (p, r) \<and> (r \<longrightarrow> v \<in> old) \<and> (full \<longrightarrow> r = (v \<in> old))"
  using assms forest_search_ok [of "rs_forest p" v] by (auto simp: sqlite3RowSetTest_def rows_in_def rowset_inv_def)

lemma row_run_ok:
  assumes "rows_in full p cur old" and "length (rs_entry p) + length ops < 2 ^ 40" and "full \<longrightarrow> (\<forall>op \<in> set ops. op_mem op)"
  shows "\<exists>p' rs. row_run p ops = Inr (p', rs) \<and> rowset_inv p' \<and> list_all2 (\<longrightarrow>) rs (row_spec cur old (rs_iBatch p) ops) \<and>
    (full \<longrightarrow> rs = row_spec cur old (rs_iBatch p) ops)"
  using assms
proof (induction ops arbitrary: p cur old)
  case Nil
  then show ?case by (simp add: rows_in_def)
next
  case (Cons op ops)
  have len: "length (rs_entry p) < 2 ^ 40" using Cons.prems(2) by simp
  show ?case
  proof (cases op)
    case (Row_insert mem v)
    have mem: "full \<longrightarrow> mem" using Cons.prems(3) Row_insert by simp
    note i = rows_in_insert [OF Cons.prems(1) mem, of v]
    have "length (rs_entry (sqlite3RowSetInsert mem p v)) + length ops < 2 ^ 40" using i(3) Cons.prems(2) by simp
    from Cons.IH [OF i(1) this] show ?thesis using Row_insert Cons.prems(3) i(2) by simp
  next
    case (Row_test mem b v)
    have mem: "full \<longrightarrow> mem" "full \<longrightarrow> (\<forall>op \<in> set ops. op_mem op)" using Cons.prems(3) Row_test by simp_all
    show ?thesis
    proof (cases "b = rs_iBatch p")
      case True
      obtain r where r: "sqlite3RowSetTest mem p b v = Inr (p, r)" "r \<longrightarrow> v \<in> old" "full \<longrightarrow> r = (v \<in> old)"
        using rows_in_test_again [OF Cons.prems(1) True] by blast
      have "length (rs_entry p) + length ops < 2 ^ 40" using Cons.prems(2) by simp
      from Cons.IH [OF Cons.prems(1) this mem(2)] r True Row_test show ?thesis by auto
    next
      case False
      obtain p' r where r: "sqlite3RowSetTest mem p b v = Inr (p', r)" "rows_in full p' {} (old \<union> cur)" "rs_iBatch p' = b"
        "rs_entry p' = []" "r \<longrightarrow> v \<in> old \<union> cur" "full \<longrightarrow> r = (v \<in> old \<union> cur)"
        using rows_in_test [OF Cons.prems(1) mem(1) len False] by blast
      have "length (rs_entry p') + length ops < 2 ^ 40" using r(4) Cons.prems(2) by simp
      from Cons.IH [OF r(2) this mem(2)] r(1,3,5,6) False Row_test show ?thesis by auto
    qed
  qed
qed

subsection \<open>Taking out\<close>

fun take_rows :: "nat \<Rightarrow> rowset \<Rightarrow> (rowset \<times> int option list) res" where
  "take_rows 0 p = Inr (p, [])"
| "take_rows (Suc n) p =
     andThen (sqlite3RowSetNext p) (\<lambda>(p, r). andThen (take_rows n p) (\<lambda>(p, rs). Inr (p, r # rs)))"

lemma take_rows_ready:
  assumes "rs_next p \<or> rs_sorted p"
  shows "\<exists>p'. take_rows n p = Inr (p', map Some (take n (rs_entry p)) @ replicate (n - length (rs_entry p)) None)"
  using assms
proof (induction n arbitrary: p)
  case 0
  then show ?case by simp
next
  case (Suc n)
  let ?q = "if rs_next p then p else p\<lparr> rs_sorted := True, rs_next := True \<rparr>"
  show ?case
  proof (cases "rs_entry p")
    case Nil
    have "sqlite3RowSetNext p = Inr (?q, None)" using Suc.prems Nil by (cases "rs_next p") (simp_all add: sqlite3RowSetNext_def)
    then show ?thesis using Suc.IH [of ?q] Nil by auto
  next
    case (Cons v es)
    let ?r = "if es = [] then sqlite3RowSetClear (?q\<lparr> rs_entry := es \<rparr>) else ?q\<lparr> rs_entry := es \<rparr>"
    have "sqlite3RowSetNext p = Inr (?r, Some v)" using Suc.prems Cons by (cases "rs_next p") (simp_all add: sqlite3RowSetNext_def Let_def)
    moreover have "rs_next ?r \<or> rs_sorted ?r" "rs_entry ?r = es" by (simp_all add: sqlite3RowSetClear_def)
    ultimately show ?thesis using Suc.IH [of ?r] Cons by auto
  qed
qed

lemma Next_sorts:
  assumes "\<not> rs_next p" and "\<not> rs_sorted p" and "rowSetEntrySort (rs_entry p) = Inr es"
  shows "sqlite3RowSetNext p = sqlite3RowSetNext (p\<lparr> rs_entry := es, rs_sorted := True \<rparr>)"
  using assms by (simp add: sqlite3RowSetNext_def)

lemma take_rows_sorted:
  assumes "rowset_inv p" and "length (rs_entry p) < 2 ^ 40"
  shows "\<exists>p'. take_rows n p = Inr (p', map Some (take n (sorted_list_of_set (set (rs_entry p)))) @
    replicate (n - card (set (rs_entry p))) None)"
proof (cases "rs_sorted p")
  case True
  then have "increasing (rs_entry p)" using assms(1) by (simp add: rowset_inv_def)
  then have "sorted_list_of_set (set (rs_entry p)) = rs_entry p" by (intro increasing_unique) simp_all
  moreover have "card (set (rs_entry p)) = length (rs_entry p)"
    using \<open>increasing (rs_entry p)\<close> by (simp add: distinct_card strict_sorted_iff)
  ultimately show ?thesis using take_rows_ready [of p n] True by simp
next
  case False
  obtain es where es: "rowSetEntrySort (rs_entry p) = Inr es" "increasing es" "set es = set (rs_entry p)"
    using rowSetEntrySort_ok [OF assms(2)] by blast
  have L: "sorted_list_of_set (set (rs_entry p)) = es" using es(2,3) by (intro increasing_unique) simp_all
  have c: "card (set (rs_entry p)) = length es" using es(2,3) by (metis distinct_card strict_sorted_iff)
  let ?p = "p\<lparr> rs_entry := es, rs_sorted := True \<rparr>"
  show ?thesis
  proof (cases n)
    case 0
    then show ?thesis by simp
  next
    case (Suc m)
    then have "take_rows n p = take_rows n ?p" using Next_sorts [OF _ False es(1)] assms(1) by (simp add: rowset_inv_def)
    then show ?thesis using take_rows_ready [of ?p n] L c by simp
  qed
qed

lemma insert_all:
  "rowset_inv p \<Longrightarrow> rowset_inv (fold (\<lambda>v p. sqlite3RowSetInsert True p v) xs p) \<and>
    rs_entry (fold (\<lambda>v p. sqlite3RowSetInsert True p v) xs p) = rs_entry p @ xs"
proof (induction xs arbitrary: p)
  case (Cons v xs)
  then show ?case using Insert_ok [of p True v] Cons.IH [of "sqlite3RowSetInsert True p v"] by simp
qed simp

subsection \<open>Properties\<close>

text \<open>C39: A row set answers for its batches. Through any run of insertions and tests, a test returns and is
  true only for a row number inserted before the first test of its batch; if no allocation fails, it is
  true for each of these. Every tree that is searched is balanced: with \<open>n\<close> entries its height is at
  most the binary logarithm of \<open>n\<close> and one.\<close>

theorem sqlite3RowSet_refines_batches:
  assumes "sqlite3RowSetInit (Some N) = Some p" and "length ops < 2 ^ 40"
  shows "\<exists>p' rs. row_run p ops = Inr (p', rs) \<and> list_all2 (\<longrightarrow>) rs (row_spec {} {} 0 ops) \<and>
    ((\<forall>op \<in> set ops. op_mem op) \<longrightarrow> rs = row_spec {} {} 0 ops) \<and>
    (\<forall>t \<in> set (rs_forest p'). t \<noteq> Leaf \<longrightarrow> 2 ^ (height t - 1) \<le> size t)"
proof -
  note p = RowSetInit_inv [OF assms(1)]
  let ?full = "\<forall>op \<in> set ops. op_mem op"
  have "rows_in ?full p {} {}" using p by (simp add: rows_in_def)
  from row_run_ok [OF this, of ops] p assms(2) obtain p' rs where
    "row_run p ops = Inr (p', rs)" "rowset_inv p'" "list_all2 (\<longrightarrow>) rs (row_spec {} {} 0 ops)" "?full \<longrightarrow> rs = row_spec {} {} 0 ops"
    by auto
  then show ?thesis unfolding rowset_inv_def tree_ok_def by blast
qed

text \<open>Two batches; the second test of each asks for a number of its own batch.\<close>

theorem sqlite3RowSet_refines_batches_witness:
  "\<exists>p p'. sqlite3RowSetInit (Some 512) = Some p \<and>
     row_run p [Row_insert True 7, Row_insert True 3, Row_test True 1 3, Row_insert True 9, Row_test True 1 9, Row_test True 2 9] =
       Inr (p', [True, False, True])"
proof -
  let ?ops = "[Row_insert True 7, Row_insert True 3, Row_test True 1 3, Row_insert True 9, Row_test True 1 9, Row_test True 2 9]"
  obtain p where p: "sqlite3RowSetInit (Some 512) = Some p" by (simp add: sqlite3RowSetInit_def)
  have "length ?ops < 2 ^ 40" by simp
  from sqlite3RowSet_refines_batches [OF p this] obtain p' rs where
    "row_run p ?ops = Inr (p', rs)" "(\<forall>op \<in> set ?ops. op_mem op) \<longrightarrow> rs = row_spec {} {} 0 ?ops" by blast
  then have "row_run p ?ops = Inr (p', [True, False, True])" by simp
  then show ?thesis using p by blast
qed

text \<open>C40: After any row numbers were inserted, \<open>sqlite3RowSetNext\<close> gives them in increasing order, each
  once, however often it was inserted, and then returns 0 again and again.\<close>

theorem sqlite3RowSetNext_sorted:
  assumes "sqlite3RowSetInit (Some N) = Some p" and "length xs < 2 ^ 40"
  shows "\<exists>p'. take_rows n (fold (\<lambda>v p. sqlite3RowSetInsert True p v) xs p) =
    Inr (p', map Some (take n (sorted_list_of_set (set xs))) @ replicate (n - card (set xs)) None)"
  using take_rows_sorted [of "fold (\<lambda>v p. sqlite3RowSetInsert True p v) xs p" n] insert_all [of p xs] RowSetInit_inv [OF assms(1)] assms(2)
  by simp

theorem sqlite3RowSetNext_sorted_witness:
  "\<exists>p p'. sqlite3RowSetInit (Some 64) = Some p \<and>
     take_rows 4 (fold (\<lambda>v p. sqlite3RowSetInsert True p v) [5, -2, 5, 11] p) = Inr (p', [Some (-2), Some 5, Some 11, None])"
proof -
  let ?xs = "[5, -2, 5, 11] :: int list"
  obtain p where p: "sqlite3RowSetInit (Some 64) = Some p" by (simp add: sqlite3RowSetInit_def)
  have "length ?xs < 2 ^ 40" by simp
  from sqlite3RowSetNext_sorted [OF p this, of 4] obtain p' where
    "take_rows 4 (fold (\<lambda>v p. sqlite3RowSetInsert True p v) ?xs p) =
      Inr (p', map Some (take 4 (sorted_list_of_set (set ?xs))) @ replicate (4 - card (set ?xs)) None)" by blast
  moreover have "sorted_list_of_set (set ?xs) = [-2, 5, 11]" "card (set ?xs) = 3" by code_simp+
  ultimately have "take_rows 4 (fold (\<lambda>v p. sqlite3RowSetInsert True p v) ?xs p) = Inr (p', [Some (-2), Some 5, Some 11, None])"
    by (simp only:) (simp add: numeral_eq_Suc)
  then show ?thesis using p by blast
qed

end
