(* ===== verification/Spec2Isabelle.thy ===== *)
theory Spec2Isabelle
  imports SparseSet_Props Logger SparsePool_Props Accept_Complete Worker_Props Account_Props Startup_Props
    Server_Invariant Disconnect_Complete
    SqliteBytes SqliteVarint SqliteNumbers_Props SqliteUtf_Props SqliteHash_Props SqliteBitvec_Props
    SqliteRowset_Props
begin

text \<open>
  A model of a Windows chat server on I/O completion ports, and of the parts of the SQLite library it
  ships with that stand on their own.

  \<^bold>\<open>The program.\<close> A \<open>ServerService\<close> owns a pool of sessions (\<open>SessionManager\<close>), a \<open>Listener\<close> that keeps
  \<open>AcceptEx\<close> calls pending on idle sessions, an \<open>IocpCore\<close> whose threads take completions from the port
  and dispatch them to their session, and a \<open>PacketHandler\<close> with a worker thread. A completed receive
  goes to \<open>Session::OnRecv\<close>, which cuts the stream in the receive buffer into packets, copies each into a
  block of the packet pool and queues a task. The worker runs the tasks: a handler answers the sender or
  broadcasts to the connected sessions, through \<open>Session::SendPacket\<close> and the send buffer. Registration
  and login go through \<open>AccountManager\<close> and \<open>DBManager\<close> to SQLite. Sessions and packets are held by
  reference-counting pointers (\<open>SharedPoolPtr\<close>) into pools whose handles carry a generation.

  \<^bold>\<open>The theories.\<close>
  \<^item> \<open>Prelude\<close>: machine types, the fault monad (\<open>res\<close>, \<open>andThen\<close>), size_t arithmetic, slices of memory.
  \<^item> \<open>SparseSet\<close>, \<open>SparseSet_Props\<close> (Common/Pool/SparseSet.hpp): the three arrays and their invariant; what
    each operation does; handles over runs of Pop and Push.
  \<^item> \<open>ObjectPool\<close>, \<open>SparsePool\<close>, \<open>SparsePool_Props\<close> (Common/Pool): object storage, the pool, its slots and
    pointers. The pool is a field of a larger state, reached through the record \<open>pool_host\<close>; the locale
    \<open>pool_host_laws\<close> states what such an access promises and is interpreted for both pools of the server.
  \<^item> \<open>MirroredRingBuffer\<close>, \<open>OverlappedEx\<close>, \<open>Protocol\<close>, \<open>Framing\<close>: the doubly mapped buffer, the positions in it,
    the packed packet layouts, and the reference for cutting a stream into packets.
  \<^item> \<open>Logger\<close>, \<open>TaskQueue\<close>, \<open>DBManager\<close>, \<open>AccountManager\<close>, \<open>Account_Props\<close>: the components of the same names. The
    queue is stated as the locale \<open>fifo_queue\<close> and interpreted on the code's operations.
  \<^item> \<open>ServerState\<close>, \<open>Session\<close>, \<open>SessionManager\<close>, \<open>PacketHandler\<close>, \<open>Listener\<close>, \<open>IocpCore\<close>: the server as functions on
    one record \<open>world\<close>; a session is named by its pool index. Windows calls are answered by the environment
    \<open>env\<close> and appended to \<open>w_trace\<close>. \<open>WorldLemmas\<close>, \<open>IocpLemmas\<close>, \<open>Samples\<close> hold shared lemmas and small worlds.
  \<^item> \<open>Session_Recv\<close>, \<open>Recv_Props\<close>, \<open>Session_Send\<close>, \<open>Accept_Props\<close>, \<open>Lifecycle\<close>, \<open>Accept_Complete\<close>,
    \<open>Disconnect_Complete\<close>, \<open>Broadcast_Props\<close>,
    \<open>Handler_Props\<close>, \<open>Handler_Errors\<close>, \<open>Worker_Props\<close>: reassembly of the received stream, order of sending,
    filling of the pending accepts, connecting and disconnecting once, the completions of an accept and of a disconnect
    through all components, exact broadcast, the path from a queued task to the sessions, messages that fault, and progress
    of the worker.
  \<^item> \<open>Accounting\<close>, \<open>Accounting_Ops\<close>, \<open>Accounting_Server\<close>, \<open>Server_Invariant\<close>: every smart pointer of the server counted.
    One rule per operation says what it does to the counts, whatever Windows answers; the relation
    \<open>server_reach\<close> runs the rounds of the I/O threads and of the packet worker in any order on any completions,
    and the counts are right in every state it reaches. A round is one step; a round that leaves the defined
    behaviour of C++ has no state behind it.
  \<^item> \<open>Startup\<close>, \<open>Startup_Props\<close> (ServerService.hpp, Main.cpp, ServerUtils.cpp, WSAManager.hpp and the constructors
    and destructors of the other classes): construction with unwinding, start and destruction as system calls;
    which resources are held afterwards.
  \<^item> \<open>WordBits\<close>, \<open>SqliteBytes\<close>, \<open>SqliteVarint\<close>, \<open>SqliteChars\<close>, \<open>SqliteStrings\<close>, \<open>SqliteIntegers\<close>, \<open>SqliteNumbers\<close>,
    \<open>SqliteNumbers_Props\<close>, \<open>SqliteUtf\<close>, \<open>SqliteUtf_Props\<close>, \<open>SqliteHash\<close>, \<open>SqliteHash_Props\<close>,
    \<open>SqliteBitvec\<close>, \<open>SqliteBitvec_Hash\<close>, \<open>SqliteBitvec_Props\<close>, \<open>SqliteRowset\<close>,
    \<open>SqliteRowset_Props\<close> (Common/sqlite/sqlite3.c): four-byte and
    variable-length integers, character classes, comparison, quoting and blob literals, checked arithmetic,
    conversion of numbers, the conversions between UTF-8 and UTF-16, the hash table, which satisfies
    the contract of a table of names (locale \<open>name_table\<close>), and the bit vectors, which satisfy that of a set of
    numbers (locale \<open>number_set\<close>), and the row sets with their merge sort and balanced trees.

  \<^bold>\<open>Conventions.\<close> An operation that can leave the defined behaviour of C++ returns \<open>fault + 'a\<close>; \<open>false\<close>,
  \<open>nullptr\<close> and error codes are ordinary values. Handles and words keep their width; \<open>size_t\<close> arithmetic that
  can wrap is written with \<open>trunc64\<close> and \<open>sub64\<close>. A critical section is one atomic step, so mutexes have no
  state of their own. Log lines are left out except in \<open>Logger\<close>; \<open>LOG_FATAL\<close> is the fault \<open>FatalLog\<close>.

  \<^bold>\<open>Bounds and fuel.\<close> \<open>server_env\<close> ties the knot between releasing a session and posting a new accept with a
  depth; a release at depth 0 is \<open>NoReturn\<close>. The worker and accept loops are partial functions into \<open>option\<close>,
  and where a property says that they return, this is proved. The loops of the SQLite part are total
  functions; the probes of the bit vectors stop after as many steps as there are slots, and the fuel of
  \<open>sqlite3BitvecSet\<close> bounds the nesting of its calls: 9 is proved to be enough for any 32-bit size. Sizes of pools and buffers are parameters, below \<open>2 ^ 32\<close>; \<open>main\<close> uses those of Config.hpp.

  \<^bold>\<open>Not modelled.\<close> The overlapped structures of Windows and its calls themselves, which are parameters with the
  hypotheses the properties name; SQL text and its execution, a parameter of \<open>DBManager\<close> with the hypotheses
  of \<open>sqlite_accounts\<close>; of SQLite everything but the routines listed above: the pager, B-tree, code generator
  and virtual machine are too large for this development. The tests and the sample client only drive the
  server over sockets.
\<close>

end
